(* ===== verification/Prelude.thy ===== *)
theory Prelude
  imports Main "HOL-Library.Sublist"
begin

text \<open>
  Vocabulary shared by every component: Go strings as byte lists, the fragments of the
  packages \<open>utf8\<close>, \<open>strings\<close>, \<open>strconv\<close> and \<open>unicode\<close> the program calls, the error
  sentinels of all packages as one datatype, and two interfaces the program implements
  several times over: cutting a string at a rune boundary and retrying an operation a
  bounded number of times.

  A Go \<open>string\<close> or \<open>[]byte\<close> is a \<^typ>\<open>string\<close> whose characters are its bytes; lengths and
  offsets count bytes, as Go's \<open>len\<close> does.  A rune is a \<^typ>\<open>nat\<close>.
\<close>

section \<open>Lemma collections\<close>

named_theorems store_inv \<open>preservation of the store's well-formedness\<close>
named_theorems session_inv \<open>preservation of the session database's well-formedness\<close>
named_theorems bytes_simp \<open>evaluation of byte and rune classification\<close>

section \<open>Bytes, strings and errors\<close>

type_synonym bytes = string
type_synonym rune = nat

abbreviation byte :: "char \<Rightarrow> nat" where
  "byte c \<equiv> of_char c"

text \<open>The sentinel values \<open>errors.Is\<close> distinguishes, one constructor per package-level
  \<open>errors.New\<close>; \<open>ErrOther\<close> is an error that wraps none of them.\<close>

datatype go_error =
    CtxCanceled | CtxDeadline
  | StoreNotFound | StoreUnavailable | StoreConflict | StoreInvalidSelector
  | SessionLeaseHeld | SessionRecoverPending | SessionCorrupt
  | TransformNoIsolation | TransformBudget | TransformOutputLimit
  | IngestWorkspace | IngestUnsupported
  | NetDenied | NetBodyTooLarge | NetTooManyRedirects | NetUnsupportedMedia | NetAddrTimeout
  | FsNotExist
  | ExecUnsupportedLang | ExecToolchainMissing | ExecVersionGate | ExecInvalidPath
  | SandboxSetup
  | SqliteBusy | SqliteMalformed | SqliteCantOpen
  | ErrOther string

section \<open>Package utf8\<close>

definition rune_start :: "char \<Rightarrow> bool" where
  "rune_start c \<longleftrightarrow> byte c div 64 \<noteq> (2::nat)"

abbreviation cont_byte :: "char \<Rightarrow> bool" where
  "cont_byte c \<equiv> \<not> rune_start c"

definition rune_error :: rune where
  "rune_error = 65533"

text \<open>\<open>utf8.DecodeRune\<close>: the rune and its width; \<open>(RuneError, 0)\<close> on the empty string and
  \<open>(RuneError, 1)\<close> on an invalid encoding (overlong forms, surrogates and values above
  U+10FFFF included, which the second-byte ranges exclude).\<close>

definition second_ok :: "nat \<Rightarrow> char \<Rightarrow> bool" where
  "second_ok b0 c \<longleftrightarrow>
     (let lo = (if b0 = 224 then 160 else if b0 = 240 then 144 else 128);
          hi = (if b0 = 237 then 159 else if b0 = 244 then 143 else 191)
      in lo \<le> (byte c :: nat) \<and> byte c \<le> hi)"

definition decode_tail3 :: "nat \<Rightarrow> char \<Rightarrow> bytes \<Rightarrow> rune \<times> nat" where
  "decode_tail3 b0 c1 cs =
     (case cs of
        c2 # c3 # _ \<Rightarrow>
          if rune_start c2 \<or> rune_start c3 then (rune_error, 1)
          else ((b0 - 240) * 262144 + (byte c1 - 128) * 4096
                + (byte c2 - 128) * 64 + (byte c3 - 128), 4)
      | _ \<Rightarrow> (rune_error, 1))"

definition decode_tail2 :: "nat \<Rightarrow> char \<Rightarrow> bytes \<Rightarrow> rune \<times> nat" where
  "decode_tail2 b0 c1 cs =
     (case cs of
        c2 # _ \<Rightarrow>
          if rune_start c2 then (rune_error, 1)
          else ((b0 - 224) * 4096 + (byte c1 - 128) * 64 + (byte c2 - 128), 3)
      | [] \<Rightarrow> (rune_error, 1))"

definition decode_tail :: "nat \<Rightarrow> bytes \<Rightarrow> rune \<times> nat" where
  "decode_tail b0 cs =
     (case cs of
        [] \<Rightarrow> (rune_error, 1)
      | c1 # cs1 \<Rightarrow>
          if \<not> second_ok b0 c1 then (rune_error, 1)
          else if b0 < 224 then ((b0 - 192) * 64 + (byte c1 - 128), 2)
          else if b0 < 240 then decode_tail2 b0 c1 cs1
          else decode_tail3 b0 c1 cs1)"

fun decode_rune :: "bytes \<Rightarrow> rune \<times> nat" where
  "decode_rune [] = (rune_error, 0)"
| "decode_rune (c # cs) =
     (if byte c < (128::nat) then (byte c, 1)
      else if byte c < (194::nat) \<or> (244::nat) < byte c then (rune_error, 1)
      else decode_tail (byte c) cs)"

lemmas decode_defs = decode_tail_def decode_tail2_def decode_tail3_def

lemma decode_rune_width_le: "snd (decode_rune s) \<le> length s"
  by (cases s) (auto simp: decode_defs split: list.splits)

lemma decode_rune_width_pos: "s \<noteq> [] \<Longrightarrow> 0 < snd (decode_rune s)"
  by (cases s) (auto simp: decode_defs split: list.splits)

lemma decode_rune_width_4: "snd (decode_rune s) \<le> 4"
  by (cases s) (auto simp: decode_defs split: list.splits)

lemma decode_rune_zero_iff: "snd (decode_rune s) = 0 \<longleftrightarrow> s = []"
  using decode_rune_width_pos [of s] by (cases s) auto

text \<open>A decoding failure is a width of one together with the replacement rune.\<close>

definition bad_rune :: "rune \<times> nat \<Rightarrow> bool" where
  "bad_rune d \<longleftrightarrow> fst d = rune_error \<and> snd d \<le> 1"

function utf8_valid :: "bytes \<Rightarrow> bool" where
  "utf8_valid s =
     (if s = [] then True
      else if bad_rune (decode_rune s) then False
      else utf8_valid (drop (snd (decode_rune s)) s))"
  by pat_completeness auto
termination
  by (relation "measure length") (use decode_rune_width_pos in auto)

declare utf8_valid.simps [simp del]

lemma utf8_valid_Nil [simp]: "utf8_valid []"
  by (simp add: utf8_valid.simps)

lemma utf8_valid_step:
  "s \<noteq> [] \<Longrightarrow> utf8_valid s \<longleftrightarrow>
     \<not> bad_rune (decode_rune s) \<and> utf8_valid (drop (snd (decode_rune s)) s)"
  by (simp add: utf8_valid.simps [of s])

text \<open>The runes of a Go string, \<open>[]rune(s)\<close> and \<open>range s\<close>: an invalid byte is one
  replacement rune.\<close>

function runes :: "bytes \<Rightarrow> rune list" where
  "runes s =
     (if s = [] then []
      else fst (decode_rune s) # runes (drop (snd (decode_rune s)) s))"
  by pat_completeness auto
termination
  by (relation "measure length") (use decode_rune_width_pos in auto)

declare runes.simps [simp del]

lemma runes_Nil [simp]: "runes [] = []"
  by (simp add: runes.simps)

lemma runes_eq_Nil [simp]: "runes s = [] \<longleftrightarrow> s = []"
  by (simp add: runes.simps [of s])

lemma length_runes_le: "length (runes s) \<le> length s"
proof (induction s rule: runes.induct)
  case (1 s)
  show ?case
  proof (cases "s = []")
    case False
    with 1 have "length (runes (drop (snd (decode_rune s)) s)) \<le> length s - snd (decode_rune s)"
      by simp
    moreover have "0 < snd (decode_rune s)" "snd (decode_rune s) \<le> length s"
      using False by (simp_all add: decode_rune_width_pos decode_rune_width_le)
    ultimately show ?thesis
      using False by (simp add: runes.simps [of s])
  qed simp
qed


subsection \<open>Rune boundaries\<close>

text \<open>The bytes of a well-formed rune: one start byte, then continuation bytes, and the
  decoder looks no further than its width.\<close>

lemma second_ok_cont: "128 \<le> b0 \<Longrightarrow> second_ok b0 c \<Longrightarrow> cont_byte c"
  by (auto simp: second_ok_def rune_start_def Let_def split: if_splits)

lemma rune_start_lead: "(byte c :: nat) < 128 \<or> 194 \<le> (byte c :: nat) \<Longrightarrow> rune_start c"
  by (auto simp: rune_start_def)

text \<open>The four shapes of a good rune.\<close>

inductive rune_shape :: "bytes \<Rightarrow> nat \<Rightarrow> bool" where
  one: "(byte c :: nat) < 128 \<Longrightarrow> rune_shape (c # t) 1"
| two: "194 \<le> (byte c :: nat) \<Longrightarrow> (byte c :: nat) < 224 \<Longrightarrow> second_ok (byte c) c1 \<Longrightarrow>
    rune_shape (c # c1 # t) 2"
| three: "224 \<le> (byte c :: nat) \<Longrightarrow> (byte c :: nat) < 240 \<Longrightarrow> second_ok (byte c) c1 \<Longrightarrow>
    cont_byte c2 \<Longrightarrow> rune_shape (c # c1 # c2 # t) 3"
| four: "240 \<le> (byte c :: nat) \<Longrightarrow> (byte c :: nat) \<le> 244 \<Longrightarrow> second_ok (byte c) c1 \<Longrightarrow>
    cont_byte c2 \<Longrightarrow> cont_byte c3 \<Longrightarrow> rune_shape (c # c1 # c2 # c3 # t) 4"

lemma good_rune_shape:
  assumes "s \<noteq> []" and "\<not> bad_rune (decode_rune s)"
  shows "rune_shape s (snd (decode_rune s))"
proof (cases s)
  case (Cons c t)
  consider "(byte c :: nat) < 128" | "128 \<le> (byte c :: nat)" "(byte c :: nat) < 194 \<or> 244 < (byte c :: nat)"
    | "194 \<le> (byte c :: nat)" "(byte c :: nat) \<le> 244" by linarith
  then show ?thesis
  proof cases
    case 3
    with assms Cons have bad: "\<not> bad_rune (decode_tail (byte c) t)"
      by auto
    have d: "decode_rune s = decode_tail (byte c) t"
      using 3 Cons by simp
    from bad obtain c1 t1 where t: "t = c1 # t1" and ok: "second_ok (byte c) c1"
      by (cases t) (auto simp: decode_tail_def bad_rune_def split: if_splits)
    show ?thesis
    proof (cases "(byte c :: nat) < 224")
      case True
      then show ?thesis
        using d 3 ok t Cons by (auto simp: decode_tail_def intro: rune_shape.two)
    next
      case ge: False
      show ?thesis
      proof (cases "(byte c :: nat) < 240")
        case True
        with bad ge ok t have "\<not> bad_rune (decode_tail2 (byte c) c1 t1)"
          by (auto simp: decode_tail_def)
        then show ?thesis
          using d True ge ok t Cons
          by (auto simp: decode_tail_def decode_tail2_def bad_rune_def
              intro: rune_shape.three split: list.splits if_splits)
      next
        case False
        with bad ge ok t have "\<not> bad_rune (decode_tail3 (byte c) c1 t1)"
          by (auto simp: decode_tail_def)
        then show ?thesis
          using d False ge 3 ok t Cons
          by (auto simp: decode_tail_def decode_tail3_def bad_rune_def
              intro: rune_shape.four split: list.splits if_splits)
      qed
    qed
  qed (use assms Cons rune_shape.one [of c t] in \<open>auto simp: bad_rune_def\<close>)
qed (use assms in simp)

lemma rune_shape_start: "rune_shape s k \<Longrightarrow> rune_start (s ! 0)"
  by (cases rule: rune_shape.cases) (auto intro: rune_start_lead)

lemma rune_shape_cont:
  assumes "rune_shape s k" and "0 < i" and "i < k"
  shows "cont_byte (s ! i)"
  using assms(1)
proof cases
  case (two c c1 t)
  with assms have "i = 1" by simp
  with two show ?thesis using second_ok_cont [of "byte c" c1] by simp
next
  case (three c c1 c2 t)
  with assms have "i = 1 \<or> i = 2" by auto
  with three show ?thesis using second_ok_cont [of "byte c" c1] by auto
next
  case (four c c1 c2 c3 t)
  with assms have "i = 1 \<or> i = 2 \<or> i = 3" by auto
  with four show ?thesis using second_ok_cont [of "byte c" c1] by auto
qed (use assms in simp)

lemma rune_shape_prefix:
  "rune_shape s k \<Longrightarrow> decode_rune (take k s @ u) = decode_rune s"
  by (cases rule: rune_shape.cases)
     (auto simp: decode_tail_def decode_tail2_def decode_tail3_def)

lemma good_rune_start:
  "s \<noteq> [] \<Longrightarrow> \<not> bad_rune (decode_rune s) \<Longrightarrow> rune_start (s ! 0)"
  using good_rune_shape rune_shape_start by blast

lemma good_rune_cont:
  "s \<noteq> [] \<Longrightarrow> \<not> bad_rune (decode_rune s) \<Longrightarrow> 0 < i \<Longrightarrow> i < snd (decode_rune s) \<Longrightarrow>
     cont_byte (s ! i)"
  using good_rune_shape rune_shape_cont by blast

lemma good_rune_prefix:
  "s \<noteq> [] \<Longrightarrow> \<not> bad_rune (decode_rune s) \<Longrightarrow>
     decode_rune (take (snd (decode_rune s)) s @ u) = decode_rune s"
  using good_rune_shape rune_shape_prefix by blast

lemma utf8_valid_append:
  "utf8_valid s \<Longrightarrow> utf8_valid t \<Longrightarrow> utf8_valid (s @ t)"
proof (induction s rule: utf8_valid.induct)
  case (1 s)
  show ?case
  proof (cases "s = []")
    case False
    let ?k = "snd (decode_rune s)"
    from 1 False have good: "\<not> bad_rune (decode_rune s)" and rest: "utf8_valid (drop ?k s)"
      by (simp_all add: utf8_valid_step)
    have eq: "decode_rune (s @ t) = decode_rune s"
      using good_rune_prefix [OF False good, of "drop ?k s @ t"]
      by (metis append_assoc append_take_drop_id)
    have "utf8_valid (drop ?k s @ t)"
      using 1 False good rest by simp
    then show ?thesis
      using False good decode_rune_width_le [of s] by (simp add: utf8_valid_step eq)
  qed (use 1 in simp)
qed

lemma utf8_valid_ascii: "\<forall>c \<in> set s. byte c < (128::nat) \<Longrightarrow> utf8_valid s"
  by (induction s) (simp_all add: utf8_valid_step bad_rune_def rune_error_def)

lemma utf8_valid_one:
  assumes "s \<noteq> []" and "\<not> bad_rune (decode_rune s)"
  shows "utf8_valid (take (snd (decode_rune s)) s)"
proof -
  have "decode_rune (take (snd (decode_rune s)) s) = decode_rune s"
    using good_rune_prefix [OF assms, of "[]"] by simp
  moreover have "take (snd (decode_rune s)) s \<noteq> []"
    using assms(1) by (simp add: decode_rune_zero_iff)
  ultimately show ?thesis
    using assms(2) by (simp add: utf8_valid_step)
qed

lemma utf8_valid_take_start:
  "utf8_valid s \<Longrightarrow> n < length s \<Longrightarrow> rune_start (s ! n) \<Longrightarrow> utf8_valid (take n s)"
proof (induction s arbitrary: n rule: utf8_valid.induct)
  case (1 s)
  let ?k = "snd (decode_rune s)"
  from "1.prems" have ne: "s \<noteq> []" by auto
  with "1.prems" have good: "\<not> bad_rune (decode_rune s)" and rest: "utf8_valid (drop ?k s)"
    by (simp_all add: utf8_valid_step)
  show ?case
  proof (cases "n = 0 \<or> n < ?k")
    case True
    with good_rune_cont [OF ne good, of n] "1.prems" show ?thesis by (cases "n = 0") auto
  next
    case False
    then have "n - ?k < length (drop ?k s)" "rune_start (drop ?k s ! (n - ?k))"
      using "1.prems" by auto
    then have "utf8_valid (take (n - ?k) (drop ?k s))"
      using "1.IH" [OF ne good rest] by blast
    moreover have "take n s = take ?k s @ take (n - ?k) (drop ?k s)"
      using False by (metis leI le_add_diff_inverse take_add)
    ultimately show ?thesis
      using utf8_valid_one [OF ne good] by (simp add: utf8_valid_append)
  qed
qed

lemma utf8_valid_drop_start:
  "utf8_valid s \<Longrightarrow> n < length s \<Longrightarrow> rune_start (s ! n) \<Longrightarrow> utf8_valid (drop n s)"
proof (induction s arbitrary: n rule: utf8_valid.induct)
  case (1 s)
  let ?k = "snd (decode_rune s)"
  from "1.prems" have ne: "s \<noteq> []" by auto
  with "1.prems" have good: "\<not> bad_rune (decode_rune s)" and rest: "utf8_valid (drop ?k s)"
    by (simp_all add: utf8_valid_step)
  show ?case
  proof (cases "n = 0 \<or> n < ?k")
    case True
    with good_rune_cont [OF ne good, of n] "1.prems" show ?thesis by (cases "n = 0") auto
  next
    case False
    then have "n - ?k < length (drop ?k s)" "rune_start (drop ?k s ! (n - ?k))"
      using "1.prems" by auto
    then have "utf8_valid (drop (n - ?k) (drop ?k s))"
      using "1.IH" [OF ne good rest] by blast
    then show ?thesis using False by simp
  qed
qed

text \<open>The loop \<open>for n > 0 && !utf8.RuneStart(s[n]) { n-- }\<close>.\<close>

primrec rune_back :: "bytes \<Rightarrow> nat \<Rightarrow> nat" where
  "rune_back s 0 = 0"
| "rune_back s (Suc n) = (if rune_start (s ! Suc n) then Suc n else rune_back s n)"

lemma rune_back_le: "rune_back s n \<le> n"
  by (induction n) auto

lemma rune_back_start: "rune_back s n = 0 \<or> rune_start (s ! rune_back s n)"
  by (induction n) auto

lemma rune_back_cont: "rune_back s n < i \<Longrightarrow> i \<le> n \<Longrightarrow> cont_byte (s ! i)"
  by (induction n) (auto simp: le_Suc_eq split: if_splits)

lemma utf8_valid_rune_back:
  "utf8_valid s \<Longrightarrow> n < length s \<Longrightarrow> utf8_valid (take (rune_back s n) s)"
  using rune_back_start [of s n] rune_back_le [of s n]
  by (auto intro: utf8_valid_take_start)

text \<open>Four consecutive bytes of valid text hold a rune start, so the loop backs up at most
  three bytes.\<close>

lemma utf8_valid_start_within:
  "utf8_valid s \<Longrightarrow> n < length s \<Longrightarrow> \<exists>i \<le> n. n \<le> i + 3 \<and> rune_start (s ! i)"
proof (induction s arbitrary: n rule: utf8_valid.induct)
  case (1 s)
  let ?k = "snd (decode_rune s)"
  from "1.prems" have ne: "s \<noteq> []" by auto
  with "1.prems" have good: "\<not> bad_rune (decode_rune s)" and rest: "utf8_valid (drop ?k s)"
    by (simp_all add: utf8_valid_step)
  show ?case
  proof (cases "n < ?k")
    case True
    then show ?thesis
      using good_rune_start [OF ne good] decode_rune_width_4 [of s]
      by (intro exI [of _ 0]) auto
  next
    case False
    then have "n - ?k < length (drop ?k s)"
      using "1.prems" by simp
    from "1.IH" [OF ne good rest this] obtain i where
      "i \<le> n - ?k" "n - ?k \<le> i + 3" "rune_start (drop ?k s ! i)"
      by blast
    then show ?thesis
      using False decode_rune_width_le [of s] by (intro exI [of _ "?k + i"]) auto
  qed
qed

lemma rune_back_within: "utf8_valid s \<Longrightarrow> n < length s \<Longrightarrow> n \<le> rune_back s n + 3"
  using utf8_valid_start_within [of s n] rune_back_cont [of s n]
  by (meson le_trans add_le_mono1 not_less)


text \<open>The forward loop of \<open>snapUTF8\<close> and \<open>snapWindow\<close>: advance rune by rune while whole, well
  formed runes fit before \<open>e\<close>.\<close>

function snap_fwd :: "bytes \<Rightarrow> nat \<Rightarrow> nat \<Rightarrow> nat" where
  "snap_fwd s pos e =
     (if pos < e then
        (let d = decode_rune (drop pos s) in
         if snd d = 0 \<or> bad_rune d \<or> e < pos + snd d then pos
         else snap_fwd s (pos + snd d) e)
      else pos)"
  by pat_completeness auto
termination
  by (relation "measure (\<lambda>(s, pos, e). e - pos)") (auto simp: Let_def)

declare snap_fwd.simps [simp del]

lemma snap_fwd_bounds: "pos \<le> snap_fwd s pos e \<and> (pos \<le> e \<longrightarrow> snap_fwd s pos e \<le> e)"
proof (induction s pos e rule: snap_fwd.induct)
  case (1 s pos e)
  then show ?case by (subst (1 2) snap_fwd.simps) (auto simp: Let_def)
qed

lemma snap_fwd_le_length: "pos \<le> length s \<Longrightarrow> snap_fwd s pos e \<le> length s"
proof (induction s pos e rule: snap_fwd.induct)
  case (1 s pos e)
  have "pos + snd (decode_rune (drop pos s)) \<le> length s"
    using decode_rune_width_le [of "drop pos s"] "1.prems" by auto
  with 1 show ?case by (subst snap_fwd.simps) (auto simp: Let_def)
qed

lemma snap_fwd_valid: "utf8_valid (take (snap_fwd s pos e - pos) (drop pos s))"
proof (induction s pos e rule: snap_fwd.induct)
  case (1 s pos e)
  let ?d = "decode_rune (drop pos s)" and ?k = "snd (decode_rune (drop pos s))"
  show ?case
  proof (cases "pos < e \<and> \<not> (?k = 0 \<or> bad_rune ?d \<or> e < pos + ?k)")
    case True
    then have IH: "utf8_valid (take (snap_fwd s (pos + ?k) e - (pos + ?k)) (drop (pos + ?k) s))"
      using 1 by simp
    have eq: "snap_fwd s pos e = snap_fwd s (pos + ?k) e"
      using True by (simp add: snap_fwd.simps [of s pos e] Let_def)
    have ne: "drop pos s \<noteq> []" using True by auto
    define m where "m = snap_fwd s (pos + ?k) e - (pos + ?k)"
    have "snap_fwd s pos e - pos = ?k + m"
      using snap_fwd_bounds [of "pos + ?k" s e] eq unfolding m_def by linarith
    then have "take (snap_fwd s pos e - pos) (drop pos s)
        = take ?k (drop pos s) @ take m (drop (pos + ?k) s)"
      by (simp add: take_add add.commute [of ?k pos])
    then show ?thesis
      using IH utf8_valid_one [OF ne] True by (simp add: utf8_valid_append m_def)
  next
    case False
    then have "snap_fwd s pos e = pos"
      by (subst snap_fwd.simps) (auto simp: Let_def)
    then show ?thesis by simp
  qed
qed

text \<open>On valid text the forward loop drops at most the three bytes of an unfinished rune.\<close>

lemma snap_fwd_complete:
  "utf8_valid (drop pos s) \<Longrightarrow> pos \<le> e \<Longrightarrow> e \<le> length s \<Longrightarrow> e \<le> snap_fwd s pos e + 3"
proof (induction s pos e rule: snap_fwd.induct)
  case (1 s pos e)
  let ?d = "decode_rune (drop pos s)" and ?k = "snd (decode_rune (drop pos s))"
  show ?case
  proof (cases "pos < e")
    case True
    with "1.prems" have ne: "drop pos s \<noteq> []" by simp
    with "1.prems" have good: "\<not> bad_rune ?d" and rest: "utf8_valid (drop (pos + ?k) s)"
      by (simp_all add: utf8_valid_step add.commute)
    have k: "0 < ?k" "?k \<le> 4"
      using ne by (simp_all add: decode_rune_width_pos decode_rune_width_4)
    show ?thesis
    proof (cases "e < pos + ?k")
      case True
      then show ?thesis
        using k good \<open>pos < e\<close> by (subst snap_fwd.simps) (auto simp: Let_def)
    next
      case False
      then have "e \<le> snap_fwd s (pos + ?k) e + 3"
        using 1 True good k rest by simp
      moreover have "snap_fwd s pos e = snap_fwd s (pos + ?k) e"
        using True False good k by (simp add: snap_fwd.simps [of s pos e] Let_def)
      ultimately show ?thesis by simp
    qed
  next
    case False
    with "1.prems" show ?thesis by (subst snap_fwd.simps) simp
  qed
qed

subsection \<open>Cutting at a rune boundary\<close>

text \<open>Five functions of the program shorten a text to a byte budget without splitting a
  rune.  The contract they share:\<close>

locale rune_cut =
  fixes cut :: "bytes \<Rightarrow> nat \<Rightarrow> bytes"
  assumes cut_short: "length s \<le> n \<Longrightarrow> cut s n = s"
    and cut_long: "n < length s \<Longrightarrow> cut s n = take (rune_back s n) s"
begin

lemma cut_prefix: "prefix (cut s n) s"
  by (cases "length s \<le> n") (simp_all add: cut_short cut_long take_is_prefix)

lemma cut_bound: "length (cut s n) \<le> n"
  using rune_back_le [of s n] by (cases "length s \<le> n") (simp_all add: cut_short cut_long)

lemma cut_valid: "utf8_valid s \<Longrightarrow> utf8_valid (cut s n)"
  by (cases "length s \<le> n") (simp_all add: cut_short cut_long utf8_valid_rune_back)

lemma cut_loss: "utf8_valid s \<Longrightarrow> n < length s \<Longrightarrow> n \<le> length (cut s n) + 3"
  using rune_back_within [of s n] rune_back_le [of s n] by (simp add: cut_long min_def)

lemmas cut_facts = cut_prefix cut_bound cut_valid cut_loss

end

end
