(* ===== verification/Go_Strings.thy ===== *)
theory Go_Strings
  imports Prelude
begin

text \<open>
  The parts of Go's \<open>strings\<close>, \<open>strconv\<close> and \<open>unicode\<close> the components call, on byte lists.
  The Unicode case tables of \<open>unicode.ToLower\<close> are a parameter of the definitions that use
  them; white space and the ASCII classes are written out.
\<close>

section \<open>Classes\<close>

definition unicode_space :: "rune \<Rightarrow> bool" where
  "unicode_space r \<longleftrightarrow>
     (9 \<le> r \<and> r \<le> 13) \<or> r = 32 \<or> r = 133 \<or> r = 160 \<or> r = 5760
     \<or> (8192 \<le> r \<and> r \<le> 8202) \<or> r = 8232 \<or> r = 8233 \<or> r = 8239 \<or> r = 8287 \<or> r = 12288"

definition is_lower :: "char \<Rightarrow> bool" where
  "is_lower c \<longleftrightarrow> 97 \<le> (byte c :: nat) \<and> byte c \<le> (122::nat)"

definition is_upper :: "char \<Rightarrow> bool" where
  "is_upper c \<longleftrightarrow> 65 \<le> (byte c :: nat) \<and> byte c \<le> (90::nat)"

definition is_digit :: "char \<Rightarrow> bool" where
  "is_digit c \<longleftrightarrow> 48 \<le> (byte c :: nat) \<and> byte c \<le> (57::nat)"

abbreviation is_alpha :: "char \<Rightarrow> bool" where
  "is_alpha c \<equiv> is_lower c \<or> is_upper c"

text \<open>\<open>strings.ToLower\<close> on ASCII text.\<close>

definition ascii_lower :: "bytes \<Rightarrow> bytes" where
  "ascii_lower s = map (\<lambda>c. if is_upper c then char_of ((byte c :: nat) + 32) else c) s"

lemma length_ascii_lower [simp]: "length (ascii_lower s) = length s"
  by (simp add: ascii_lower_def)

section \<open>Package strings\<close>

function trim_left :: "bytes \<Rightarrow> bytes" where
  "trim_left s =
     (if s \<noteq> [] \<and> unicode_space (fst (decode_rune s))
      then trim_left (drop (snd (decode_rune s)) s) else s)"
  by pat_completeness auto
termination
  by (relation "measure length") (use decode_rune_width_pos in auto)

declare trim_left.simps [simp del]

function trim_right :: "bytes \<Rightarrow> bytes" where
  "trim_right s =
     (if s = [] then []
      else let d = decode_rune s; rest = trim_right (drop (snd d) s) in
        if rest = [] \<and> unicode_space (fst d) then [] else take (snd d) s @ rest)"
  by pat_completeness auto
termination
  by (relation "measure length") (use decode_rune_width_pos in auto)

declare trim_right.simps [simp del]

definition trim_space :: "bytes \<Rightarrow> bytes" where
  "trim_space s = trim_right (trim_left s)"

text \<open>\<open>strings.Fields\<close>: the maximal runs of non-space runes; the accumulator holds the run
  being read.\<close>

function fields_from :: "bytes \<Rightarrow> bytes \<Rightarrow> bytes list" where
  "fields_from acc s =
     (if s = [] then (if acc = [] then [] else [acc])
      else let d = decode_rune s; rest = drop (snd d) s in
        if unicode_space (fst d)
        then (if acc = [] then fields_from [] rest else acc # fields_from [] rest)
        else fields_from (acc @ take (snd d) s) rest)"
  by pat_completeness auto
termination
  by (relation "measure (\<lambda>(acc, s). length s)")
     (use decode_rune_width_pos in \<open>auto simp: Let_def\<close>)

declare fields_from.simps [simp del]

definition fields :: "bytes \<Rightarrow> bytes list" where
  "fields s = fields_from [] s"

lemma fields_from_nonempty: "w \<in> set (fields_from acc s) \<Longrightarrow> w \<noteq> []"
proof (induction acc s rule: fields_from.induct)
  case (1 acc s)
  show ?case
  proof (cases "s = []")
    case True
    with 1 show ?thesis by (auto simp: fields_from.simps [of acc "[]"] split: if_splits)
  next
    case False
    with 1 show ?thesis
      by (simp add: fields_from.simps [of acc s] Let_def split: if_splits) blast
  qed
qed

lemma fields_nonempty: "w \<in> set (fields s) \<Longrightarrow> w \<noteq> []"
  using fields_from_nonempty by (simp add: fields_def)

fun split_char :: "char \<Rightarrow> bytes \<Rightarrow> bytes list" where
  "split_char c [] = [[]]"
| "split_char c (x # xs) =
     (if x = c then [] # split_char c xs
      else (x # hd (split_char c xs)) # tl (split_char c xs))"

fun join :: "bytes \<Rightarrow> bytes list \<Rightarrow> bytes" where
  "join sep [] = []"
| "join sep [w] = w"
| "join sep (w # ws) = w @ sep @ join sep ws"

lemma split_char_not_Nil [simp]: "split_char c s \<noteq> []"
  by (cases s) auto

lemma join_Cons: "ws \<noteq> [] \<Longrightarrow> join sep (w # ws) = w @ sep @ join sep ws"
  by (cases ws) auto

lemma join_split_char: "join [c] (split_char c s) = s"
proof (induction s)
  case (Cons x xs)
  obtain w ws where w: "split_char c xs = w # ws"
    by (cases "split_char c xs") auto
  with Cons show ?case by (cases ws) auto
qed simp

lemma split_char_free: "w \<in> set (split_char c s) \<Longrightarrow> c \<notin> set w"
proof (induction s arbitrary: w)
  case (Cons x xs)
  obtain v vs where "split_char c xs = v # vs"
    by (cases "split_char c xs") auto
  with Cons show ?case by (auto split: if_splits)
qed simp

definition replace_char :: "char \<Rightarrow> bytes \<Rightarrow> bytes \<Rightarrow> bytes" where
  "replace_char c rep s = concat (map (\<lambda>x. if x = c then rep else [x]) s)"

definition trim_prefix :: "bytes \<Rightarrow> bytes \<Rightarrow> bytes" where
  "trim_prefix p s = (if prefix p s then drop (length p) s else s)"

definition cut_prefix_of :: "bytes \<Rightarrow> bytes \<Rightarrow> bytes option" where
  "cut_prefix_of p s = (if prefix p s then Some (drop (length p) s) else None)"

definition trim_suffix :: "bytes \<Rightarrow> bytes \<Rightarrow> bytes" where
  "trim_suffix p s = (if suffix p s then take (length s - length p) s else s)"

text \<open>\<open>strings.Cut\<close> at a byte.\<close>

definition cut_char :: "char \<Rightarrow> bytes \<Rightarrow> (bytes \<times> bytes) option" where
  "cut_char c s =
     (if c \<in> set s then Some (takeWhile (\<lambda>x. x \<noteq> c) s, tl (dropWhile (\<lambda>x. x \<noteq> c) s))
      else None)"

text \<open>\<open>strings.Index\<close> and \<open>strings.IndexAny\<close> (for ASCII sets), the first match or \<open>None\<close> for
  the result \<open>-1\<close>; \<open>strings.LastIndexAny\<close> likewise.\<close>

fun index_of :: "bytes \<Rightarrow> bytes \<Rightarrow> nat option" where
  "index_of p [] = (if p = [] then Some 0 else None)"
| "index_of p (x # xs) =
     (if prefix p (x # xs) then Some 0 else map_option Suc (index_of p xs))"

fun index_any :: "char set \<Rightarrow> bytes \<Rightarrow> nat option" where
  "index_any cs [] = None"
| "index_any cs (x # xs) = (if x \<in> cs then Some 0 else map_option Suc (index_any cs xs))"

fun last_index_any :: "char set \<Rightarrow> bytes \<Rightarrow> nat option" where
  "last_index_any cs [] = None"
| "last_index_any cs (x # xs) =
     (case last_index_any cs xs of
        Some i \<Rightarrow> Some (Suc i)
      | None \<Rightarrow> if x \<in> cs then Some 0 else None)"

lemma index_of_bound: "index_of p s = Some i \<Longrightarrow> i + length p \<le> length s"
  by (induction s arbitrary: i)
     (auto simp: prefix_length_le split: if_splits dest: prefix_length_le)

lemma index_any_bound: "index_any cs s = Some i \<Longrightarrow> i < length s \<and> s ! i \<in> cs"
  by (induction s arbitrary: i) (auto split: if_splits)

lemma last_index_any_bound: "last_index_any cs s = Some i \<Longrightarrow> i < length s \<and> s ! i \<in> cs"
  by (induction s arbitrary: i) (auto split: if_splits option.splits)

text \<open>The conversion of a rune slice to a string; an invalid rune becomes U+FFFD.\<close>

definition encode_rune :: "rune \<Rightarrow> bytes" where
  "encode_rune r0 =
     (let r = (if (55296 \<le> r0 \<and> r0 \<le> 57343) \<or> 1114111 < r0 then rune_error else r0) in
      if r < 128 then [char_of r]
      else if r < 2048 then [char_of (192 + r div 64), char_of (128 + r mod 64)]
      else if r < 65536 then
        [char_of (224 + r div 4096), char_of (128 + r div 64 mod 64), char_of (128 + r mod 64)]
      else
        [char_of (240 + r div 262144), char_of (128 + r div 4096 mod 64),
         char_of (128 + r div 64 mod 64), char_of (128 + r mod 64)])"

definition string_of_runes :: "rune list \<Rightarrow> bytes" where
  "string_of_runes rs = concat (map encode_rune rs)"

section \<open>Package strconv\<close>

fun digits_val :: "nat \<Rightarrow> bytes \<Rightarrow> nat option" where
  "digits_val acc [] = Some acc"
| "digits_val acc (c # cs) =
     (if is_digit c then digits_val (10 * acc + (byte c - 48)) cs else None)"

text \<open>\<open>strconv.Atoi\<close> and \<open>strconv.ParseInt(s, 10, 64)\<close>: an optional sign, at least one digit,
  nothing else, in the range of \<open>int64\<close>.\<close>

definition int64_max :: int where "int64_max = 9223372036854775807"

definition parse_int64 :: "bytes \<Rightarrow> int option" where
  "parse_int64 s =
     (let (neg, ds) = (case s of
          c # cs \<Rightarrow> if c = CHR ''-'' then (True, cs)
                    else if c = CHR ''+'' then (False, cs) else (False, s)
        | [] \<Rightarrow> (False, s))
      in if ds = [] then None
         else case digits_val 0 ds of
             None \<Rightarrow> None
           | Some n \<Rightarrow>
               if neg then (if int n \<le> int64_max + 1 then Some (- int n) else None)
               else (if int n \<le> int64_max then Some (int n) else None))"

text \<open>\<open>strconv.Itoa\<close>, \<open>strconv.FormatInt(_, 10)\<close> and \<open>%d\<close>.\<close>

fun dec_digits :: "nat \<Rightarrow> bytes" where
  "dec_digits n =
     (if n < 10 then [char_of (48 + n)] else dec_digits (n div 10) @ [char_of (48 + n mod 10)])"

declare dec_digits.simps [simp del]

definition itoa :: "int \<Rightarrow> bytes" where
  "itoa i = (if i < 0 then CHR ''-'' # dec_digits (nat (- i)) else dec_digits (nat i))"

lemma digits_val_append:
  "digits_val acc (ds @ es) = (case digits_val acc ds of None \<Rightarrow> None | Some n \<Rightarrow> digits_val n es)"
  by (induction ds arbitrary: acc) auto

lemma is_digit_dec: "n < 10 \<Longrightarrow> is_digit (char_of (48 + n :: nat))"
  by (simp add: is_digit_def)

lemma digits_val_dec: "digits_val 0 (dec_digits n) = Some n"
proof (induction n rule: dec_digits.induct)
  case (1 n)
  then show ?case
    by (cases "n < 10")
       (simp_all add: dec_digits.simps [of n] digits_val_append is_digit_dec)
qed

lemma dec_digits_not_Nil [simp]: "dec_digits n \<noteq> []"
  by (simp add: dec_digits.simps [of n])

lemma dec_digits_set: "c \<in> set (dec_digits n) \<Longrightarrow> is_digit c"
proof (induction n rule: dec_digits.induct)
  case (1 n)
  then show ?case
    by (cases "n < 10") (auto simp: dec_digits.simps [of n] is_digit_dec)
qed

lemma dec_digits_hd: "is_digit (hd (dec_digits n))"
  by (meson dec_digits_not_Nil dec_digits_set hd_in_set)

lemma parse_itoa:
  assumes "- int64_max - 1 \<le> i" and "i \<le> int64_max"
  shows "parse_int64 (itoa i) = Some i"
proof (cases "i < 0")
  case True
  with assms show ?thesis
    by (simp add: parse_int64_def itoa_def digits_val_dec int64_max_def)
next
  case False
  obtain c cs where c: "dec_digits (nat i) = c # cs"
    by (cases "dec_digits (nat i)") auto
  then have "is_digit c" using dec_digits_hd [of "nat i"] by simp
  then have "c \<noteq> CHR ''-''" "c \<noteq> CHR ''+''" by (auto simp: is_digit_def)
  moreover have "digits_val 0 (c # cs) = Some (nat i)"
    using digits_val_dec [of "nat i"] c by simp
  ultimately show ?thesis
    using False assms c by (simp add: parse_int64_def itoa_def)
qed

section \<open>Bounded retries\<close>

text \<open>
  \<open>store.txRetry\<close>, \<open>session.txRetryWriter\<close>, \<open>migrateBusyRetry\<close>, \<open>quickCheck\<close> and
  \<open>quickCheckStrict\<close> run an operation again while its outcome is transient, with a fixed
  table of delays, and give up early if the wait between two attempts is cancelled.  An
  operation takes the state of the world and returns it changed; \<open>op_trace\<close> records the
  outcomes of the successive calls.
\<close>

inductive op_trace ::
  "('s \<Rightarrow> 's \<times> 'r) \<Rightarrow> ('s \<Rightarrow> 's \<times> 'o option) \<Rightarrow> 's \<Rightarrow> 'r list \<Rightarrow> 's \<Rightarrow> bool"
  for call wait where
  last_call: "call s = (s1, r) \<Longrightarrow> op_trace call wait s [r] s1"
| more_calls: "call s = (s1, r) \<Longrightarrow> wait s1 = (s2, None) \<Longrightarrow>
    op_trace call wait s2 rs s3 \<Longrightarrow> op_trace call wait s (r # rs) s3"

lemma op_trace_not_Nil: "op_trace call wait s rs s' \<Longrightarrow> rs \<noteq> []"
  by (induction rule: op_trace.induct) auto

text \<open>The contract the five loops share.  With \<open>n\<close> retries left, a final outcome is returned
  as it is, a transient one is retried after the wait, and when no retry is left it becomes
  the exhaustion verdict.\<close>

locale bounded_retry =
  fixes attempt :: "nat \<Rightarrow> ('s \<Rightarrow> 's \<times> 'r) \<Rightarrow> 's \<Rightarrow> 's \<times> 'o"
    and wait :: "'s \<Rightarrow> 's \<times> 'o option"
    and transient :: "'r \<Rightarrow> bool"
    and final :: "'r \<Rightarrow> 'o"
    and exhausted :: "'r \<Rightarrow> 'o"
  assumes attempt_final:
      "call s = (s1, r) \<Longrightarrow> \<not> transient r \<Longrightarrow> attempt n call s = (s1, final r)"
    and attempt_exhausted:
      "call s = (s1, r) \<Longrightarrow> transient r \<Longrightarrow> attempt 0 call s = (s1, exhausted r)"
    and attempt_again:
      "call s = (s1, r) \<Longrightarrow> transient r \<Longrightarrow> wait s1 = (s2, None) \<Longrightarrow>
        attempt (Suc n) call s = attempt n call s2"
    and attempt_cancelled:
      "call s = (s1, r) \<Longrightarrow> transient r \<Longrightarrow> wait s1 = (s2, Some e) \<Longrightarrow>
        attempt (Suc n) call s = (s2, e)"
begin

text \<open>How a run can end, after outcomes \<open>rs\<close> that left the world at \<open>s1\<close>.\<close>

lemma attempt_trace:
  "\<exists>rs s1. op_trace call wait s rs s1 \<and> length rs \<le> Suc n
     \<and> (\<forall>r \<in> set (butlast rs). transient r)
     \<and> (\<not> transient (last rs) \<and> attempt n call s = (s1, final (last rs))
        \<or> transient (last rs) \<and> length rs = Suc n \<and> attempt n call s = (s1, exhausted (last rs))
        \<or> transient (last rs) \<and> length rs \<le> n
            \<and> (\<exists>s2 e. wait s1 = (s2, Some e) \<and> attempt n call s = (s2, e)))"
proof (induction n arbitrary: s)
  case 0
  obtain s1 r where call: "call s = (s1, r)" by fastforce
  then have "op_trace call wait s [r] s1" by (rule last_call)
  with call show ?case
    by (intro exI [of _ "[r]"] exI [of _ s1], cases "transient r")
       (auto simp: attempt_final [of call s, OF call] attempt_exhausted [of call s, OF call])
next
  case (Suc n)
  obtain s1 r where call: "call s = (s1, r)" by fastforce
  then have one: "op_trace call wait s [r] s1" by (rule last_call)
  obtain s2 w where wait: "wait s1 = (s2, w)" by fastforce
  show ?case
  proof (cases "transient r \<and> w = None")
    case False
    with call wait one show ?thesis
      by (intro exI [of _ "[r]"] exI [of _ s1], cases "transient r")
         (auto simp: attempt_final [of call s, OF call] attempt_cancelled [of call s, OF call])
  next
    case True
    with call wait have again: "attempt (Suc n) call s = attempt n call s2"
      by (simp add: attempt_again [of call s, OF call])
    from Suc.IH [of s2] obtain rs s3 where
      rs: "op_trace call wait s2 rs s3" "length rs \<le> Suc n"
        "\<forall>r \<in> set (butlast rs). transient r"
        "\<not> transient (last rs) \<and> attempt n call s2 = (s3, final (last rs))
        \<or> transient (last rs) \<and> length rs = Suc n \<and> attempt n call s2 = (s3, exhausted (last rs))
        \<or> transient (last rs) \<and> length rs \<le> n
            \<and> (\<exists>s2' e. wait s3 = (s2', Some e) \<and> attempt n call s2 = (s2', e))"
      by blast
    have ne: "rs \<noteq> []" using rs(1) by (rule op_trace_not_Nil)
    have "op_trace call wait s (r # rs) s3"
      using call wait True rs(1) by (auto intro: more_calls)
    with rs True ne again show ?thesis
      by (intro exI [of _ "r # rs"] exI [of _ s3]) auto
  qed
qed

text \<open>What every call and every wait keeps, the loop keeps.\<close>

lemma attempt_invariant:
  assumes "\<And>s s1 r. P s \<Longrightarrow> call s = (s1, r) \<Longrightarrow> P s1"
    and "\<And>s s1 w. P s \<Longrightarrow> wait s = (s1, w) \<Longrightarrow> P s1"
    and "P s"
  shows "P (fst (attempt n call s))"
  using assms(3)
proof (induction n arbitrary: s)
  case 0
  obtain s1 r where call: "call s = (s1, r)" by fastforce
  with assms(1) [OF 0 call] show ?case
    by (cases "transient r") (auto simp: attempt_final [of call s, OF call] attempt_exhausted [of call s, OF call])
next
  case (Suc n)
  obtain s1 r where call: "call s = (s1, r)" by fastforce
  obtain s2 w where wait: "wait s1 = (s2, w)" by fastforce
  have "P s1" "P s2" using assms(1) [OF Suc.prems call] assms(2) wait by blast+
  with Suc.IH [of s2] call wait show ?case
    by (cases "transient r"; cases w)
       (auto simp: attempt_final [of call s, OF call] attempt_again [of call s, OF call] attempt_cancelled [of call s, OF call])
qed

end

end
