(* ===== verification/Sha256.thy ===== *)
theory Sha256
  imports Go_Strings "HOL-Library.Word"
begin

text \<open>
  \<open>crypto/sha256\<close> and \<open>encoding/hex\<close>: the digest every artifact is addressed by.  The store
  relies only on its fixed length; the definition is FIPS 180-4, so that the model has no
  hash parameter and a content address can be evaluated.
\<close>

unbundle bit_operations_syntax

type_synonym w32 = "32 word"

text \<open>The round constants and the initial digest words, in decimal.\<close>

definition sha_k :: "w32 list" where
  "sha_k =
    [1116352408, 1899447441, 3049323471, 3921009573, 961987163, 1508970993, 2453635748,
     2870763221, 3624381080, 310598401, 607225278, 1426881987, 1925078388, 2162078206,
     2614888103, 3248222580, 3835390401, 4022224774, 264347078, 604807628, 770255983,
     1249150122, 1555081692, 1996064986, 2554220882, 2821834349, 2952996808, 3210313671,
     3336571891, 3584528711, 113926993, 338241895, 666307205, 773529912, 1294757372,
     1396182291, 1695183700, 1986661051, 2177026350, 2456956037, 2730485921, 2820302411,
     3259730800, 3345764771, 3516065817, 3600352804, 4094571909, 275423344, 430227734,
     506948616, 659060556, 883997877, 958139571, 1322822218, 1537002063, 1747873779,
     1955562222, 2024104815, 2227730452, 2361852424, 2428436474, 2756734187, 3204031479,
     3329325298]"

definition sha_init :: "w32 list" where
  "sha_init =
    [1779033703, 3144134277, 1013904242, 2773480762, 1359893119, 2600822924, 528734635,
     1541459225]"

definition rotr :: "nat \<Rightarrow> w32 \<Rightarrow> w32" where
  "rotr n x = drop_bit n x OR push_bit (32 - n) x"

definition sha_pad :: "bytes \<Rightarrow> nat list" where
  "sha_pad m =
     (let l = length m;
          z = (119 - l mod 64) mod 64;
          bits = 8 * l
      in map byte m @ [128] @ replicate z 0
         @ map (\<lambda>i. bits div 256 ^ i mod 256) [7, 6, 5, 4, 3, 2, 1, 0])"

fun words_of :: "nat list \<Rightarrow> w32 list" where
  "words_of (a # b # c # d # xs) =
     (push_bit 24 (of_nat a) OR push_bit 16 (of_nat b) OR push_bit 8 (of_nat c) OR of_nat d)
       # words_of xs"
| "words_of _ = []"

text \<open>The message schedule, kept as its last sixteen words, newest first.\<close>

definition sched_next :: "w32 list \<Rightarrow> w32" where
  "sched_next ws =
     (let s0 = rotr 7 (ws ! 14) XOR rotr 18 (ws ! 14) XOR drop_bit 3 (ws ! 14);
          s1 = rotr 17 (ws ! 1) XOR rotr 19 (ws ! 1) XOR drop_bit 10 (ws ! 1)
      in ws ! 15 + s0 + ws ! 6 + s1)"

definition sha_round :: "w32 \<Rightarrow> w32 \<Rightarrow> w32 list \<Rightarrow> w32 list" where
  "sha_round k w v =
     (case v of
        [a, b, c, d, e, f, g, h] \<Rightarrow>
          let s1 = rotr 6 e XOR rotr 11 e XOR rotr 25 e;
              ch = (e AND f) XOR (NOT e AND g);
              t1 = h + s1 + ch + k + w;
              s0 = rotr 2 a XOR rotr 13 a XOR rotr 22 a;
              maj = (a AND b) XOR (a AND c) XOR (b AND c)
          in [t1 + s0 + maj, a, b, c, d + t1, e, f, g]
      | _ \<Rightarrow> v)"

fun sha_rounds :: "w32 list \<Rightarrow> w32 list \<Rightarrow> w32 list \<Rightarrow> w32 list" where
  "sha_rounds [] ws v = v"
| "sha_rounds (k # ks) ws v =
     sha_rounds ks (sched_next ws # butlast ws) (sha_round k (last ws) v)"

definition sha_block :: "w32 list \<Rightarrow> w32 list \<Rightarrow> w32 list" where
  "sha_block blk hs = map (\<lambda>(x, y). x + y) (zip hs (sha_rounds sha_k (rev blk) hs))"

function sha_blocks :: "w32 list \<Rightarrow> w32 list \<Rightarrow> w32 list" where
  "sha_blocks ws hs =
     (if ws = [] then hs else sha_blocks (drop 16 ws) (sha_block (take 16 ws) hs))"
  by pat_completeness auto
termination
  by (relation "measure (\<lambda>(ws, hs). length ws)") auto

declare sha_blocks.simps [simp del]

definition hex_digit :: "nat \<Rightarrow> char" where
  "hex_digit n = (if n < 10 then char_of (48 + n) else char_of (87 + n))"

definition hex_word :: "w32 \<Rightarrow> bytes" where
  "hex_word w = map (\<lambda>i. hex_digit (unat w div 16 ^ i mod 16)) [7, 6, 5, 4, 3, 2, 1, 0]"

text \<open>\<open>hex.EncodeToString(sha256.Sum256(b)[:])\<close>.\<close>

definition sha256_hex :: "bytes \<Rightarrow> bytes" where
  "sha256_hex m = concat (map hex_word (sha_blocks (words_of (sha_pad m)) sha_init))"

lemma length_sha_round: "length (sha_round k w v) = length v"
  by (simp add: sha_round_def Let_def split: list.splits)

lemma length_sha_rounds: "length (sha_rounds ks ws v) = length v"
  by (induction ks ws v rule: sha_rounds.induct) (simp_all add: length_sha_round)

lemma length_sha_blocks: "length (sha_blocks ws hs) = length hs"
proof (induction ws hs rule: sha_blocks.induct)
  case (1 ws hs)
  then show ?case
    by (subst sha_blocks.simps) (simp add: sha_block_def length_sha_rounds)
qed

lemma length_concat_hex: "length (concat (map hex_word ws)) = 8 * length ws"
  by (induction ws) (simp_all add: hex_word_def)

lemma length_sha256_hex [simp]: "length (sha256_hex m) = 64"
  by (simp add: sha256_hex_def length_concat_hex length_sha_blocks) (simp add: sha_init_def)

end
