(* ===== verification/Store_Schema.thy ===== *)
theory Store_Schema
  imports Sha256 "HOL-Library.AList"
begin

text \<open>
  The content store of \<open>internal/store/store.go\<close>: its tables, its files, and the transaction
  machinery.  A table is a list of rows in rowid order; SQLite itself is not modelled beyond
  what its documentation says of the statements the package runs.

  A CAS file of \<open>artifacts/<h[:2]>/<h>\<close> is an entry of \<open>blobs\<close> under its file name; the name
  determines the directory.  An entry carries the error a read of it would meet, if any.
\<close>

section \<open>Rows and files\<close>

record artifact_row =
  a_id :: int
  a_hash :: bytes
  a_media :: bytes
  a_len :: int
  a_redaction :: bytes
  a_created :: int

record source_row =
  s_uri :: bytes
  s_artifact :: int
  s_kind :: bytes
  s_size :: int
  s_mtime :: int
  s_hash :: bytes
  s_raw :: "bytes option"
  s_extraction :: "bytes option"
  s_indexed :: int

record chunk_row =
  c_id :: int
  c_artifact :: int
  c_ordinal :: nat
  c_bytes :: "(int \<times> int) option"
  c_lines :: "int \<times> int"
  c_title :: bytes
  c_text :: bytes

record blob_file =
  b_data :: bytes
  b_mtime :: int
  b_fail :: "go_error option"

text \<open>A ledger row; the three columns \<open>ledgerFetchColumns\<close> are \<open>None\<close> where NULL.\<close>

record ledger_row =
  l_id :: int
  l_ts :: int
  l_tool :: bytes
  l_stored :: int
  l_returned :: int
  l_ms :: int
  l_artifact :: "int option"
  l_age :: "int option"
  l_owned :: "bool option"

text \<open>An index row of the two FTS5 tables: \<open>rowid, title, text\<close>.\<close>

type_synonym fts_row = "int \<times> bytes \<times> bytes"

text \<open>The database.  \<open>wm_table\<close> says whether \<open>id_watermark\<close> exists (its creation is
  fail-open), \<open>watermark\<close> is its row for \<open>'artifacts'\<close>.\<close>

record store =
  artifacts :: "artifact_row list"
  sources :: "source_row list"
  chunks :: "chunk_row list"
  fts_porter :: "fts_row list"
  fts_trigram :: "fts_row list"
  wm_table :: bool
  watermark :: "int option"
  blobs :: "(bytes \<times> blob_file) list"
  merge_stamp :: "int option"

definition empty_store :: store where
  "empty_store = \<lparr>artifacts = [], sources = [], chunks = [], fts_porter = [], fts_trigram = [],
     wm_table = True, watermark = None, blobs = [], merge_stamp = None\<rparr>"

section \<open>Inputs and outputs of the operations\<close>

record source_meta =
  m_uri :: bytes
  m_kind :: bytes
  m_size :: int
  m_mtime :: int
  m_hash :: bytes
  m_extraction :: bytes

record chunk =
  k_ordinal :: nat
  k_bstart :: int
  k_bend :: int
  k_lstart :: int
  k_lend :: int
  k_title :: bytes
  k_text :: bytes

record registration =
  r_bytes :: bytes
  r_media :: bytes
  r_redaction :: bytes
  r_source :: source_meta
  r_chunks :: "chunk list"
  r_expected :: bytes
  r_raw :: "bytes option"

text \<open>The three selector kinds, and what another string in \<open>Kind\<close> is.\<close>

datatype selector =
    ChunkSel int
  | LineSel int int
  | ByteSel int int
  | OtherSel bytes

record source_info =
  i_uri :: bytes
  i_kind :: bytes
  i_size :: int
  i_mtime :: int
  i_hash :: bytes
  i_extraction :: bytes

record range_result =
  x_text :: bytes
  x_bstart :: int
  x_bend :: int
  x_lstart :: int
  x_lend :: int
  x_artifact :: artifact_row
  x_source :: "source_info option"
  x_stale :: bool

definition nullIfEmpty :: "bytes \<Rightarrow> bytes option" where
  "nullIfEmpty v = (if v = [] then None else Some v)"

section \<open>Statements that fire triggers\<close>

text \<open>Trigger \<open>chunks_ai\<close>: an inserted chunk is indexed in both tables.  The row id is the one
  SQLite picks for an \<open>INTEGER PRIMARY KEY\<close> left out of the statement.\<close>

definition next_rowid :: "int list \<Rightarrow> int" where
  "next_rowid ids = (if ids = [] then 1 else Max (set ids) + 1)"

definition fts_of :: "chunk_row \<Rightarrow> fts_row" where
  "fts_of c = (c_id c, c_title c, c_text c)"

definition insert_chunk :: "int \<Rightarrow> chunk \<Rightarrow> store \<Rightarrow> go_error + store" where
  "insert_chunk art k st =
     (if \<exists>c \<in> set (chunks st). c_artifact c = art \<and> c_ordinal c = k_ordinal k
      then Inl (ErrOther ''UNIQUE constraint failed: chunks.artifact_id, chunks.ordinal'')
      else
        let c = \<lparr>c_id = next_rowid (map c_id (chunks st)), c_artifact = art,
                 c_ordinal = k_ordinal k, c_bytes = Some (k_bstart k, k_bend k),
                 c_lines = (k_lstart k, k_lend k), c_title = k_title k, c_text = k_text k\<rparr>
        in Inr (st\<lparr>chunks := chunks st @ [c],
                   fts_porter := fts_porter st @ [fts_of c],
                   fts_trigram := fts_trigram st @ [fts_of c]\<rparr>))"

fun insert_chunks :: "int \<Rightarrow> chunk list \<Rightarrow> store \<Rightarrow> go_error + store" where
  "insert_chunks art [] st = Inr st"
| "insert_chunks art (k # ks) st =
     (case insert_chunk art k st of
        Inl e \<Rightarrow> Inl e
      | Inr st' \<Rightarrow> insert_chunks art ks st')"

text \<open>Trigger \<open>chunks_ad\<close>: \<open>DELETE FROM chunks WHERE P\<close> hands every deleted row to the
  \<open>'delete'\<close> command of both index tables.\<close>

definition delete_chunks :: "(chunk_row \<Rightarrow> bool) \<Rightarrow> store \<Rightarrow> store" where
  "delete_chunks P st =
     (let gone = map fts_of (filter P (chunks st)) in
      st\<lparr>chunks := filter (\<lambda>c. \<not> P c) (chunks st),
         fts_porter := filter (\<lambda>r. r \<notin> set gone) (fts_porter st),
         fts_trigram := filter (\<lambda>r. r \<notin> set gone) (fts_trigram st)\<rparr>)"

text \<open>\<open>INSERT INTO fts(fts, rank) VALUES('integrity-check', 1)\<close> compares an index with its
  content table.\<close>

definition checkFTSIntegrity :: "store \<Rightarrow> go_error option" where
  "checkFTSIntegrity st =
     (if fts_porter st \<noteq> map fts_of (chunks st) then Some (ErrOther ''fts_porter integrity-check'')
      else if fts_trigram st \<noteq> map fts_of (chunks st)
        then Some (ErrOther ''fts_trigram integrity-check'')
      else None)"

section \<open>Transactions\<close>

text \<open>The world around the writer: the outcomes of the coming \<open>BeginTx\<close>/\<open>Commit\<close> calls and of
  the coming waits on the context, each list used up from its front; past its end nothing
  fails.\<close>

record env =
  e_tx :: "go_error option list"
  e_ctx :: "go_error option list"

type_synonym 's tx_world = "env \<times> 's"

type_synonym world = "store tx_world"

definition pop :: "'a option list \<Rightarrow> 'a option \<times> 'a option list" where
  "pop xs = (case xs of [] \<Rightarrow> (None, []) | x # xs' \<Rightarrow> (x, xs'))"

text \<open>\<open>runTx\<close>: begin, run the body, roll back on its error, commit otherwise.  A body returns
  the new database or an error; the database changes on a successful commit only.\<close>

definition runTx ::
  "('s \<Rightarrow> go_error + ('a \<times> 's)) \<Rightarrow> 's tx_world \<Rightarrow> 's tx_world \<times> (go_error + 'a)" where
  "runTx fn w =
     (case w of (v, st) \<Rightarrow>
        (case pop (e_tx v) of
           (Some e, rest) \<Rightarrow> ((v\<lparr>e_tx := rest\<rparr>, st), Inl e)
         | (None, rest) \<Rightarrow>
             (case fn st of
                Inl e \<Rightarrow> ((v\<lparr>e_tx := rest\<rparr>, st), Inl e)
              | Inr (x, st') \<Rightarrow>
                  (case pop rest of
                     (Some e, rest') \<Rightarrow> ((v\<lparr>e_tx := rest'\<rparr>, st), Inl e)
                   | (None, rest') \<Rightarrow> ((v\<lparr>e_tx := rest'\<rparr>, st'), Inr x)))))"

definition isBusy :: "go_error + 'a \<Rightarrow> bool" where
  "isBusy r \<longleftrightarrow> r = Inl SqliteBusy"

definition ctx_wait :: "'s tx_world \<Rightarrow> 's tx_world \<times> (go_error + 'a) option" where
  "ctx_wait w =
     (case w of (v, st) \<Rightarrow>
        (case pop (e_ctx v) of (e, rest) \<Rightarrow> ((v\<lparr>e_ctx := rest\<rparr>, st), map_option Inl e)))"

text \<open>\<open>txRetry\<close>: three delays, so four attempts at most.  \<open>n\<close> is the number of delays left.\<close>

fun txRetry_loop ::
  "nat \<Rightarrow> ('s tx_world \<Rightarrow> 's tx_world \<times> (go_error + 'a)) \<Rightarrow> 's tx_world \<Rightarrow>
     's tx_world \<times> (go_error + 'a)" where
  "txRetry_loop n call w =
     (case call w of (w1, r) \<Rightarrow>
        if \<not> isBusy r then (w1, r)
        else (case n of
            0 \<Rightarrow> (w1, Inl StoreUnavailable)
          | Suc m \<Rightarrow>
              (case ctx_wait w1 of
                 (w2, Some e) \<Rightarrow> (w2, e)
               | (w2, None) \<Rightarrow> txRetry_loop m call w2)))"

declare txRetry_loop.simps [simp del]

definition txRetry ::
  "('s \<Rightarrow> go_error + ('a \<times> 's)) \<Rightarrow> 's tx_world \<Rightarrow> 's tx_world \<times> (go_error + 'a)" where
  "txRetry fn w = txRetry_loop 3 (runTx fn) w"

interpretation store_retry:
  bounded_retry txRetry_loop ctx_wait isBusy "\<lambda>r. r" "\<lambda>r. Inl StoreUnavailable"
  by unfold_locales (simp_all add: txRetry_loop.simps)

end
