(* ===== verification/Store_Register.thy ===== *)
theory Store_Register
  imports Store_Schema
begin

text \<open>
  The write path of the store: blob placement, id issue and \<open>Register\<close>, with the
  well-formedness every operation of the store keeps.
\<close>

section \<open>Transactions are atomic\<close>

lemma runTx_Inl: "runTx fn w = (w', Inl e) \<Longrightarrow> snd w' = snd w"
  by (auto simp: runTx_def split: prod.splits option.splits sum.splits)

lemma runTx_Inr: "runTx fn w = (w', Inr x) \<Longrightarrow> fn (snd w) = Inr (x, snd w')"
  by (auto simp: runTx_def split: prod.splits option.splits sum.splits)

lemma ctx_wait_store: "ctx_wait w = (w', e) \<Longrightarrow> snd w' = snd w"
  by (auto simp: ctx_wait_def split: prod.splits)

lemma ctx_wait_Some: "ctx_wait w = (w', Some r) \<Longrightarrow> \<exists>e. r = Inl e"
  by (auto simp: ctx_wait_def split: prod.splits)

lemma txRetry_loop_cases:
  fixes r :: "go_error + 'a"
  shows "txRetry_loop n (runTx fn) w = (w', r) \<Longrightarrow>
     (\<exists>e. r = Inl e) \<and> snd w' = snd w \<or> (\<exists>x. r = Inr x \<and> fn (snd w) = Inr (x, snd w'))"
proof (induction n arbitrary: w)
  case 0
  obtain w1 r1 where w1: "runTx fn w = (w1, r1)" by fastforce
  show ?case
  proof (cases r1)
    case (Inl e)
    with w1 0 runTx_Inl [of fn w w1 e] show ?thesis
      by (auto simp: txRetry_loop.simps [of 0] split: if_splits)
  next
    case (Inr x)
    with w1 0 runTx_Inr [of fn w w1 x] show ?thesis
      by (auto simp: txRetry_loop.simps [of 0] isBusy_def)
  qed
next
  case (Suc n)
  obtain w1 r1 where w1: "runTx fn w = (w1, r1)" by fastforce
  obtain w2 and c :: "(go_error + 'a) option" where w2: "ctx_wait w1 = (w2, c)" by fastforce
  show ?case
  proof (cases "isBusy r1")
    case False
    with Suc.prems w1 show ?thesis
      by (cases r1) (auto simp: txRetry_loop.simps [of "Suc n"] dest: runTx_Inl runTx_Inr)
  next
    case True
    then have s: "snd w2 = snd w"
      using w1 w2 runTx_Inl ctx_wait_store unfolding isBusy_def by metis
    show ?thesis
    proof (cases c)
      case None
      with Suc.prems w1 w2 True have "txRetry_loop n (runTx fn) w2 = (w', r)"
        by (simp add: txRetry_loop.simps [of "Suc n"])
      with Suc.IH s show ?thesis by metis
    next
      case (Some e)
      with Suc.prems w1 w2 True s show ?thesis
        by (auto simp: txRetry_loop.simps [of "Suc n"] dest: ctx_wait_Some)
    qed
  qed
qed

lemma txRetry_Inl: "txRetry fn w = (w', Inl e) \<Longrightarrow> snd w' = snd w"
  unfolding txRetry_def by (drule txRetry_loop_cases) simp

lemma txRetry_Inr: "txRetry fn w = (w', Inr x) \<Longrightarrow> fn (snd w) = Inr (x, snd w')"
  unfolding txRetry_def by (drule txRetry_loop_cases) simp

lemma txRetry_preserves:
  assumes "txRetry fn w = (w', r)" and "P (snd w)"
    and "\<And>st x st'. P st \<Longrightarrow> fn st = Inr (x, st') \<Longrightarrow> P st'"
  shows "P (snd w')"
  using assms by (cases r) (auto dest: txRetry_Inl txRetry_Inr)

section \<open>Blob files\<close>

text \<open>Where \<open>writeBlob\<close> can fail: directory, temporary file, write/sync/close, rename.  On
  every failure the temporary file is gone or was never there.\<close>

datatype write_fault =
    WriteOK | FailMkdir go_error | FailOpen go_error | FailWrite go_error | FailRename go_error

definition writeBlob ::
  "write_fault \<Rightarrow> int \<Rightarrow> bytes \<Rightarrow> bytes \<Rightarrow> store \<Rightarrow> store \<times> go_error option" where
  "writeBlob f now h data st =
     (case f of
        FailMkdir e \<Rightarrow> (st, Some e)
      | FailOpen e \<Rightarrow> (st, Some e)
      | FailWrite e \<Rightarrow> (st, Some e)
      | FailRename e \<Rightarrow> (st, Some e)
      | WriteOK \<Rightarrow>
          (st\<lparr>blobs := AList.update h \<lparr>b_data = data, b_mtime = now, b_fail = None\<rparr> (blobs st)\<rparr>,
           None))"

definition readBlob :: "store \<Rightarrow> bytes \<Rightarrow> go_error + bytes" where
  "readBlob st h =
     (case map_of (blobs st) h of
        None \<Rightarrow> Inl FsNotExist
      | Some b \<Rightarrow> (case b_fail b of Some e \<Rightarrow> Inl e | None \<Rightarrow> Inr (b_data b)))"

section \<open>Register\<close>

definition nextArtifactID :: "store \<Rightarrow> int" where
  "nextArtifactID st =
     (let watermark = (if wm_table st then case watermark st of Some w \<Rightarrow> w | None \<Rightarrow> 0 else 0);
          maxID = (if artifacts st = [] then 0 else Max (set (map a_id (artifacts st))))
      in max watermark maxID + 1)"

text \<open>The upsert of the watermark row; without the table it is a logged failure.\<close>

definition bump_watermark :: "int \<Rightarrow> store \<Rightarrow> store" where
  "bump_watermark i st =
     (if wm_table st
      then st\<lparr>watermark := Some (case watermark st of None \<Rightarrow> i | Some w \<Rightarrow> max w i)\<rparr>
      else st)"

definition find_artifact :: "bytes \<Rightarrow> bytes \<Rightarrow> store \<Rightarrow> artifact_row option" where
  "find_artifact h m st = List.find (\<lambda>a. a_hash a = h \<and> a_media a = m) (artifacts st)"

definition insert_artifact :: "int \<Rightarrow> bytes \<Rightarrow> registration \<Rightarrow> int \<Rightarrow> store \<Rightarrow> store" where
  "insert_artifact i h reg now st =
     st\<lparr>artifacts := artifacts st @
          [\<lparr>a_id = i, a_hash = h, a_media = r_media reg, a_len = int (length (r_bytes reg)),
            a_redaction = r_redaction reg, a_created = now\<rparr>]\<rparr>"

text \<open>Select the artifact of this content and media type, or insert it with its chunks.\<close>

definition select_or_insert ::
  "bytes \<Rightarrow> registration \<Rightarrow> int \<Rightarrow> store \<Rightarrow> go_error + (int \<times> store)" where
  "select_or_insert h reg now st =
     (case find_artifact h (r_media reg) st of
        Some a \<Rightarrow> Inr (a_id a, st)
      | None \<Rightarrow>
          let i = nextArtifactID st;
              st1 = bump_watermark i (insert_artifact i h reg now st)
          in (case insert_chunks i (r_chunks reg) st1 of
                Inl e \<Rightarrow> Inl e
              | Inr st2 \<Rightarrow> Inr (i, st2)))"

definition source_row_of :: "int \<Rightarrow> bytes \<Rightarrow> registration \<Rightarrow> int \<Rightarrow> source_row" where
  "source_row_of art rawh reg now =
     \<lparr>s_uri = m_uri (r_source reg), s_artifact = art, s_kind = m_kind (r_source reg),
      s_size = m_size (r_source reg), s_mtime = m_mtime (r_source reg),
      s_hash = m_hash (r_source reg), s_raw = nullIfEmpty rawh,
      s_extraction = nullIfEmpty (m_extraction (r_source reg)), s_indexed = now\<rparr>"

definition cas_source :: "source_row \<Rightarrow> bytes \<Rightarrow> store \<Rightarrow> go_error + store" where
  "cas_source row old st =
     (if \<exists>s \<in> set (sources st). s_uri s = s_uri row \<and> s_hash s = old
      then Inr (st\<lparr>sources :=
             map (\<lambda>s. if s_uri s = s_uri row \<and> s_hash s = old then row else s) (sources st)\<rparr>)
      else Inl StoreConflict)"

definition upsert_source :: "source_row \<Rightarrow> store \<Rightarrow> store" where
  "upsert_source row st =
     st\<lparr>sources :=
          (if \<exists>s \<in> set (sources st). s_uri s = s_uri row
           then map (\<lambda>s. if s_uri s = s_uri row then row else s) (sources st)
           else sources st @ [row])\<rparr>"

definition register_tx ::
  "bytes \<Rightarrow> bytes \<Rightarrow> registration \<Rightarrow> int \<Rightarrow> store \<Rightarrow> go_error + (int \<times> store)" where
  "register_tx h rawh reg now st =
     (case select_or_insert h reg now st of
        Inl e \<Rightarrow> Inl e
      | Inr (art, st1) \<Rightarrow>
          let row = source_row_of art rawh reg now in
          if r_expected reg \<noteq> [] then
            (case cas_source row (r_expected reg) st1 of
               Inl e \<Rightarrow> Inl e
             | Inr st2 \<Rightarrow> Inr (art, st2))
          else Inr (art, upsert_source row st1))"

text \<open>The clock and the file faults one call meets.\<close>

record reg_io =
  w_blob :: write_fault
  w_raw :: write_fault
  w_now :: int

definition Register ::
  "reg_io \<Rightarrow> registration \<Rightarrow> world \<Rightarrow> world \<times> (go_error + int)" where
  "Register io reg w =
     (case w of (v, st) \<Rightarrow>
        let contentHash = sha256_hex (r_bytes reg) in
        (case writeBlob (w_blob io) (w_now io) contentHash (r_bytes reg) st of
           (st1, Some e) \<Rightarrow> ((v, st1), Inl e)
         | (st1, None) \<Rightarrow>
             (case r_raw reg of
                None \<Rightarrow> txRetry (register_tx contentHash [] reg (w_now io)) (v, st1)
              | Some raw \<Rightarrow>
                  let rawHash = sha256_hex raw in
                  (case writeBlob (w_raw io) (w_now io) rawHash raw st1 of
                     (st2, Some e) \<Rightarrow> ((v, st2), Inl e)
                   | (st2, None) \<Rightarrow>
                       txRetry (register_tx contentHash rawHash reg (w_now io)) (v, st2)))))"

section \<open>Well-formedness\<close>

text \<open>The constraints of \<open>schemaV1\<close> (keys, uniqueness, references), the two FTS tables in
  step with \<open>chunks\<close>, and a watermark that covers every id it was there to record.\<close>

definition artifacts_ok :: "store \<Rightarrow> bool" where
  "artifacts_ok st \<longleftrightarrow>
     distinct (map a_id (artifacts st))
     \<and> distinct (map (\<lambda>a. (a_hash a, a_media a)) (artifacts st))
     \<and> (\<forall>a \<in> set (artifacts st). 0 < a_id a)"

definition sources_ok :: "store \<Rightarrow> bool" where
  "sources_ok st \<longleftrightarrow>
     distinct (map s_uri (sources st))
     \<and> (\<forall>s \<in> set (sources st). s_artifact s \<in> a_id ` set (artifacts st))"

definition chunks_ok :: "store \<Rightarrow> bool" where
  "chunks_ok st \<longleftrightarrow>
     distinct (map c_id (chunks st))
     \<and> distinct (map (\<lambda>c. (c_artifact c, c_ordinal c)) (chunks st))
     \<and> (\<forall>c \<in> set (chunks st). c_artifact c \<in> a_id ` set (artifacts st))"

definition fts_ok :: "store \<Rightarrow> bool" where
  "fts_ok st \<longleftrightarrow> fts_porter st = map fts_of (chunks st) \<and> fts_trigram st = map fts_of (chunks st)"

definition watermark_ok :: "store \<Rightarrow> bool" where
  "watermark_ok st \<longleftrightarrow> (\<forall>w. watermark st = Some w \<longrightarrow> 0 < w)"

text \<open>Content addressing: a file under a hash name holds content of that hash, and every hash
  the database mentions has its file.\<close>

definition cas_ok :: "store \<Rightarrow> bool" where
  "cas_ok st \<longleftrightarrow>
     distinct (map fst (blobs st))
     \<and> (\<forall>(n, b) \<in> set (blobs st). length n = 64 \<longrightarrow> sha256_hex (b_data b) = n)"

definition referenced :: "store \<Rightarrow> bytes \<Rightarrow> bool" where
  "referenced st h \<longleftrightarrow>
     (\<exists>a \<in> set (artifacts st). a_hash a = h) \<or> (\<exists>s \<in> set (sources st). s_raw s = Some h)"

definition blobs_present :: "store \<Rightarrow> bool" where
  "blobs_present st \<longleftrightarrow> (\<forall>h. referenced st h \<longrightarrow> length h = 64 \<and> h \<in> set (map fst (blobs st)))"

definition store_ok :: "store \<Rightarrow> bool" where
  "store_ok st \<longleftrightarrow>
     artifacts_ok st \<and> sources_ok st \<and> chunks_ok st \<and> fts_ok st \<and> watermark_ok st
     \<and> cas_ok st \<and> blobs_present st"

lemmas store_ok_defs =
  store_ok_def artifacts_ok_def sources_ok_def chunks_ok_def fts_ok_def watermark_ok_def

lemma store_ok_empty: "store_ok empty_store"
  by (simp add: store_ok_defs cas_ok_def blobs_present_def referenced_def empty_store_def)

section \<open>Each step keeps the well-formedness\<close>

lemma nextArtifactID_above_ids:
  assumes "a \<in> set (artifacts st)"
  shows "a_id a < nextArtifactID st"
proof -
  have "a_id a \<le> Max (set (map a_id (artifacts st)))" and "artifacts st \<noteq> []"
    using assms by (auto intro!: Max_ge)
  then show ?thesis by (simp add: nextArtifactID_def Let_def)
qed

lemma nextArtifactID_above_watermark:
  "wm_table st \<Longrightarrow> watermark st = Some w \<Longrightarrow> w < nextArtifactID st"
  by (auto simp: nextArtifactID_def Let_def max_def)

lemma nextArtifactID_positive:
  assumes "store_ok st"
  shows "0 < nextArtifactID st"
proof (cases "artifacts st")
  case Nil
  then show ?thesis by (auto simp: nextArtifactID_def Let_def max_def)
next
  case (Cons a as)
  with assms have "0 < a_id a" by (auto simp: store_ok_defs)
  with nextArtifactID_above_ids [of a st] Cons show ?thesis by simp
qed

lemma next_rowid_fresh: "next_rowid ids \<notin> set ids"
  using Max_ge [of "set ids" "Max (set ids) + 1"] by (auto simp: next_rowid_def)

lemma blobs_writeBlob:
  "writeBlob f now h data st = (st', None) \<Longrightarrow>
     st' = st\<lparr>blobs := AList.update h \<lparr>b_data = data, b_mtime = now, b_fail = None\<rparr> (blobs st)\<rparr>"
  by (auto simp: writeBlob_def split: write_fault.splits)

lemma writeBlob_failed: "writeBlob f now h data st = (st', Some e) \<Longrightarrow> st' = st"
  by (auto simp: writeBlob_def split: write_fault.splits)

lemma set_alist_update:
  assumes "distinct (map fst al)"
  shows "(n, b) \<in> set (AList.update h x al) \<longleftrightarrow> (if n = h then b = x else (n, b) \<in> set al)"
proof -
  have "(n, b) \<in> set (AList.update h x al) \<longleftrightarrow> map_of (AList.update h x al) n = Some b"
    by (simp add: map_of_eq_Some_iff distinct_update assms)
  also have "\<dots> \<longleftrightarrow> (if n = h then b = x else map_of al n = Some b)"
    by (auto simp: update_conv')
  finally show ?thesis by (simp add: map_of_eq_Some_iff assms)
qed

lemma writeBlob_ok:
  assumes ok: "store_ok st" and w: "writeBlob f now (sha256_hex data) data st = (st', r)"
  shows "store_ok st'"
proof (cases r)
  case (Some e)
  with w ok show ?thesis by (auto dest: writeBlob_failed)
next
  case None
  have d: "distinct (map fst (blobs st))" using ok by (simp add: store_ok_def cas_ok_def)
  have st': "st' = st\<lparr>blobs := AList.update (sha256_hex data)
      \<lparr>b_data = data, b_mtime = now, b_fail = None\<rparr> (blobs st)\<rparr>"
    using w None by (simp add: blobs_writeBlob)
  have "cas_ok st'"
    using ok unfolding st' store_ok_def cas_ok_def
    by (auto simp: distinct_update set_alist_update [OF d] split: if_splits)
  moreover have "blobs_present st'"
    using ok unfolding st' store_ok_def blobs_present_def referenced_def
    by (auto simp: dom_update)
  ultimately show ?thesis using ok unfolding st' by (simp add: store_ok_defs)
qed

lemma insert_chunk_shape:
  assumes "insert_chunk art k st = Inr st'"
  obtains c where
    "st' = st\<lparr>chunks := chunks st @ [c], fts_porter := fts_porter st @ [fts_of c],
       fts_trigram := fts_trigram st @ [fts_of c]\<rparr>"
    and "c_artifact c = art" and "c_id c \<notin> c_id ` set (chunks st)"
    and "\<forall>d \<in> set (chunks st). (c_artifact d, c_ordinal d) \<noteq> (art, c_ordinal c)"
    and "c_ordinal c = k_ordinal k" and "c_text c = k_text k" and "c_title c = k_title k"
    and "c_bytes c = Some (k_bstart k, k_bend k)" and "c_lines c = (k_lstart k, k_lend k)"
    and "c_id c = next_rowid (map c_id (chunks st))"
  using assms next_rowid_fresh [of "map c_id (chunks st)"]
  by (fastforce simp: insert_chunk_def Let_def split: if_splits)

lemma chunks_snoc_ok:
  assumes "store_ok st" and "art \<in> a_id ` set (artifacts st)" and "c_artifact c = art"
    and "c_id c \<notin> c_id ` set (chunks st)"
    and "\<forall>d \<in> set (chunks st). (c_artifact d, c_ordinal d) \<noteq> (art, c_ordinal c)"
  shows "store_ok (st\<lparr>chunks := chunks st @ [c], fts_porter := fts_porter st @ [fts_of c],
       fts_trigram := fts_trigram st @ [fts_of c]\<rparr>)"
  using assms by (auto simp: store_ok_defs cas_ok_def blobs_present_def referenced_def)

lemma insert_chunk_ok:
  assumes "insert_chunk art k st = Inr st'" and "store_ok st"
    and "art \<in> a_id ` set (artifacts st)"
  shows "store_ok st' \<and> artifacts st' = artifacts st \<and> sources st' = sources st
    \<and> blobs st' = blobs st \<and> watermark st' = watermark st \<and> wm_table st' = wm_table st"
  using assms(1)
proof (rule insert_chunk_shape)
  fix c
  assume st': "st' = st\<lparr>chunks := chunks st @ [c], fts_porter := fts_porter st @ [fts_of c],
       fts_trigram := fts_trigram st @ [fts_of c]\<rparr>"
    and "c_artifact c = art" "c_id c \<notin> c_id ` set (chunks st)"
    "\<forall>d \<in> set (chunks st). (c_artifact d, c_ordinal d) \<noteq> (art, c_ordinal c)"
  then show ?thesis using chunks_snoc_ok assms(2,3) by simp
qed

lemma insert_chunks_ok:
  "insert_chunks art ks st = Inr st' \<Longrightarrow> store_ok st \<Longrightarrow> art \<in> a_id ` set (artifacts st) \<Longrightarrow>
     store_ok st' \<and> artifacts st' = artifacts st \<and> sources st' = sources st
     \<and> blobs st' = blobs st \<and> watermark st' = watermark st \<and> wm_table st' = wm_table st"
proof (induction ks arbitrary: st)
  case (Cons k ks)
  then show ?case
    by (auto split: sum.splits dest!: insert_chunk_ok)
qed simp

lemma find_artifact_Some:
  "find_artifact h m st = Some a \<Longrightarrow> a \<in> set (artifacts st) \<and> a_hash a = h \<and> a_media a = m"
  unfolding find_artifact_def by (metis (mono_tags, lifting) find_Some_iff nth_mem)

lemma find_artifact_None:
  "find_artifact h m st = None \<Longrightarrow> a \<in> set (artifacts st) \<Longrightarrow> (a_hash a, a_media a) \<noteq> (h, m)"
  by (auto simp: find_artifact_def find_None_iff)

lemma insert_artifact_ok:
  assumes ok: "store_ok st" and new: "find_artifact h (r_media reg) st = None"
    and blob: "length h = 64" "h \<in> set (map fst (blobs st))"
  shows "store_ok (bump_watermark (nextArtifactID st) (insert_artifact (nextArtifactID st) h reg now st))"
proof -
  let ?i = "nextArtifactID st"
  let ?s1 = "insert_artifact ?i h reg now st"
  have i: "0 < ?i" "?i \<notin> a_id ` set (artifacts st)"
    using nextArtifactID_positive [OF ok] nextArtifactID_above_ids by fastforce+
  have "(h, r_media reg) \<notin> (\<lambda>a. (a_hash a, a_media a)) ` set (artifacts st)"
    using find_artifact_None [OF new] by (metis (no_types, lifting) imageE)
  then have "artifacts_ok ?s1"
    using ok i by (auto simp: store_ok_def artifacts_ok_def insert_artifact_def)
  moreover have "sources_ok ?s1" "chunks_ok ?s1" "fts_ok ?s1" "watermark_ok ?s1" "cas_ok ?s1"
    "blobs_present ?s1"
    using ok blob
    by (auto simp: store_ok_defs cas_ok_def blobs_present_def referenced_def insert_artifact_def)
  ultimately have s1: "store_ok ?s1" by (simp add: store_ok_def)
  then show ?thesis
    using i by (auto simp: bump_watermark_def store_ok_defs cas_ok_def blobs_present_def
        referenced_def split: option.splits)
qed

lemma bump_watermark_sel [simp]:
  "artifacts (bump_watermark i st) = artifacts st" "sources (bump_watermark i st) = sources st"
  "chunks (bump_watermark i st) = chunks st" "blobs (bump_watermark i st) = blobs st"
  "wm_table (bump_watermark i st) = wm_table st"
  "fts_porter (bump_watermark i st) = fts_porter st"
  "fts_trigram (bump_watermark i st) = fts_trigram st"
  by (simp_all add: bump_watermark_def)

lemma insert_artifact_sel [simp]:
  "sources (insert_artifact i h reg now st) = sources st"
  "chunks (insert_artifact i h reg now st) = chunks st"
  "blobs (insert_artifact i h reg now st) = blobs st"
  "wm_table (insert_artifact i h reg now st) = wm_table st"
  "watermark (insert_artifact i h reg now st) = watermark st"
  by (simp_all add: insert_artifact_def)

lemma select_or_insert_ok:
  assumes sel: "select_or_insert h reg now st = Inr (art, st')" and ok: "store_ok st"
    and blob: "length h = 64" "h \<in> set (map fst (blobs st))"
  shows "store_ok st' \<and> (\<exists>a \<in> set (artifacts st'). a_id a = art \<and> a_hash a = h \<and> a_media a = r_media reg)
    \<and> sources st' = sources st \<and> blobs st' = blobs st \<and> wm_table st' = wm_table st"
proof (cases "find_artifact h (r_media reg) st")
  case (Some a)
  with sel ok find_artifact_Some [OF Some] show ?thesis
    by (auto simp: select_or_insert_def)
next
  case None
  let ?s1 = "bump_watermark (nextArtifactID st) (insert_artifact (nextArtifactID st) h reg now st)"
  have art: "art = nextArtifactID st" and ins: "insert_chunks art (r_chunks reg) ?s1 = Inr st'"
    using sel None by (auto simp: select_or_insert_def Let_def split: sum.splits)
  have "store_ok ?s1" using insert_artifact_ok [OF ok None blob] .
  moreover have "art \<in> a_id ` set (artifacts ?s1)"
    by (simp add: art insert_artifact_def)
  ultimately have "store_ok st'" "artifacts st' = artifacts ?s1" "sources st' = sources st"
    "blobs st' = blobs st" "wm_table st' = wm_table st"
    using insert_chunks_ok [OF ins] by simp_all
  then show ?thesis by (simp add: art insert_artifact_def)
qed

lemma distinct_map_replace:
  "distinct (map f xs) \<Longrightarrow> f row = k \<Longrightarrow>
     distinct (map f (map (\<lambda>x. if f x = k \<and> P x then row else x) xs))"
  by (induction xs) (auto simp: image_iff split: if_splits)

lemma sources_ok_I:
  assumes "store_ok st" and "distinct (map s_uri ss)"
    and "\<And>s. s \<in> set ss \<Longrightarrow> s_artifact s \<in> a_id ` set (artifacts st)"
    and "\<And>s h. s \<in> set ss \<Longrightarrow> s_raw s = Some h \<Longrightarrow> length h = 64 \<and> h \<in> set (map fst (blobs st))"
  shows "store_ok (st\<lparr>sources := ss\<rparr>)"
  using assms by (auto simp: store_ok_defs cas_ok_def blobs_present_def referenced_def)

lemma source_facts:
  assumes "store_ok st" and "s \<in> set (sources st)"
  shows "s_artifact s \<in> a_id ` set (artifacts st)"
    and "s_raw s = Some h \<Longrightarrow> length h = 64 \<and> h \<in> set (map fst (blobs st))"
  using assms by (auto simp: store_ok_defs blobs_present_def referenced_def)

lemma cas_source_ok:
  assumes "cas_source row old st = Inr st'" and ok: "store_ok st"
    and "s_artifact row \<in> a_id ` set (artifacts st)"
    and "\<And>h. s_raw row = Some h \<Longrightarrow> length h = 64 \<and> h \<in> set (map fst (blobs st))"
  shows "store_ok st'"
proof -
  have st': "st' = st\<lparr>sources :=
      map (\<lambda>s. if s_uri s = s_uri row \<and> s_hash s = old then row else s) (sources st)\<rparr>"
    using assms(1) by (auto simp: cas_source_def split: if_splits)
  have d: "distinct (map s_uri (sources st))" using ok by (simp add: store_ok_defs)
  show ?thesis unfolding st'
    using assms source_facts [OF ok] distinct_map_replace [OF d, of row "s_uri row" "\<lambda>s. s_hash s = old"]
    by (intro sources_ok_I [OF ok]) auto
qed

lemma upsert_source_ok:
  assumes ok: "store_ok st" and "s_artifact row \<in> a_id ` set (artifacts st)"
    and "\<And>h. s_raw row = Some h \<Longrightarrow> length h = 64 \<and> h \<in> set (map fst (blobs st))"
  shows "store_ok (upsert_source row st)"
proof -
  have d: "distinct (map s_uri (sources st))" using ok by (simp add: store_ok_defs)
  show ?thesis unfolding upsert_source_def
    using assms source_facts [OF ok] d distinct_map_replace [OF d, of row "s_uri row" "\<lambda>s. True"]
    by (intro sources_ok_I [OF ok]) (auto split: if_splits)
qed

lemma register_tx_ok:
  assumes tx: "register_tx h rawh reg now st = Inr (art, st')" and ok: "store_ok st"
    and blob: "length h = 64" "h \<in> set (map fst (blobs st))"
    and raw: "rawh = [] \<or> length rawh = 64 \<and> rawh \<in> set (map fst (blobs st))"
  shows "store_ok st'"
proof -
  let ?row = "source_row_of art rawh reg now"
  obtain st1 where sel: "select_or_insert h reg now st = Inr (art, st1)"
    and rest: "(if r_expected reg \<noteq> [] then cas_source ?row (r_expected reg) st1 = Inr st'
                else st' = upsert_source ?row st1)"
    using tx by (auto simp: register_tx_def Let_def split: sum.splits prod.splits if_splits)
  note s1 = select_or_insert_ok [OF sel ok blob]
  have art: "s_artifact ?row \<in> a_id ` set (artifacts st1)" and st1: "store_ok st1"
    using s1 by (auto simp: source_row_of_def)
  have row: "\<And>x. s_raw ?row = Some x \<Longrightarrow> length x = 64 \<and> x \<in> set (map fst (blobs st1))"
    using raw s1 by (auto simp: source_row_of_def nullIfEmpty_def split: if_splits)
  show ?thesis
  proof (cases "r_expected reg = []")
    case True
    with rest upsert_source_ok [OF st1 art row] show ?thesis by simp
  next
    case False
    with rest cas_source_ok [OF _ st1 art row] show ?thesis by simp
  qed
qed

text \<open>The shape of a call: the first file written or not, the second too, and then the
  transaction on a store that differs from the old one in its files only.\<close>

lemma Register_cases:
  assumes "Register io reg (v, st) = ((v', st'), r)"
  obtains (failed1) e where "r = Inl e" "st' = st"
    | (failed2) e raw st1 where "r = Inl e" "r_raw reg = Some raw" "st' = st1"
        "writeBlob (w_blob io) (w_now io) (sha256_hex (r_bytes reg)) (r_bytes reg) st = (st1, None)"
    | (ran) st1 rawh w where
        "writeBlob (w_blob io) (w_now io) (sha256_hex (r_bytes reg)) (r_bytes reg) st = (st1, None)"
        "(case r_raw reg of None \<Rightarrow> rawh = [] \<and> snd w = st1
          | Some raw \<Rightarrow> rawh = sha256_hex raw
              \<and> writeBlob (w_raw io) (w_now io) rawh raw st1 = (snd w, None))"
        "txRetry (register_tx (sha256_hex (r_bytes reg)) rawh reg (w_now io)) w = ((v', st'), r)"
proof -
  obtain st1 e1 where w1: "writeBlob (w_blob io) (w_now io) (sha256_hex (r_bytes reg))
      (r_bytes reg) st = (st1, e1)" by fastforce
  show ?thesis
  proof (cases e1)
    case (Some e)
    with assms w1 failed1 show ?thesis by (auto simp: Register_def Let_def dest: writeBlob_failed)
  next
    case None
    show ?thesis
    proof (cases "r_raw reg")
      case None2: None
      with assms w1 None show ?thesis
        by (intro ran [of st1 "[]" "(v, st1)"]) (auto simp: Register_def Let_def)
    next
      case (Some raw)
      obtain st2 e2 where w2: "writeBlob (w_raw io) (w_now io) (sha256_hex raw) raw st1 = (st2, e2)"
        by fastforce
      show ?thesis
      proof (cases e2)
        case e2: None
        with assms w1 w2 None Some show ?thesis
          by (intro ran [of st1 "sha256_hex raw" "(v, st2)"]) (auto simp: Register_def Let_def)
      next
        case e2: (Some e)
        with assms w1 w2 None Some writeBlob_failed [of _ _ _ _ st1 st2] show ?thesis
          by (intro failed2 [of e raw st1]) (auto simp: Register_def Let_def)
      qed
    qed
  qed
qed

lemma writeBlob_keeps:
  assumes "writeBlob f now h data st = (st', None)"
  shows "artifacts st' = artifacts st" "sources st' = sources st" "chunks st' = chunks st"
    "fts_porter st' = fts_porter st" "fts_trigram st' = fts_trigram st"
    "watermark st' = watermark st" "wm_table st' = wm_table st"
    "fst ` set (blobs st') = insert h (fst ` set (blobs st))"
    "readBlob st' n = (if n = h then Inr data else readBlob st n)"
  using blobs_writeBlob [OF assms]
  by (auto simp: dom_update readBlob_def update_conv')

text \<open>What the files are when the transaction starts.\<close>

lemma Register_files:
  assumes ok: "store_ok st"
    and w1: "writeBlob (w_blob io) (w_now io) (sha256_hex (r_bytes reg)) (r_bytes reg) st = (st1, None)"
    and w2: "case r_raw reg of None \<Rightarrow> rawh = [] \<and> st2 = st1
          | Some raw \<Rightarrow> rawh = sha256_hex raw \<and> writeBlob (w_raw io) (w_now io) rawh raw st1 = (st2, None)"
  shows "store_ok st2 \<and> sha256_hex (r_bytes reg) \<in> set (map fst (blobs st2))
    \<and> (rawh = [] \<or> length rawh = 64 \<and> rawh \<in> set (map fst (blobs st2)))
    \<and> artifacts st2 = artifacts st \<and> sources st2 = sources st \<and> chunks st2 = chunks st
    \<and> watermark st2 = watermark st \<and> wm_table st2 = wm_table st"
proof (cases "r_raw reg")
  case None
  with w2 writeBlob_ok [OF ok w1] writeBlob_keeps [OF w1] show ?thesis by simp
next
  case (Some raw)
  then have w: "writeBlob (w_raw io) (w_now io) (sha256_hex raw) raw st1 = (st2, None)"
    and rawh: "rawh = sha256_hex raw" using w2 by auto
  show ?thesis
    using writeBlob_keeps [OF w] writeBlob_keeps [OF w1] writeBlob_ok [OF writeBlob_ok [OF ok w1] w]
    by (simp add: rawh)
qed

lemma Register_ok:
  assumes run: "Register io reg (v, st) = ((v', st'), r)" and ok: "store_ok st"
  shows "store_ok st'"
  using run
proof (cases rule: Register_cases)
  case (failed1 e)
  with ok show ?thesis by simp
next
  case (failed2 e raw st1)
  with ok show ?thesis by (auto dest: writeBlob_ok)
next
  case (ran st1 rawh w)
  obtain v2 st2 where w: "w = (v2, st2)" by fastforce
  have "case r_raw reg of None \<Rightarrow> rawh = [] \<and> st2 = st1
      | Some raw \<Rightarrow> rawh = sha256_hex raw \<and> writeBlob (w_raw io) (w_now io) rawh raw st1 = (st2, None)"
    using ran(2) w by (cases "r_raw reg") auto
  note files = Register_files [OF ok ran(1) this]
  have st2: "store_ok st2" "sha256_hex (r_bytes reg) \<in> set (map fst (blobs st2))"
    "rawh = [] \<or> length rawh = 64 \<and> rawh \<in> set (map fst (blobs st2))"
    using files by simp_all
  show ?thesis
  proof (cases r)
    case (Inl e)
    with ran(3) w st2 show ?thesis by (auto dest: txRetry_Inl)
  next
    case (Inr art)
    then have "register_tx (sha256_hex (r_bytes reg)) rawh reg (w_now io) st2 = Inr (art, st')"
      using ran(3) w by (auto dest: txRetry_Inr)
    then show ?thesis using register_tx_ok st2 by simp
  qed
qed

lemma readBlob_no_collision:
  assumes "writeBlob f1 now (sha256_hex d) d st = (st1, None)"
    and "case raw of None \<Rightarrow> st2 = st1
      | Some x \<Rightarrow> writeBlob f2 now (sha256_hex x) x st1 = (st2, None)"
    and "\<And>x. raw = Some x \<Longrightarrow> sha256_hex x = sha256_hex d \<Longrightarrow> x = d"
  shows "readBlob st2 (sha256_hex d) = Inr d"
  using assms by (cases raw) (auto simp: writeBlob_keeps)

text \<open>A successful call is a committed \<open>register_tx\<close> on the store with its two files written.\<close>

lemma Register_Inr:
  assumes run: "Register io reg (v, st) = ((v', st'), Inr art)" and ok: "store_ok st"
  obtains st2 rawh where
    "register_tx (sha256_hex (r_bytes reg)) rawh reg (w_now io) st2 = Inr (art, st')"
    "store_ok st2" "sha256_hex (r_bytes reg) \<in> set (map fst (blobs st2))"
    "artifacts st2 = artifacts st" "sources st2 = sources st" "chunks st2 = chunks st"
    "watermark st2 = watermark st" "wm_table st2 = wm_table st"
    "(\<And>x. r_raw reg = Some x \<Longrightarrow> sha256_hex x = sha256_hex (r_bytes reg) \<Longrightarrow> x = r_bytes reg)
       \<Longrightarrow> readBlob st2 (sha256_hex (r_bytes reg)) = Inr (r_bytes reg)"
  using run
proof (cases rule: Register_cases)
  case (ran st1 rawh w)
  obtain v2 st2 where w: "w = (v2, st2)" by fastforce
  have c: "case r_raw reg of None \<Rightarrow> rawh = [] \<and> st2 = st1
      | Some raw \<Rightarrow> rawh = sha256_hex raw \<and> writeBlob (w_raw io) (w_now io) rawh raw st1 = (st2, None)"
    using ran(2) w by (cases "r_raw reg") auto
  then have c2: "case r_raw reg of None \<Rightarrow> st2 = st1
      | Some raw \<Rightarrow> writeBlob (w_raw io) (w_now io) (sha256_hex raw) raw st1 = (st2, None)"
    by (cases "r_raw reg") auto
  have tx: "register_tx (sha256_hex (r_bytes reg)) rawh reg (w_now io) st2 = Inr (art, st')"
    using ran(3) w by (auto dest: txRetry_Inr)
  show ?thesis
    using that [OF tx] Register_files [OF ok ran(1) c] readBlob_no_collision [OF ran(1) c2] by blast
qed simp_all

lemma insert_chunks_blobs:
  "insert_chunks art ks st = Inr st' \<Longrightarrow> blobs st' = blobs st"
  by (induction ks arbitrary: st)
    (auto simp: insert_chunk_def Let_def split: sum.splits if_splits)

lemma register_tx_source:
  assumes "register_tx h rawh reg now st = Inr (art, st')"
  shows "source_row_of art rawh reg now \<in> set (sources st')" and "blobs st' = blobs st"
  using assms insert_chunks_blobs
  by (fastforce simp: register_tx_def Let_def cas_source_def upsert_source_def
      select_or_insert_def split: sum.splits prod.splits if_splits option.splits)+

lemma register_tx_artifact:
  assumes tx: "register_tx h rawh reg now st = Inr (art, st')" and ok: "store_ok st"
    and blob: "length h = 64" "h \<in> set (map fst (blobs st))"
  shows "\<exists>a \<in> set (artifacts st'). a_id a = art \<and> a_hash a = h \<and> a_media a = r_media reg"
proof -
  obtain st1 where sel: "select_or_insert h reg now st = Inr (art, st1)"
    and a: "artifacts st' = artifacts st1"
    using tx by (auto simp: register_tx_def Let_def cas_source_def upsert_source_def
        split: sum.splits prod.splits if_splits)
  show ?thesis using select_or_insert_ok [OF sel ok blob] a by simp
qed

lemma readBlob_cong: "blobs st = blobs st' \<Longrightarrow> readBlob st h = readBlob st' h"
  by (simp add: readBlob_def)

section \<open>What a registration promises\<close>

text \<open>Property C1.  A call of \<open>Register\<close>, whatever it returns and whichever of its file
  operations, transactions and waits fail, leaves a well-formed store: keys and references
  intact, both index tables equal to the chunks, every hash in the tables backed by a file, and
  every file under a hash name holding content of that hash.\<close>

theorem register_keeps_store_ok:
  assumes "store_ok st"
  shows "store_ok (snd (fst (Register io reg (v, st))))"
proof -
  obtain v' st' r where "Register io reg (v, st) = ((v', st'), r)" by (metis surj_pair)
  with Register_ok [OF this assms] show ?thesis by simp
qed

definition demo_env :: env where
  "demo_env = \<lparr>e_tx = [], e_ctx = []\<rparr>"

definition demo_io :: reg_io where
  "demo_io = \<lparr>w_blob = WriteOK, w_raw = WriteOK, w_now = 7\<rparr>"

definition demo_reg :: registration where
  "demo_reg = \<lparr>r_bytes = ''hello'', r_media = ''text/plain'', r_redaction = ''v1'',
     r_source = \<lparr>m_uri = ''u'', m_kind = ''file'', m_size = 5, m_mtime = 1, m_hash = ''s'',
       m_extraction = []\<rparr>,
     r_chunks = [\<lparr>k_ordinal = 0, k_bstart = 0, k_bend = 5, k_lstart = 1, k_lend = 1,
       k_title = [], k_text = ''hello''\<rparr>],
     r_expected = [], r_raw = None\<rparr>"

lemmas demo_defs = demo_env_def demo_io_def demo_reg_def empty_store_def

lemma register_keeps_store_ok_witness:
  "store_ok (snd (fst (Register demo_io demo_reg (demo_env, empty_store))))"
  by (rule register_keeps_store_ok) (rule store_ok_empty)

lemma register_stored:
  assumes "store_ok st" and "Register io reg (v, st) = ((v', st'), Inr art)"
    and "\<And>x. r_raw reg = Some x \<Longrightarrow> sha256_hex x = sha256_hex (r_bytes reg) \<Longrightarrow> x = r_bytes reg"
  shows "(\<exists>a \<in> set (artifacts st'). a_id a = art \<and> a_hash a = sha256_hex (r_bytes reg)
            \<and> a_media a = r_media reg)
    \<and> (\<exists>s \<in> set (sources st'). s_uri s = m_uri (r_source reg) \<and> s_artifact s = art
            \<and> s_hash s = m_hash (r_source reg) \<and> s_indexed s = w_now io)
    \<and> readBlob st' (sha256_hex (r_bytes reg)) = Inr (r_bytes reg)"
  using assms(2,1)
proof (rule Register_Inr)
  fix st2 rawh
  assume tx: "register_tx (sha256_hex (r_bytes reg)) rawh reg (w_now io) st2 = Inr (art, st')"
    and ok: "store_ok st2" and b: "sha256_hex (r_bytes reg) \<in> set (map fst (blobs st2))"
    and rd: "(\<And>x. r_raw reg = Some x \<Longrightarrow> sha256_hex x = sha256_hex (r_bytes reg) \<Longrightarrow> x = r_bytes reg)
       \<Longrightarrow> readBlob st2 (sha256_hex (r_bytes reg)) = Inr (r_bytes reg)"
  have "readBlob st' (sha256_hex (r_bytes reg)) = Inr (r_bytes reg)"
    using rd assms(3) register_tx_source(2) [OF tx] readBlob_cong by metis
  moreover have "\<exists>s \<in> set (sources st'). s_uri s = m_uri (r_source reg) \<and> s_artifact s = art
            \<and> s_hash s = m_hash (r_source reg) \<and> s_indexed s = w_now io"
    using register_tx_source(1) [OF tx] by (intro bexI) (simp_all add: source_row_of_def)
  ultimately show ?thesis using register_tx_artifact [OF tx ok _ b] by simp
qed

text \<open>A successful \<open>Register\<close> returns the id of an artifact row with the SHA-256
  of the registered bytes and their media type, the source row of its URI now points at that
  artifact, and the content file reads back as exactly the registered bytes (unless the raw HTML
  kept beside them has the same SHA-256 and other content).\<close>

lemma register_returns_stored:
  assumes "store_ok st" and "Register io reg (v, st) = ((v', st'), Inr art)"
    and "\<And>x. r_raw reg = Some x \<Longrightarrow> sha256_hex x = sha256_hex (r_bytes reg) \<Longrightarrow> x = r_bytes reg"
  shows "(\<exists>a \<in> set (artifacts st'). a_id a = art \<and> a_hash a = sha256_hex (r_bytes reg)
            \<and> a_media a = r_media reg)
    \<and> (\<exists>s \<in> set (sources st'). s_uri s = m_uri (r_source reg) \<and> s_artifact s = art
            \<and> s_hash s = m_hash (r_source reg) \<and> s_indexed s = w_now io)
    \<and> readBlob st' (sha256_hex (r_bytes reg)) = Inr (r_bytes reg)"
  using assms by (rule register_stored)

lemma demo_register_ok:
  "\<exists>v' st'. Register demo_io demo_reg (demo_env, empty_store) = ((v', st'), Inr 1)"
  by (simp add: Register_def demo_defs writeBlob_def txRetry_def txRetry_loop.simps [of 3]
      runTx_def pop_def register_tx_def select_or_insert_def find_artifact_def insert_chunk_def
      isBusy_def nextArtifactID_def upsert_source_def Let_def insert_artifact_def bump_watermark_def)

lemma register_returns_stored_witness:
  "\<exists>v' st'. Register demo_io demo_reg (demo_env, empty_store) = ((v', st'), Inr 1)
     \<and> readBlob st' (sha256_hex ''hello'') = Inr ''hello''"
  using demo_register_ok register_returns_stored [OF store_ok_empty, of demo_io demo_reg demo_env _ _ 1]
  by (auto simp: demo_reg_def)

definition same_tables :: "store \<Rightarrow> store \<Rightarrow> bool" where
  "same_tables st st' \<longleftrightarrow>
     artifacts st' = artifacts st \<and> sources st' = sources st \<and> chunks st' = chunks st
     \<and> fts_porter st' = fts_porter st \<and> fts_trigram st' = fts_trigram st
     \<and> watermark st' = watermark st \<and> wm_table st' = wm_table st"

lemma writeBlob_same_tables:
  "writeBlob f now h d st = (st', r) \<Longrightarrow>
     same_tables st st' \<and> set (map fst (blobs st)) \<subseteq> set (map fst (blobs st'))"
  (is "_ \<Longrightarrow> ?thesis")
proof (cases r)
  case None
  then show "writeBlob f now h d st = (st', r) \<Longrightarrow> ?thesis"
    using writeBlob_keeps [of f now h d st st'] by (auto simp: same_tables_def)
next
  case (Some e)
  then show "writeBlob f now h d st = (st', r) \<Longrightarrow> ?thesis"
    using writeBlob_failed [of f now h d st st' e] by (simp add: same_tables_def)
qed

lemma same_tables_trans: "same_tables a b \<Longrightarrow> same_tables b c \<Longrightarrow> same_tables a c"
  by (simp add: same_tables_def)

lemma Register_error:
  assumes "Register io reg (v, st) = ((v', st'), Inl e)"
  shows "same_tables st st' \<and> set (map fst (blobs st)) \<subseteq> set (map fst (blobs st'))"
  using assms
proof (cases rule: Register_cases)
  case (ran st1 rawh w)
  have "same_tables st1 (snd w) \<and> set (map fst (blobs st1)) \<subseteq> set (map fst (blobs (snd w)))"
  proof (cases "r_raw reg")
    case None
    then show ?thesis using ran(2) by (simp add: same_tables_def)
  next
    case (Some raw)
    then have "writeBlob (w_raw io) (w_now io) rawh raw st1 = (snd w, None)" using ran(2) by auto
    then show ?thesis by (rule writeBlob_same_tables)
  qed
  moreover have "snd w = st'" using ran(3) by (auto dest: txRetry_Inl)
  ultimately show ?thesis
    using writeBlob_same_tables [OF ran(1)] same_tables_trans by blast
next
  case (failed2 e' raw st1)
  then show ?thesis using writeBlob_same_tables [OF failed2(4)] by simp
qed (simp add: same_tables_def)

text \<open>Property C17.  A \<open>Register\<close> that returns an error has changed no table, no index and no id
  watermark, and has removed no file: it leaves at most new content files behind.\<close>

theorem register_error_is_atomic:
  assumes "Register io reg (v, st) = ((v', st'), Inl e)"
  shows "same_tables st st' \<and> set (map fst (blobs st)) \<subseteq> set (map fst (blobs st'))"
  using assms by (rule Register_error)

definition demo_conflict :: registration where
  "demo_conflict = demo_reg\<lparr>r_expected := ''old''\<rparr>"

lemma demo_conflict_run:
  "\<exists>v' st'. Register demo_io demo_conflict (demo_env, empty_store) = ((v', st'), Inl StoreConflict)"
  by (simp add: Register_def demo_defs demo_conflict_def writeBlob_def txRetry_def
      txRetry_loop.simps [of 3] runTx_def pop_def register_tx_def select_or_insert_def
      find_artifact_def insert_chunk_def isBusy_def nextArtifactID_def cas_source_def Let_def
      insert_artifact_def bump_watermark_def source_row_of_def)

lemma register_error_is_atomic_witness:
  "\<exists>v' st'. Register demo_io demo_conflict (demo_env, empty_store) = ((v', st'), Inl StoreConflict)
     \<and> artifacts st' = []"
  using demo_conflict_run register_error_is_atomic [of demo_io demo_conflict demo_env empty_store]
  by (fastforce simp: same_tables_def empty_store_def)

lemma select_or_insert_sources:
  "select_or_insert h reg now st = Inr (art, st1) \<Longrightarrow> sources st1 = sources st"
proof -
  have "insert_chunks art ks s = Inr s' \<Longrightarrow> sources s' = sources s" for art ks s s'
    by (induction ks arbitrary: s)
      (auto simp: insert_chunk_def Let_def split: sum.splits if_splits)
  then show "select_or_insert h reg now st = Inr (art, st1) \<Longrightarrow> sources st1 = sources st"
    by (fastforce simp: select_or_insert_def Let_def split: option.splits sum.splits)
qed

lemma cas_source_Inr:
  assumes "cas_source row old st = Inr st'"
  shows "\<exists>s \<in> set (sources st). s_uri s = s_uri row \<and> s_hash s = old"
    and "sources st' = map (\<lambda>s. if s_uri s = s_uri row \<and> s_hash s = old then row else s) (sources st)"
  using assms unfolding cas_source_def by (simp_all split: if_splits) force

lemma cas_source_effect:
  assumes cas: "cas_source row old st = Inr st'" and "distinct (map s_uri (sources st))"
  shows "(\<exists>s \<in> set (sources st). s_uri s = s_uri row \<and> s_hash s = old)
    \<and> (\<forall>s \<in> set (sources st'). s_uri s = s_uri row \<longrightarrow> s = row)
    \<and> (\<forall>s \<in> set (sources st). s_uri s \<noteq> s_uri row \<longrightarrow> s \<in> set (sources st'))"
proof -
  have uniq: "s_uri s = s_uri t \<Longrightarrow> s \<in> set (sources st) \<Longrightarrow> t \<in> set (sources st) \<Longrightarrow> s = t" for s t
    using assms(2) by (auto simp: distinct_map dest: inj_onD)
  obtain x where x: "x \<in> set (sources st)" "s_uri x = s_uri row" "s_hash x = old"
    and new: "sources st' = map (\<lambda>s. if s_uri s = s_uri row \<and> s_hash s = old then row else s) (sources st)"
    using cas_source_Inr [OF cas] by blast
  have 1: "s = row" if s: "s \<in> set (sources st')" "s_uri s = s_uri row" for s
  proof -
    from s(1) obtain t where t: "s = (if s_uri t = s_uri row \<and> s_hash t = old then row else t)"
      "t \<in> set (sources st)"
      unfolding new set_map by (rule imageE)
    show ?thesis
    proof (cases "s_uri t = s_uri row")
      case True
      then have "t = x" using uniq t(2) x by simp
      then show ?thesis using t x by simp
    qed (use t s(2) in simp)
  qed
  have 2: "s \<in> set (sources st')" if s: "s \<in> set (sources st)" "s_uri s \<noteq> s_uri row" for s
  proof -
    have "s = (if s_uri s = s_uri row \<and> s_hash s = old then row else s)" using s(2) by simp
    then show ?thesis using s(1) unfolding new set_map by (rule image_eqI)
  qed
  show ?thesis using x 1 2 by blast
qed

text \<open>Compare-and-swap: a registration that carries \<open>ExpectedOldHash\<close> succeeds only
  if the source row of its URI had exactly that hash before, so a concurrent update in between is
  never overwritten; and the row then carries the new hash.\<close>

lemma register_cas_no_lost_update:
  assumes "store_ok st" and "r_expected reg \<noteq> []"
    and "Register io reg (v, st) = ((v', st'), Inr art)"
  shows "(\<exists>s \<in> set (sources st). s_uri s = m_uri (r_source reg) \<and> s_hash s = r_expected reg)
    \<and> (\<forall>s \<in> set (sources st'). s_uri s = m_uri (r_source reg) \<longrightarrow>
          s_hash s = m_hash (r_source reg) \<and> s_artifact s = art)
    \<and> (\<forall>s \<in> set (sources st). s_uri s \<noteq> m_uri (r_source reg) \<longrightarrow> s \<in> set (sources st'))"
  using assms(3,1)
proof (rule Register_Inr)
  fix st2 rawh
  assume tx: "register_tx (sha256_hex (r_bytes reg)) rawh reg (w_now io) st2 = Inr (art, st')"
    and same: "sources st2 = sources st"
  let ?row = "source_row_of art rawh reg (w_now io)"
  obtain st1 where sel: "select_or_insert (sha256_hex (r_bytes reg)) reg (w_now io) st2 = Inr (art, st1)"
    and cas: "cas_source ?row (r_expected reg) st1 = Inr st'"
    using tx assms(2) by (auto simp: register_tx_def Let_def split: sum.splits prod.splits)
  have src: "sources st1 = sources st" using select_or_insert_sources [OF sel] same by simp
  have "distinct (map s_uri (sources st1))" using assms(1) src by (simp add: store_ok_defs)
  from cas_source_effect [OF cas this] show ?thesis
    unfolding src by (auto simp: source_row_of_def)
qed

definition demo_cas_store :: store where
  "demo_cas_store = empty_store\<lparr>
     artifacts := [\<lparr>a_id = 4, a_hash = sha256_hex ''old text'', a_media = ''text/plain'', a_len = 8,
                    a_redaction = ''v1'', a_created = 2\<rparr>],
     sources := [\<lparr>s_uri = ''u'', s_artifact = 4, s_kind = ''file'', s_size = 8, s_mtime = 1,
                  s_hash = ''old'', s_raw = None, s_extraction = None, s_indexed = 2\<rparr>],
     watermark := Some 4,
     blobs := [(sha256_hex ''old text'', \<lparr>b_data = ''old text'', b_mtime = 2, b_fail = None\<rparr>)]\<rparr>"

lemma demo_cas_store_ok: "store_ok demo_cas_store"
  by (simp add: demo_cas_store_def empty_store_def store_ok_defs cas_ok_def blobs_present_def
      referenced_def)

lemma demo_cas_run:
  "\<exists>v' st'. Register demo_io (demo_conflict\<lparr>r_bytes := ''old text''\<rparr>) (demo_env, demo_cas_store)
     = ((v', st'), Inr 4)"
  by (simp add: Register_def demo_defs demo_cas_store_def demo_conflict_def writeBlob_def
      txRetry_def txRetry_loop.simps [of 3] runTx_def pop_def register_tx_def select_or_insert_def
      find_artifact_def isBusy_def cas_source_def Let_def source_row_of_def)

lemma register_cas_no_lost_update_witness:
  "\<exists>v' st'. Register demo_io (demo_conflict\<lparr>r_bytes := ''old text''\<rparr>) (demo_env, demo_cas_store)
       = ((v', st'), Inr 4)
     \<and> (\<exists>s \<in> set (sources demo_cas_store). s_uri s = ''u'' \<and> s_hash s = ''old'')"
  using demo_cas_run
    register_cas_no_lost_update [OF demo_cas_store_ok,
      of "demo_conflict\<lparr>r_bytes := ''old text''\<rparr>" demo_io demo_env _ _ 4]
  by (fastforce simp: demo_conflict_def demo_reg_def)

lemma insert_chunks_same:
  "insert_chunks art ks st = Inr st' \<Longrightarrow>
     artifacts st' = artifacts st \<and> sources st' = sources st \<and> watermark st' = watermark st
     \<and> wm_table st' = wm_table st"
  by (induction ks arbitrary: st)
    (auto simp: insert_chunk_def Let_def split: sum.splits if_splits)

text \<open>The effect of a committed registration on the artifact table and the watermark.\<close>

lemma register_tx_issue:
  assumes "register_tx h rawh reg now st = Inr (art, st')"
  shows "(case find_artifact h (r_media reg) st of
      Some a \<Rightarrow> art = a_id a \<and> artifacts st' = artifacts st \<and> watermark st' = watermark st
    | None \<Rightarrow> art = nextArtifactID st
        \<and> artifacts st' = artifacts (insert_artifact art h reg now st)
        \<and> watermark st' = watermark (bump_watermark art st))
    \<and> wm_table st' = wm_table st"
proof -
  obtain st1 where sel: "select_or_insert h reg now st = Inr (art, st1)"
    and a: "artifacts st' = artifacts st1" "watermark st' = watermark st1" "wm_table st' = wm_table st1"
    using assms by (auto simp: register_tx_def Let_def cas_source_def upsert_source_def
        split: sum.splits prod.splits if_splits)
  show ?thesis
  proof (cases "find_artifact h (r_media reg) st")
    case None
    then have "art = nextArtifactID st"
      "insert_chunks art (r_chunks reg) (bump_watermark art (insert_artifact art h reg now st)) = Inr st1"
      using sel by (auto simp: select_or_insert_def Let_def split: sum.splits)
    with None a insert_chunks_same [OF this(2)] show ?thesis
      by (simp add: bump_watermark_def)
  next
    case (Some x)
    with sel a show ?thesis by (simp add: select_or_insert_def)
  qed
qed

text \<open>An id that \<open>Register\<close> issues for new content is larger than the id of every
  artifact of the database and than the recorded watermark, and the watermark then equals it; a
  call whose content is already stored issues nothing and leaves artifacts and watermark alone.\<close>

lemma register_issues_fresh_ids:
  assumes "store_ok st" and "Register io reg (v, st) = ((v', st'), Inr art)"
  shows "if art \<in> a_id ` set (artifacts st)
     then artifacts st' = artifacts st \<and> watermark st' = watermark st
     else (\<forall>a \<in> set (artifacts st). a_id a < art)
       \<and> (wm_table st \<longrightarrow> (\<forall>w. watermark st = Some w \<longrightarrow> w < art) \<and> watermark st' = Some art)"
  using assms(2,1)
proof (rule Register_Inr)
  fix st2 rawh
  assume tx: "register_tx (sha256_hex (r_bytes reg)) rawh reg (w_now io) st2 = Inr (art, st')"
    and same: "artifacts st2 = artifacts st" "watermark st2 = watermark st" "wm_table st2 = wm_table st"
  have next_id: "nextArtifactID st2 = nextArtifactID st"
    using same by (simp add: nextArtifactID_def)
  show ?thesis
  proof (cases "find_artifact (sha256_hex (r_bytes reg)) (r_media reg) st2")
    case None
    with register_tx_issue [OF tx] same next_id
    have art: "art = nextArtifactID st" and wm: "watermark st' = watermark (bump_watermark art st2)"
      by simp_all
    have "\<forall>a \<in> set (artifacts st). a_id a < art"
      using nextArtifactID_above_ids art by blast
    moreover from this have "art \<notin> a_id ` set (artifacts st)" by auto
    moreover have "wm_table st \<longrightarrow> (\<forall>w. watermark st = Some w \<longrightarrow> w < art)"
      using nextArtifactID_above_watermark art by blast
    ultimately show ?thesis using wm same
      by (auto simp: bump_watermark_def max_def split: option.splits)
  next
    case (Some a)
    then have "a_id a \<in> a_id ` set (artifacts st)"
      using find_artifact_Some [OF Some] same by auto
    with Some register_tx_issue [OF tx] same show ?thesis by simp
  qed
qed

lemma register_issues_fresh_ids_witness:
  "\<exists>v' st'. Register demo_io demo_reg (demo_env, empty_store) = ((v', st'), Inr 1)
     \<and> watermark st' = Some 1"
  using demo_register_ok register_issues_fresh_ids [OF store_ok_empty, of demo_io demo_reg demo_env _ _ 1]
  by (fastforce simp: empty_store_def)

end
