(* ===== verification/Store_Read.thy ===== *)
theory Store_Read
  imports Store_Register "HOL-Library.List_Lexorder" "HOL-Library.Product_Lexorder"
    "HOL-Library.Char_ord"
begin

text \<open>
  The read path of the store: selector validation, rune snapping, line arithmetic, staleness and
  \<open>ReadRange\<close>.  The reader handle sees the committed tables; a query on it does not fail here.
  The files outside the store that \<open>StaleOf\<close> looks at are a parameter, the disk: what a
  \<open>Stat\<close> of a path gives (size, modification time) and what a \<open>ReadFile\<close> gives, each \<open>None\<close>
  for an error.
\<close>

record disk =
  d_stat :: "bytes \<Rightarrow> (int \<times> int) option"
  d_read :: "bytes \<Rightarrow> bytes option"

section \<open>Definitions\<close>

definition snapUTF8 :: "bytes \<Rightarrow> int \<Rightarrow> int \<Rightarrow> int \<times> int" where
  "snapUTF8 data start stop =
     (let n = int (length data);
          start' = (if start < 0 then 0 else if start > n then n else start);
          stop' = (if stop < start' then start' else if stop > n then n else stop);
          s = (if start' < n then int (rune_back data (nat start')) else start')
      in (s, int (snap_fwd data (nat s) (nat stop'))))"

definition newline :: char where
  "newline = CHR 0x0A"

definition countLines :: "bytes \<Rightarrow> int" where
  "countLines data =
     (if data = [] then 0
      else int (1 + count_list data newline) - (if last data = newline then 1 else 0))"

text \<open>The offsets at which a line starts: 0 and every position after a newline.\<close>

fun starts_from :: "nat \<Rightarrow> bytes \<Rightarrow> nat list" where
  "starts_from i [] = []"
| "starts_from i (b # bs) =
     (if b = newline then Suc i # starts_from (Suc i) bs else starts_from (Suc i) bs)"

definition line_starts :: "bytes \<Rightarrow> nat list" where
  "line_starts data = 0 # starts_from 0 data"

text \<open>Only called with \<open>1 \<le> lineEnd\<close>.\<close>

definition lineByteRange :: "bytes \<Rightarrow> int \<Rightarrow> int \<Rightarrow> int \<times> int" where
  "lineByteRange data lineStart lineEnd =
     (let starts = line_starts data;
          n = int (length data);
          lo = (if lineStart - 1 < 0 then 0 else lineStart - 1)
      in if lo \<ge> int (length starts) then (n, n)
         else
           let first = int (starts ! nat lo);
               stop = (if lineEnd < int (length starts) then int (starts ! nat lineEnd) else n)
           in (first, if stop < first then first else stop))"

text \<open>The slice expression \<open>data[a:b]\<close>; out of range it panics.\<close>

definition slice_of :: "bytes \<Rightarrow> int \<Rightarrow> int \<Rightarrow> go_error + bytes" where
  "slice_of data a b =
     (if 0 \<le> a \<and> a \<le> b \<and> b \<le> int (length data)
      then Inr (take (nat (b - a)) (drop (nat a) data))
      else Inl (ErrOther ''panic: slice bounds out of range''))"

definition artifact_of :: "store \<Rightarrow> int \<Rightarrow> artifact_row option" where
  "artifact_of st i = List.find (\<lambda>a. a_id a = i) (artifacts st)"

definition readChunk :: "store \<Rightarrow> artifact_row \<Rightarrow> int \<Rightarrow> range_result \<Rightarrow> go_error + range_result" where
  "readChunk st meta chunkID res =
     (case List.find (\<lambda>c. c_id c = chunkID) (chunks st) of
        None \<Rightarrow> Inl StoreNotFound
      | Some c \<Rightarrow>
          if c_artifact c \<noteq> a_id meta then Inl StoreInvalidSelector
          else
            let res1 = res\<lparr>x_lstart := fst (c_lines c), x_lend := snd (c_lines c)\<rparr>
            in (case c_bytes c of
                  None \<Rightarrow> Inr (res1\<lparr>x_text := c_text c, x_bend := int (length (c_text c))\<rparr>)
                | Some (bs, be) \<Rightarrow>
                    (case readBlob st (a_hash meta) of
                       Inl e \<Rightarrow> Inl e
                     | Inr blob \<Rightarrow>
                         (case slice_of blob bs be of
                            Inl e \<Rightarrow> Inl e
                          | Inr t \<Rightarrow> Inr (res1\<lparr>x_bstart := bs, x_bend := be, x_text := t\<rparr>)))))"

text \<open>\<open>ORDER BY (source_kind = 'hook') ASC, uri ASC LIMIT 1\<close>: the URI order is that of the
  bytes.\<close>

definition sourceOf :: "store \<Rightarrow> int \<Rightarrow> source_info option" where
  "sourceOf st art =
     (case sort_key (\<lambda>s. (s_kind s = ''hook'', s_uri s))
             (filter (\<lambda>s. s_artifact s = art) (sources st)) of
        [] \<Rightarrow> None
      | s # _ \<Rightarrow> Some \<lparr>i_uri = s_uri s, i_kind = s_kind s, i_size = s_size s,
          i_mtime = s_mtime s, i_hash = s_hash s,
          i_extraction = (case s_extraction s of None \<Rightarrow> [] | Some x \<Rightarrow> x)\<rparr>)"

definition StaleOf :: "disk \<Rightarrow> source_info \<Rightarrow> bool" where
  "StaleOf d info =
     (if i_kind info \<noteq> ''file'' then False
      else (case d_stat d (i_uri info) of
              None \<Rightarrow> True
            | Some (sz, mtime) \<Rightarrow>
                if sz = i_size info \<and> mtime = i_mtime info then False
                else (case d_read d (i_uri info) of
                        None \<Rightarrow> True
                      | Some raw \<Rightarrow> sha256_hex raw \<noteq> i_hash info)))"

definition ArtifactText :: "store \<Rightarrow> int \<Rightarrow> int \<Rightarrow> go_error + bytes" where
  "ArtifactText st art maxBytes =
     (case artifact_of st art of
        None \<Rightarrow> Inl StoreNotFound
      | Some a \<Rightarrow>
          if 0 < maxBytes \<and> maxBytes < a_len a then Inl StoreInvalidSelector
          else readBlob st (a_hash a))"

definition ArtifactHashByID :: "store \<Rightarrow> int \<Rightarrow> go_error + bytes" where
  "ArtifactHashByID st art =
     (case artifact_of st art of None \<Rightarrow> Inl StoreNotFound | Some a \<Rightarrow> Inr (a_hash a))"

definition empty_result :: "artifact_row \<Rightarrow> range_result" where
  "empty_result meta = \<lparr>x_text = [], x_bstart = 0, x_bend = 0, x_lstart = 0, x_lend = 0,
     x_artifact = meta, x_source = None, x_stale = False\<rparr>"

definition read_selected :: "store \<Rightarrow> artifact_row \<Rightarrow> selector \<Rightarrow> go_error + range_result" where
  "read_selected st meta sel =
     (case sel of
        OtherSel k \<Rightarrow> Inl StoreInvalidSelector
      | ChunkSel chunkID \<Rightarrow> readChunk st meta chunkID (empty_result meta)
      | LineSel ls le \<Rightarrow>
          (case readBlob st (a_hash meta) of
             Inl e \<Rightarrow> Inl e
           | Inr blob \<Rightarrow>
               let lc = countLines blob in
               if ls < 1 \<or> le < ls \<or> ls > lc \<or> le > lc then Inl StoreInvalidSelector
               else (case lineByteRange blob ls le of (a, b) \<Rightarrow>
                      (case slice_of blob a b of
                         Inl e \<Rightarrow> Inl e
                       | Inr t \<Rightarrow> Inr ((empty_result meta)
                           \<lparr>x_text := t, x_bstart := a, x_bend := b, x_lstart := ls, x_lend := le\<rparr>))))
      | ByteSel bs be \<Rightarrow>
          (case readBlob st (a_hash meta) of
             Inl e \<Rightarrow> Inl e
           | Inr blob \<Rightarrow>
               let n = int (length blob) in
               if bs < 0 \<or> be \<le> bs \<or> bs \<ge> n \<or> be > n then Inl StoreInvalidSelector
               else (case snapUTF8 blob bs be of (a, b) \<Rightarrow>
                      (case slice_of blob a b of
                         Inl e \<Rightarrow> Inl e
                       | Inr t \<Rightarrow> Inr ((empty_result meta)\<lparr>x_text := t, x_bstart := a, x_bend := b\<rparr>)))))"

definition ReadRange :: "disk \<Rightarrow> store \<Rightarrow> int \<Rightarrow> selector \<Rightarrow> go_error + range_result" where
  "ReadRange d st art sel =
     (case sel of
        OtherSel k \<Rightarrow> Inl StoreInvalidSelector
      | _ \<Rightarrow>
        (case artifact_of st art of
           None \<Rightarrow> Inl StoreNotFound
         | Some meta \<Rightarrow>
             (case read_selected st meta sel of
                Inl e \<Rightarrow> Inl e
              | Inr res \<Rightarrow>
                  (case sourceOf st art of
                     None \<Rightarrow> Inr res
                   | Some info \<Rightarrow> Inr (res\<lparr>x_source := Some info, x_stale := StaleOf d info\<rparr>)))))"

section \<open>Rune snapping\<close>

lemma snapUTF8_bounds:
  assumes "snapUTF8 data a b = (s, e)"
  shows "0 \<le> s \<and> s \<le> e \<and> e \<le> int (length data)"
proof -
  define start' where "start' = (if a < 0 then 0 else if a > int (length data) then int (length data) else a)"
  define s0 where "s0 = (if start' < int (length data) then int (rune_back data (nat start')) else start')"
  define stop' where "stop' = (if b < start' then start' else if b > int (length data) then int (length data) else b)"
  have r: "0 \<le> start'" "start' \<le> int (length data)" by (simp_all add: start'_def)
  have s0: "0 \<le> s0" "s0 \<le> start'"
    using r rune_back_le [of data "nat start'"] by (auto simp: s0_def)
  have "snapUTF8 data a b = (s0, int (snap_fwd data (nat s0) (nat stop')))"
    unfolding snapUTF8_def Let_def s0_def stop'_def start'_def ..
  with assms have "s = s0" "e = int (snap_fwd data (nat s0) (nat stop'))" by auto
  then show ?thesis
    using snap_fwd_bounds [of "nat s0" data "nat stop'"] snap_fwd_le_length [of "nat s0" data "nat stop'"]
      s0 r by (auto simp: nat_le_iff)
qed

lemma snapUTF8_valid:
  assumes "snapUTF8 data a b = (s, e)"
  shows "utf8_valid (take (nat (e - s)) (drop (nat s) data))"
proof -
  obtain stop' where e: "e = int (snap_fwd data (nat s) stop')" and s: "0 \<le> s"
    using assms snapUTF8_bounds [OF assms] by (auto simp: snapUTF8_def Let_def)
  have "nat (e - s) = snap_fwd data (nat s) stop' - nat s" using e s by simp
  then show ?thesis by (simp add: snap_fwd_valid)
qed

text \<open>Inside the data the window moves by at most three bytes at each end.\<close>

lemma snapUTF8_close:
  assumes snap: "snapUTF8 data a b = (s, e)" and range: "0 \<le> a" "a < b" "b \<le> int (length data)"
    and valid: "utf8_valid data"
  shows "s \<le> a \<and> a \<le> s + 3 \<and> e \<le> b \<and> b \<le> e + 3"
proof -
  let ?i = "rune_back data (nat a)"
  have i: "s = int ?i" "e = int (snap_fwd data ?i (nat b))"
    using snap range by (auto simp: snapUTF8_def Let_def)
  have len: "nat a < length data" using range by linarith
  have le: "?i \<le> nat a" "nat a \<le> ?i + 3"
    using rune_back_le rune_back_within [OF valid len] by auto
  have "utf8_valid (drop ?i data)"
    using rune_back_start [of data "nat a"] utf8_valid_drop_start [OF valid, of ?i] le len valid
    by auto
  then have "nat b \<le> snap_fwd data ?i (nat b) + 3"
    using le range by (intro snap_fwd_complete) auto
  moreover have "snap_fwd data ?i (nat b) \<le> nat b"
    using snap_fwd_bounds [of ?i data "nat b"] le range by auto
  ultimately show ?thesis using i le range by linarith
qed

section \<open>Lines\<close>

lemma length_starts_from [simp]: "length (starts_from i data) = count_list data newline"
  by (induction data arbitrary: i) auto

lemma starts_from_bounds: "p \<in> set (starts_from i data) \<Longrightarrow> i < p \<and> p \<le> i + length data"
  by (induction data arbitrary: i) (fastforce split: if_splits)+

lemma sorted_line_starts: "sorted (line_starts data)"
proof -
  have "sorted (starts_from i data)" for i
    by (induction data arbitrary: i) (auto dest: starts_from_bounds)
  then show ?thesis by (simp add: line_starts_def)
qed

lemma line_starts_bounded: "k < length (line_starts data) \<Longrightarrow> line_starts data ! k \<le> length data"
  using nth_mem [of k "line_starts data"] starts_from_bounds [of _ 0 data]
  by (auto simp: line_starts_def)

lemma length_line_starts: "length (line_starts data) = Suc (count_list data newline)"
  by (simp add: line_starts_def)

lemma last_starts_from:
  "data \<noteq> [] \<Longrightarrow> last data = newline \<Longrightarrow>
     starts_from i data \<noteq> [] \<and> last (starts_from i data) = i + length data"
proof (induction data arbitrary: i)
  case (Cons b bs)
  then show ?case by (cases "bs = []") auto
qed simp

lemma last_newline_start:
  assumes "data \<noteq> []" and "last data = newline"
  shows "line_starts data ! count_list data newline = length data"
proof -
  have ne: "starts_from 0 data \<noteq> []" and l: "last (starts_from 0 data) = length data"
    using last_starts_from [OF assms, of 0] by simp_all
  then obtain k where "count_list data newline = Suc k"
    by (metis length_greater_0_conv length_starts_from gr0_implies_Suc)
  with ne l show ?thesis by (simp add: line_starts_def last_conv_nth)
qed

lemma countLines_le: "countLines data \<le> int (length (line_starts data))"
  by (simp add: countLines_def length_line_starts)

text \<open>Where line \<open>k\<close> ends, for \<open>1 \<le> k\<close>.\<close>

definition line_stop :: "bytes \<Rightarrow> nat \<Rightarrow> nat" where
  "line_stop data k = (if k < length (line_starts data) then line_starts data ! k else length data)"

lemma line_start_le_stop:
  assumes "i \<le> k" and "i < length (line_starts data)"
  shows "line_starts data ! i \<le> line_stop data k"
  using assms sorted_nth_mono [OF sorted_line_starts, of i k data] line_starts_bounded [OF assms(2)]
  by (auto simp: line_stop_def)

lemma lineByteRange_eq:
  assumes "1 \<le> ls" and "ls \<le> le" and "le \<le> countLines data"
  shows "lineByteRange data ls le = (int (line_starts data ! nat (ls - 1)), int (line_stop data (nat le)))"
proof -
  have "ls - 1 < int (length (line_starts data))" using assms countLines_le [of data] by linarith
  moreover from this have "line_starts data ! nat (ls - 1) \<le> line_stop data (nat le)"
    using assms by (intro line_start_le_stop) auto
  ultimately show ?thesis
    using assms by (auto simp: lineByteRange_def Let_def line_stop_def nat_less_iff)
qed

lemma line_stop_last: "data \<noteq> [] \<Longrightarrow> line_stop data (nat (countLines data)) = length data"
  using last_newline_start [of data] by (auto simp: line_stop_def countLines_def length_line_starts)

section \<open>What a read promises\<close>

lemma slice_of_Inr: "slice_of data a b = Inr t \<Longrightarrow> t = take (nat (b - a)) (drop (nat a) data)"
  by (simp add: slice_of_def split: if_splits)

lemma artifact_of_Some: "artifact_of st i = Some a \<Longrightarrow> a \<in> set (artifacts st) \<and> a_id a = i"
  unfolding artifact_of_def by (metis (mono_tags, lifting) find_Some_iff nth_mem)

lemma artifact_of_member:
  assumes "store_ok st" and "a \<in> set (artifacts st)"
  shows "artifact_of st (a_id a) = Some a"
proof -
  have inj: "inj_on a_id (set (artifacts st))"
    using assms(1) by (simp add: store_ok_defs distinct_map)
  obtain b where b: "artifact_of st (a_id a) = Some b"
    using assms(2) by (cases "artifact_of st (a_id a)") (auto simp: artifact_of_def find_None_iff)
  with artifact_of_Some [OF b] inj assms(2) show ?thesis by (auto dest: inj_onD)
qed

text \<open>A read of any kind but \<open>OtherSel\<close> on a stored artifact is its selection plus the source.\<close>

lemma ReadRange_selected:
  assumes "artifact_of st art = Some meta" and "\<And>k. sel \<noteq> OtherSel k"
  shows "(\<exists>res. ReadRange d st art sel = Inr res \<and> P (x_text res) (x_bstart res) (x_bend res))
     \<longleftrightarrow> (\<exists>res. read_selected st meta sel = Inr res \<and> P (x_text res) (x_bstart res) (x_bend res))"
  using assms by (cases sel) (auto simp: ReadRange_def split: sum.splits option.splits)

lemma read_lines_eq:
  assumes "artifact_of st art = Some meta" and "readBlob st (a_hash meta) = Inr blob"
  shows "(\<exists>res. ReadRange d st art (LineSel ls le) = Inr res \<and> x_text res = t)
     \<longleftrightarrow> 1 \<le> ls \<and> ls \<le> le \<and> le \<le> countLines blob
       \<and> t = take (line_stop blob (nat le) - line_starts blob ! nat (ls - 1))
                  (drop (line_starts blob ! nat (ls - 1)) blob)"
proof -
  have in_range: "slice_of blob (int (line_starts blob ! nat (ls - 1))) (int (line_stop blob (nat le)))
     = Inr (take (line_stop blob (nat le) - line_starts blob ! nat (ls - 1))
                  (drop (line_starts blob ! nat (ls - 1)) blob))"
    if "1 \<le> ls" "ls \<le> le" "le \<le> countLines blob"
  proof -
    have l: "ls - 1 < int (length (line_starts blob))" using that countLines_le [of blob] by linarith
    have "line_starts blob ! nat (ls - 1) \<le> line_stop blob (nat le)"
      using that l by (intro line_start_le_stop) auto
    moreover have "line_stop blob (nat le) \<le> length blob"
      using line_starts_bounded [of _ blob] by (auto simp: line_stop_def)
    ultimately show ?thesis by (simp add: slice_of_def nat_diff_distrib')
  qed
  show ?thesis
    using ReadRange_selected [OF assms(1), of "LineSel ls le" d "\<lambda>t' _ _. t' = t"] in_range
    by (auto simp: read_selected_def assms(2) Let_def lineByteRange_eq empty_result_def)
qed

text \<open>A line selector is accepted exactly when \<open>1 \<le> start \<le> end \<le> countLines\<close>, and
  line ranges partition the content: a range read in two adjoining parts gives the same bytes as
  the range read at once, and lines \<open>1 .. countLines\<close> give the whole content.\<close>

lemma read_lines_partition:
  assumes "artifact_of st art = Some meta" and "readBlob st (a_hash meta) = Inr blob"
    and "1 \<le> ls" and "ls \<le> k" and "k < le" and "le \<le> countLines blob"
  shows "(\<forall>i j. (\<exists>res. ReadRange d st art (LineSel i j) = Inr res)
      \<longleftrightarrow> 1 \<le> i \<and> i \<le> j \<and> j \<le> countLines blob)
   \<and> (\<exists>r r1 r2. ReadRange d st art (LineSel ls le) = Inr r
     \<and> ReadRange d st art (LineSel ls k) = Inr r1
     \<and> ReadRange d st art (LineSel (k + 1) le) = Inr r2
     \<and> x_text r = x_text r1 @ x_text r2
     \<and> (ls = 1 \<and> le = countLines blob \<longrightarrow> x_text r = blob))"
proof -
  note line = read_lines_eq [OF assms(1,2)]
  let ?b = "line_starts blob ! nat (ls - 1)" and ?m = "line_starts blob ! nat k"
    and ?e = "line_stop blob (nat le)"
  have kl: "nat k < length (line_starts blob)"
    using assms(3-6) countLines_le [of blob] by linarith
  have mid: "line_stop blob (nat k) = ?m" using kl by (simp add: line_stop_def)
  have le: "?b \<le> ?m" "?m \<le> ?e"
    using assms(3-6) kl sorted_nth_mono [OF sorted_line_starts, of "nat (ls - 1)" "nat k" blob]
    by (auto intro!: line_start_le_stop)
  have split: "take (?e - ?b) (drop ?b blob) = take (?m - ?b) (drop ?b blob) @ take (?e - ?m) (drop ?m blob)"
    using le take_add [of "?m - ?b" "?e - ?m" "drop ?b blob"] by simp
  have whole: "take (?e - ?b) (drop ?b blob) = blob" if "ls = 1" "le = countLines blob"
  proof -
    have "blob \<noteq> []" using assms(3-6) by (auto simp: countLines_def)
    then show ?thesis using that line_stop_last by (simp add: line_starts_def)
  qed
  have valid: "1 \<le> ls" "ls \<le> k" "1 \<le> k + 1" "k + 1 \<le> le" "ls \<le> le" "k \<le> countLines blob"
    using assms(3-6) by auto
  obtain r where r: "ReadRange d st art (LineSel ls le) = Inr r"
    "x_text r = take (?e - ?b) (drop ?b blob)"
    using line [of d ls le] valid assms(6) by blast
  obtain r1 where r1: "ReadRange d st art (LineSel ls k) = Inr r1"
    "x_text r1 = take (?m - ?b) (drop ?b blob)"
    using line [of d ls k, unfolded mid] valid by blast
  obtain r2 where r2: "ReadRange d st art (LineSel (k + 1) le) = Inr r2"
    "x_text r2 = take (?e - ?m) (drop ?m blob)"
    using line [of d "k + 1" le] valid assms(6) by auto
  have "(\<exists>res. ReadRange d st art (LineSel i j) = Inr res)
      \<longleftrightarrow> 1 \<le> i \<and> i \<le> j \<and> j \<le> countLines blob" for i j
    using line [of d i j] by blast
  with r r1 r2 have ?thesis using split whole by auto
  then show ?thesis .
qed

definition demo_read_store :: store where
  "demo_read_store = empty_store\<lparr>
     artifacts := [\<lparr>a_id = 4, a_hash = ''h'', a_media = ''text/plain'', a_len = 5,
                    a_redaction = ''v1'', a_created = 2\<rparr>],
     blobs := [(''h'', \<lparr>b_data = ''a'' @ [newline] @ ''bc'' @ [newline], b_mtime = 2, b_fail = None\<rparr>)]\<rparr>"

definition demo_disk :: disk where
  "demo_disk = \<lparr>d_stat = (\<lambda>p. None), d_read = (\<lambda>p. None)\<rparr>"

lemma demo_read_facts:
  "artifact_of demo_read_store 4 = Some (hd (artifacts demo_read_store))"
  "readBlob demo_read_store (a_hash (hd (artifacts demo_read_store)))
     = Inr (''a'' @ [newline] @ ''bc'' @ [newline])"
  "countLines (''a'' @ [newline] @ ''bc'' @ [newline]) = 2"
  "countLines ''a'' = 1"
  by (simp_all add: demo_read_store_def empty_store_def artifact_of_def readBlob_def
      countLines_def newline_def)

lemma read_lines_partition_witness:
  "\<exists>r r1 r2. ReadRange demo_disk demo_read_store 4 (LineSel 1 2) = Inr r
     \<and> ReadRange demo_disk demo_read_store 4 (LineSel 1 1) = Inr r1
     \<and> ReadRange demo_disk demo_read_store 4 (LineSel 2 2) = Inr r2
     \<and> x_text r = x_text r1 @ x_text r2"
  using read_lines_partition [OF demo_read_facts(1,2), of 1 1 2 demo_disk] demo_read_facts(3) by auto

text \<open>A byte selector is accepted exactly when \<open>0 \<le> start < end \<le> length\<close>.  The
  text returned is valid UTF-8 and is exactly the bytes between the offsets reported with it;
  on valid UTF-8 content those offsets differ from the requested ones by at most three bytes,
  downwards.\<close>

lemma read_bytes_snapped:
  assumes "artifact_of st art = Some meta" and "readBlob st (a_hash meta) = Inr blob"
  shows "((\<exists>res. ReadRange d st art (ByteSel bs be) = Inr res)
            \<longleftrightarrow> 0 \<le> bs \<and> bs < be \<and> be \<le> int (length blob))
     \<and> (\<forall>res. ReadRange d st art (ByteSel bs be) = Inr res \<longrightarrow>
          utf8_valid (x_text res)
          \<and> 0 \<le> x_bstart res \<and> x_bstart res \<le> x_bend res \<and> x_bend res \<le> int (length blob)
          \<and> x_text res = take (nat (x_bend res - x_bstart res)) (drop (nat (x_bstart res)) blob)
          \<and> (utf8_valid blob \<longrightarrow> x_bstart res \<le> bs \<and> bs \<le> x_bstart res + 3
                \<and> x_bend res \<le> be \<and> be \<le> x_bend res + 3))"
proof (cases "0 \<le> bs \<and> bs < be \<and> be \<le> int (length blob)")
  case True
  obtain a b where snap: "snapUTF8 blob bs be = (a, b)" by fastforce
  note bounds = snapUTF8_bounds [OF snap]
  let ?t = "take (nat (b - a)) (drop (nat a) blob)"
  have "read_selected st meta (ByteSel bs be)
     = Inr ((empty_result meta)\<lparr>x_text := ?t, x_bstart := a, x_bend := b\<rparr>)"
    using True bounds by (simp add: read_selected_def assms(2) Let_def snap slice_of_def)
  then have "\<exists>res. ReadRange d st art (ByteSel bs be) = Inr res"
    and "ReadRange d st art (ByteSel bs be) = Inr res \<Longrightarrow>
      x_text res = ?t \<and> x_bstart res = a \<and> x_bend res = b" for res
    by (auto simp: ReadRange_def assms(1) split: option.splits)
  then show ?thesis
    using True bounds snapUTF8_valid [OF snap] snapUTF8_close [OF snap] by auto
next
  case False
  then have "read_selected st meta (ByteSel bs be) = Inl StoreInvalidSelector"
    by (auto simp: read_selected_def assms(2) Let_def)
  then show ?thesis using False by (simp add: ReadRange_def assms(1))
qed

lemma read_bytes_snapped_witness:
  "\<exists>res. ReadRange demo_disk demo_read_store 4 (ByteSel 1 4) = Inr res \<and> utf8_valid (x_text res)"
  using read_bytes_snapped [OF demo_read_facts(1,2), of demo_disk 1 4] by auto

lemma snap_fwd_whole:
  "utf8_valid (drop pos s) \<Longrightarrow> pos \<le> length s \<Longrightarrow> snap_fwd s pos (length s) = length s"
proof (induction s pos "length s" rule: snap_fwd.induct)
  case (1 s pos)
  let ?k = "snd (decode_rune (drop pos s))"
  show ?case
  proof (cases "pos < length s")
    case True
    then have "drop pos s \<noteq> []" by simp
    then have "0 < ?k" "\<not> bad_rune (decode_rune (drop pos s))" "utf8_valid (drop (pos + ?k) s)"
      "pos + ?k \<le> length s"
      using 1 decode_rune_width_le [of "drop pos s"]
      by (auto simp: utf8_valid_step decode_rune_width_pos add.commute)
    then show ?thesis
      using 1 True by (subst snap_fwd.simps) (simp add: Let_def)
  next
    case False
    with 1 show ?thesis by (subst snap_fwd.simps) simp
  qed
qed

definition chunk_row_of :: "int \<Rightarrow> chunk \<Rightarrow> chunk_row \<Rightarrow> bool" where
  "chunk_row_of art k c \<longleftrightarrow>
     c_artifact c = art \<and> c_ordinal c = k_ordinal k \<and> c_bytes c = Some (k_bstart k, k_bend k)
     \<and> c_lines c = (k_lstart k, k_lend k) \<and> c_title c = k_title k \<and> c_text c = k_text k"

lemma insert_chunk_row:
  "insert_chunk art k st = Inr s \<Longrightarrow> \<exists>c. chunks s = chunks st @ [c] \<and> chunk_row_of art k c"
  by (auto simp: insert_chunk_def Let_def chunk_row_of_def split: if_splits)

lemma insert_chunks_rows:
  "insert_chunks art ks st = Inr st' \<Longrightarrow>
     set (chunks st) \<subseteq> set (chunks st')
     \<and> (\<forall>k \<in> set ks. \<exists>c \<in> set (chunks st'). chunk_row_of art k c)"
proof (induction ks arbitrary: st)
  case (Cons k ks)
  then obtain s where s: "insert_chunk art k st = Inr s" and r: "insert_chunks art ks s = Inr st'"
    by (auto split: sum.splits)
  obtain c where "chunks s = chunks st @ [c]" "chunk_row_of art k c"
    using insert_chunk_row [OF s] by blast
  with Cons.IH [OF r] show ?case by auto
qed simp

lemma register_tx_chunks:
  assumes tx: "register_tx h rawh reg now st = Inr (art, st')"
    and new: "art \<notin> a_id ` set (artifacts st)" and k: "k \<in> set (r_chunks reg)"
  shows "\<exists>c \<in> set (chunks st'). chunk_row_of art k c"
proof -
  obtain st1 where sel: "select_or_insert h reg now st = Inr (art, st1)"
    and c: "chunks st' = chunks st1"
    using tx by (auto simp: register_tx_def Let_def cas_source_def upsert_source_def
        split: sum.splits prod.splits if_splits)
  have "find_artifact h (r_media reg) st = None"
    using sel new find_artifact_Some [of h "r_media reg" st]
    by (fastforce simp: select_or_insert_def split: option.splits)
  then obtain s where "insert_chunks art (r_chunks reg) s = Inr st1"
    using sel by (auto simp: select_or_insert_def Let_def split: sum.splits)
  then show ?thesis using insert_chunks_rows k c by metis
qed

lemma chunk_found:
  assumes "store_ok st" and "c \<in> set (chunks st)"
  shows "List.find (\<lambda>x. c_id x = c_id c) (chunks st) = Some c"
proof -
  have inj: "inj_on c_id (set (chunks st))"
    using assms(1) by (simp add: store_ok_defs distinct_map)
  show ?thesis
  proof (cases "List.find (\<lambda>x. c_id x = c_id c) (chunks st)")
    case None
    with assms(2) show ?thesis by (auto simp: find_None_iff)
  next
    case (Some b)
    then have "b \<in> set (chunks st)" "c_id b = c_id c"
      by (metis (mono_tags, lifting) find_Some_iff nth_mem)+
    with Some inj assms(2) show ?thesis by (auto dest: inj_onD)
  qed
qed

lemma read_stored_chunk:
  assumes "store_ok st" and "artifact_of st art = Some meta" and "readBlob st (a_hash meta) = Inr blob"
    and "c \<in> set (chunks st)" and "chunk_row_of art k c"
    and "0 \<le> k_bstart k" "k_bstart k \<le> k_bend k" "k_bend k \<le> int (length blob)"
  shows "\<exists>res. ReadRange d st art (ChunkSel (c_id c)) = Inr res
     \<and> x_text res = take (nat (k_bend k - k_bstart k)) (drop (nat (k_bstart k)) blob)"
proof -
  have "c_artifact c = a_id meta"
    using assms(5) artifact_of_Some [OF assms(2)] by (simp add: chunk_row_of_def)
  then show ?thesis
    using assms chunk_found [OF assms(1,4)]
    by (intro iffD2 [OF ReadRange_selected [OF assms(2), of "ChunkSel (c_id c)" d "\<lambda>t _ _. t = X" for X]])
      (auto simp: read_selected_def readChunk_def Let_def chunk_row_of_def slice_of_def)
qed

text \<open>Property C3.  What \<open>Register\<close> stored is what the read path returns: the whole text of the
  artifact is the registered bytes, a byte range over all of them is again all of them when they
  are valid UTF-8, and each registered chunk of new content reads back, by the id of its row, as
  exactly the bytes of its range.\<close>

theorem register_read_roundtrip:
  assumes "store_ok st" and "Register io reg (v, st) = ((v', st'), Inr art)"
    and "\<And>x. r_raw reg = Some x \<Longrightarrow> sha256_hex x = sha256_hex (r_bytes reg) \<Longrightarrow> x = r_bytes reg"
  shows "ArtifactText st' art 0 = Inr (r_bytes reg)
    \<and> (utf8_valid (r_bytes reg) \<and> r_bytes reg \<noteq> [] \<longrightarrow>
         (\<exists>res. ReadRange d st' art (ByteSel 0 (int (length (r_bytes reg)))) = Inr res
            \<and> x_text res = r_bytes reg))
    \<and> (art \<notin> a_id ` set (artifacts st) \<longrightarrow>
         (\<forall>k \<in> set (r_chunks reg).
            0 \<le> k_bstart k \<and> k_bstart k \<le> k_bend k \<and> k_bend k \<le> int (length (r_bytes reg)) \<longrightarrow>
            (\<exists>cid res. ReadRange d st' art (ChunkSel cid) = Inr res
               \<and> x_text res = take (nat (k_bend k - k_bstart k)) (drop (nat (k_bstart k)) (r_bytes reg)))))"
  using assms(2,1)
proof (rule Register_Inr)
  fix st2 rawh
  let ?h = "sha256_hex (r_bytes reg)"
  assume tx: "register_tx ?h rawh reg (w_now io) st2 = Inr (art, st')"
    and ok: "store_ok st2" and b: "?h \<in> set (map fst (blobs st2))"
    and same: "artifacts st2 = artifacts st"
    and rd: "(\<And>x. r_raw reg = Some x \<Longrightarrow> sha256_hex x = ?h \<Longrightarrow> x = r_bytes reg)
       \<Longrightarrow> readBlob st2 ?h = Inr (r_bytes reg)"
  have ok': "store_ok st'" using Register_ok [OF assms(2,1)] .
  obtain meta where meta: "meta \<in> set (artifacts st')" "a_id meta = art" "a_hash meta = ?h"
    using register_tx_artifact [OF tx ok _ b] by auto
  have art: "artifact_of st' art = Some meta" using artifact_of_member [OF ok' meta(1)] meta(2) by simp
  have blob: "readBlob st' (a_hash meta) = Inr (r_bytes reg)"
    using rd assms(3) register_tx_source(2) [OF tx] readBlob_cong meta(3) by metis
  have "\<exists>res. ReadRange d st' art (ByteSel 0 (int (length (r_bytes reg)))) = Inr res
      \<and> x_text res = r_bytes reg" if "utf8_valid (r_bytes reg)" "r_bytes reg \<noteq> []"
    using that snap_fwd_whole [of 0 "r_bytes reg"]
    by (intro iffD2 [OF ReadRange_selected [OF art, of "ByteSel 0 (int (length (r_bytes reg)))" d "\<lambda>t _ _. t = r_bytes reg"]])
      (auto simp: read_selected_def blob Let_def snapUTF8_def slice_of_def)
  moreover have "\<exists>cid res. ReadRange d st' art (ChunkSel cid) = Inr res
      \<and> x_text res = take (nat (k_bend k - k_bstart k)) (drop (nat (k_bstart k)) (r_bytes reg))"
    if "art \<notin> a_id ` set (artifacts st)" "k \<in> set (r_chunks reg)" "0 \<le> k_bstart k"
      "k_bstart k \<le> k_bend k" "k_bend k \<le> int (length (r_bytes reg))" for k
    using register_tx_chunks [OF tx, of k] read_stored_chunk [OF ok' art blob] that same by metis
  ultimately show ?thesis using art blob by (auto simp: ArtifactText_def)
qed

lemma register_read_roundtrip_witness:
  "\<exists>v' st'. Register demo_io demo_reg (demo_env, empty_store) = ((v', st'), Inr 1)
     \<and> ArtifactText st' 1 0 = Inr ''hello''
     \<and> (\<exists>cid res. ReadRange demo_disk st' 1 (ChunkSel cid) = Inr res \<and> x_text res = ''hello'')"
  using demo_register_ok register_read_roundtrip [OF store_ok_empty, of demo_io demo_reg demo_env _ _ 1 demo_disk]
  by (fastforce simp: demo_reg_def empty_store_def)

text \<open>What was registered can be read.\<close>

lemma Register_readable:
  assumes "store_ok st" and "Register io reg (v, st) = ((v', st'), Inr art)" 
    and "\<And>x. r_raw reg = Some x \<Longrightarrow> sha256_hex x = sha256_hex (r_bytes reg) \<Longrightarrow> x = r_bytes reg"
  shows "(\<exists>rawh. source_row_of art rawh reg (w_now io) \<in> set (sources st')) \<and> ArtifactText st' art 0 = Inr (r_bytes reg)"
proof -
  have ok': "store_ok st'" using Register_ok [OF assms(2,1)] .
  have stored: "\<exists>a \<in> set (artifacts st'). a_id a = art \<and> a_hash a = sha256_hex (r_bytes reg)"
    "readBlob st' (sha256_hex (r_bytes reg)) = Inr (r_bytes reg)"
    using register_stored [OF assms] by auto
  then obtain a where a: "a \<in> set (artifacts st')" "a_id a = art" "a_hash a = sha256_hex (r_bytes reg)" by blast
  then have "artifact_of st' art = Some a" using artifact_of_member [OF ok' a(1)] by simp
  then have "ArtifactText st' art 0 = Inr (r_bytes reg)" using a stored by (simp add: ArtifactText_def)
  moreover have "\<exists>rawh. source_row_of art rawh reg (w_now io) \<in> set (sources st')"
    using assms(2,1) by (rule Register_Inr) (use register_tx_source in blast)
  ultimately show ?thesis by blast
qed

end
