(* ===== verification/Store_Purge.thy ===== *)
theory Store_Purge
  imports Store_Register "HOL-Library.List_Lexorder" "HOL-Library.Char_ord"
begin

text \<open>
  Retention of the store: deletion of old sources, of content only the hook captured, of files
  no row refers to; and the protocol that keeps a file a concurrent registration needs.  Times of
  rows are seconds, times of files nanoseconds, as in the code.
\<close>

section \<open>Old sources\<close>

definition sourced :: "store \<Rightarrow> int \<Rightarrow> bool" where
  "sourced st i \<longleftrightarrow> i \<in> s_artifact ` set (sources st)"

definition purge_older_tx :: "int \<Rightarrow> store \<Rightarrow> go_error + ((int \<times> int) \<times> store)" where
  "purge_older_tx cutoff st =
     (let st1 = st\<lparr>sources := filter (\<lambda>s. \<not> s_indexed s < cutoff) (sources st)\<rparr>;
          n1 = int (length (sources st)) - int (length (sources st1));
          orphan = (\<lambda>i. i \<in> a_id ` set (artifacts st1) \<and> \<not> sourced st1 i);
          st2 = delete_chunks (\<lambda>c. orphan (c_artifact c)) st1;
          st3 = st2\<lparr>artifacts := filter (\<lambda>a. sourced st2 (a_id a)) (artifacts st2)\<rparr>;
          n2 = int (length (artifacts st2)) - int (length (artifacts st3))
      in Inr ((n1, n2), st3))"

definition PurgeOlderThan :: "int \<Rightarrow> world \<Rightarrow> world \<times> ((int \<times> int) \<times> go_error option)" where
  "PurgeOlderThan cutoff w =
     (case txRetry (purge_older_tx cutoff) w of
        (w', Inl e) \<Rightarrow> (w', ((0, 0), Some e))
      | (w', Inr n) \<Rightarrow> (w', (n, checkFTSIntegrity (snd w'))))"

section \<open>Content owned by the hook alone\<close>

text \<open>\<open>shadowOwnedHashQuery\<close> and the budget \<open>shadowOwnedFilter\<close> adds.\<close>

definition joined :: "store \<Rightarrow> bytes \<Rightarrow> source_row \<Rightarrow> bool" where
  "joined st h s \<longleftrightarrow>
     s \<in> set (sources st) \<and> (\<exists>a \<in> set (artifacts st). a_id a = s_artifact s \<and> a_hash a = h)"

definition shadow_owned :: "store \<Rightarrow> bytes \<Rightarrow> bool" where
  "shadow_owned st h \<longleftrightarrow>
     list_ex (\<lambda>s. joined st h s \<and> s_kind s = ''hook'') (sources st)
     \<and> \<not> list_ex (\<lambda>s. joined st h s \<and> s_kind s \<noteq> ''hook'') (sources st)
     \<and> \<not> list_ex (\<lambda>s. s_raw s = Some h \<and> s_kind s \<noteq> ''hook'') (sources st)"

definition shadowOwnedFilter :: "int \<Rightarrow> int \<Rightarrow> store \<Rightarrow> bytes list" where
  "shadowOwnedFilter cutoff maxHashes st =
     (let hs = remdups (map a_hash (artifacts st));
          owned = filter (\<lambda>h. shadow_owned st h
             \<and> (cutoff > 0 \<longrightarrow> \<not> list_ex (\<lambda>s. joined st h s \<and> s_indexed s \<ge> cutoff) (sources st))) hs
      in if maxHashes > 0 then take (nat maxHashes) (sort owned) else owned)"

definition ShadowOwnedExists :: "store \<Rightarrow> bool" where
  "ShadowOwnedExists st \<longleftrightarrow> shadowOwnedFilter 0 0 st \<noteq> []"

record hook_report =
  h_hashes :: nat
  h_reclaimed :: int
  h_deferred :: nat
  h_failed :: nat

definition no_report :: hook_report where
  "no_report = \<lparr>h_hashes = 0, h_reclaimed = 0, h_deferred = 0, h_failed = 0\<rparr>"

text \<open>The three statements; the selection is evaluated anew by each, on the tables as the
  statements before left them.\<close>

definition has_hash :: "store \<Rightarrow> bytes list \<Rightarrow> int \<Rightarrow> bool" where
  "has_hash st hs i \<longleftrightarrow> (\<exists>a \<in> set (artifacts st). a_id a = i \<and> a_hash a \<in> set hs)"

definition purge_hook_tx :: "int \<Rightarrow> int \<Rightarrow> store \<Rightarrow> go_error + (bytes list \<times> store)" where
  "purge_hook_tx cutoff maxHashes st =
     (let sel = shadowOwnedFilter cutoff maxHashes;
          hashes = sel st;
          st1 = delete_chunks (\<lambda>c. has_hash st (sel st) (c_artifact c)) st;
          st2 = st1\<lparr>sources := filter (\<lambda>s. \<not> has_hash st1 (sel st1) (s_artifact s)) (sources st1)\<rparr>;
          st3 = st2\<lparr>artifacts := filter (\<lambda>a. a_hash a \<notin> set hashes) (artifacts st2)\<rparr>
      in Inr (hashes, st3))"

definition purgeHookRows ::
  "int \<Rightarrow> int \<Rightarrow> world \<Rightarrow> world \<times> (go_error + (bytes list \<times> hook_report))" where
  "purgeHookRows cutoff maxHashes w =
     (case txRetry (purge_hook_tx cutoff maxHashes) w of
        (w', Inl e) \<Rightarrow> (w', Inl e)
      | (w', Inr hs) \<Rightarrow> (w', Inr (hs, no_report\<lparr>h_hashes := length hs\<rparr>)))"

subsection \<open>Reclaiming files by rename\<close>

definition gcOrphanMinAge :: int where
  "gcOrphanMinAge = 3600 * 1000000000"

definition purging_name :: "bytes \<Rightarrow> bytes" where
  "purging_name h = h @ ''.purging''"

text \<open>What the file system and the reader answer for one hash.\<close>

record reclaim_io =
  o_ctx :: "go_error option"
  o_rename :: "go_error option"
  o_stat :: "go_error option"
  o_query :: "go_error option"
  o_remove :: "go_error option"
  o_rollback :: "go_error option"

text \<open>\<open>os.Rename\<close> replaces its target.  The code ignores the error of the rename that puts a
  file back.\<close>

definition rename_blob :: "bytes \<Rightarrow> bytes \<Rightarrow> store \<Rightarrow> store" where
  "rename_blob p q st =
     (case map_of (blobs st) p of
        None \<Rightarrow> st
      | Some b \<Rightarrow> st\<lparr>blobs := AList.update q b (AList.delete p (blobs st))\<rparr>)"

definition remove_blob :: "bytes \<Rightarrow> store \<Rightarrow> store" where
  "remove_blob p st = st\<lparr>blobs := AList.delete p (blobs st)\<rparr>"

definition rollback_blob :: "reclaim_io \<Rightarrow> bytes \<Rightarrow> bytes \<Rightarrow> store \<Rightarrow> store" where
  "rollback_blob io q p st = (if o_rollback io \<noteq> None then st else rename_blob q p st)"

definition referencedb :: "store \<Rightarrow> bytes \<Rightarrow> bool" where
  "referencedb st h \<longleftrightarrow>
     list_ex (\<lambda>a. a_hash a = h) (artifacts st) \<or> list_ex (\<lambda>s. s_raw s = Some h) (sources st)"

definition stillReferenced :: "reclaim_io \<Rightarrow> store \<Rightarrow> bytes \<Rightarrow> bool" where
  "stillReferenced io st h \<longleftrightarrow> o_query io \<noteq> None \<or> referencedb st h"

text \<open>One iteration of the loop after its context check.\<close>

definition reclaim_one ::
  "reclaim_io \<Rightarrow> int \<Rightarrow> bytes \<Rightarrow> store \<times> hook_report \<Rightarrow> store \<times> hook_report" where
  "reclaim_one io now h sr =
     (case sr of (st, rep) \<Rightarrow>
        let q = purging_name h in
        (case map_of (blobs st) h of
           None \<Rightarrow> (st, rep)
         | Some b \<Rightarrow>
             if o_rename io \<noteq> None then
               (st, if o_rename io = Some FsNotExist then rep
                    else rep\<lparr>h_failed := h_failed rep + 1\<rparr>)
             else
               let st1 = rename_blob h q st in
               if o_stat io \<noteq> None \<or> now - b_mtime b < gcOrphanMinAge \<or> stillReferenced io st1 h
               then (rollback_blob io q h st1, rep\<lparr>h_deferred := h_deferred rep + 1\<rparr>)
               else if o_remove io \<noteq> None
               then (rollback_blob io q h st1, rep\<lparr>h_failed := h_failed rep + 1\<rparr>)
               else (remove_blob q st1,
                     rep\<lparr>h_reclaimed := h_reclaimed rep + int (length (b_data b))\<rparr>)))"

fun reclaim_loop ::
  "(bytes \<Rightarrow> reclaim_io) \<Rightarrow> int \<Rightarrow> bytes list \<Rightarrow> store \<times> hook_report
     \<Rightarrow> (store \<times> hook_report) \<times> go_error option" where
  "reclaim_loop io now [] sr = (sr, None)"
| "reclaim_loop io now (h # hs) sr =
     (case o_ctx (io h) of
        Some e \<Rightarrow> (sr, Some e)
      | None \<Rightarrow> reclaim_loop io now hs (reclaim_one (io h) now h sr))"

text \<open>\<open>lock\<close> is what \<open>lockStoreCtx\<close> gives.\<close>

definition reclaimHookBlobs ::
  "go_error option \<Rightarrow> (bytes \<Rightarrow> reclaim_io) \<Rightarrow> int \<Rightarrow> bytes list \<Rightarrow> store \<times> hook_report
     \<Rightarrow> (store \<times> hook_report) \<times> go_error option" where
  "reclaimHookBlobs lock io now hs sr =
     (if hs = [] then (sr, None)
      else (case lock of Some e \<Rightarrow> (sr, Some e) | None \<Rightarrow> reclaim_loop io now hs sr))"

definition PurgeHookOnlyOlderThan ::
  "go_error option \<Rightarrow> (bytes \<Rightarrow> reclaim_io) \<Rightarrow> int \<Rightarrow> int \<Rightarrow> int \<Rightarrow> world
     \<Rightarrow> world \<times> (hook_report \<times> go_error option)" where
  "PurgeHookOnlyOlderThan lock io now cutoff maxHashes w =
     (case purgeHookRows cutoff maxHashes w of
        (w', Inl e) \<Rightarrow> (w', (no_report, Some e))
      | ((v, st), Inr (hs, rep)) \<Rightarrow>
          (case reclaimHookBlobs lock io now hs (st, rep) of
             ((st', rep'), e) \<Rightarrow> ((v, st'), (rep', e))))"

definition PurgeHookOnly ::
  "go_error option \<Rightarrow> (bytes \<Rightarrow> reclaim_io) \<Rightarrow> int \<Rightarrow> world
     \<Rightarrow> world \<times> (hook_report \<times> go_error option)" where
  "PurgeHookOnly lock io now w = PurgeHookOnlyOlderThan lock io now 0 0 w"

text \<open>\<open>ParseDuration\<close> is the library's; \<open>parsed\<close> is its result on the variable.\<close>

definition DefaultShadowRetention :: int where
  "DefaultShadowRetention = 72 * 3600 * 1000000000"

definition ShadowRetention :: "int option \<Rightarrow> int" where
  "ShadowRetention parsed =
     (case parsed of Some d \<Rightarrow> if d > 0 then d else DefaultShadowRetention
      | None \<Rightarrow> DefaultShadowRetention)"

definition ShadowCutoff :: "int \<Rightarrow> int \<Rightarrow> int" where
  "ShadowCutoff nowNs d = (nowNs - d) div 1000000000"

section \<open>Unreferenced files\<close>

text \<open>One directory of \<open>artifacts/\<close> as \<open>os.ReadDir\<close> lists it.\<close>

record gc_dir =
  g_ctx :: "go_error option"
  g_isdir :: bool
  g_entries :: "go_error + bytes list"

record gc_io =
  f_lock :: "go_error option"
  f_refs :: "go_error option"
  f_raws :: "go_error option"
  f_root :: "go_error + gc_dir list"
  f_stat :: "bytes \<Rightarrow> go_error option"
  f_remove :: "bytes \<Rightarrow> go_error option"

definition is_purging :: "bytes \<Rightarrow> bool" where
  "is_purging name \<longleftrightarrow> length name = 64 + length ''.purging'' \<and> drop 64 name = ''.purging''"

definition gc_candidate :: "bytes set \<Rightarrow> bytes \<Rightarrow> bool" where
  "gc_candidate refs name \<longleftrightarrow> is_purging name \<or> (length name = 64 \<and> name \<notin> refs)"

fun gc_entries ::
  "gc_io \<Rightarrow> int \<Rightarrow> bytes set \<Rightarrow> bytes list \<Rightarrow> store \<times> int \<Rightarrow> (store \<times> int) \<times> go_error option" where
  "gc_entries io now refs [] sn = (sn, None)"
| "gc_entries io now refs (name # names) (st, n) =
     (if \<not> gc_candidate refs name then gc_entries io now refs names (st, n)
      else (case f_stat io name of
              Some e \<Rightarrow>
                if e = FsNotExist then gc_entries io now refs names (st, n) else ((st, n), Some e)
            | None \<Rightarrow>
                (case map_of (blobs st) name of
                   None \<Rightarrow> gc_entries io now refs names (st, n)
                 | Some b \<Rightarrow>
                     if now - b_mtime b < gcOrphanMinAge then gc_entries io now refs names (st, n)
                     else (case f_remove io name of
                             Some e \<Rightarrow> ((st, n), Some e)
                           | None \<Rightarrow> gc_entries io now refs names (remove_blob name st, n + 1)))))"

fun gc_dirs ::
  "gc_io \<Rightarrow> int \<Rightarrow> bytes set \<Rightarrow> gc_dir list \<Rightarrow> store \<times> int \<Rightarrow> (store \<times> int) \<times> go_error option" where
  "gc_dirs io now refs [] sn = (sn, None)"
| "gc_dirs io now refs (p # ps) sn =
     (case g_ctx p of
        Some e \<Rightarrow> (sn, Some e)
      | None \<Rightarrow>
          if \<not> g_isdir p then gc_dirs io now refs ps sn
          else (case g_entries p of
                  Inl e \<Rightarrow> (sn, Some e)
                | Inr names \<Rightarrow>
                    (case gc_entries io now refs names sn of
                       (sn', Some e) \<Rightarrow> (sn', Some e)
                     | (sn', None) \<Rightarrow> gc_dirs io now refs ps sn')))"

definition hash_refs :: "store \<Rightarrow> bytes set" where
  "hash_refs st = set (map a_hash (artifacts st)) \<union> set (List.map_filter s_raw (sources st))"

definition GCOrphanBlobs :: "gc_io \<Rightarrow> int \<Rightarrow> store \<Rightarrow> store \<times> (int \<times> go_error option)" where
  "GCOrphanBlobs io now st =
     (case f_lock io of
        Some e \<Rightarrow> (st, (0, Some e))
      | None \<Rightarrow>
        (case f_refs io of
           Some e \<Rightarrow> (st, (0, Some e))
         | None \<Rightarrow>
           (case f_raws io of
              Some e \<Rightarrow> (st, (0, Some e))
            | None \<Rightarrow>
              (case f_root io of
                 Inl e \<Rightarrow> (st, (0, if e = FsNotExist then None else Some e))
               | Inr ps \<Rightarrow>
                   (case gc_dirs io now (hash_refs st) ps (st, 0) of
                      ((st', n), e) \<Rightarrow> (st', (n, e)))))))"

section \<open>Index merging\<close>

text \<open>\<open>fts-merge.stamp\<close>: its modification time is \<open>merge_stamp\<close>.  \<open>merge\<close> is what the two
  \<open>optimize\<close> statements give; they reorganise the index files and change no row.\<close>

definition FTSMergeDueIn :: "store \<Rightarrow> int \<Rightarrow> int \<Rightarrow> int" where
  "FTSMergeDueIn st interval now =
     (case merge_stamp st of
        None \<Rightarrow> 0
      | Some t \<Rightarrow>
          let elapsed = now - t in
          if elapsed < 0 \<or> elapsed \<ge> interval then 0 else interval - elapsed)"

definition MergeFTS :: "go_error option \<times> go_error option \<Rightarrow> go_error option" where
  "MergeFTS faults = (case faults of (None, None) \<Rightarrow> None | (Some e, _) \<Rightarrow> Some e | (_, e) \<Rightarrow> e)"

text \<open>\<open>stampFails\<close>: creating the stamp, or setting its time, fails; the first leaves no stamp,
  the second the time of the creation.\<close>

definition MergeFTSIfDue ::
  "go_error option \<times> go_error option \<Rightarrow> bool \<Rightarrow> int option \<Rightarrow> store \<Rightarrow> int \<Rightarrow> int
     \<Rightarrow> store \<times> (go_error + bool)" where
  "MergeFTSIfDue faults openFails chtimesFails st interval now =
     (if FTSMergeDueIn st interval now > 0 then (st, Inr False)
      else (case MergeFTS faults of
              Some e \<Rightarrow> (st, Inl e)
            | None \<Rightarrow>
                if openFails then (st, Inr True)
                else (case chtimesFails of
                        None \<Rightarrow> (st\<lparr>merge_stamp := Some now\<rparr>, Inr True)
                      | Some created \<Rightarrow>
                          (st\<lparr>merge_stamp :=
                                (case merge_stamp st of None \<Rightarrow> Some created | t \<Rightarrow> t)\<rparr>, Inr True))))"

section \<open>Deleting chunks keeps the indexes in step\<close>

lemma fts_of_inj: "distinct (map c_id cs) \<Longrightarrow> inj_on fts_of (set cs)"
  by (auto simp: inj_on_def fts_of_def distinct_map)

lemma filter_fts:
  assumes "distinct (map c_id cs)"
  shows "filter (\<lambda>r. r \<notin> set (map fts_of (filter P cs))) (map fts_of cs)
    = map fts_of (filter (\<lambda>c. \<not> P c) cs)"
proof -
  have "c \<in> set cs \<Longrightarrow> fts_of c \<in> fts_of ` set (filter P cs) \<longleftrightarrow> P c" for c
    using fts_of_inj [OF assms] by (auto simp: inj_on_def)
  then have "filter (\<lambda>c. fts_of c \<notin> fts_of ` set (filter P cs)) cs = filter (\<lambda>c. \<not> P c) cs"
    by (intro filter_cong) simp_all
  then show ?thesis by (simp add: filter_map comp_def)
qed

lemma delete_chunks_eq:
  assumes "store_ok st"
  shows "delete_chunks P st = st\<lparr>chunks := filter (\<lambda>c. \<not> P c) (chunks st),
    fts_porter := map fts_of (filter (\<lambda>c. \<not> P c) (chunks st)),
    fts_trigram := map fts_of (filter (\<lambda>c. \<not> P c) (chunks st))\<rparr>"
proof -
  have "distinct (map c_id (chunks st))" using assms by (simp add: store_ok_defs)
  from filter_fts [OF this, of P] show ?thesis
    using assms by (simp add: delete_chunks_def Let_def store_ok_defs)
qed

text \<open>Rows may go as long as nothing that stays refers to them.\<close>

lemma store_ok_shrink:
  assumes "store_ok st" and "\<And>s. s \<in> set (sources st) \<Longrightarrow> Q s \<Longrightarrow> a_keep (s_artifact s)"
    and "\<And>c. c \<in> set (chunks st) \<Longrightarrow> R c \<Longrightarrow> a_keep (c_artifact c)"
  shows "store_ok (st\<lparr>sources := filter Q (sources st), chunks := filter R (chunks st),
     fts_porter := map fts_of (filter R (chunks st)),
     fts_trigram := map fts_of (filter R (chunks st)),
     artifacts := filter (\<lambda>a. a_keep (a_id a)) (artifacts st)\<rparr>)"
proof -
  have "distinct (map a_id (filter (\<lambda>a. a_keep (a_id a)) (artifacts st)))"
    "distinct (map (\<lambda>a. (a_hash a, a_media a)) (filter (\<lambda>a. a_keep (a_id a)) (artifacts st)))"
    "distinct (map s_uri (filter Q (sources st)))"
    "distinct (map c_id (filter R (chunks st)))"
    "distinct (map (\<lambda>c. (c_artifact c, c_ordinal c)) (filter R (chunks st)))"
    using assms(1) by (simp_all add: store_ok_defs distinct_map_filter)
  moreover have "s \<in> set (sources st) \<Longrightarrow> Q s \<Longrightarrow>
      s_artifact s \<in> a_id ` {a \<in> set (artifacts st). a_keep (a_id a)}" for s
    using assms(1,2) by (fastforce simp: store_ok_defs)
  moreover have "c \<in> set (chunks st) \<Longrightarrow> R c \<Longrightarrow>
      c_artifact c \<in> a_id ` {a \<in> set (artifacts st). a_keep (a_id a)}" for c
    using assms(1,3) by (fastforce simp: store_ok_defs)
  moreover have "cas_ok st" "blobs_present st" "watermark_ok st"
    "\<forall>a \<in> set (artifacts st). 0 < a_id a"
    using assms(1) by (simp_all add: store_ok_defs)
  ultimately show ?thesis
    by (simp add: store_ok_defs cas_ok_def blobs_present_def referenced_def) blast
qed

section \<open>\<open>PurgeOlderThan\<close>\<close>

definition kept_sources :: "int \<Rightarrow> store \<Rightarrow> source_row list" where
  "kept_sources cutoff st = filter (\<lambda>s. cutoff \<le> s_indexed s) (sources st)"

definition kept_id :: "int \<Rightarrow> store \<Rightarrow> int \<Rightarrow> bool" where
  "kept_id cutoff st i \<longleftrightarrow> i \<in> s_artifact ` set (kept_sources cutoff st)"

text \<open>The specification of the purge: the old sources go, and with them every artifact and chunk
  no remaining source refers to; the indexes follow.\<close>

definition purged_store :: "int \<Rightarrow> store \<Rightarrow> store" where
  "purged_store cutoff st =
     st\<lparr>sources := kept_sources cutoff st,
        chunks := filter (\<lambda>c. kept_id cutoff st (c_artifact c)) (chunks st),
        fts_porter := map fts_of (filter (\<lambda>c. kept_id cutoff st (c_artifact c)) (chunks st)),
        fts_trigram := map fts_of (filter (\<lambda>c. kept_id cutoff st (c_artifact c)) (chunks st)),
        artifacts := filter (\<lambda>a. kept_id cutoff st (a_id a)) (artifacts st)\<rparr>"

lemma purge_older_tx_eq:
  assumes ok: "store_ok st"
  shows "purge_older_tx cutoff st =
    Inr ((int (length (sources st)) - int (length (kept_sources cutoff st)),
          int (length (artifacts st))
            - int (length (filter (\<lambda>a. kept_id cutoff st (a_id a)) (artifacts st)))),
         purged_store cutoff st)"
proof -
  let ?st1 = "st\<lparr>sources := kept_sources cutoff st\<rparr>"
  have src: "filter (\<lambda>s. \<not> s_indexed s < cutoff) (sources st) = kept_sources cutoff st"
    unfolding kept_sources_def by (rule filter_cong) auto
  have sd: "sourced ?st1 = kept_id cutoff st"
    by (intro ext) (simp add: sourced_def kept_id_def)
  have d: "distinct (map c_id (chunks st))" using ok by (simp add: store_ok_defs)
  have fts: "fts_porter st = map fts_of (chunks st)" "fts_trigram st = map fts_of (chunks st)"
    using ok by (simp_all add: store_ok_defs)
  have keep: "filter (\<lambda>c. \<not> (c_artifact c \<in> a_id ` set (artifacts st) \<and> \<not> kept_id cutoff st (c_artifact c)))
      (chunks st) = filter (\<lambda>c. kept_id cutoff st (c_artifact c)) (chunks st)"
    using ok by (intro filter_cong) (auto simp: store_ok_defs)
  have del: "delete_chunks (\<lambda>c. c_artifact c \<in> a_id ` set (artifacts st) \<and> \<not> kept_id cutoff st (c_artifact c)) ?st1
    = ?st1\<lparr>chunks := filter (\<lambda>c. kept_id cutoff st (c_artifact c)) (chunks st),
        fts_porter := map fts_of (filter (\<lambda>c. kept_id cutoff st (c_artifact c)) (chunks st)),
        fts_trigram := map fts_of (filter (\<lambda>c. kept_id cutoff st (c_artifact c)) (chunks st))\<rparr>"
    using filter_fts [OF d, of "\<lambda>c. c_artifact c \<in> a_id ` set (artifacts st) \<and> \<not> kept_id cutoff st (c_artifact c)"]
    by (simp add: delete_chunks_def Let_def fts keep del: de_Morgan_conj)
  have sd2: "sourced (?st1\<lparr>chunks := cs, fts_porter := p, fts_trigram := t\<rparr>) = kept_id cutoff st" for cs p t
    by (intro ext) (simp add: sourced_def kept_id_def)
  show ?thesis
    unfolding purge_older_tx_def Let_def src sd
    by (simp add: del sd2 purged_store_def)
qed

lemma purged_store_ok: "store_ok st \<Longrightarrow> store_ok (purged_store cutoff st)"
proof -
  assume ok: "store_ok st"
  have "s \<in> set (sources st) \<Longrightarrow> cutoff \<le> s_indexed s \<Longrightarrow> kept_id cutoff st (s_artifact s)" for s
    by (auto simp: kept_id_def kept_sources_def)
  then show ?thesis
    using store_ok_shrink [of st "\<lambda>s. cutoff \<le> s_indexed s" "kept_id cutoff st"
        "\<lambda>c. kept_id cutoff st (c_artifact c)"] ok
    by (simp add: purged_store_def kept_sources_def)
qed

lemma purged_store_sel [simp]:
  "sources (purged_store cutoff st) = kept_sources cutoff st"
  "artifacts (purged_store cutoff st) = filter (\<lambda>a. kept_id cutoff st (a_id a)) (artifacts st)"
  "watermark (purged_store cutoff st) = watermark st"
  "wm_table (purged_store cutoff st) = wm_table st"
  "blobs (purged_store cutoff st) = blobs st"
  by (simp_all add: purged_store_def)

lemma store_ok_fts: "store_ok st \<Longrightarrow> checkFTSIntegrity st = None"
  by (simp add: checkFTSIntegrity_def store_ok_defs)

text \<open>\<open>PurgeOlderThan\<close> either commits or changes nothing.  When it commits, exactly
  the sources last indexed before the cutoff are gone, exactly the artifacts and chunks no
  remaining source refers to are gone with them, the counts it returns are the numbers of rows
  removed, both full-text indexes still pass their integrity check, and the store stays
  well formed.\<close>

lemma purge_older_exact:
  assumes "store_ok st" and "PurgeOlderThan cutoff (v, st) = ((v', st'), (ns, na), err)"
  shows "store_ok st'
    \<and> (st' = st \<and> ns = 0 \<and> na = 0 \<and> err \<noteq> None
       \<or> st' = purged_store cutoff st \<and> err = None
         \<and> ns = int (length (sources st)) - int (length (sources st'))
         \<and> na = int (length (artifacts st)) - int (length (artifacts st')))"
proof -
  obtain w1 r where run: "txRetry (purge_older_tx cutoff) (v, st) = (w1, r)" by fastforce
  show ?thesis
  proof (cases r)
    case (Inl e)
    with run assms show ?thesis by (auto simp: PurgeOlderThan_def dest: txRetry_Inl)
  next
    case (Inr n)
    with run have tx: "purge_older_tx cutoff st = Inr (n, snd w1)" by (auto dest: txRetry_Inr)
    then have st': "snd w1 = purged_store cutoff st"
      and n: "n = (int (length (sources st)) - int (length (kept_sources cutoff st)),
          int (length (artifacts st))
            - int (length (filter (\<lambda>a. kept_id cutoff st (a_id a)) (artifacts st))))"
      by (simp_all add: purge_older_tx_eq assms(1))
    have "checkFTSIntegrity (snd w1) = None"
      by (simp add: st' store_ok_fts purged_store_ok assms(1))
    with run Inr assms st' n show ?thesis
      by (auto simp: PurgeOlderThan_def purged_store_ok)
  qed
qed

lemma demo_purge_run:
  "\<exists>v' st' ns na. PurgeOlderThan 5 (demo_env, demo_cas_store) = ((v', st'), (ns, na), None)"
  by (simp add: PurgeOlderThan_def txRetry_def txRetry_loop.simps [of 3] runTx_def pop_def
      demo_env_def purge_older_tx_eq demo_cas_store_ok isBusy_def store_ok_fts purged_store_ok)

lemma purge_older_exact_witness:
  "\<exists>v' st' na. PurgeOlderThan 5 (demo_env, demo_cas_store) = ((v', st'), (1, na), None)
     \<and> sources st' = []"
  using demo_purge_run purge_older_exact [OF demo_cas_store_ok, of 5 demo_env]
  by (fastforce simp: kept_sources_def demo_cas_store_def)

section \<open>The hook purge\<close>

lemma store_tables_cong:
  assumes "store_ok st" and "cas_ok st'" and "same_tables st st'"
    and "\<And>h. referenced st h \<Longrightarrow> h \<in> set (map fst (blobs st'))"
  shows "store_ok st'"
  using assms unfolding store_ok_defs same_tables_def blobs_present_def referenced_def by simp

lemma cas_ok_map_of:
  "cas_ok st \<longleftrightarrow> distinct (map fst (blobs st))
     \<and> (\<forall>n b. map_of (blobs st) n = Some b \<longrightarrow> length n = 64 \<longrightarrow> sha256_hex (b_data b) = n)"
  by (auto simp: cas_ok_def)

lemma length_purging_name [simp]: "length (purging_name h) = length h + 8"
  by (simp add: purging_name_def)

lemma purging_name_neq [simp]: "purging_name h \<noteq> h" "h \<noteq> purging_name h"
  by (simp_all add: purging_name_def)

lemma rename_blob_tables [simp]: "same_tables st (rename_blob p q st)"
  by (simp add: rename_blob_def same_tables_def split: option.splits)

lemma remove_blob_tables [simp]: "same_tables st (remove_blob p st)"
  by (simp add: remove_blob_def same_tables_def)

lemma map_of_rename_blob:
  "p \<noteq> q \<Longrightarrow> map_of (blobs (rename_blob p q st)) n =
     (case map_of (blobs st) p of None \<Rightarrow> map_of (blobs st) n
      | Some b \<Rightarrow> if n = q then Some b else if n = p then None else map_of (blobs st) n)"
  by (auto simp: rename_blob_def update_conv' delete_conv' split: option.splits)

lemma map_of_remove_blob:
  "map_of (blobs (remove_blob p st)) n = (if n = p then None else map_of (blobs st) n)"
  by (simp add: remove_blob_def delete_conv')

lemma distinct_rename_blob:
  "distinct (map fst (blobs st)) \<Longrightarrow> distinct (map fst (blobs (rename_blob p q st)))"
  by (simp add: rename_blob_def distinct_update distinct_delete split: option.splits)

lemma distinct_remove_blob:
  "distinct (map fst (blobs st)) \<Longrightarrow> distinct (map fst (blobs (remove_blob p st)))"
  by (simp add: remove_blob_def distinct_delete)

lemma referencedb_iff [simp]: "referencedb st h \<longleftrightarrow> referenced st h"
  by (auto simp: referencedb_def referenced_def list_ex_iff)

lemma referenced_cong: "same_tables st st' \<Longrightarrow> referenced st' h \<longleftrightarrow> referenced st h"
  by (simp add: same_tables_def referenced_def)

text \<open>The effect of one iteration.  A file the tables still need is never lost unless putting
  it back fails.\<close>

lemma reclaim_one_effect:
  assumes one: "reclaim_one io now h (st, rep) = (st', rep')"
    and d: "distinct (map fst (blobs st))"
  shows "same_tables st st' \<and> distinct (map fst (blobs st'))
    \<and> (\<forall>n. n \<noteq> h \<and> n \<noteq> purging_name h \<longrightarrow> map_of (blobs st') n = map_of (blobs st) n)
    \<and> map_of (blobs st') h \<in> {None, map_of (blobs st) h}
    \<and> (o_rollback io = None \<and> map_of (blobs st') h = None \<longrightarrow>
         map_of (blobs st) h = None
         \<or> \<not> referenced st h \<and> (\<forall>b. map_of (blobs st) h = Some b \<longrightarrow> gcOrphanMinAge \<le> now - b_mtime b))"
proof (cases "map_of (blobs st) h")
  case None
  with one d show ?thesis by (simp add: reclaim_one_def Let_def same_tables_def)
next
  case (Some b)
  let ?q = "purging_name h" and ?st1 = "rename_blob h (purging_name h) st"
  show ?thesis
  proof (cases "o_rename io = None")
    case False
    with one d Some show ?thesis by (auto simp: reclaim_one_def Let_def same_tables_def)
  next
    case True
    have t1: "same_tables st ?st1" by simp
    let ?undo = "o_stat io \<noteq> None \<or> now - b_mtime b < gcOrphanMinAge \<or> stillReferenced io ?st1 h
       \<or> o_remove io \<noteq> None"
    have st': "st' = (if ?undo then rollback_blob io ?q h ?st1 else remove_blob ?q ?st1)"
      using one Some True by (auto simp: reclaim_one_def Let_def split: if_splits)
    have t2: "same_tables ?st1 (rollback_blob io ?q h ?st1)"
      by (simp add: rollback_blob_def) (simp add: same_tables_def)
    have "same_tables st st'"
      using same_tables_trans [OF t1 t2] same_tables_trans [OF t1 remove_blob_tables] st' by simp
    moreover have "distinct (map fst (blobs st'))"
      using d by (simp add: st' rollback_blob_def distinct_rename_blob distinct_remove_blob)
    moreover have "n \<noteq> h \<and> n \<noteq> ?q \<longrightarrow> map_of (blobs st') n = map_of (blobs st) n" for n
      using Some by (simp add: st' rollback_blob_def map_of_rename_blob map_of_remove_blob)
    moreover have "map_of (blobs st') h \<in> {None, map_of (blobs st) h}"
      using Some by (simp add: st' rollback_blob_def map_of_rename_blob map_of_remove_blob)
    moreover have "o_rollback io = None \<and> map_of (blobs st') h = None \<longrightarrow> \<not> ?undo"
      using Some by (auto simp: st' rollback_blob_def map_of_rename_blob)
    then have "o_rollback io = None \<and> map_of (blobs st') h = None \<longrightarrow>
        \<not> referenced st h \<and> gcOrphanMinAge \<le> now - b_mtime b"
      using referenced_cong [OF t1] by (auto simp: stillReferenced_def)
    ultimately show ?thesis using Some by simp
  qed
qed

lemma reclaim_one_ok:
  assumes one: "reclaim_one io now h (st, rep) = (st', rep')" and ok: "store_ok st"
    and h: "length h = 64" and rb: "o_rollback io = None"
  shows "store_ok st' \<and> same_tables st st'"
proof -
  have d: "distinct (map fst (blobs st))" using ok by (simp add: store_ok_def cas_ok_def)
  note eff = reclaim_one_effect [OF one d]
  have "cas_ok st'"
    unfolding cas_ok_map_of
  proof (intro conjI allI impI)
    fix n b assume n: "map_of (blobs st') n = Some b" "length n = 64"
    have "n \<noteq> purging_name h" using n(2) h by auto
    then have "map_of (blobs st) n = Some b"
      using eff n(1) by (cases "n = h") auto
    then show "sha256_hex (b_data b) = n"
      using ok n(2) unfolding store_ok_def cas_ok_map_of by blast
  qed (use eff in blast)
  moreover have "x \<in> set (map fst (blobs st'))" if x: "referenced st x" for x
  proof -
    have x2: "length x = 64" "map_of (blobs st) x \<noteq> None"
      using ok x by (auto simp: store_ok_def blobs_present_def map_of_eq_None_iff)
    have "x \<noteq> purging_name h" using x2(1) h by auto
    then have "map_of (blobs st') x \<noteq> None"
      using eff x x2 rb by (cases "x = h") auto
    then show ?thesis by (simp add: map_of_eq_None_iff)
  qed
  ultimately show ?thesis using store_tables_cong [OF ok] eff by blast
qed

lemma reclaim_loop_ok:
  "reclaim_loop io now hs (st, rep) = ((st', rep'), e) \<Longrightarrow> store_ok st \<Longrightarrow>
     \<forall>h \<in> set hs. length h = 64 \<and> o_rollback (io h) = None \<Longrightarrow>
     store_ok st' \<and> same_tables st st'"
proof (induction hs arbitrary: st rep)
  case Nil
  then show ?case by (simp add: same_tables_def)
next
  case (Cons h hs)
  show ?case
  proof (cases "o_ctx (io h)")
    case (Some x)
    with Cons.prems show ?thesis by (simp add: same_tables_def)
  next
    case None
    obtain st1 rep1 where one: "reclaim_one (io h) now h (st, rep) = (st1, rep1)" by fastforce
    have "store_ok st1 \<and> same_tables st st1"
      using reclaim_one_ok [OF one] Cons.prems by simp
    with Cons.IH [of st1 rep1] Cons.prems None one show ?thesis
      by (auto dest: same_tables_trans)
  qed
qed

lemma reclaim_hashes_same: "h_hashes (snd (reclaim_one io now h sr)) = h_hashes (snd sr)"
  by (cases sr) (simp add: reclaim_one_def Let_def split: option.splits)

lemma reclaim_loop_hashes:
  "h_hashes (snd (fst (reclaim_loop io now hs sr))) = h_hashes (snd sr)"
  by (induction io now hs sr rule: reclaim_loop.induct)
    (auto simp: reclaim_hashes_same split: option.splits)

text \<open>Everything the hook purge selects is owned by hooks alone, old enough and within the
  budget.\<close>

lemma shadowOwnedFilter_selects:
  assumes "h \<in> set (shadowOwnedFilter cutoff m st)"
  shows "shadow_owned st h \<and> h \<in> a_hash ` set (artifacts st)
    \<and> (0 < cutoff \<longrightarrow> (\<forall>s. joined st h s \<longrightarrow> s_indexed s < cutoff))"
proof -
  have "h \<in> set (filter (\<lambda>h. shadow_owned st h
        \<and> (cutoff > 0 \<longrightarrow> \<not> list_ex (\<lambda>s. joined st h s \<and> s_indexed s \<ge> cutoff) (sources st)))
      (remdups (map a_hash (artifacts st))))"
    using assms by (auto simp: shadowOwnedFilter_def Let_def split: if_splits dest: in_set_takeD)
  then show ?thesis by (auto simp: list_ex_iff joined_def not_le)
qed

lemma shadowOwnedFilter_budget:
  "0 < m \<Longrightarrow> int (length (shadowOwnedFilter cutoff m st)) \<le> m"
  by (simp add: shadowOwnedFilter_def Let_def)

lemma shadowOwnedFilter_cong:
  "artifacts st' = artifacts st \<Longrightarrow> sources st' = sources st \<Longrightarrow>
     shadowOwnedFilter c m st' = shadowOwnedFilter c m st"
  by (simp add: shadowOwnedFilter_def shadow_owned_def joined_def)

text \<open>The selection is the same for all three statements, so they remove matching rows.\<close>

definition hook_purged :: "bytes list \<Rightarrow> store \<Rightarrow> store" where
  "hook_purged hs st =
     st\<lparr>sources := filter (\<lambda>s. \<not> has_hash st hs (s_artifact s)) (sources st),
        chunks := filter (\<lambda>c. \<not> has_hash st hs (c_artifact c)) (chunks st),
        fts_porter := map fts_of (filter (\<lambda>c. \<not> has_hash st hs (c_artifact c)) (chunks st)),
        fts_trigram := map fts_of (filter (\<lambda>c. \<not> has_hash st hs (c_artifact c)) (chunks st)),
        artifacts := filter (\<lambda>a. \<not> has_hash st hs (a_id a)) (artifacts st)\<rparr>"

lemma has_hash_own:
  assumes "store_ok st" and "a \<in> set (artifacts st)"
  shows "has_hash st hs (a_id a) \<longleftrightarrow> a_hash a \<in> set hs"
proof -
  have "inj_on a_id (set (artifacts st))" using assms(1) by (simp add: store_ok_defs distinct_map)
  then show ?thesis using assms(2) by (auto simp: has_hash_def dest: inj_onD)
qed

lemma has_hash_cong: "artifacts st' = artifacts st \<Longrightarrow> has_hash st' hs = has_hash st hs"
  by (intro ext) (simp add: has_hash_def)

lemma purge_hook_tx_eq:
  assumes ok: "store_ok st"
  shows "purge_hook_tx cutoff m st =
    Inr (shadowOwnedFilter cutoff m st, hook_purged (shadowOwnedFilter cutoff m st) st)"
proof -
  let ?hs = "shadowOwnedFilter cutoff m st"
  let ?st1 = "delete_chunks (\<lambda>c. has_hash st ?hs (c_artifact c)) st"
  note st1 = delete_chunks_eq [OF ok, of "\<lambda>c. has_hash st ?hs (c_artifact c)"]
  have sel: "shadowOwnedFilter cutoff m ?st1 = ?hs"
    by (rule shadowOwnedFilter_cong) (simp_all add: st1)
  have hh: "has_hash ?st1 ?hs = has_hash st ?hs"
    by (rule has_hash_cong) (simp add: st1)
  have art: "filter (\<lambda>a. a_hash a \<notin> set ?hs) (artifacts st) = filter (\<lambda>a. \<not> has_hash st ?hs (a_id a)) (artifacts st)"
    by (rule filter_cong) (simp_all add: has_hash_own [OF ok])
  show ?thesis
    unfolding purge_hook_tx_def Let_def sel hh by (simp add: st1 hook_purged_def art)
qed

lemma hook_purged_ok: "store_ok st \<Longrightarrow> store_ok (hook_purged hs st)"
  using store_ok_shrink [of st "\<lambda>s. \<not> has_hash st hs (s_artifact s)" "\<lambda>i. \<not> has_hash st hs i"
      "\<lambda>c. \<not> has_hash st hs (c_artifact c)"]
  by (simp add: hook_purged_def)

text \<open>What the tables are afterwards.\<close>

lemma hook_purge_run:
  assumes run: "PurgeHookOnlyOlderThan lock io now cutoff m (v, st) = ((v', st'), (rep, err))"
    and ok: "store_ok st" and rb: "\<And>h. o_rollback (io h) = None"
  shows "store_ok st' \<and> (same_tables st st' \<and> h_hashes rep = 0
     \<or> same_tables (hook_purged (shadowOwnedFilter cutoff m st) st) st'
       \<and> h_hashes rep = length (shadowOwnedFilter cutoff m st))"
proof -
  let ?hs = "shadowOwnedFilter cutoff m st"
  obtain w1 r where tx: "txRetry (purge_hook_tx cutoff m) (v, st) = (w1, r)" by fastforce
  show ?thesis
  proof (cases r)
    case (Inl e)
    with tx have "snd w1 = st" by (auto dest: txRetry_Inl)
    moreover have "(v', st') = w1 \<and> rep = no_report"
      using run tx Inl by (cases w1) (simp add: PurgeHookOnlyOlderThan_def purgeHookRows_def)
    ultimately show ?thesis using ok by (auto simp: same_tables_def no_report_def)
  next
    case (Inr hs)
    with tx have "purge_hook_tx cutoff m st = Inr (hs, snd w1)" by (auto dest: txRetry_Inr)
    then have hs: "hs = ?hs" and w1: "snd w1 = hook_purged ?hs st"
      using ok by (auto simp: purge_hook_tx_eq)
    let ?sr = "(hook_purged ?hs st, no_report\<lparr>h_hashes := length ?hs\<rparr>)"
    have rec: "reclaimHookBlobs lock io now ?hs ?sr = ((st', rep), err)"
      using run tx Inr hs w1
      by (cases w1) (auto simp: PurgeHookOnlyOlderThan_def purgeHookRows_def split: prod.splits)
    have len: "\<forall>h \<in> set ?hs. length h = 64 \<and> o_rollback (io h) = None"
      using ok rb by (auto simp: store_ok_def blobs_present_def referenced_def
          dest!: shadowOwnedFilter_selects)
    have ok1: "store_ok (hook_purged ?hs st)" by (rule hook_purged_ok [OF ok])
    show ?thesis
    proof (cases "?hs = [] \<or> lock \<noteq> None")
      case True
      with rec have "st' = hook_purged ?hs st" "h_hashes rep = length ?hs"
        by (auto simp: reclaimHookBlobs_def no_report_def split: if_splits)
      with ok1 show ?thesis by (simp add: same_tables_def)
    next
      case False
      then have loop: "reclaim_loop io now ?hs ?sr = ((st', rep), err)"
        using rec by (auto simp: reclaimHookBlobs_def)
      show ?thesis
        using reclaim_loop_ok [OF loop ok1 len] reclaim_loop_hashes [of io now ?hs ?sr] loop
        by (simp add: no_report_def)
    qed
  qed
qed

lemma has_hash_selected_hook:
  assumes "has_hash st (shadowOwnedFilter cutoff m st) (s_artifact s)" and "s \<in> set (sources st)"
  shows "s_kind s = ''hook'' \<and> (0 < cutoff \<longrightarrow> s_indexed s < cutoff)"
proof -
  obtain a where a: "a \<in> set (artifacts st)" "a_id a = s_artifact s"
    "a_hash a \<in> set (shadowOwnedFilter cutoff m st)"
    using assms(1) by (auto simp: has_hash_def)
  then have j: "joined st (a_hash a) s" using assms(2) by (auto simp: joined_def)
  with shadowOwnedFilter_selects [OF a(3)] assms(2) show ?thesis
    by (auto simp: shadow_owned_def list_ex_iff)
qed

text \<open>Property C4.  The hook purge, interrupted or not, touches only what hooks alone captured:
  every source of another kind stays, with the artifact it refers to and all chunks of that
  artifact; with a positive cutoff so does every hook source indexed at or after it; at most
  \<open>maxHashes\<close> contents go; and as long as a file can be put back by rename the store stays well
  formed, so no content a remaining row refers to has lost its file.\<close>

theorem hook_purge_is_confined:
  assumes "store_ok st" and "\<And>h. o_rollback (io h) = None"
    and "PurgeHookOnlyOlderThan lock io now cutoff m (v, st) = ((v', st'), (rep, err))"
  shows "store_ok st'
    \<and> (\<forall>s \<in> set (sources st). s_kind s \<noteq> ''hook'' \<or> (0 < cutoff \<and> cutoff \<le> s_indexed s) \<longrightarrow>
          s \<in> set (sources st')
          \<and> (\<forall>a \<in> set (artifacts st). a_id a = s_artifact s \<longrightarrow> a \<in> set (artifacts st'))
          \<and> (\<forall>c \<in> set (chunks st). c_artifact c = s_artifact s \<longrightarrow> c \<in> set (chunks st')))
    \<and> (0 < m \<longrightarrow> int (h_hashes rep) \<le> m)"
proof -
  let ?hs = "shadowOwnedFilter cutoff m st"
  note run = hook_purge_run [OF assms(3,1,2)]
  have keep: "\<not> has_hash st ?hs (s_artifact s)"
    if "s \<in> set (sources st)" "s_kind s \<noteq> ''hook'' \<or> (0 < cutoff \<and> cutoff \<le> s_indexed s)" for s
    using has_hash_selected_hook [of st cutoff m s] that by auto
  have "s \<in> set (sources st')
      \<and> (\<forall>a \<in> set (artifacts st). a_id a = s_artifact s \<longrightarrow> a \<in> set (artifacts st'))
      \<and> (\<forall>c \<in> set (chunks st). c_artifact c = s_artifact s \<longrightarrow> c \<in> set (chunks st'))"
    if "s \<in> set (sources st)" "s_kind s \<noteq> ''hook'' \<or> (0 < cutoff \<and> cutoff \<le> s_indexed s)" for s
    using run keep [OF that] that(1) by (auto simp: same_tables_def hook_purged_def)
  moreover have "int (h_hashes rep) \<le> m" if "0 < m"
    using run shadowOwnedFilter_budget [OF that] that by auto
  ultimately show ?thesis using run by blast
qed

definition demo_hook_store :: store where
  "demo_hook_store = demo_cas_store\<lparr>
     sources := [\<lparr>s_uri = ''shadow:x'', s_artifact = 4, s_kind = ''hook'', s_size = 4, s_mtime = 1,
         s_hash = ''old'', s_raw = None, s_extraction = None, s_indexed = 9\<rparr>]\<rparr>"

definition demo_reclaim :: "bytes \<Rightarrow> reclaim_io" where
  "demo_reclaim h = \<lparr>o_ctx = None, o_rename = None, o_stat = None, o_query = None, o_remove = None,
     o_rollback = None\<rparr>"

lemma demo_hook_store_ok: "store_ok demo_hook_store"
  by (simp add: demo_hook_store_def demo_cas_store_def empty_store_def store_ok_defs cas_ok_def
      blobs_present_def referenced_def)

lemma hook_purge_is_confined_witness:
  "store_ok (snd (fst (PurgeHookOnlyOlderThan None demo_reclaim 7200000000000 100 1
      (demo_env, demo_hook_store))))"
proof -
  obtain v' st' rep err where "PurgeHookOnlyOlderThan None demo_reclaim 7200000000000 100 1
      (demo_env, demo_hook_store) = ((v', st'), (rep, err))" by (metis surj_pair)
  with hook_purge_is_confined [OF demo_hook_store_ok _ this] show ?thesis
    by (simp add: demo_reclaim_def)
qed

section \<open>Garbage collection\<close>

lemma hash_refs_iff: "h \<in> hash_refs st \<longleftrightarrow> referenced st h"
  by (force simp: hash_refs_def referenced_def List.map_filter_def)

text \<open>What a run removes: candidates, old enough; and it counts them.\<close>

definition gc_shrunk :: "int \<Rightarrow> bytes set \<Rightarrow> store \<Rightarrow> store \<Rightarrow> int \<Rightarrow> bool" where
  "gc_shrunk now refs st st' k \<longleftrightarrow>
     same_tables st st' \<and> 0 \<le> k
     \<and> int (length (blobs st)) = int (length (blobs st')) + k
     \<and> distinct (map fst (blobs st'))
     \<and> (\<forall>n b. map_of (blobs st') n = Some b \<longrightarrow> map_of (blobs st) n = Some b)
     \<and> (\<forall>n b. map_of (blobs st) n = Some b \<and> map_of (blobs st') n = None \<longrightarrow>
          gc_candidate refs n \<and> gcOrphanMinAge \<le> now - b_mtime b)"

lemma gc_shrunk_refl: "distinct (map fst (blobs st)) \<Longrightarrow> gc_shrunk now refs st st 0"
  by (auto simp: gc_shrunk_def same_tables_def simp del: map_of_eq_Some_iff)

lemma length_delete_present:
  "distinct (map fst xs) \<Longrightarrow> map_of xs p = Some b \<Longrightarrow> length xs = Suc (length (AList.delete p xs))"
  by (induction xs) (auto simp: delete_idem)

lemma gc_shrunk_remove:
  assumes "gc_shrunk now refs st st1 k" and "map_of (blobs st1) name = Some b"
    and "gc_candidate refs name" and "gcOrphanMinAge \<le> now - b_mtime b"
  shows "gc_shrunk now refs st (remove_blob name st1) (k + 1)"
  using assms length_delete_present [of "blobs st1" name b]
  unfolding gc_shrunk_def
  by (auto simp: map_of_remove_blob distinct_delete remove_blob_def same_tables_def
      delete_conv' split: if_splits simp del: map_of_eq_Some_iff)

lemma gc_entries_shrunk:
  "gc_entries io now refs names (st1, k) = ((st', k'), e) \<Longrightarrow> gc_shrunk now refs st st1 k \<Longrightarrow>
     gc_shrunk now refs st st' k'"
proof (induction names arbitrary: st1 k)
  case (Cons name names)
  show ?case
  proof (cases "gc_candidate refs name \<and> f_stat io name = None")
    case False
    with Cons show ?thesis by (auto split: if_splits option.splits)
  next
    case True
    show ?thesis
    proof (cases "map_of (blobs st1) name")
      case None
      with True Cons show ?thesis by simp
    next
      case (Some b)
      show ?thesis
      proof (cases "gcOrphanMinAge \<le> now - b_mtime b \<and> f_remove io name = None")
        case True2: True
        then have "gc_entries io now refs names (remove_blob name st1, k + 1) = ((st', k'), e)"
          using Cons.prems(1) True Some by simp
        then show ?thesis
          using Cons.IH gc_shrunk_remove [OF Cons.prems(2) Some] True True2 by blast
      next
        case False
        with Cons True Some show ?thesis by (auto split: if_splits option.splits)
      qed
    qed
  qed
qed simp

lemma gc_dirs_shrunk:
  "gc_dirs io now refs ps (st1, k) = ((st', k'), e) \<Longrightarrow> gc_shrunk now refs st st1 k \<Longrightarrow>
     gc_shrunk now refs st st' k'"
proof (induction ps arbitrary: st1 k)
  case (Cons p ps)
  show ?case
  proof (cases "g_ctx p = None \<and> g_isdir p")
    case True
    show ?thesis
    proof (cases "g_entries p")
      case (Inr names)
      obtain st2 k2 e2 where step: "gc_entries io now refs names (st1, k) = ((st2, k2), e2)"
        by (metis surj_pair)
      note s2 = gc_entries_shrunk [OF step Cons.prems(2)]
      show ?thesis using Cons.prems Cons.IH [of st2 k2] True Inr step s2 by (cases e2) auto
    qed (use Cons True in simp)
  qed (use Cons in \<open>auto split: option.splits if_splits\<close>)
qed simp

lemma gc_shrunk_ok:
  assumes "gc_shrunk now (hash_refs st) st st' k" and ok: "store_ok st"
  shows "store_ok st'"
proof (rule store_tables_cong [OF ok])
  show "cas_ok st'"
    using assms unfolding cas_ok_map_of gc_shrunk_def store_ok_def by blast
  show "same_tables st st'" using assms(1) by (simp add: gc_shrunk_def)
  fix h assume h: "referenced st h"
  then have len: "length h = 64" and "map_of (blobs st) h \<noteq> None"
    using ok by (auto simp: store_ok_def blobs_present_def map_of_eq_None_iff)
  moreover have "\<not> gc_candidate (hash_refs st) h"
    using h len by (simp add: gc_candidate_def is_purging_def hash_refs_iff)
  ultimately have "map_of (blobs st') h \<noteq> None"
    using assms(1) unfolding gc_shrunk_def by (metis option.exhaust)
  then show "h \<in> set (map fst (blobs st'))" by (simp add: map_of_eq_None_iff)
qed

text \<open>Property C5.  Garbage collection, wherever it stops, changes no table and no file that
  stays; every file it removed was a leftover of an interrupted reclaim or a content file no
  artifact and no raw reference names, and was at least an hour old; the number it returns is the
  number of files it removed; and the store stays well formed.\<close>

theorem gc_removes_only_orphans:
  assumes "store_ok st" and "GCOrphanBlobs io now st = (st', (k, err))"
  shows "store_ok st' \<and> same_tables st st'
    \<and> int (length (blobs st)) = int (length (blobs st')) + k
    \<and> (\<forall>n b. map_of (blobs st') n = Some b \<longrightarrow> map_of (blobs st) n = Some b)
    \<and> (\<forall>n b. map_of (blobs st) n = Some b \<and> map_of (blobs st') n = None \<longrightarrow>
          (is_purging n \<or> \<not> referenced st n) \<and> 3600 * 1000000000 \<le> now - b_mtime b)"
proof -
  have d: "distinct (map fst (blobs st))" using assms(1) by (simp add: store_ok_def cas_ok_def)
  have "gc_shrunk now (hash_refs st) st st' k"
    using assms(2) gc_shrunk_refl [OF d] gc_dirs_shrunk [OF _ gc_shrunk_refl [OF d]]
    by (auto simp: GCOrphanBlobs_def split: option.splits sum.splits prod.splits)
  from gc_shrunk_ok [OF this assms(1)] this show ?thesis
    unfolding gc_shrunk_def gc_candidate_def gcOrphanMinAge_def hash_refs_iff by blast
qed

definition demo_gc :: gc_io where
  "demo_gc = \<lparr>f_lock = None, f_refs = None, f_raws = None,
     f_root = Inr [\<lparr>g_ctx = None, g_isdir = True, g_entries = Inr [sha256_hex ''old text'', ''x'']\<rparr>],
     f_stat = (\<lambda>n. None), f_remove = (\<lambda>n. None)\<rparr>"

lemma gc_removes_only_orphans_witness:
  "store_ok (fst (GCOrphanBlobs demo_gc 7200000000000 demo_cas_store))"
proof -
  obtain st' k err where "GCOrphanBlobs demo_gc 7200000000000 demo_cas_store = (st', (k, err))"
    by (metis surj_pair)
  with gc_removes_only_orphans [OF demo_cas_store_ok this] show ?thesis by simp
qed

end
