(* ===== verification/Store_Lifecycle.thy ===== *)
theory Store_Lifecycle
  imports Store_Read Store_Purge
begin

text \<open>
  The store over time.  First, sequences of whole operations: an artifact id, once returned,
  denotes the same content for ever.  Then, the file protocol under interleaving: registrations
  in flight, row purges, the reclaim by rename and the garbage collector, step by step, as other
  processes may observe them.
\<close>

section \<open>Sequences of operations\<close>

text \<open>A state is the log of the ids issued so far, each with the hash it was issued for, newest
  first, and the world.  Between operations the outcomes the environment has in store may be
  any.\<close>

inductive store_step :: "(int \<times> bytes) list \<times> world \<Rightarrow> (int \<times> bytes) list \<times> world \<Rightarrow> bool" where
  issue: "Register io reg (v, st) = ((v', st'), Inr art) \<Longrightarrow> art \<notin> a_id ` set (artifacts st) \<Longrightarrow>
    store_step (log, (v0, st)) ((art, sha256_hex (r_bytes reg)) # log, (v', st'))"
| reuse: "Register io reg (v, st) = ((v', st'), Inr art) \<Longrightarrow> art \<in> a_id ` set (artifacts st) \<Longrightarrow>
    store_step (log, (v0, st)) (log, (v', st'))"
| fail: "Register io reg (v, st) = ((v', st'), Inl e) \<Longrightarrow>
    store_step (log, (v0, st)) (log, (v', st'))"
| purge: "PurgeOlderThan cutoff (v, st) = ((v', st'), r) \<Longrightarrow>
    store_step (log, (v0, st)) (log, (v', st'))"
| hook: "PurgeHookOnlyOlderThan lock io2 now cutoff m (v, st) = ((v', st'), r2) \<Longrightarrow>
    (\<And>h. o_rollback (io2 h) = None) \<Longrightarrow>
    store_step (log, (v0, st)) (log, (v', st'))"
| gc: "GCOrphanBlobs io3 now st = (st', r3) \<Longrightarrow>
    store_step (log, (v0, st)) (log, (v0, st'))"

definition store_reachable :: "(int \<times> bytes) list \<times> world \<Rightarrow> bool" where
  "store_reachable = store_step\<^sup>*\<^sup>* ([], (\<lparr>e_tx = [], e_ctx = []\<rparr>, empty_store))"

text \<open>Every stored artifact is in the log, the watermark covers the log, and the log counts
  up.\<close>

definition log_ok :: "(int \<times> bytes) list \<Rightarrow> store \<Rightarrow> bool" where
  "log_ok log st \<longleftrightarrow>
     wm_table st
     \<and> (\<forall>a \<in> set (artifacts st). (a_id a, a_hash a) \<in> set log)
     \<and> (\<forall>x \<in> set log. \<exists>w. watermark st = Some w \<and> fst x \<le> w)
     \<and> sorted_wrt (\<lambda>x y. fst y < fst x) log"

lemma log_ok_fewer:
  assumes "log_ok log st" and "set (artifacts st') \<subseteq> set (artifacts st)"
    and "watermark st' = watermark st" and "wm_table st' = wm_table st"
  shows "log_ok log st'"
  using assms by (auto simp: log_ok_def)

lemma Register_tables:
  assumes run: "Register io reg (v, st) = ((v', st'), Inr art)" and ok: "store_ok st"
  shows "(if art \<in> a_id ` set (artifacts st)
      then artifacts st' = artifacts st \<and> watermark st' = watermark st
      else (\<exists>a. artifacts st' = artifacts st @ [a] \<and> a_id a = art \<and> a_hash a = sha256_hex (r_bytes reg))
        \<and> art = nextArtifactID st
        \<and> watermark st' = (if wm_table st
             then Some (case watermark st of None \<Rightarrow> art | Some w \<Rightarrow> max w art) else watermark st))
    \<and> wm_table st' = wm_table st"
  using run ok
proof (rule Register_Inr)
  fix st2 rawh
  assume tx: "register_tx (sha256_hex (r_bytes reg)) rawh reg (w_now io) st2 = Inr (art, st')"
    and same: "artifacts st2 = artifacts st" "watermark st2 = watermark st" "wm_table st2 = wm_table st"
  have n: "nextArtifactID st2 = nextArtifactID st" using same by (simp add: nextArtifactID_def)
  show ?thesis
  proof (cases "find_artifact (sha256_hex (r_bytes reg)) (r_media reg) st2")
    case None
    have "nextArtifactID st \<notin> a_id ` set (artifacts st)"
      using nextArtifactID_above_ids [of _ st] by fastforce
    with None register_tx_issue [OF tx] same n show ?thesis
      by (simp add: insert_artifact_def bump_watermark_def)
  next
    case (Some a)
    with register_tx_issue [OF tx] same find_artifact_Some [OF Some] show ?thesis by auto
  qed
qed

lemma log_ok_issue:
  assumes log: "log_ok log st" and ok: "store_ok st"
    and run: "Register io reg (v, st) = ((v', st'), Inr art)"
    and new: "art \<notin> a_id ` set (artifacts st)"
  shows "log_ok ((art, sha256_hex (r_bytes reg)) # log) st'"
proof -
  have wm: "wm_table st" using log by (simp add: log_ok_def)
  obtain a where a: "artifacts st' = artifacts st @ [a]" "a_id a = art" "a_hash a = sha256_hex (r_bytes reg)"
    and art: "art = nextArtifactID st"
    and w: "watermark st' = Some (case watermark st of None \<Rightarrow> art | Some w \<Rightarrow> max w art)"
    and t: "wm_table st'"
    using Register_tables [OF run ok] unfolding if_not_P [OF new] if_P [OF wm] using wm by blast
  have above: "fst x < art" if x: "x \<in> set log" for x
  proof -
    obtain u where "watermark st = Some u" "fst x \<le> u" using log x by (auto simp: log_ok_def)
    with nextArtifactID_above_watermark [OF wm] art show ?thesis by fastforce
  qed
  have cover: "\<exists>u. watermark st' = Some u \<and> fst x \<le> u"
    if x: "x \<in> set ((art, sha256_hex (r_bytes reg)) # log)" for x
  proof (cases "x \<in> set log")
    case True
    then obtain u where "watermark st = Some u" "fst x \<le> u" using log by (auto simp: log_ok_def)
    with w show ?thesis by (simp add: max_def)
  next
    case False
    with x w show ?thesis by (simp split: option.splits)
  qed
  have rows: "(a_id b, a_hash b) \<in> set ((art, sha256_hex (r_bytes reg)) # log)"
    if "b \<in> set (artifacts st')" for b
    using that a log by (auto simp: log_ok_def)
  show ?thesis
    unfolding log_ok_def
  proof (intro conjI ballI)
    show "sorted_wrt (\<lambda>x y. fst y < fst x) ((art, sha256_hex (r_bytes reg)) # log)"
      using log above by (simp add: log_ok_def)
  qed (use t rows cover in blast)+
qed

lemma PurgeOlder_tables:
  assumes "PurgeOlderThan cutoff (v, st) = ((v', st'), r)" and "store_ok st"
  shows "store_ok st' \<and> set (artifacts st') \<subseteq> set (artifacts st)
    \<and> watermark st' = watermark st \<and> wm_table st' = wm_table st"
proof -
  obtain w1 x where run: "txRetry (purge_older_tx cutoff) (v, st) = (w1, x)" by fastforce
  then have "st' = snd w1" using assms(1) by (auto simp: PurgeOlderThan_def split: sum.splits)
  moreover have "snd w1 = st \<or> snd w1 = purged_store cutoff st"
    using run by (cases x) (auto dest!: txRetry_Inl txRetry_Inr simp: purge_older_tx_eq assms(2))
  ultimately show ?thesis using assms(2) by (auto simp: purged_store_ok)
qed

lemma hook_tables:
  assumes "PurgeHookOnlyOlderThan lock io now cutoff m (v, st) = ((v', st'), r)" and "store_ok st"
    and "\<And>h. o_rollback (io h) = None"
  shows "store_ok st' \<and> set (artifacts st') \<subseteq> set (artifacts st)
    \<and> watermark st' = watermark st \<and> wm_table st' = wm_table st"
  using hook_purge_run [of lock io now cutoff m v st v' st' "fst r" "snd r"] assms
  by (auto simp: same_tables_def hook_purged_def)

lemma GC_tables:
  assumes "GCOrphanBlobs io now st = (st', r)" and "store_ok st"
  shows "store_ok st' \<and> same_tables st st'"
proof -
  have d: "distinct (map fst (blobs st))" using assms(2) by (simp add: store_ok_def cas_ok_def)
  obtain k where "gc_shrunk now (hash_refs st) st st' k"
    using assms(1) gc_shrunk_refl [OF d] gc_dirs_shrunk [OF _ gc_shrunk_refl [OF d]]
    by (fastforce simp: GCOrphanBlobs_def split: option.splits sum.splits prod.splits)
  from gc_shrunk_ok [OF this assms(2)] this show ?thesis by (simp add: gc_shrunk_def)
qed

lemma store_step_invariant:
  assumes "store_step (log, (v, st)) (log', (v', st'))" and "store_ok st" and "log_ok log st"
  shows "store_ok st' \<and> log_ok log' st'"
  using assms(1)
proof cases
  case (issue io reg v0 art)
  with Register_ok [of io reg] log_ok_issue assms(2,3) show ?thesis by blast
next
  case (reuse io reg v0 art)
  with Register_ok [of io reg] Register_tables [of io reg] assms(2,3) show ?thesis
    by (metis log_ok_fewer order_refl)
next
  case (fail io reg v0 e)
  have "store_ok st'" using Register_ok fail assms(2) by blast
  moreover have "same_tables st st'" using Register_error fail by blast
  ultimately show ?thesis using log_ok_fewer [OF assms(3), of st'] fail by (simp add: same_tables_def)
next
  case (purge cutoff v0 r)
  with PurgeOlder_tables [of cutoff] log_ok_fewer [OF assms(3)] assms(2) show ?thesis by blast
next
  case (hook lock io2 now cutoff m v0 r2)
  with hook_tables [of lock io2] log_ok_fewer [OF assms(3)] assms(2) show ?thesis by blast
next
  case (gc io3 now r3)
  with GC_tables [of io3] log_ok_fewer [OF assms(3), of st'] assms(2) show ?thesis
    by (auto simp: same_tables_def)
qed

lemma store_reachable_invariant:
  "store_reachable (log, (v, st)) \<Longrightarrow> store_ok st \<and> log_ok log st"
  unfolding store_reachable_def
proof (induction "(log, (v, st))" arbitrary: log v st rule: rtranclp_induct)
  case base
  then show ?case using store_ok_empty by (simp add: log_ok_def) (simp add: empty_store_def)
next
  case (step y)
  then show ?case by (cases y) (metis store_step_invariant surj_pair)
qed

lemma store_step_log: "store_step x y \<Longrightarrow> \<exists>new. fst y = new @ fst x"
  by (induction rule: store_step.induct) auto

lemma store_steps_log: "store_step\<^sup>*\<^sup>* x y \<Longrightarrow> \<exists>new. fst y = new @ fst x"
proof (induction rule: rtranclp_induct)
  case (step y z)
  then show ?case using store_step_log by (metis append.assoc)
qed simp

lemma log_functional:
  assumes "sorted_wrt (\<lambda>x y. fst y < fst x) (log :: (int \<times> bytes) list)"
    and "(i, h) \<in> set log" and "(i, h') \<in> set log"
  shows "h = h'"
  using assms by (induction log) force+


lemma demo_reachable:
  "\<exists>v st. store_reachable ([(1, sha256_hex ''hello'')], (v, st)) \<and> artifacts st \<noteq> []"
proof -
  obtain v' st' where run: "Register demo_io demo_reg (demo_env, empty_store) = ((v', st'), Inr 1)"
    using demo_register_ok by blast
  have "store_step ([], (\<lparr>e_tx = [], e_ctx = []\<rparr>, empty_store))
      ([(1, sha256_hex (r_bytes demo_reg))], (v', st'))"
    by (rule issue [OF run]) (simp add: empty_store_def)
  then have "store_reachable ([(1, sha256_hex ''hello'')], (v', st'))"
    unfolding store_reachable_def by (simp add: demo_reg_def r_into_rtranclp)
  moreover have "artifacts st' \<noteq> []"
    using Register_tables [OF run store_ok_empty] by (auto simp: empty_store_def)
  ultimately show ?thesis by blast
qed


section \<open>The file protocol under interleaving\<close>

text \<open>
  A registration places its file (\<open>writeBlob\<close>) and commits later; \<open>c_flight\<close> holds those in
  between with the time of placement, \<open>c_done\<close> those committed while a collector was at work.
  At most one collector runs at a time, by \<open>lockStore\<close>; \<open>c_phase\<close> is where it stands:
  \<open>GCOrphanBlobs\<close> reads the references (\<open>Collecting\<close>), checks one name (\<open>Removing\<close>) and unlinks
  it; \<open>reclaimHookBlobs\<close> renames (\<open>Isolated\<close>), checks again (\<open>Doomed\<close>), and unlinks or renames
  back.

  The parameter \<open>locked\<close> says whether the placement of a file takes the same lock, as the
  comment on \<open>GCOrphanBlobs\<close> says it should; the code does not.
\<close>

datatype phase =
    Idle
  | Collecting "bytes set"
  | Removing "bytes set" bytes
  | Isolated bytes
  | Doomed bytes

record conc =
  c_store :: store
  c_now :: int
  c_flight :: "(registration \<times> int) list"
  c_done :: "(bytes \<times> int) list"
  c_phase :: phase

definition reg_hash :: "registration \<Rightarrow> bytes" where
  "reg_hash reg = sha256_hex (r_bytes reg)"

definition marks :: "conc \<Rightarrow> (bytes \<times> int) set" where
  "marks c = (\<lambda>(reg, t). (reg_hash reg, t)) ` set (c_flight c) \<union> set (c_done c)"

inductive conc_step :: "bool \<Rightarrow> conc \<Rightarrow> conc \<Rightarrow> bool" for locked where
  tick: "c_now c \<le> t \<Longrightarrow> (\<And>h m. (h, m) \<in> marks c \<Longrightarrow> t - m < gcOrphanMinAge) \<Longrightarrow>
    conc_step locked c (c\<lparr>c_now := t\<rparr>)"
| place: "(locked \<Longrightarrow> c_phase c = Idle) \<Longrightarrow>
    writeBlob WriteOK (c_now c) (reg_hash reg) (r_bytes reg) (c_store c) = (st', None) \<Longrightarrow>
    conc_step locked c (c\<lparr>c_store := st', c_flight := (reg, c_now c) # c_flight c\<rparr>)"
| commit: "(reg, t) \<in> set (c_flight c) \<Longrightarrow>
    register_tx (reg_hash reg) [] reg now (c_store c) = Inr (art, st') \<Longrightarrow>
    conc_step locked c (c\<lparr>c_store := st', c_flight := remove1 (reg, t) (c_flight c),
      c_done := (reg_hash reg, t) # c_done c\<rparr>)"
| abandon: "conc_step locked c (c\<lparr>c_flight := remove1 x (c_flight c)\<rparr>)"
| forget: "c_phase c = Idle \<Longrightarrow> conc_step locked c (c\<lparr>c_done := []\<rparr>)"
| purge_old: "purge_older_tx cutoff (c_store c) = Inr (n, st') \<Longrightarrow>
    conc_step locked c (c\<lparr>c_store := st'\<rparr>)"
| purge_hook: "purge_hook_tx cutoff m (c_store c) = Inr (hs, st') \<Longrightarrow>
    conc_step locked c (c\<lparr>c_store := st'\<rparr>)"
| gc_begin: "c_phase c = Idle \<Longrightarrow>
    conc_step locked c (c\<lparr>c_phase := Collecting (hash_refs (c_store c))\<rparr>)"
| gc_check: "c_phase c = Collecting refs \<Longrightarrow> gc_candidate refs name \<Longrightarrow>
    map_of (blobs (c_store c)) name = Some b \<Longrightarrow> gcOrphanMinAge \<le> c_now c - b_mtime b \<Longrightarrow>
    conc_step locked c (c\<lparr>c_phase := Removing refs name\<rparr>)"
| gc_remove: "c_phase c = Removing refs name \<Longrightarrow>
    conc_step locked c (c\<lparr>c_store := remove_blob name (c_store c), c_phase := Collecting refs\<rparr>)"
| gc_end: "c_phase c = Collecting refs \<Longrightarrow> conc_step locked c (c\<lparr>c_phase := Idle\<rparr>)"
| isolate: "c_phase c = Idle \<Longrightarrow> length h = 64 \<Longrightarrow> map_of (blobs (c_store c)) h = Some b \<Longrightarrow>
    conc_step locked c (c\<lparr>c_store := rename_blob h (purging_name h) (c_store c), c_phase := Isolated h\<rparr>)"
| recheck: "c_phase c = Isolated h \<Longrightarrow> map_of (blobs (c_store c)) (purging_name h) = Some b \<Longrightarrow>
    gcOrphanMinAge \<le> c_now c - b_mtime b \<Longrightarrow> \<not> referencedb (c_store c) h \<Longrightarrow>
    conc_step locked c (c\<lparr>c_phase := Doomed h\<rparr>)"
| unlink: "c_phase c = Doomed h \<Longrightarrow>
    conc_step locked c (c\<lparr>c_store := remove_blob (purging_name h) (c_store c), c_phase := Idle\<rparr>)"
| rollback: "c_phase c = Isolated h \<or> c_phase c = Doomed h \<Longrightarrow>
    conc_step locked c (c\<lparr>c_store := rename_blob (purging_name h) h (c_store c), c_phase := Idle\<rparr>)"

definition conc_init :: conc where
  "conc_init = \<lparr>c_store = empty_store, c_now = 0, c_flight = [], c_done = [], c_phase = Idle\<rparr>"

text \<open>Where the file of a needed hash is.\<close>

definition place_of :: "phase \<Rightarrow> bytes \<Rightarrow> bytes" where
  "place_of ph x = (if ph = Isolated x then purging_name x else x)"

definition marks_ok :: "conc \<Rightarrow> bool" where
  "marks_ok c \<longleftrightarrow>
     (\<forall>(h, m) \<in> marks c. length h = 64 \<and> m \<le> c_now c \<and> c_now c - m < gcOrphanMinAge
        \<and> (\<exists>b. map_of (blobs (c_store c)) (place_of (c_phase c) h) = Some b \<and> m \<le> b_mtime b))"

definition refs_ok :: "conc \<Rightarrow> bool" where
  "refs_ok c \<longleftrightarrow>
     (\<forall>x. referenced (c_store c) x \<longrightarrow>
        length x = 64 \<and> map_of (blobs (c_store c)) (place_of (c_phase c) x) \<noteq> None)"

definition unneeded :: "conc \<Rightarrow> bytes \<Rightarrow> bool" where
  "unneeded c x \<longleftrightarrow> \<not> referenced (c_store c) x \<and> x \<notin> fst ` marks c"

definition snapshot_ok :: "conc \<Rightarrow> bytes set \<Rightarrow> bool" where
  "snapshot_ok c refs \<longleftrightarrow> (\<forall>x. referenced (c_store c) x \<longrightarrow> x \<in> refs \<or> x \<in> fst ` set (c_done c))"

fun phase_ok :: "conc \<Rightarrow> phase \<Rightarrow> bool" where
  "phase_ok c Idle = True"
| "phase_ok c (Collecting refs) = snapshot_ok c refs"
| "phase_ok c (Removing refs name) = (snapshot_ok c refs \<and> unneeded c name)"
| "phase_ok c (Isolated h) = (length h = 64)"
| "phase_ok c (Doomed h) = (unneeded c h \<and> length h = 64)"

definition conc_ok :: "conc \<Rightarrow> bool" where
  "conc_ok c \<longleftrightarrow> marks_ok c \<and> refs_ok c \<and> phase_ok c (c_phase c)"

lemmas conc_ok_defs = conc_ok_def marks_ok_def refs_ok_def snapshot_ok_def unneeded_def

lemma place_of_simps [simp]:
  "place_of Idle x = x" "place_of (Collecting refs) x = x" "place_of (Removing refs n) x = x"
  "place_of (Doomed h) x = x" "place_of (Isolated h) h = purging_name h"
  "x \<noteq> h \<Longrightarrow> place_of (Isolated h) x = x"
  by (simp_all add: place_of_def)

text \<open>Steps that only take away references and registrations.\<close>

lemma conc_ok_fewer:
  assumes "conc_ok c" and "blobs (c_store c') = blobs (c_store c)" and "c_phase c' = c_phase c"
    and "c_now c' = c_now c" and "marks c' \<subseteq> marks c" and "c_done c' = c_done c"
    and "\<And>x. referenced (c_store c') x \<Longrightarrow> referenced (c_store c) x"
  shows "conc_ok c'"
proof -
  have m: "marks_ok c" and r: "refs_ok c" and p: "phase_ok c (c_phase c)"
    using assms(1) by (simp_all add: conc_ok_def)
  have "marks_ok c'" using m assms(5) unfolding marks_ok_def assms(2-4) by blast
  moreover have "refs_ok c'" using r assms(7) unfolding refs_ok_def assms(2,3) by blast
  moreover have un: "unneeded c' x" if "unneeded c x" for x
    using that assms(5,7) unfolding unneeded_def by blast
  have "phase_ok c' (c_phase c')"
    using p assms(7) un unfolding assms(3)
    by (cases "c_phase c") (auto simp: snapshot_ok_def assms(6))
  ultimately show ?thesis by (simp add: conc_ok_def)
qed

lemma referenced_purge_older:
  "purge_older_tx cutoff st = Inr (n, st') \<Longrightarrow>
     blobs st' = blobs st \<and> (referenced st' x \<longrightarrow> referenced st x)"
  by (auto simp: purge_older_tx_def Let_def delete_chunks_def referenced_def)

lemma referenced_purge_hook:
  "purge_hook_tx cutoff m st = Inr (hs, st') \<Longrightarrow>
     blobs st' = blobs st \<and> (referenced st' x \<longrightarrow> referenced st x)"
  by (auto simp: purge_hook_tx_def Let_def delete_chunks_def referenced_def)

lemma cas_source_set:
  "cas_source row old st = Inr st' \<Longrightarrow>
     artifacts st' = artifacts st \<and> set (sources st') \<subseteq> insert row (set (sources st))"
  by (auto simp: cas_source_def split: if_splits)

lemma upsert_source_set:
  "artifacts (upsert_source row st) = artifacts st
   \<and> set (sources (upsert_source row st)) \<subseteq> insert row (set (sources st))"
  by (auto simp: upsert_source_def)

lemma register_tx_sources:
  assumes "register_tx h rawh reg now st = Inr (art, st')"
  shows "set (sources st') \<subseteq> insert (source_row_of art rawh reg now) (set (sources st))"
proof -
  obtain st1 where sel: "select_or_insert h reg now st = Inr (art, st1)"
    and st': "cas_source (source_row_of art rawh reg now) (r_expected reg) st1 = Inr st'
      \<or> st' = upsert_source (source_row_of art rawh reg now) st1"
    using assms by (auto simp: register_tx_def Let_def split: sum.splits prod.splits if_splits)
  have "sources st1 = sources st" by (rule select_or_insert_sources [OF sel])
  then show ?thesis using st' cas_source_set upsert_source_set by metis
qed

lemma referenced_register:
  assumes tx: "register_tx h [] reg now st = Inr (art, st')" and "referenced st' x"
  shows "referenced st x \<or> x = h"
proof -
  have "\<exists>s \<in> set (sources st). s_raw s = Some x" if "\<exists>s \<in> set (sources st'). s_raw s = Some x"
    using that register_tx_sources [OF tx] by (auto simp: source_row_of_def nullIfEmpty_def)
  moreover have "a \<in> set (artifacts st') \<Longrightarrow> a \<in> set (artifacts st) \<or> a_hash a = h" for a
    using register_tx_issue [OF tx] by (auto simp: insert_artifact_def split: option.splits)
  ultimately show ?thesis using assms(2) by (auto simp: referenced_def)
qed

lemma conc_ok_tick:
  assumes "conc_ok c" and "c_now c \<le> t" and "\<And>h m. (h, m) \<in> marks c \<Longrightarrow> t - m < gcOrphanMinAge"
  shows "conc_ok (c\<lparr>c_now := t\<rparr>)"
proof -
  have mk: "marks (c\<lparr>c_now := t\<rparr>) = marks c" by (simp add: marks_def)
  have "marks_ok (c\<lparr>c_now := t\<rparr>)"
    using assms unfolding conc_ok_def marks_ok_def mk by fastforce
  moreover have "refs_ok (c\<lparr>c_now := t\<rparr>)" using assms(1) by (simp add: conc_ok_def refs_ok_def)
  moreover have "phase_ok (c\<lparr>c_now := t\<rparr>) (c_phase c)"
    using assms(1) unfolding conc_ok_def
    by (cases "c_phase c") (simp_all add: snapshot_ok_def unneeded_def mk)
  ultimately show ?thesis by (simp add: conc_ok_def)
qed

lemma conc_ok_place:
  assumes ok: "conc_ok c" and idle: "c_phase c = Idle"
    and w: "writeBlob WriteOK (c_now c) (reg_hash reg) (r_bytes reg) (c_store c) = (st', None)"
  shows "conc_ok (c\<lparr>c_store := st', c_flight := (reg, c_now c) # c_flight c\<rparr>)"
    (is "conc_ok ?c")
proof -
  let ?h = "reg_hash reg"
  have mk: "marks ?c = insert (?h, c_now c) (marks c)" by (auto simp: marks_def)
  have bl: "map_of (blobs st') n = (if n = ?h then
      Some \<lparr>b_data = r_bytes reg, b_mtime = c_now c, b_fail = None\<rparr> else map_of (blobs (c_store c)) n)" for n
    using blobs_writeBlob [OF w] by (simp add: update_conv')
  have rf: "referenced st' x \<longleftrightarrow> referenced (c_store c) x" for x
    using writeBlob_same_tables [OF w] referenced_cong by blast
  have "marks_ok ?c"
    using ok idle unfolding conc_ok_def marks_ok_def mk
    by (auto simp: bl gcOrphanMinAge_def reg_hash_def)
  moreover have "refs_ok ?c"
    using ok idle unfolding conc_ok_def refs_ok_def by (simp add: rf bl)
  ultimately show ?thesis using idle by (simp add: conc_ok_def)
qed

lemma conc_ok_commit:
  assumes ok: "conc_ok c" and fl: "(reg, t) \<in> set (c_flight c)"
    and tx: "register_tx (reg_hash reg) [] reg now (c_store c) = Inr (art, st')"
  shows "conc_ok (c\<lparr>c_store := st', c_flight := remove1 (reg, t) (c_flight c),
      c_done := (reg_hash reg, t) # c_done c\<rparr>)" (is "conc_ok ?c")
proof -
  let ?h = "reg_hash reg"
  have mk: "marks ?c \<subseteq> marks c"
    using fl set_remove1_subset [of "(reg, t)" "c_flight c"] by (force simp: marks_def)
  have h: "(?h, t) \<in> marks c" using fl by (force simp: marks_def)
  have bl: "blobs st' = blobs (c_store c)" by (rule register_tx_source(2) [OF tx])
  note rf = referenced_register [OF tx]
  have "marks_ok ?c"
    using ok mk unfolding conc_ok_def marks_ok_def by (fastforce simp: bl)
  moreover have "refs_ok ?c"
  proof -
    have "length ?h = 64 \<and> map_of (blobs (c_store c)) (place_of (c_phase c) ?h) \<noteq> None"
      using ok h unfolding conc_ok_def marks_ok_def by fastforce
    then show ?thesis using ok rf unfolding conc_ok_def refs_ok_def by (auto simp: bl)
  qed
  moreover have "phase_ok ?c (c_phase ?c)"
  proof -
    have un: "unneeded ?c x" if "unneeded c x" for x
      using that mk rf h unfolding unneeded_def by force
    have "snapshot_ok ?c refs" if "snapshot_ok c refs" for refs
      using that rf unfolding snapshot_ok_def by auto
    with un show ?thesis using ok unfolding conc_ok_def by (cases "c_phase c") auto
  qed
  ultimately show ?thesis by (simp add: conc_ok_def)
qed

lemma gc_candidate_unneeded:
  assumes ok: "conc_ok c" and ph: "c_phase c = Collecting refs" and "gc_candidate refs name"
    and "map_of (blobs (c_store c)) name = Some b" and "gcOrphanMinAge \<le> c_now c - b_mtime b"
  shows "unneeded c name"
proof -
  have "name \<notin> fst ` marks c"
  proof
    assume "name \<in> fst ` marks c"
    then obtain m where "(name, m) \<in> marks c" by auto
    then have "c_now c - m < gcOrphanMinAge" "m \<le> b_mtime b"
      using ok assms(4) unfolding conc_ok_def marks_ok_def by (auto simp: ph)
    with assms(5) show False by linarith
  qed
  moreover have "\<not> referenced (c_store c) name"
  proof
    assume r: "referenced (c_store c) name"
    then have "length name = 64" and "name \<in> refs \<or> name \<in> fst ` set (c_done c)"
      using ok ph unfolding conc_ok_def refs_ok_def by (auto simp: snapshot_ok_def)
    with assms(3) \<open>name \<notin> fst ` marks c\<close> show False
      by (auto simp: gc_candidate_def is_purging_def marks_def)
  qed
  ultimately show ?thesis by (simp add: unneeded_def)
qed

text \<open>A change of files that keeps the file of everything needed.\<close>

lemma conc_ok_files:
  assumes ok: "conc_ok c" and tab: "same_tables (c_store c) st'"
    and keep: "\<And>x. length x = 64 \<Longrightarrow> \<not> unneeded c x \<Longrightarrow>
      map_of (blobs st') (place_of ph x) = map_of (blobs (c_store c)) (place_of (c_phase c) x)"
    and ph: "phase_ok (c\<lparr>c_store := st', c_phase := ph\<rparr>) ph"
  shows "conc_ok (c\<lparr>c_store := st', c_phase := ph\<rparr>)" (is "conc_ok ?c")
proof -
  have mk: "marks ?c = marks c" by (simp add: marks_def)
  have rf: "referenced st' x \<longleftrightarrow> referenced (c_store c) x" for x
    using tab referenced_cong by blast
  have "marks_ok ?c"
    unfolding marks_ok_def mk
  proof clarify
    fix h m assume hm: "(h, m) \<in> marks c"
    then have "\<not> unneeded c h" by (force simp: unneeded_def)
    moreover have m: "length h = 64 \<and> m \<le> c_now c \<and> c_now c - m < gcOrphanMinAge
        \<and> (\<exists>b. map_of (blobs (c_store c)) (place_of (c_phase c) h) = Some b \<and> m \<le> b_mtime b)"
      using ok hm unfolding conc_ok_def marks_ok_def by blast
    ultimately show "length h = 64 \<and> m \<le> c_now ?c \<and> c_now ?c - m < gcOrphanMinAge
        \<and> (\<exists>b. map_of (blobs (c_store ?c)) (place_of (c_phase ?c) h) = Some b \<and> m \<le> b_mtime b)"
      using keep by simp
  qed
  moreover have "refs_ok ?c"
    unfolding refs_ok_def
  proof (intro allI impI)
    fix x assume "referenced (c_store ?c) x"
    then have x: "referenced (c_store c) x" by (simp add: rf)
    then have "\<not> unneeded c x" by (simp add: unneeded_def)
    moreover have "length x = 64 \<and> map_of (blobs (c_store c)) (place_of (c_phase c) x) \<noteq> None"
      using ok x unfolding conc_ok_def refs_ok_def by blast
    ultimately show "length x = 64 \<and> map_of (blobs (c_store ?c)) (place_of (c_phase ?c) x) \<noteq> None"
      using keep by simp
  qed
  ultimately show ?thesis using ph by (simp add: conc_ok_def)
qed

lemma unneeded_cong:
  assumes "same_tables (c_store c) (c_store c')" and "marks c' = marks c"
  shows "unneeded c' x \<longleftrightarrow> unneeded c x"
  using assms referenced_cong by (auto simp: unneeded_def)

lemma snapshot_cong:
  assumes "same_tables (c_store c) (c_store c')" and "c_done c' = c_done c"
  shows "snapshot_ok c' refs \<longleftrightarrow> snapshot_ok c refs"
  using assms referenced_cong by (auto simp: snapshot_ok_def)

lemma purging_64: "length x = 64 \<Longrightarrow> length h = 64 \<Longrightarrow> x \<noteq> purging_name h"
  by (auto dest: arg_cong [of _ _ length])

lemma conc_step_ok:
  assumes "conc_step True c c'" and ok: "conc_ok c"
  shows "conc_ok c'"
  using assms(1)
proof cases
  case (tick t)
  with conc_ok_tick [OF ok] show ?thesis by simp
next
  case (place st' reg)
  with conc_ok_place [OF ok] show ?thesis by simp
next
  case (commit reg t now art st')
  with conc_ok_commit [OF ok] show ?thesis by simp
next
  case (abandon x)
  have "marks c' \<subseteq> marks c"
    using set_remove1_subset [of x "c_flight c"] unfolding abandon by (auto simp: marks_def)
  then show ?thesis using abandon by (intro conc_ok_fewer [OF ok]) simp_all
next
  case forget
  have "marks c' \<subseteq> marks c" unfolding forget by (auto simp: marks_def)
  with forget ok show ?thesis
    unfolding conc_ok_def marks_ok_def refs_ok_def by auto
next
  case (purge_old cutoff n st')
  show ?thesis
    unfolding purge_old(1)
    using referenced_purge_older [OF purge_old(2)]
    by (intro conc_ok_fewer [OF ok]) (auto simp: marks_def)
next
  case (purge_hook cutoff m hs st')
  show ?thesis
    unfolding purge_hook(1)
    using referenced_purge_hook [OF purge_hook(2)]
    by (intro conc_ok_fewer [OF ok]) (auto simp: marks_def)
next
  case gc_begin
  show ?thesis
    using conc_ok_files [OF ok, of "c_store c" "Collecting (hash_refs (c_store c))"] gc_begin
    by (simp add: same_tables_def snapshot_ok_def hash_refs_iff)
next
  case (gc_check refs name b)
  note un = gc_candidate_unneeded [OF ok gc_check(2-5)]
  have "snapshot_ok c refs" using ok gc_check by (simp add: conc_ok_def)
  then show ?thesis
    using conc_ok_files [OF ok, of "c_store c" "Removing refs name"] gc_check un
      unneeded_cong [of c c' name] snapshot_cong [of c c' refs]
    by (simp add: same_tables_def marks_def)
next
  case (gc_remove refs name)
  let ?st = "remove_blob name (c_store c)"
  have p: "snapshot_ok c refs" "unneeded c name" using ok gc_remove by (simp_all add: conc_ok_def)
  then have "map_of (blobs ?st) x = map_of (blobs (c_store c)) x" if "\<not> unneeded c x" for x
    using that by (auto simp: map_of_remove_blob)
  then show ?thesis
    using conc_ok_files [OF ok, of ?st "Collecting refs"] gc_remove p snapshot_cong [of c c' refs]
    by simp
next
  case (gc_end refs)
  then show ?thesis
    using conc_ok_files [OF ok, of "c_store c" Idle] by (simp add: same_tables_def)
next
  case (isolate h b)
  let ?st = "rename_blob h (purging_name h) (c_store c)"
  have "map_of (blobs ?st) (place_of (Isolated h) x) = map_of (blobs (c_store c)) x"
    if "length x = 64" for x
    using purging_64 [OF that isolate(3)] isolate(4)
    by (cases "x = h") (simp_all add: map_of_rename_blob)
  then show ?thesis
    using conc_ok_files [OF ok, of ?st "Isolated h"] isolate by simp
next
  case (recheck h b)
  have len: "length h = 64" using ok recheck by (simp add: conc_ok_def)
  have "h \<notin> fst ` marks c"
  proof
    assume "h \<in> fst ` marks c"
    then obtain m where "(h, m) \<in> marks c" by auto
    then have "c_now c - m < gcOrphanMinAge" "m \<le> b_mtime b"
      using ok recheck(2,3) unfolding conc_ok_def marks_ok_def by auto
    with recheck(4) show False by linarith
  qed
  then have un: "unneeded c h" using recheck by (simp add: unneeded_def)
  then have "place_of (Doomed h) x = place_of (c_phase c) x" if "\<not> unneeded c x" for x
    using that recheck by (cases "x = h") simp_all
  then show ?thesis
    using conc_ok_files [OF ok, of "c_store c" "Doomed h"] recheck un len unneeded_cong [of c c' h]
    by (simp add: same_tables_def marks_def)
next
  case (unlink h)
  let ?st = "remove_blob (purging_name h) (c_store c)"
  have len: "length h = 64" using ok unlink by (simp add: conc_ok_def)
  have "map_of (blobs ?st) x = map_of (blobs (c_store c)) x" if "length x = 64" for x
    using purging_64 [OF that len] by (simp add: map_of_remove_blob)
  then show ?thesis using conc_ok_files [OF ok, of ?st Idle] unlink by simp
next
  case (rollback h)
  let ?st = "rename_blob (purging_name h) h (c_store c)"
  have len: "length h = 64" using ok rollback by (auto simp: conc_ok_def)
  have "map_of (blobs ?st) x = map_of (blobs (c_store c)) (place_of (c_phase c) x)"
    if "length x = 64" "\<not> unneeded c x" for x
  proof (cases "x = h")
    case False
    then have "place_of (c_phase c) x = x" using rollback by auto
    then show ?thesis using False purging_64 [OF that(1) len]
      by (simp add: map_of_rename_blob split: option.splits)
  next
    case True
    then have ph: "c_phase c = Isolated h" using that ok rollback by (auto simp: conc_ok_def)
    have "map_of (blobs (c_store c)) (purging_name h) \<noteq> None"
      using ok that(2) True unfolding conc_ok_def marks_ok_def refs_ok_def unneeded_def ph by fastforce
    then show ?thesis using True ph by (auto simp: map_of_rename_blob)
  qed
  then show ?thesis using conc_ok_files [OF ok, of ?st Idle] rollback by simp
qed

lemma conc_init_ok: "conc_ok conc_init"
  by (simp add: conc_ok_defs conc_init_def marks_def referenced_def empty_store_def)

lemma conc_reachable_ok: "(conc_step True)\<^sup>*\<^sup>* conc_init c \<Longrightarrow> conc_ok c"
  by (induction rule: rtranclp_induct) (simp_all add: conc_init_ok conc_step_ok)


lemma demo_tx:
  assumes "artifacts st = []" "sources st = []" "chunks st = []" "wm_table st" "watermark st = None"
  shows "\<exists>st'. register_tx (reg_hash demo_reg) [] demo_reg 7 st = Inr (1, st')
     \<and> referenced st' (reg_hash demo_reg) \<and> blobs st' = blobs st"
  using assms
  by (simp add: demo_reg_def register_tx_def select_or_insert_def find_artifact_def insert_chunk_def
      nextArtifactID_def upsert_source_def Let_def insert_artifact_def bump_watermark_def
      referenced_def)

lemma demo_tx_row:
  assumes "register_tx h rawh reg now st = Inr (art, st')" and "artifacts st = []"
  shows "\<exists>a \<in> set (artifacts st'). a_hash a = h"
  using register_tx_issue [OF assms(1)] assms(2)
  by (simp add: find_artifact_def insert_artifact_def)

lemma demo_place:
  "\<exists>st'. writeBlob WriteOK t (reg_hash demo_reg) (r_bytes demo_reg) st = (st', None)
     \<and> same_tables st st' \<and> map_of (blobs st') (reg_hash demo_reg)
         = Some \<lparr>b_data = r_bytes demo_reg, b_mtime = t, b_fail = None\<rparr>"
  by (simp add: writeBlob_def same_tables_def update_conv')


definition conc_at :: "store \<Rightarrow> int \<Rightarrow> (registration \<times> int) list \<Rightarrow> (bytes \<times> int) list \<Rightarrow> phase \<Rightarrow> conc" where
  "conc_at s n fl dn ph = \<lparr>c_store = s, c_now = n, c_flight = fl, c_done = dn, c_phase = ph\<rparr>"

text \<open>An old orphan of the content, then: the collector checks it, a registration replaces it and
  commits, the collector removes it.\<close>

lemma orphan_appears:
  assumes "writeBlob WriteOK 0 (reg_hash reg) (r_bytes reg) empty_store = (s1, None)"
  shows "(conc_step False)\<^sup>*\<^sup>* conc_init (conc_at s1 gcOrphanMinAge [] [] Idle)"
proof -
  have 1: "conc_step False conc_init (conc_at s1 0 [(reg, 0)] [] Idle)"
    using place [of False conc_init reg s1] assms by (simp add: conc_init_def conc_at_def)
  have 2: "conc_step False (conc_at s1 0 [(reg, 0)] [] Idle) (conc_at s1 0 [] [] Idle)"
    using abandon [of False "conc_at s1 0 [(reg, 0)] [] Idle" "(reg, 0)"] by (simp add: conc_at_def)
  have 3: "conc_step False (conc_at s1 0 [] [] Idle) (conc_at s1 gcOrphanMinAge [] [] Idle)"
    using tick [of "conc_at s1 0 [] [] Idle" gcOrphanMinAge False]
    by (simp add: conc_at_def marks_def gcOrphanMinAge_def)
  show ?thesis using 1 2 3 by (meson rtranclp.intros)
qed

lemma collector_checks:
  assumes "hash_refs s = {}" and "length h = 64" and "map_of (blobs s) h = Some b"
    and "gcOrphanMinAge \<le> t - b_mtime b"
  shows "(conc_step False)\<^sup>*\<^sup>* (conc_at s t [] [] Idle) (conc_at s t [] [] (Removing {} h))"
proof -
  have 4: "conc_step False (conc_at s t [] [] Idle) (conc_at s t [] [] (Collecting {}))"
    using gc_begin [of "conc_at s t [] [] Idle" False] assms(1) by (simp add: conc_at_def)
  have 5: "conc_step False (conc_at s t [] [] (Collecting {})) (conc_at s t [] [] (Removing {} h))"
    using gc_check [of "conc_at s t [] [] (Collecting {})" "{}" h b False] assms
    by (simp add: conc_at_def gc_candidate_def)
  show ?thesis using 4 5 by (meson rtranclp.intros)
qed

lemma registration_overtakes:
  assumes "writeBlob WriteOK t (reg_hash reg) (r_bytes reg) s = (s2, None)"
    and "register_tx (reg_hash reg) [] reg now s2 = Inr (art, s3)"
  shows "(conc_step False)\<^sup>*\<^sup>* (conc_at s t [] [] (Removing {} h))
     (conc_at (remove_blob h s3) t [] [(reg_hash reg, t)] Idle)"
proof -
  have 6: "conc_step False (conc_at s t [] [] (Removing {} h)) (conc_at s2 t [(reg, t)] [] (Removing {} h))"
    using place [of False "conc_at s t [] [] (Removing {} h)" reg s2] assms(1) by (simp add: conc_at_def)
  have 7: "conc_step False (conc_at s2 t [(reg, t)] [] (Removing {} h))
      (conc_at s3 t [] [(reg_hash reg, t)] (Removing {} h))"
    using commit [of reg t "conc_at s2 t [(reg, t)] [] (Removing {} h)" now art s3 False] assms(2)
    by (simp add: conc_at_def)
  have 8: "conc_step False (conc_at s3 t [] [(reg_hash reg, t)] (Removing {} h))
      (conc_at (remove_blob h s3) t [] [(reg_hash reg, t)] (Collecting {}))"
    using gc_remove [of "conc_at s3 t [] [(reg_hash reg, t)] (Removing {} h)" "{}" h False]
    by (simp add: conc_at_def)
  have 9: "conc_step False (conc_at (remove_blob h s3) t [] [(reg_hash reg, t)] (Collecting {}))
      (conc_at (remove_blob h s3) t [] [(reg_hash reg, t)] Idle)"
    using gc_end [of "conc_at (remove_blob h s3) t [] [(reg_hash reg, t)] (Collecting {})" "{}" False]
    by (simp add: conc_at_def)
  show ?thesis using 6 7 8 9 by (meson rtranclp.intros)
qed

text \<open>Property C7.  As the code is, the placement of a file takes no lock, and the collector's
  check of a file's age and its removal are two calls: there is an interleaving, with every
  registration committing at once, that ends with no operation under way and an artifact row
  whose content file is gone.  The comment on \<open>GCOrphanBlobs\<close> says the store lock rules this
  out.\<close>

theorem unlocked_placement_can_lose_a_file:
  "\<exists>c a. (conc_step False)\<^sup>*\<^sup>* conc_init c \<and> c_phase c = Idle \<and> c_flight c = []
     \<and> a \<in> set (artifacts (c_store c)) \<and> readBlob (c_store c) (a_hash a) = Inl FsNotExist"
proof -
  let ?h = "reg_hash demo_reg" and ?T = "gcOrphanMinAge"
  obtain s1 where w1: "writeBlob WriteOK 0 ?h (r_bytes demo_reg) empty_store = (s1, None)"
    and t1: "same_tables empty_store s1"
    and f1: "map_of (blobs s1) ?h = Some \<lparr>b_data = r_bytes demo_reg, b_mtime = 0, b_fail = None\<rparr>"
    using demo_place by blast
  obtain s2 where w2: "writeBlob WriteOK ?T ?h (r_bytes demo_reg) s1 = (s2, None)"
    and t2: "same_tables s1 s2" using demo_place by blast
  have e: "artifacts s2 = []" "sources s2 = []" "chunks s2 = []" "wm_table s2" "watermark s2 = None"
    using same_tables_trans [OF t1 t2] by (simp_all add: same_tables_def empty_store_def)
  obtain s3 where x: "register_tx ?h [] demo_reg 7 s2 = Inr (1, s3)"
    using demo_tx [OF e] by blast
  have refs: "hash_refs s1 = {}"
    using t1 by (simp add: hash_refs_def same_tables_def empty_store_def List.map_filter_def)
  have "length ?h = 64" by (simp add: reg_hash_def)
  from collector_checks [OF refs this f1, of ?T]
  have "(conc_step False)\<^sup>*\<^sup>* (conc_at s1 ?T [] [] Idle) (conc_at s1 ?T [] [] (Removing {} ?h))"
    by simp
  with orphan_appears [OF w1] registration_overtakes [OF w2 x, of ?h]
  have reach: "(conc_step False)\<^sup>*\<^sup>* conc_init (conc_at (remove_blob ?h s3) ?T [] [(?h, ?T)] Idle)"
    by (meson rtranclp_trans)
  obtain a where "a \<in> set (artifacts (remove_blob ?h s3))" "a_hash a = ?h"
    using demo_tx_row [OF x] e(1) by (auto simp: remove_blob_def)
  moreover have "readBlob (remove_blob ?h s3) ?h = Inl FsNotExist"
    by (simp add: readBlob_def map_of_remove_blob)
  ultimately show ?thesis
    by (intro exI [of _ "conc_at (remove_blob ?h s3) ?T [] [(?h, ?T)] Idle"] exI [of _ a] conjI reach)
      (simp_all add: conc_at_def)
qed

end
