(* ===== verification/Search_Text.thy ===== *)
theory Search_Text
  imports Go_Strings
begin

text \<open>
  The text side of \<open>internal/search/search.go\<close>: query normalisation, case-folded matching, the
  snippet window and the display form of a source.  \<open>unicode.ToLower\<close> is a table of the Unicode
  database; the model takes it as the parameter \<open>lower\<close>, a function on runes.
\<close>

section \<open>Queries\<close>

definition quote :: "bytes \<Rightarrow> bytes" where
  "quote tok = [CHR 0x22] @ replace_char (CHR 0x22) [CHR 0x22, CHR 0x22] tok @ [CHR 0x22]"

text \<open>The two MATCH expressions and the tokens too short for the trigram index.\<close>

definition normalizeQuery :: "bytes \<Rightarrow> bytes \<times> bytes \<times> bytes list" where
  "normalizeQuery q =
     (let toks = fields q;
          long = (\<lambda>t. 3 \<le> length (runes t))
      in (join '' AND '' (map quote toks),
          join '' AND '' (map quote (filter long toks)),
          filter (\<lambda>t. \<not> long t) toks))"

section \<open>Matching without case\<close>

text \<open>The inner loop: do the runes at offset \<open>j\<close> fold to \<open>tr\<close>?\<close>

fun match_at :: "(rune \<Rightarrow> rune) \<Rightarrow> rune list \<Rightarrow> bytes \<Rightarrow> bool" where
  "match_at lower [] s = True"
| "match_at lower (r # rs) s =
     (s \<noteq> [] \<and> lower (fst (decode_rune s)) = r \<and> match_at lower rs (drop (snd (decode_rune s)) s))"

function fold_scan :: "(rune \<Rightarrow> rune) \<Rightarrow> rune list \<Rightarrow> bytes \<Rightarrow> nat \<Rightarrow> nat option" where
  "fold_scan lower tr str i =
     (if length str \<le> i then None
      else if match_at lower tr (drop i str) then Some i
      else fold_scan lower tr str (i + snd (decode_rune (drop i str))))"
  by pat_completeness auto
termination
  by (relation "measure (\<lambda>(lower, tr, str, i). length str - i)")
    (auto simp: not_le intro!: diff_less_mono2 decode_rune_width_pos)

declare fold_scan.simps [simp del]

text \<open>\<open>None\<close> is the result \<open>-1\<close>.\<close>

definition foldIndex :: "(rune \<Rightarrow> rune) \<Rightarrow> bytes \<Rightarrow> bytes \<Rightarrow> nat option" where
  "foldIndex lower text token =
     (if token = [] then None else fold_scan lower (map lower (runes token)) text 0)"

definition tokenPrefix :: "bytes \<Rightarrow> bytes" where
  "tokenPrefix tok =
     (let r = runes tok;
          n = (if length r < 7 then 4 else length r - 3);
          n' = (if n > length r then length r else n)
      in string_of_runes (take n' r))"

definition firstMatchToken :: "(rune \<Rightarrow> rune) \<Rightarrow> bytes \<Rightarrow> bytes \<Rightarrow> bytes" where
  "firstMatchToken lower q text =
     (case List.find (\<lambda>t. foldIndex lower text t \<noteq> None) (fields q) of
        Some t \<Rightarrow> t
      | None \<Rightarrow>
          (case List.find (\<lambda>p. p \<noteq> [] \<and> foldIndex lower text p \<noteq> None)
                  (map tokenPrefix (fields q)) of
             Some p \<Rightarrow> p
           | None \<Rightarrow> []))"

section \<open>Snippets\<close>

definition capBytes :: "bytes \<Rightarrow> nat \<Rightarrow> bytes" where
  "capBytes s n = (if length s \<le> n then s else take (rune_back s n) s)"

definition snapWindow :: "bytes \<Rightarrow> nat \<Rightarrow> nat \<Rightarrow> nat \<times> nat" where
  "snapWindow s start stop =
     (let start' = (if start < length s then rune_back s start else start)
      in (start', snap_fwd s start' stop))"

definition snippetHalf :: nat where
  "snippetHalf = 250"

definition snippetFallback :: nat where
  "snippetFallback = 500"

definition space_or_newline :: "char set" where
  "space_or_newline = {CHR '' '', CHR 0x0A}"

definition window_start :: "bytes \<Rightarrow> nat \<Rightarrow> nat" where
  "window_start text idx =
     (if idx \<le> snippetHalf then 0
      else let start = idx - snippetHalf in
        (case index_any space_or_newline (take (idx - start) (drop start text)) of
           Some i \<Rightarrow> start + i + 1
         | None \<Rightarrow> start))"

definition window_end :: "bytes \<Rightarrow> nat \<Rightarrow> nat" where
  "window_end text idx =
     (let stop = idx + snippetHalf in
      if stop \<ge> length text then length text
      else (case last_index_any space_or_newline (take (stop - idx) (drop idx text)) of
              Some i \<Rightarrow> idx + i
            | None \<Rightarrow> stop))"

definition snippetWindow :: "(rune \<Rightarrow> rune) \<Rightarrow> bytes \<Rightarrow> bytes \<Rightarrow> bytes" where
  "snippetWindow lower text tok =
     (if tok = [] then capBytes text snippetFallback
      else (case foldIndex lower text tok of
              None \<Rightarrow> capBytes text snippetFallback
            | Some idx \<Rightarrow>
                (case snapWindow text (window_start text idx) (window_end text idx) of
                   (a, b) \<Rightarrow> take (b - a) (drop a text))))"

section \<open>Source names\<close>

definition isDriveSeg :: "bytes \<Rightarrow> bool" where
  "isDriveSeg s \<longleftrightarrow> length s = 2 \<and> s ! 1 = CHR '':'' \<and> is_lower (s ! 0)"

definition RelativizeSource :: "bytes \<Rightarrow> bytes \<Rightarrow> bytes" where
  "RelativizeSource projectRoot uri =
     (case (if projectRoot = [] then None else cut_prefix_of (projectRoot @ ''/'') uri) of
        Some rel \<Rightarrow> rel
      | None \<Rightarrow>
          let parts1 = dropWhile (\<lambda>p. p = []) (split_char (CHR ''/'') uri);
              parts2 = (if parts1 \<noteq> [] \<and> isDriveSeg (hd parts1) then tl parts1 else parts1);
              parts3 = (if length parts2 > 3 then drop (length parts2 - 3) parts2 else parts2)
          in join ''/'' parts3)"

interpretation cap_bytes: rune_cut capBytes
  by unfold_locales (simp_all add: capBytes_def)

section \<open>Properties of matches\<close>

lemma fold_scan_Some:
  "fold_scan lower tr str i = Some k \<Longrightarrow> i \<le> k \<and> k < length str \<and> match_at lower tr (drop k str)"
proof (induction lower tr str i rule: fold_scan.induct)
  case (1 lower tr str i)
  show ?case
  proof (cases "length str \<le> i \<or> match_at lower tr (drop i str)")
    case True
    with "1.prems" show ?thesis by (auto simp: fold_scan.simps [of lower tr str i] split: if_splits)
  next
    case False
    then have "fold_scan lower tr str (i + snd (decode_rune (drop i str))) = Some k"
      using "1.prems" by (simp add: fold_scan.simps [of lower tr str i])
    with 1(1) False show ?thesis by auto
  qed
qed

lemma utf8_valid_drop_rune:
  "utf8_valid s \<Longrightarrow> s \<noteq> [] \<Longrightarrow> utf8_valid (drop (snd (decode_rune s)) s)"
  by (simp add: utf8_valid_step)

text \<open>On valid str the scan stops at rune boundaries only.\<close>

lemma fold_scan_boundary:
  "fold_scan lower tr str i = Some k \<Longrightarrow> utf8_valid (drop i str) \<Longrightarrow> utf8_valid (drop k str)"
proof (induction lower tr str i rule: fold_scan.induct)
  case (1 lower tr str i)
  show ?case
  proof (cases "length str \<le> i \<or> match_at lower tr (drop i str)")
    case True
    with "1.prems" show ?thesis by (auto simp: fold_scan.simps [of lower tr str i] split: if_splits)
  next
    case False
    then have "fold_scan lower tr str (i + snd (decode_rune (drop i str))) = Some k"
      and "utf8_valid (drop (i + snd (decode_rune (drop i str))) str)"
      using "1.prems" utf8_valid_drop_rune [of "drop i str"]
      by (simp_all add: fold_scan.simps [of lower tr str i] add.commute)
    with 1(1) False show ?thesis by simp
  qed
qed

section \<open>Properties of snippets\<close>

lemma window_start_bounds: "window_start str idx \<le> idx \<and> idx \<le> window_start str idx + 250"
proof (cases "idx \<le> snippetHalf")
  case True
  then show ?thesis by (simp add: window_start_def snippetHalf_def)
next
  case False
  let ?st = "idx - snippetHalf"
  show ?thesis
  proof (cases "index_any space_or_newline (take (idx - ?st) (drop ?st str))")
    case None
    with False show ?thesis by (simp add: window_start_def Let_def snippetHalf_def)
  next
    case (Some i)
    then have "i < idx - ?st" using index_any_bound [OF Some] by simp
    then show ?thesis using False Some by (simp add: window_start_def Let_def snippetHalf_def)
  qed
qed

lemma window_end_bounds:
  "idx < length str \<Longrightarrow> idx \<le> window_end str idx \<and> window_end str idx \<le> idx + 250
     \<and> window_end str idx \<le> length str"
  using last_index_any_bound [of space_or_newline "take snippetHalf (drop idx str)"]
  by (auto simp: window_end_def Let_def snippetHalf_def split: option.splits)

lemma foldIndex_bound: "foldIndex lower str tok = Some idx \<Longrightarrow> idx < length str"
  by (auto simp: foldIndex_def split: if_splits dest: fold_scan_Some)

text \<open>The window a match at \<open>idx\<close> gives.\<close>

lemma snippet_cut:
  assumes "foldIndex lower str tok = Some idx"
  obtains a where "a = rune_back str (window_start str idx)"
    and "snippetWindow lower str tok
      = take (snap_fwd str a (window_end str idx) - a) (drop a str)"
proof -
  have "window_start str idx < length str"
    using window_start_bounds [of str idx] foldIndex_bound [OF assms] by linarith
  moreover have "tok \<noteq> []" using assms by (auto simp: foldIndex_def)
  ultimately show ?thesis
    using that assms by (simp add: snippetWindow_def snapWindow_def Let_def)
qed

lemma sublist_window: "sublist (take n (drop a s)) s"
  by (meson sublist_drop sublist_order.order.trans sublist_take)

text \<open>On valid UTF-8 text a snippet is always a contiguous, valid UTF-8 part of the
  text, of at most 503 bytes, whichever token is looked for and wherever it matches.\<close>

lemma snippet_is_valid_window:
  assumes "utf8_valid str"
  shows "sublist (snippetWindow lower str tok) str \<and> utf8_valid (snippetWindow lower str tok)
    \<and> length (snippetWindow lower str tok) \<le> 503"
proof (cases "tok = [] \<or> foldIndex lower str tok = None")
  case True
  then have eq: "snippetWindow lower str tok = capBytes str 500"
    by (auto simp: snippetWindow_def snippetFallback_def)
  show ?thesis
    using cap_bytes.cut_valid [OF assms, of 500] cap_bytes.cut_bound [of str 500]
      cap_bytes.cut_prefix [of str 500] unfolding eq by auto
next
  case False
  then obtain idx where idx: "foldIndex lower str tok = Some idx" by auto
  note lt = foldIndex_bound [OF idx]
  obtain a where a: "a = rune_back str (window_start str idx)"
    and eq: "snippetWindow lower str tok = take (snap_fwd str a (window_end str idx) - a) (drop a str)"
    using snippet_cut [OF idx] by blast
  have ws: "window_start str idx < length str" using window_start_bounds [of str idx] lt by linarith
  have near: "a \<le> window_start str idx" "window_start str idx \<le> a + 3"
    using a rune_back_le rune_back_within [OF assms ws] by simp_all
  have "snap_fwd str a (window_end str idx) \<le> window_end str idx"
    using snap_fwd_bounds [of a str "window_end str idx"] near window_start_bounds [of str idx]
      window_end_bounds [OF lt] by linarith
  then have "snap_fwd str a (window_end str idx) - a \<le> 503"
    using near window_start_bounds [of str idx] window_end_bounds [OF lt] by linarith
  then show ?thesis unfolding eq using snap_fwd_valid sublist_window by auto
qed

lemma snippet_is_valid_window_witness:
  "utf8_valid (snippetWindow (\<lambda>r. r) ''some text'' ''text'')"
  using snippet_is_valid_window [of "''some text''" "\<lambda>r. r" "''text''"]
  by (simp add: utf8_valid_ascii)

text \<open>How many bytes a match takes up.\<close>

fun match_len :: "rune list \<Rightarrow> bytes \<Rightarrow> nat" where
  "match_len [] s = 0"
| "match_len (r # rs) s =
     snd (decode_rune s) + match_len rs (drop (snd (decode_rune s)) s)"

lemma match_len_le: "match_at lower rs s \<Longrightarrow> match_len rs s \<le> length s"
proof (induction rs arbitrary: s)
  case (Cons r rs)
  then show ?case using decode_rune_width_le [of s] by fastforce
qed simp

lemma match_len_boundary:
  "utf8_valid s \<Longrightarrow> match_at lower rs s \<Longrightarrow> utf8_valid (drop (match_len rs s) s)"
proof (induction rs arbitrary: s)
  case (Cons r rs)
  then show ?case
    using Cons.IH [of "drop (snd (decode_rune s)) s"] utf8_valid_drop_rune [of s]
    by (simp add: add.commute)
qed simp

lemma utf8_valid_hd_start: "utf8_valid s \<Longrightarrow> s \<noteq> [] \<Longrightarrow> rune_start (s ! 0)"
  by (simp add: utf8_valid_step good_rune_start)

text \<open>The forward loop reaches every rune boundary before its end.\<close>

lemma snap_fwd_reaches:
  "utf8_valid (drop pos s) \<Longrightarrow> utf8_valid (drop k s) \<Longrightarrow> pos \<le> k \<Longrightarrow> k \<le> e \<Longrightarrow> e \<le> length s \<Longrightarrow>
     k \<le> snap_fwd s pos e"
proof (induction s pos e rule: snap_fwd.induct)
  case (1 s pos e)
  let ?d = "decode_rune (drop pos s)" and ?w = "snd (decode_rune (drop pos s))"
  show ?case
  proof (cases "pos = k")
    case True
    then show ?thesis using snap_fwd_bounds [of pos s e] by simp
  next
    case False
    with "1.prems" have lt: "pos < k" "pos < e" "drop pos s \<noteq> []" by auto
    then have good: "\<not> bad_rune ?d" "0 < ?w"
      using "1.prems"(1) by (simp_all add: utf8_valid_step decode_rune_width_pos)
    have "pos + ?w \<le> k"
    proof (rule ccontr)
      assume "\<not> pos + ?w \<le> k"
      then have inside: "0 < k - pos" "k - pos < ?w" using lt by auto
      then have "k < length s" using decode_rune_width_le [of "drop pos s"] by simp
      then have "rune_start (s ! k)" using utf8_valid_hd_start [OF "1.prems"(2)] by simp
      moreover have "cont_byte (drop pos s ! (k - pos))"
        using good_rune_cont [OF lt(3) good(1)] inside by blast
      ultimately show False using lt by simp
    qed
    moreover have "snap_fwd s pos e = snap_fwd s (pos + ?w) e"
      using lt good calculation "1.prems"(4) by (simp add: snap_fwd.simps [of s pos e] Let_def)
    moreover have "utf8_valid (drop (pos + ?w) s)"
      using utf8_valid_drop_rune [OF "1.prems"(1) lt(3)] by (simp add: add.commute)
    ultimately show ?thesis using 1 lt good by simp
  qed
qed

lemma last_index_any_last:
  "last_index_any cs s = Some i \<Longrightarrow> \<exists>j < length s. s ! j \<in> cs \<Longrightarrow> (\<forall>j. i < j \<and> j < length s \<longrightarrow> s ! j \<notin> cs)"
proof (induction s arbitrary: i)
  case (Cons x xs)
  show ?case
  proof (cases "last_index_any cs xs")
    case None
    then have "x' \<notin> cs" if "x' \<in> set xs" for x'
      using that by (induction xs) (auto split: option.splits if_splits)
    with None Cons.prems show ?thesis by (auto simp: nth_Cons split: nat.splits if_splits)
  next
    case (Some k)
    then have i: "i = Suc k" using Cons.prems by simp
    have "\<exists>j < length xs. xs ! j \<in> cs" using last_index_any_bound [OF Some] by blast
    with Cons.IH [OF Some] i show ?thesis by (auto simp: nth_Cons split: nat.splits)
  qed
qed simp

text \<open>The end of the window does not cut into the first \<open>m\<close> bytes of the match if they hold no
  space and fit.\<close>

lemma window_end_after:
  assumes "idx + m \<le> length str" and "m \<le> 250"
    and "set (take m (drop idx str)) \<inter> space_or_newline = {}"
  shows "idx + m \<le> window_end str idx"
proof (cases "idx + snippetHalf \<ge> length str")
  case True
  with assms show ?thesis by (simp add: window_end_def)
next
  case False
  let ?w = "take snippetHalf (drop idx str)"
  show ?thesis
  proof (cases "last_index_any space_or_newline ?w")
    case None
    with False assms show ?thesis by (simp add: window_end_def snippetHalf_def)
  next
    case (Some i)
    have i: "i < length ?w" "?w ! i \<in> space_or_newline" using last_index_any_bound [OF Some] by auto
    have "\<not> i < m"
    proof
      assume "i < m"
      then have "?w ! i \<in> set (take m (drop idx str))"
        using i assms(1) by (auto simp: in_set_conv_nth intro!: exI [of _ i])
      with i assms(3) show False by blast
    qed
    with Some False show ?thesis by (simp add: window_end_def)
  qed
qed

text \<open>The snippet shows what was searched for: if the text is valid UTF-8 and the
  first occurrence of the token, without case, takes \<open>m \<le> 250\<close> bytes free of spaces and
  newlines, then these bytes are in the snippet whole.\<close>

lemma snippet_shows_match:
  assumes "utf8_valid str" and "foldIndex lower str tok = Some idx"
    and "m = match_len (map lower (runes tok)) (drop idx str)" and "m \<le> 250"
    and "set (take m (drop idx str)) \<inter> space_or_newline = {}"
  shows "\<exists>pre suf. snippetWindow lower str tok = pre @ take m (drop idx str) @ suf"
proof -
  let ?e = "window_end str idx"
  note lt = foldIndex_bound [OF assms(2)]
  have scan: "fold_scan lower (map lower (runes tok)) str 0 = Some idx"
    using assms(2) by (simp add: foldIndex_def split: if_splits)
  have match: "match_at lower (map lower (runes tok)) (drop idx str)"
    using fold_scan_Some [OF scan] by simp
  have valid: "utf8_valid (drop idx str)" using fold_scan_boundary [OF scan] assms(1) by simp
  have m: "idx + m \<le> length str" "utf8_valid (drop (idx + m) str)"
    using match_len_le [OF match] match_len_boundary [OF valid match] lt
    by (simp_all add: assms(3) add.commute)
  obtain a where a: "a = rune_back str (window_start str idx)"
    and eq: "snippetWindow lower str tok = take (snap_fwd str a ?e - a) (drop a str)"
    using snippet_cut [OF assms(2)] by blast
  have ws: "window_start str idx < length str" using window_start_bounds [of str idx] lt by linarith
  have a2: "a \<le> idx" "utf8_valid (drop a str)"
    using a rune_back_le [of str "window_start str idx"] window_start_bounds [of str idx]
      rune_back_start [of str "window_start str idx"] utf8_valid_drop_start [OF assms(1), of a] ws assms(1)
    by auto
  have e: "idx + m \<le> ?e" "?e \<le> length str"
    using window_end_after [OF m(1) assms(4,5)] window_end_bounds [OF lt] by auto
  define b where "b = snap_fwd str a ?e"
  have b: "idx + m \<le> b"
    unfolding b_def using a2 e m by (intro snap_fwd_reaches) auto
  have "take (b - a) (drop a str) = take (idx - a) (drop a str) @ take (b - idx) (drop idx str)"
    using a2 b take_add [of "idx - a" "b - idx" "drop a str"] by simp
  moreover have "take (b - idx) (drop idx str)
      = take m (drop idx str) @ take (b - idx - m) (drop m (drop idx str))"
    using b take_add [of m "b - idx - m" "drop idx str"] by simp
  ultimately show ?thesis unfolding eq b_def [symmetric] by metis
qed

lemma demo_runes: "runes ''b'' = [98]"
  by (subst runes.simps) simp

lemma demo_fold:
  "foldIndex (\<lambda>r. r) ''a b'' ''b'' = Some 2"
  "match_len [98] (drop 2 ''a b'') = 1"
  by (simp_all add: foldIndex_def demo_runes fold_scan.simps [of _ _ "''a b''" 0]
      fold_scan.simps [of _ _ "''a b''" 1] fold_scan.simps [of _ _ "''a b''" "Suc 0"]
      fold_scan.simps [of _ _ "''a b''" 2] fold_scan.simps [of _ _ "''a b''" "Suc (Suc 0)"])

lemma snippet_shows_match_witness:
  "\<exists>pre suf. snippetWindow (\<lambda>r. r) ''a b'' ''b'' = pre @ ''b'' @ suf"
  using snippet_shows_match [of "''a b''" "\<lambda>r. r" "''b''" 2 1] demo_fold
  by (simp add: utf8_valid_ascii space_or_newline_def demo_runes)

text \<open>The display form of a source never is an absolute path outside the project:
  unless the URI lies under the project root, in which case it is the path below the root, it
  keeps at most three segments, none of which contains a slash, all taken from the end of the
  URI.\<close>

lemma relativize_is_short:
  "(\<exists>rel. projectRoot \<noteq> [] \<and> uri = projectRoot @ ''/'' @ rel \<and> RelativizeSource projectRoot uri = rel)
   \<or> (\<exists>parts. RelativizeSource projectRoot uri = join ''/'' parts \<and> length parts \<le> 3
        \<and> CHR ''/'' \<notin> set (concat parts) \<and> suffix parts (split_char (CHR ''/'') uri))"
proof (cases "projectRoot \<noteq> [] \<and> prefix (projectRoot @ ''/'') uri")
  case True
  then show ?thesis
    by (auto simp: RelativizeSource_def cut_prefix_of_def prefix_def)
next
  case False
  define ps where "ps = split_char (CHR ''/'') uri"
  define p1 where "p1 = dropWhile (\<lambda>p. p = []) ps"
  define p2 where "p2 = (if p1 \<noteq> [] \<and> isDriveSeg (hd p1) then tl p1 else p1)"
  define p3 where "p3 = (if length p2 > 3 then drop (length p2 - 3) p2 else p2)"
  have "suffix p1 ps" by (simp add: p1_def suffix_dropWhile)
  moreover have "suffix p2 p1" by (auto simp: p2_def)
  moreover have "suffix p3 p2" by (simp add: p3_def suffix_drop)
  ultimately have suf: "suffix p3 ps" by (metis suffix_order.trans)
  moreover have "length p3 \<le> 3" by (simp add: p3_def)
  moreover have "CHR ''/'' \<notin> set (concat p3)"
    using set_mono_suffix [OF suf] split_char_free [of _ "CHR ''/''" uri] ps_def by auto
  moreover have "RelativizeSource projectRoot uri = join ''/'' p3"
    using False by (auto simp: RelativizeSource_def Let_def cut_prefix_of_def ps_def p1_def p2_def p3_def)
  ultimately show ?thesis using ps_def by blast
qed

end
