(* ===== verification/Float64.thy ===== *)
theory Float64
  imports Complex_Main "HOL-Library.Log_Nat"
begin

text \<open>
  The \<open>float64\<close> arithmetic of scores.  A \<open>float64\<close> is the rational it denotes; \<open>f64\<close> rounds a
  positive rational to the nearest one with 53 significant bits, ties to even.  Scores are sums
  of a few numbers around 1/60, so neither overflow nor subnormal numbers occur.
\<close>

text \<open>The exponent \<open>e\<close> with \<open>2^e \<le> x < 2^(e+1)\<close>.\<close>

definition binade :: "rat \<Rightarrow> int" where
  "binade x =
     (case quotient_of x of (p, q) \<Rightarrow>
        let e = bitlen p - bitlen q in if 2 powi e \<le> x then e else e - 1)"

definition round_even :: "rat \<Rightarrow> int" where
  "round_even x =
     (let f = \<lfloor>x\<rfloor>; d = x - of_int f in
      if d < 1 / 2 then f else if d > 1 / 2 then f + 1 else if even f then f else f + 1)"

definition f64 :: "rat \<Rightarrow> rat" where
  "f64 x =
     (if x \<le> 0 then 0
      else let u = 2 powi (binade x - 52) in of_int (round_even (x / u)) * u)"

lemma powi_le: "i \<le> j \<Longrightarrow> (2::rat) powi i \<le> 2 powi j"
  by (rule power_int_increasing) simp_all

lemma bitlen_powi:
  assumes "0 < p"
  shows "(2::rat) powi (bitlen p - 1) \<le> of_int p \<and> of_int p < (2::rat) powi (bitlen p)"
proof -
  have b: "1 \<le> bitlen p" using assms bitlen_eq_zero_iff [of p] bitlen_nonneg [of p] by linarith
  have "2 ^ nat (bitlen p - 1) \<le> p" "p < 2 ^ nat (bitlen p)"
    using bitlen_bounds [OF assms] by auto
  then have "(of_int (2 ^ nat (bitlen p - 1)) :: rat) \<le> of_int p"
    "(of_int p :: rat) < of_int (2 ^ nat (bitlen p))"
    by (simp_all only: of_int_le_iff of_int_less_iff)
  with b show ?thesis by (simp add: power_int_def)
qed

lemma binade_spec:
  assumes "0 < x"
  shows "2 powi (binade x) \<le> x \<and> x < 2 powi (binade x + 1)"
proof -
  obtain p q where pq: "quotient_of x = (p, q)" by fastforce
  have q: "0 < q" and x: "x = of_int p / of_int q"
    using pq quotient_of_denom_pos quotient_of_div by blast+
  have p: "0 < p" using assms q x by (simp add: zero_less_divide_iff)
  let ?e = "bitlen p - bitlen q"
  note bp = bitlen_powi [OF p] and bq = bitlen_powi [OF q]
  have q0: "(0::rat) < of_int q" using q by simp
  have "x < 2 powi (bitlen p) / 2 powi (bitlen q - 1)"
    unfolding x using bp bq q0 p by (intro frac_less) auto
  also have "\<dots> = 2 powi (?e + 1)"
    by (simp add: power_int_diff [symmetric] algebra_simps)
  finally have up: "x < 2 powi (?e + 1)" .
  have "2 powi (?e - 1) = (2::rat) powi (bitlen p - 1) / 2 powi (bitlen q)"
    by (simp add: power_int_diff [symmetric] algebra_simps)
  also have "\<dots> \<le> x"
    unfolding x using bp bq q0 p by (intro frac_le) auto
  finally have "2 powi (?e - 1) \<le> x" .
  then show ?thesis using up by (auto simp: binade_def pq Let_def)
qed

lemma round_even_bounds: "\<lfloor>x\<rfloor> \<le> round_even x \<and> round_even x \<le> \<lfloor>x\<rfloor> + 1"
  by (simp add: round_even_def Let_def)

lemma round_even_int [simp]: "round_even (of_int n) = n"
  by (simp add: round_even_def)

lemma round_even_mono:
  assumes "x \<le> y"
  shows "round_even x \<le> round_even y"
proof (cases "\<lfloor>x\<rfloor> = \<lfloor>y\<rfloor>")
  case True
  with assms show ?thesis by (auto simp: round_even_def Let_def)
next
  case False
  with floor_mono [OF assms] round_even_bounds [of x] round_even_bounds [of y]
  show ?thesis by linarith
qed

lemma scaled_powi:
  "(2::rat) powi (e - 52) * 4503599627370496 = 2 powi e"
  "(2::rat) powi (e - 52) * 9007199254740992 = 2 powi (e + 1)"
proof -
  have "(2::rat) powi (e - 52) * 2 powi 52 = 2 powi (e - 52 + 52)"
    "(2::rat) powi (e - 52) * 2 powi 53 = 2 powi (e - 52 + 53)"
    by (subst power_int_add; simp)+
  moreover have "(2::rat) powi 52 = 4503599627370496" "(2::rat) powi 53 = 9007199254740992"
    by (simp_all add: power_int_def)
  ultimately show "(2::rat) powi (e - 52) * 4503599627370496 = 2 powi e"
    "(2::rat) powi (e - 52) * 9007199254740992 = 2 powi (e + 1)"
    by (simp_all add: algebra_simps)
qed

text \<open>The result stays in the binade of its argument, its upper end included.\<close>

lemma f64_binade:
  assumes "0 < x"
  shows "2 powi (binade x) \<le> f64 x \<and> f64 x \<le> 2 powi (binade x + 1)"
proof -
  let ?u = "(2::rat) powi (binade x - 52)"
  have u: "0 < ?u" by simp
  note b = binade_spec [OF assms]
  have "of_int 4503599627370496 \<le> x / ?u" "x / ?u \<le> of_int 9007199254740992"
    using b scaled_powi [of "binade x"] u by (simp_all add: field_simps)
  from this [THEN round_even_mono]
  have "4503599627370496 \<le> round_even (x / ?u)" "round_even (x / ?u) \<le> 9007199254740992"
    by (simp_all only: round_even_int)
  then have "(of_int 4503599627370496 :: rat) \<le> of_int (round_even (x / ?u))"
    "(of_int (round_even (x / ?u)) :: rat) \<le> of_int 9007199254740992"
    by (simp_all only: of_int_le_iff)
  then have "of_int 4503599627370496 * ?u \<le> of_int (round_even (x / ?u)) * ?u"
    "of_int (round_even (x / ?u)) * ?u \<le> of_int 9007199254740992 * ?u"
    using u by (intro mult_right_mono; simp)+
  moreover have "of_int 4503599627370496 * ?u = 2 powi binade x" "of_int 9007199254740992 * ?u = 2 powi (binade x + 1)"
    using scaled_powi [of "binade x"] by (simp_all add: mult.commute)
  moreover have "f64 x = of_int (round_even (x / ?u)) * ?u" using assms by (simp add: f64_def Let_def)
  ultimately show ?thesis by metis
qed

lemma f64_nonneg: "0 \<le> f64 x"
proof (cases "0 < x")
  case True
  then show ?thesis using f64_binade [OF True] by (meson order.trans zero_le_power_int zero_le_numeral)
qed (simp add: f64_def)

lemma f64_mono:
  assumes "x \<le> y"
  shows "f64 x \<le> f64 y"
proof (cases "x \<le> 0")
  case True
  then show ?thesis using f64_nonneg [of y] by (simp add: f64_def)
next
  case False
  then have x: "0 < x" and y: "0 < y" using assms by simp_all
  have "(2::rat) powi (binade x) < 2 powi (binade y + 1)"
    using binade_spec [OF x] binade_spec [OF y] assms by linarith
  then have "binade x < binade y + 1" using powi_le by (meson not_le)
  then consider "binade x = binade y" | "binade x + 1 \<le> binade y" by linarith
  then show ?thesis
  proof cases
    case 1
    let ?u = "(2::rat) powi (binade y - 52)"
    have "round_even (x / ?u) \<le> round_even (y / ?u)"
      using assms by (intro round_even_mono divide_right_mono) simp_all
    then show ?thesis using x y 1 by (simp add: f64_def Let_def mult_right_mono)
  next
    case 2
    then have "(2::rat) powi (binade x + 1) \<le> 2 powi (binade y)" by (rule powi_le)
    then show ?thesis using f64_binade [OF x] f64_binade [OF y] by linarith
  qed
qed

text \<open>Rounding again changes nothing.\<close>

lemma binade_unique:
  assumes "2 powi e \<le> x" and "x < 2 powi (e + 1)"
  shows "binade x = e"
proof -
  have x: "0 < x" using assms(1) by (meson less_le_trans zero_less_numeral zero_less_power_int)
  note b = binade_spec [OF x]
  have "(2::rat) powi e < 2 powi (binade x + 1)" "(2::rat) powi (binade x) < 2 powi (e + 1)"
    using assms b by linarith+
  then have "\<not> binade x + 1 \<le> e" "\<not> e + 1 \<le> binade x"
    using powi_le [of "binade x + 1" e] powi_le [of "e + 1" "binade x"] by auto
  then show ?thesis by linarith
qed

lemma f64_exact:
  assumes "4503599627370496 \<le> m" and "m < 9007199254740992"
  shows "f64 (of_int m * 2 powi (e - 52)) = of_int m * 2 powi (e - 52)"
proof -
  let ?u = "(2::rat) powi (e - 52)" and ?x = "of_int m * (2::rat) powi (e - 52)"
  have u: "0 < ?u" by simp
  have "of_int 4503599627370496 * ?u \<le> ?x" "?x < of_int 9007199254740992 * ?u"
    using assms u by (intro mult_right_mono mult_strict_right_mono; simp)+
  then have "2 powi e \<le> ?x" "?x < 2 powi (e + 1)"
    using scaled_powi [of e] by (simp_all add: mult.commute)
  then have "binade ?x = e" by (rule binade_unique)
  moreover have "0 < ?x" using assms u by simp
  ultimately show ?thesis by (simp add: f64_def Let_def)
qed

lemma f64_idem: "f64 (f64 x) = f64 x"
proof (cases "0 < x")
  case False
  then show ?thesis by (simp add: f64_def)
next
  case True
  let ?u = "(2::rat) powi (binade x - 52)" and ?m = "round_even (x / 2 powi (binade x - 52))"
  have f: "f64 x = of_int ?m * ?u" using True by (simp add: f64_def Let_def)
  have u: "0 < ?u" by simp
  have "of_int 4503599627370496 * ?u \<le> of_int ?m * ?u" "of_int ?m * ?u \<le> of_int 9007199254740992 * ?u"
    using f64_binade [OF True] scaled_powi [of "binade x"] f by (simp_all add: mult.commute)
  then have m: "4503599627370496 \<le> ?m" "?m \<le> 9007199254740992"
    using u by (simp_all only: mult_le_cancel_right_pos of_int_le_iff)
  show ?thesis
  proof (cases "?m = 9007199254740992")
    case True
    have "of_int ?m * ?u = of_int 4503599627370496 * (2::rat) powi (binade x + 1 - 52)"
      unfolding True using scaled_powi(1) [of "binade x + 1"] scaled_powi(2) [of "binade x"]
      by (simp add: mult.commute)
    then show ?thesis unfolding f using f64_exact [of 4503599627370496 "binade x + 1"] by simp
  next
    case False
    with m f64_exact [of ?m "binade x"] show ?thesis unfolding f by simp
  qed
qed

end
