(* ===== verification/Search.thy ===== *)
theory Search
  imports Search_Text Store_Read Float64 "HOL-Library.Multiset"
begin

text \<open>
  \<open>internal/search/search.go\<close>: two full-text rankings merged by reciprocal rank, loaded as hits
  and cut to a byte budget.  The ranking itself is FTS5's: the parameter \<open>q_match\<close> gives, for an
  index table and a MATCH expression, the row ids that match in \<open>bm25\<close> order, or the error of the
  statement.  Other statements of the reader do not fail here.
\<close>

section \<open>Scores\<close>

definition rrfK :: nat where
  "rrfK = 60"

text \<open>\<open>scores[id] += 1.0 / float64(rrfK+rank+1)\<close> along one list, from rank \<open>r\<close> on.\<close>

fun rrf_list :: "nat \<Rightarrow> int list \<Rightarrow> (int \<times> rat) list \<Rightarrow> (int \<times> rat) list" where
  "rrf_list r [] m = m"
| "rrf_list r (i # is) m =
     (let old = (case map_of m i of None \<Rightarrow> 0 | Some s \<Rightarrow> s)
      in rrf_list (Suc r) is (AList.update i (f64 (old + f64 (1 / of_nat (rrfK + r + 1)))) m))"

definition rrfMerge :: "int list list \<Rightarrow> (int \<times> rat) list" where
  "rrfMerge rankings = fold (rrf_list 0) rankings []"

text \<open>The order of \<open>topN\<close>: by score downwards, then by id upwards.\<close>

datatype scoredID = ScoredID (sc_id: int) (sc_score: rat)

instantiation scoredID :: linorder
begin

definition less_eq_scoredID :: "scoredID \<Rightarrow> scoredID \<Rightarrow> bool" where
  "less_eq_scoredID a b \<longleftrightarrow>
     sc_score b < sc_score a \<or> (sc_score a = sc_score b \<and> sc_id a \<le> sc_id b)"

definition less_scoredID :: "scoredID \<Rightarrow> scoredID \<Rightarrow> bool" where
  "less_scoredID a b \<longleftrightarrow>
     sc_score b < sc_score a \<or> (sc_score a = sc_score b \<and> sc_id a < sc_id b)"

instance
  by standard (auto simp: less_eq_scoredID_def less_scoredID_def scoredID.expand)

end

definition topN :: "(int \<times> rat) list \<Rightarrow> nat \<Rightarrow> scoredID list" where
  "topN scores n = take n (sort (map (\<lambda>(i, s). ScoredID i s) scores))"

section \<open>Candidates\<close>

record engine =
  q_match :: "bytes \<Rightarrow> bytes \<Rightarrow> go_error + int list"

definition chunk_of :: "store \<Rightarrow> int \<Rightarrow> chunk_row option" where
  "chunk_of st i = List.find (\<lambda>c. c_id c = i) (chunks st)"

definition has_source :: "store \<Rightarrow> int \<Rightarrow> bool" where
  "has_source st i \<longleftrightarrow>
     (case chunk_of st i of
        None \<Rightarrow> False
      | Some c \<Rightarrow> list_ex (\<lambda>s. s_artifact s = c_artifact c) (sources st))"

definition bm25Rank :: "engine \<Rightarrow> store \<Rightarrow> bytes \<Rightarrow> bytes \<Rightarrow> nat \<Rightarrow> go_error + int list" where
  "bm25Rank eng st table match n =
     (if match = [] then Inr []
      else (case q_match eng table match of
              Inl e \<Rightarrow> Inl e
            | Inr ids \<Rightarrow> Inr (take n (filter (has_source st) ids))))"

definition filterShortTokenCandidates ::
  "(rune \<Rightarrow> rune) \<Rightarrow> store \<Rightarrow> int list \<Rightarrow> bytes list \<Rightarrow> int list" where
  "filterShortTokenCandidates lower st ids shortToks =
     (if shortToks = [] \<or> ids = [] then ids
      else filter (\<lambda>i. case chunk_of st i of
                         None \<Rightarrow> False
                       | Some c \<Rightarrow> list_all (\<lambda>t. foldIndex lower (c_text c) t \<noteq> None) shortToks) ids)"

section \<open>Hits\<close>

record hit =
  ht_artifact :: int
  ht_chunk :: int
  ht_source :: bytes
  ht_lines :: "int \<times> int"
  ht_snippet :: bytes
  ht_score :: rat
  ht_stale :: bool
  ht_redacted :: bool
  ht_exact :: bool

type_synonym stale_cache = "(bytes \<times> bool) list"

definition isStale :: "disk \<Rightarrow> source_info \<Rightarrow> stale_cache \<Rightarrow> bool \<times> stale_cache" where
  "isStale d info cache =
     (if i_kind info \<noteq> ''file'' then (False, cache)
      else (case map_of cache (i_uri info) of
              Some v \<Rightarrow> (v, cache)
            | None \<Rightarrow> (let v = StaleOf d info in (v, (i_uri info, v) # cache))))"

record search_env =
  q_engine :: engine
  q_lower :: "rune \<Rightarrow> rune"
  q_disk :: disk
  q_root :: bytes

text \<open>\<open>None\<close> is \<open>sql.ErrNoRows\<close>.\<close>

definition loadHit ::
  "search_env \<Rightarrow> store \<Rightarrow> bytes \<Rightarrow> scoredID \<Rightarrow> stale_cache \<Rightarrow> hit option \<times> stale_cache" where
  "loadHit env st q sc cache =
     (case chunk_of st (sc_id sc) of
        None \<Rightarrow> (None, cache)
      | Some c \<Rightarrow>
        (case artifact_of st (c_artifact c) of
           None \<Rightarrow> (None, cache)
         | Some a \<Rightarrow>
           (case sourceOf st (a_id a) of
              None \<Rightarrow> (None, cache)
            | Some info \<Rightarrow>
                (case isStale (q_disk env) info cache of
                   (stale, cache') \<Rightarrow>
                     (Some \<lparr>ht_artifact = a_id a, ht_chunk = sc_id sc,
                        ht_source = RelativizeSource (q_root env) (i_uri info),
                        ht_lines = c_lines c,
                        ht_snippet = snippetWindow (q_lower env) (c_text c)
                          (firstMatchToken (q_lower env) q (c_text c)),
                        ht_score = sc_score sc,
                        ht_stale = stale,
                        ht_redacted = (a_redaction a = ''spans''),
                        ht_exact = (a_redaction a = ''none'' \<and> i_extraction info = []
                          \<and> (i_kind info = ''file'' \<or> i_kind info = ''inline''))\<rparr>, cache')))))"

fun load_hits ::
  "search_env \<Rightarrow> store \<Rightarrow> bytes \<Rightarrow> scoredID list \<Rightarrow> stale_cache \<Rightarrow> hit list \<times> stale_cache" where
  "load_hits env st q [] cache = ([], cache)"
| "load_hits env st q (sc # scs) cache =
     (case loadHit env st q sc cache of
        (None, cache') \<Rightarrow> load_hits env st q scs cache'
      | (Some h, cache') \<Rightarrow>
          (case load_hits env st q scs cache' of (hs, cache'') \<Rightarrow> (h # hs, cache'')))"

text \<open>The loop of \<open>applyBudget\<close>: hits kept, bytes used, truncated.\<close>

fun budget_from :: "int \<Rightarrow> int \<Rightarrow> hit list \<Rightarrow> hit list \<times> int \<times> bool" where
  "budget_from share used [] = ([], used, False)"
| "budget_from share used (h # hs) =
     (let n = int (length (ht_snippet h)) in
      if used + n > share then ([], used, True)
      else (case budget_from share (used + n) hs of (kept, u, t) \<Rightarrow> (h # kept, u, t)))"

definition applyBudget :: "hit list \<Rightarrow> int \<Rightarrow> hit list \<times> int \<times> bool" where
  "applyBudget hs share = budget_from share 0 hs"

record query_result =
  qr_query :: bytes
  qr_hits :: "hit list"
  qr_truncated :: bool

text \<open>The candidates of one query, in order.\<close>

definition query_top ::
  "search_env \<Rightarrow> store \<Rightarrow> bytes \<Rightarrow> nat \<Rightarrow> go_error + scoredID list" where
  "query_top env st q limit =
     (case normalizeQuery q of
        (porter, trigram, shortToks) \<Rightarrow>
          (case bm25Rank (q_engine env) st ''fts_porter'' porter (limit * 4) of
             Inl e \<Rightarrow> Inl e
           | Inr pIDs \<Rightarrow>
               (case bm25Rank (q_engine env) st ''fts_trigram'' trigram (limit * 4) of
                  Inl e \<Rightarrow> Inl e
                | Inr tIDs \<Rightarrow>
                    Inr (topN (rrfMerge [pIDs, filterShortTokenCandidates (q_lower env) st tIDs shortToks])
                           limit))))"

fun query_loop ::
  "search_env \<Rightarrow> store \<Rightarrow> nat \<Rightarrow> int \<Rightarrow> bytes list \<Rightarrow> int \<Rightarrow> stale_cache
     \<Rightarrow> go_error + query_result list" where
  "query_loop env st limit budget [] avail cache = Inr []"
| "query_loop env st limit budget (q # qs) avail cache =
     (case query_top env st q limit of
        Inl e \<Rightarrow> Inl e
      | Inr best \<Rightarrow>
          (case load_hits env st q best cache of
             (hits, cache') \<Rightarrow>
               let (kept, used, trunc) =
                     (if budget > 0 then applyBudget hits (avail div int (length (q # qs)))
                      else (hits, 0, False))
               in (case query_loop env st limit budget qs (avail - used) cache' of
                     Inl e \<Rightarrow> Inl e
                   | Inr rs \<Rightarrow>
                       Inr (\<lparr>qr_query = q, qr_hits = kept, qr_truncated = trunc\<rparr> # rs))))"

definition Query ::
  "search_env \<Rightarrow> store \<Rightarrow> bytes list \<Rightarrow> nat \<Rightarrow> int \<Rightarrow> go_error + query_result list" where
  "Query env st queries limit budgetBytes =
     query_loop env st limit budgetBytes queries budgetBytes []"

definition ArtifactHashExists :: "store \<Rightarrow> bytes \<Rightarrow> bool" where
  "ArtifactHashExists st h \<longleftrightarrow> list_ex (\<lambda>a. a_hash a = h) (artifacts st)"

section \<open>Budget and limit\<close>

definition snippet_bytes :: "hit list \<Rightarrow> int" where
  "snippet_bytes hs = sum_list (map (\<lambda>h. int (length (ht_snippet h))) hs)"

lemma snippet_bytes_simps [simp]:
  "snippet_bytes [] = 0"
  "snippet_bytes (h # hs) = int (length (ht_snippet h)) + snippet_bytes hs"
  by (simp_all add: snippet_bytes_def)

lemma snippet_bytes_nonneg: "0 \<le> snippet_bytes hs"
  by (induction hs) auto

lemma budget_from_spec:
  "budget_from share used hs = (kept, u, t) \<Longrightarrow> used \<le> share \<Longrightarrow>
     prefix kept hs \<and> u = used + snippet_bytes kept \<and> u \<le> share \<and> (t \<longleftrightarrow> kept \<noteq> hs)"
proof (induction hs arbitrary: used kept u t)
  case (Cons h hs)
  let ?n = "int (length (ht_snippet h))"
  show ?case
  proof (cases "used + ?n > share")
    case True
    with Cons.prems show ?thesis by (auto simp: Let_def)
  next
    case False
    obtain k1 u1 t1 where r: "budget_from share (used + ?n) hs = (k1, u1, t1)" by (metis surj_pair)
    with Cons.prems False have "kept = h # k1" "u = u1" "t = t1" by (auto simp: Let_def)
    with Cons.IH [OF r] False show ?thesis by simp
  qed
qed auto

lemma applyBudget_spec:
  "applyBudget hs share = (kept, u, t) \<Longrightarrow> 0 \<le> share \<Longrightarrow>
     prefix kept hs \<and> u = snippet_bytes kept \<and> u \<le> share \<and> (t \<longleftrightarrow> kept \<noteq> hs)"
  unfolding applyBudget_def by (drule budget_from_spec) simp_all

lemma load_hits_length: "load_hits env st q scs cache = (hs, cache') \<Longrightarrow> length hs \<le> length scs"
proof (induction scs arbitrary: cache hs cache')
  case (Cons sc scs)
  obtain o1 c1 where l: "loadHit env st q sc cache = (o1, c1)" by fastforce
  obtain hs2 c2 where r: "load_hits env st q scs c1 = (hs2, c2)" by fastforce
  from Cons.IH [OF r] Cons.prems l r show ?case by (cases o1) auto
qed simp

lemma topN_length: "length (topN scores n) \<le> n"
  by (simp add: topN_def)

lemma query_top_length: "query_top env st q limit = Inr best \<Longrightarrow> length best \<le> limit"
  by (auto simp: query_top_def topN_length split: prod.splits sum.splits)

text \<open>One round of the loop.\<close>

lemma query_loop_Cons:
  assumes "query_loop env st limit budget (q # qs) avail cache = Inr rs"
  obtains best hits cache' kept used trunc rest where
    "query_top env st q limit = Inr best" "load_hits env st q best cache = (hits, cache')"
    "(if budget > 0 then applyBudget hits (avail div int (length (q # qs))) else (hits, 0, False))
       = (kept, used, trunc)"
    "query_loop env st limit budget qs (avail - used) cache' = Inr rest"
    "rs = \<lparr>qr_query = q, qr_hits = kept, qr_truncated = trunc\<rparr> # rest"
  using assms by (auto split: sum.splits prod.splits simp: Let_def)

lemma query_loop_spec:
  "query_loop env st limit budget qs avail cache = Inr rs \<Longrightarrow> 0 < budget \<Longrightarrow> 0 \<le> avail \<Longrightarrow>
     map qr_query rs = qs \<and> (\<forall>r \<in> set rs. length (qr_hits r) \<le> limit)
     \<and> sum_list (map (snippet_bytes \<circ> qr_hits) rs) \<le> avail"
proof (induction qs arbitrary: avail cache rs)
  case Nil
  then show ?case by simp
next
  case (Cons q qs)
  from Cons.prems(1) obtain best hits cache' kept used trunc rest where
    s: "query_top env st q limit = Inr best" "load_hits env st q best cache = (hits, cache')"
      "(if budget > 0 then applyBudget hits (avail div int (length (q # qs))) else (hits, 0, False))
         = (kept, used, trunc)"
      "query_loop env st limit budget qs (avail - used) cache' = Inr rest"
      "rs = \<lparr>qr_query = q, qr_hits = kept, qr_truncated = trunc\<rparr> # rest"
    by (rule query_loop_Cons)
  let ?share = "avail div int (length (q # qs))"
  have "applyBudget hits ?share = (kept, used, trunc)" using s(3) Cons.prems(2) by simp
  moreover have "0 \<le> ?share" using Cons.prems(3) by (simp add: pos_imp_zdiv_nonneg_iff)
  ultimately have k: "prefix kept hits" "used = snippet_bytes kept" "used \<le> ?share"
    using applyBudget_spec by blast+
  have "?share \<le> avail"
    using Cons.prems(3) zdiv_mono2 [of avail 1 "int (length (q # qs))"] by simp
  then have "0 \<le> avail - used" using k(3) by simp
  note IH = Cons.IH [OF s(4) Cons.prems(2) this]
  have "length kept \<le> limit"
    using prefix_length_le [OF k(1)] load_hits_length [OF s(2)] query_top_length [OF s(1)] by linarith
  then show ?case using IH s(5) k(2) by simp
qed

text \<open>With a positive byte budget \<open>Query\<close> answers every query in order, never
  returns more than \<open>limit\<close> hits for one, and the snippets of all answers together never exceed
  the budget, although what one query leaves of its share is passed on to the next.\<close>

lemma query_respects_budget:
  assumes "Query env st queries limit budget = Inr rs" and "0 < budget"
  shows "map qr_query rs = queries
    \<and> (\<forall>r \<in> set rs. length (qr_hits r) \<le> limit)
    \<and> sum_list (map (snippet_bytes \<circ> qr_hits) rs) \<le> budget"
  using query_loop_spec [of env st limit budget queries budget "[]" rs] assms
  by (simp add: Query_def)

definition demo_search :: search_env where
  "demo_search = \<lparr>q_engine = \<lparr>q_match = (\<lambda>t m. Inr [])\<rparr>, q_lower = (\<lambda>r. r), q_disk = demo_disk,
     q_root = []\<rparr>"

lemma query_respects_budget_witness:
  "\<exists>rs. Query demo_search demo_read_store [[]] 5 100 = Inr rs \<and> map qr_query rs = [[]]
     \<and> sum_list (map (snippet_bytes \<circ> qr_hits) rs) \<le> 100"
proof -
  have "\<exists>rs. Query demo_search demo_read_store [[]] 5 100 = Inr rs"
    by (simp add: Query_def query_top_def normalizeQuery_def Go_Strings.fields_def fields_from.simps
        bm25Rank_def filterShortTokenCandidates_def rrfMerge_def topN_def Let_def applyBudget_def)
  then show ?thesis using query_respects_budget [of demo_search demo_read_store "[[]]" 5 100] by auto
qed

text \<open>The \<open>n\<close> best candidates do not depend on the order in which Go iterates over
  the score map: any two listings of the same scores give the same list, in order of score and
  then id, and no candidate left out precedes one kept.\<close>

lemma topN_is_deterministic:
  assumes "mset scores = mset scores'"
  shows "topN scores n = topN scores' n \<and> sorted (topN scores n)
    \<and> length (topN scores n) = min n (length scores)
    \<and> (\<forall>x \<in> set (topN scores n). \<forall>(i, s) \<in> set scores.
          ScoredID i s \<notin> set (topN scores n) \<longrightarrow> x \<le> ScoredID i s)"
proof -
  let ?f = "\<lambda>(i, s). ScoredID i s"
  have "mset (map ?f scores) = mset (map ?f scores')" using assms by (metis mset_map)
  then have "sort (map ?f scores) = sort (map ?f scores')"
    by (metis properties_for_sort sorted_sort mset_sort)
  then have eq: "topN scores n = topN scores' n" by (simp add: topN_def)
  have best: "x \<le> y"
    if "x \<in> set (take n zs)" "y \<in> set zs" "y \<notin> set (take n zs)" "sorted zs" for x y and zs :: "scoredID list"
  proof -
    have "y \<in> set (drop n zs)" using that(2,3) by (metis Un_iff append_take_drop_id set_append)
    moreover have "sorted (take n zs @ drop n zs)" using that(4) by simp
    ultimately show ?thesis using that(1) by (metis sorted_append)
  qed
  have "x \<le> ScoredID i s"
    if "x \<in> set (topN scores n)" "(i, s) \<in> set scores" "ScoredID i s \<notin> set (topN scores n)" for x i s
  proof -
    have "ScoredID i s \<in> set (sort (map ?f scores))" using that(2) by force
    with that(1,3) show ?thesis unfolding topN_def by (intro best [OF _ _ _ sorted_sort]) simp_all
  qed
  moreover have "sorted (topN scores n)" unfolding topN_def by (intro sorted_wrt_take sorted_sort)
  moreover have "length (topN scores n) = min n (length scores)" by (simp add: topN_def)
  ultimately show ?thesis using eq by blast
qed

lemma topN_is_deterministic_witness:
  "topN [(1, 1 / 61), (2, 1 / 30)] 1 = topN [(2, 1 / 30), (1, 1 / 61)] 1"
  using topN_is_deterministic [of "[(1, 1 / 61), (2, 1 / 30)]" "[(2, 1 / 30), (1, 1 / 61)]" 1]
  by (simp add: add_mset_commute)

section \<open>What a hit says is true\<close>

definition info_of :: "source_row \<Rightarrow> source_info" where
  "info_of s = \<lparr>i_uri = s_uri s, i_kind = s_kind s, i_size = s_size s, i_mtime = s_mtime s,
     i_hash = s_hash s, i_extraction = (case s_extraction s of None \<Rightarrow> [] | Some x \<Rightarrow> x)\<rparr>"

lemma sourceOf_Some:
  assumes "sourceOf st art = Some info"
  shows "\<exists>s \<in> set (sources st). s_artifact s = art \<and> info = info_of s"
proof -
  let ?ss = "sort_key (\<lambda>s. (s_kind s = ''hook'', s_uri s)) (filter (\<lambda>s. s_artifact s = art) (sources st))"
  obtain s rest where c: "?ss = s # rest" using assms by (auto simp: sourceOf_def split: list.splits)
  then have "s \<in> set ?ss" by simp
  then have "s \<in> set (sources st)" "s_artifact s = art" by simp_all
  moreover have "info = info_of s" using assms c by (simp add: sourceOf_def info_of_def)
  ultimately show ?thesis by blast
qed

lemma sourceOf_uri_unique:
  assumes "store_ok st" and "sourceOf st art = Some i" and "sourceOf st art' = Some i'"
    and "i_uri i = i_uri i'"
  shows "i = i'"
proof -
  obtain s s' where "s \<in> set (sources st)" "i = info_of s" "s' \<in> set (sources st)" "i' = info_of s'"
    using sourceOf_Some assms(2,3) by metis
  moreover have "inj_on s_uri (set (sources st))"
    using assms(1) by (simp add: store_ok_defs distinct_map)
  ultimately show ?thesis using assms(4) by (auto simp: info_of_def dest: inj_onD)
qed

definition cache_ok :: "disk \<Rightarrow> store \<Rightarrow> stale_cache \<Rightarrow> bool" where
  "cache_ok d st cache \<longleftrightarrow>
     (\<forall>u v. map_of cache u = Some v \<longrightarrow>
        (\<exists>art info. sourceOf st art = Some info \<and> i_uri info = u \<and> v = StaleOf d info))"

lemma cache_ok_Cons:
  "cache_ok d st cache \<Longrightarrow> sourceOf st art = Some info \<Longrightarrow>
     cache_ok d st ((i_uri info, StaleOf d info) # cache)"
  unfolding cache_ok_def by (metis map_of_Cons_code(2) option.inject)

lemma isStale_ok:
  assumes "isStale d info cache = (v, cache')" and "cache_ok d st cache" and "store_ok st"
    and "sourceOf st art = Some info"
  shows "v = StaleOf d info \<and> cache_ok d st cache'"
proof (cases "i_kind info = ''file''")
  case False
  with assms show ?thesis by (auto simp: isStale_def StaleOf_def)
next
  case True
  show ?thesis
  proof (cases "map_of cache (i_uri info)")
    case None
    with True assms(1) have "v = StaleOf d info" "cache' = (i_uri info, StaleOf d info) # cache"
      by (auto simp: isStale_def Let_def)
    with cache_ok_Cons [OF assms(2,4)] show ?thesis by simp
  next
    case (Some x)
    then obtain art' info' where "sourceOf st art' = Some info'" "i_uri info' = i_uri info"
      "x = StaleOf d info'" using assms(2) unfolding cache_ok_def by blast
    with sourceOf_uri_unique [OF assms(3), of art info art' info'] assms(4) have "x = StaleOf d info" by simp
    with Some True assms(1,2) show ?thesis by (simp add: isStale_def)
  qed
qed

definition hit_ok :: "search_env \<Rightarrow> store \<Rightarrow> bytes \<Rightarrow> hit \<Rightarrow> bool" where
  "hit_ok env st q h \<longleftrightarrow>
     (\<exists>c a info. chunk_of st (ht_chunk h) = Some c
        \<and> artifact_of st (ht_artifact h) = Some a \<and> c_artifact c = a_id a
        \<and> sourceOf st (a_id a) = Some info
        \<and> ht_lines h = c_lines c
        \<and> ht_source h = RelativizeSource (q_root env) (i_uri info)
        \<and> ht_snippet h = snippetWindow (q_lower env) (c_text c) (firstMatchToken (q_lower env) q (c_text c))
        \<and> ht_stale h = StaleOf (q_disk env) info
        \<and> (ht_exact h \<longrightarrow> \<not> ht_redacted h \<and> i_kind info \<in> {''file'', ''inline''}))"

lemma loadHit_ok:
  assumes "loadHit env st q sc cache = (Some h, cache')" and "cache_ok (q_disk env) st cache"
    and "store_ok st"
  shows "hit_ok env st q h \<and> cache_ok (q_disk env) st cache' \<and> ht_chunk h = sc_id sc \<and> ht_score h = sc_score sc"
proof -
  obtain c a info where c: "chunk_of st (sc_id sc) = Some c" "artifact_of st (c_artifact c) = Some a"
    "sourceOf st (a_id a) = Some info"
    using assms(1) by (auto simp: loadHit_def split: option.splits)
  obtain v k where s: "isStale (q_disk env) info cache = (v, k)" by fastforce
  note ok = isStale_ok [OF s assms(2,3) c(3)]
  have "a_id a = c_artifact c" using artifact_of_Some [OF c(2)] by simp
  then show ?thesis using assms(1) c s ok by (auto simp: loadHit_def hit_ok_def)
qed

lemma loadHit_None_cache: "loadHit env st q sc cache = (None, cache') \<Longrightarrow> cache' = cache"
  by (auto simp: loadHit_def split: option.splits prod.splits)

lemma load_hits_ok:
  "load_hits env st q scs cache = (hs, cache') \<Longrightarrow> cache_ok (q_disk env) st cache \<Longrightarrow> store_ok st \<Longrightarrow>
     (\<forall>h \<in> set hs. hit_ok env st q h) \<and> cache_ok (q_disk env) st cache'
     \<and> subseq (map (\<lambda>h. ScoredID (ht_chunk h) (ht_score h)) hs) scs"
proof (induction scs arbitrary: cache hs cache')
  case (Cons sc scs)
  obtain o1 c1 where l: "loadHit env st q sc cache = (o1, c1)" by fastforce
  obtain hs2 c2 where r: "load_hits env st q scs c1 = (hs2, c2)" by fastforce
  show ?case
  proof (cases o1)
    case None
    with l r Cons.prems Cons.IH [OF r] loadHit_None_cache [of env st q sc cache c1] show ?thesis
      by auto
  next
    case (Some h)
    note ok = loadHit_ok [OF l [unfolded Some] Cons.prems(2,3)]
    then have "ScoredID (ht_chunk h) (ht_score h) = sc" by simp
    with Cons.IH [OF r] ok Cons.prems l r Some show ?thesis by auto
  qed
qed simp

lemma query_loop_hits:
  "query_loop env st limit budget qs avail cache = Inr rs \<Longrightarrow> cache_ok (q_disk env) st cache \<Longrightarrow>
     store_ok st \<Longrightarrow> 0 \<le> avail \<or> budget \<le> 0 \<Longrightarrow>
     (\<forall>r \<in> set rs. \<forall>h \<in> set (qr_hits r). hit_ok env st (qr_query r) h)"
proof (induction qs arbitrary: avail cache rs)
  case Nil
  then show ?case by simp
next
  case (Cons q qs)
  from Cons.prems(1) obtain best hits cache' kept used trunc rest where
    s: "query_top env st q limit = Inr best" "load_hits env st q best cache = (hits, cache')"
      "(if budget > 0 then applyBudget hits (avail div int (length (q # qs))) else (hits, 0, False))
         = (kept, used, trunc)"
      "query_loop env st limit budget qs (avail - used) cache' = Inr rest"
      "rs = \<lparr>qr_query = q, qr_hits = kept, qr_truncated = trunc\<rparr> # rest"
    by (rule query_loop_Cons)
  note hits = load_hits_ok [OF s(2) Cons.prems(2,3)]
  let ?share = "avail div int (length (q # qs))"
  have k: "prefix kept hits \<and> (0 \<le> avail - used \<or> budget \<le> 0)"
  proof (cases "0 < budget")
    case True
    then have "0 \<le> avail" using Cons.prems(4) by simp
    then have "0 \<le> ?share" "?share \<le> avail"
      using zdiv_mono2 [of avail 1 "int (length (q # qs))"] by (simp_all add: pos_imp_zdiv_nonneg_iff)
    with applyBudget_spec [of hits ?share kept used trunc] s(3) True show ?thesis by auto
  qed (use s(3) in auto)
  then have "\<forall>h \<in> set kept. hit_ok env st q h" using hits set_mono_prefix by blast
  with Cons.IH [OF s(4)] hits Cons.prems(3) k s(5) show ?case by simp
qed


definition demo_hit_store :: store where
  "demo_hit_store = demo_cas_store\<lparr>
     chunks := [\<lparr>c_id = 1, c_artifact = 4, c_ordinal = 0, c_bytes = Some (0, 3), c_lines = (1, 1),
                 c_title = [], c_text = ''a b''\<rparr>],
     fts_porter := [(1, [], ''a b'')], fts_trigram := [(1, [], ''a b'')]\<rparr>"

definition demo_search1 :: search_env where
  "demo_search1 = demo_search\<lparr>q_engine := \<lparr>q_match = (\<lambda>t m. Inr [1])\<rparr>\<rparr>"

lemma demo_hit_store_ok: "store_ok demo_hit_store"
  by (simp add: demo_hit_store_def demo_cas_store_def empty_store_def store_ok_defs cas_ok_def
      blobs_present_def referenced_def fts_of_def)

lemma demo_fields: "Go_Strings.fields ''b'' = [''b'']"
  by (simp add: Go_Strings.fields_def fields_from.simps [of "[]" "''b''"] fields_from.simps [of "''b''" "[]"]
      unicode_space_def Let_def)

lemma demo_query:
  "\<exists>h rs. Query demo_search1 demo_hit_store [''b''] 5 0
     = Inr [\<lparr>qr_query = ''b'', qr_hits = [h], qr_truncated = False\<rparr>]"
  by (simp add: Query_def query_top_def normalizeQuery_def demo_fields demo_runes bm25Rank_def
      quote_def replace_char_def filterShortTokenCandidates_def rrfMerge_def topN_def Let_def
      demo_search1_def demo_search_def has_source_def chunk_of_def demo_hit_store_def
      demo_cas_store_def loadHit_def artifact_of_def sourceOf_def isStale_def split: prod.splits)


section \<open>Reciprocal rank fusion\<close>

definition rrf_score :: "(int \<times> rat) list \<Rightarrow> int \<Rightarrow> rat" where
  "rrf_score m i = (case map_of m i of None \<Rightarrow> 0 | Some s \<Rightarrow> s)"

definition rrf_add :: "rat \<Rightarrow> nat \<Rightarrow> rat" where
  "rrf_add old k = f64 (old + f64 (1 / of_nat (61 + k)))"

text \<open>The position of an id in a ranking without repetitions.\<close>

fun rank_of :: "int \<Rightarrow> int list \<Rightarrow> nat option" where
  "rank_of i [] = None"
| "rank_of i (x # xs) = (if x = i then Some 0 else map_option Suc (rank_of i xs))"

lemma rank_of_None: "rank_of i xs = None \<longleftrightarrow> i \<notin> set xs"
  by (induction xs) auto

lemma rrf_list_score:
  "distinct xs \<Longrightarrow> rrf_score (rrf_list r xs m) i =
     (case rank_of i xs of None \<Rightarrow> rrf_score m i | Some k \<Rightarrow> rrf_add (rrf_score m i) (r + k))"
proof (induction xs arbitrary: r m)
  case (Cons x xs)
  let ?m = "AList.update x (rrf_add (rrf_score m x) r) m"
  have step: "rrf_list r (x # xs) m = rrf_list (Suc r) xs ?m"
    by (simp add: Let_def rrf_score_def rrf_add_def rrfK_def)
  have up: "rrf_score ?m j = (if j = x then rrf_add (rrf_score m x) r else rrf_score m j)" for j
    by (simp add: rrf_score_def update_conv')
  have IH: "rrf_score (rrf_list (Suc r) xs ?m) i =
     (case rank_of i xs of None \<Rightarrow> rrf_score ?m i | Some k \<Rightarrow> rrf_add (rrf_score ?m i) (Suc r + k))"
    by (rule Cons.IH) (use Cons.prems in simp)
  show ?case
  proof (cases "i = x")
    case True
    then have "rank_of i xs = None" using Cons.prems by (simp add: rank_of_None)
    with True show ?thesis unfolding step IH by (simp add: up)
  next
    case False
    then show ?thesis unfolding step IH by (simp add: up split: option.splits)
  qed
qed simp

lemma rrf_add_mono:
  assumes "a \<le> b" and "j \<le> k"
  shows "rrf_add a k \<le> rrf_add b j"
proof -
  have "1 / of_nat (61 + k) \<le> (1 / of_nat (61 + j) :: rat)"
    using assms(2) by (intro divide_left_mono) simp_all
  then show ?thesis unfolding rrf_add_def using assms(1) by (intro f64_mono add_mono) simp_all
qed

lemma rrf_add_above:
  assumes "f64 a = a"
  shows "a \<le> rrf_add a k"
proof -
  have "f64 a \<le> rrf_add a k"
    unfolding rrf_add_def using f64_nonneg by (intro f64_mono) simp
  with assms show ?thesis by simp
qed

lemma rrf_add_exact: "f64 (rrf_add a k) = rrf_add a k"
  by (simp add: rrf_add_def f64_idem)

text \<open>One ranking puts \<open>a\<close> before \<open>b\<close>, if it has \<open>b\<close> at all.\<close>

definition ranks_before :: "int list \<Rightarrow> int \<Rightarrow> int \<Rightarrow> bool" where
  "ranks_before xs a b \<longleftrightarrow> (\<forall>k. rank_of b xs = Some k \<longrightarrow> (\<exists>j < k. rank_of a xs = Some j))"

lemma rrf_list_before:
  assumes "distinct xs" and "ranks_before xs a b" and "rrf_score m b \<le> rrf_score m a"
    and "f64 (rrf_score m a) = rrf_score m a"
  shows "rrf_score (rrf_list 0 xs m) b \<le> rrf_score (rrf_list 0 xs m) a
    \<and> f64 (rrf_score (rrf_list 0 xs m) a) = rrf_score (rrf_list 0 xs m) a"
proof (cases "rank_of b xs")
  case None
  then show ?thesis
    using assms rrf_add_above [OF assms(4)] rrf_add_exact
    by (auto simp: rrf_list_score split: option.splits intro: order_trans)
next
  case (Some k)
  then obtain j where "j < k" "rank_of a xs = Some j" using assms(2) by (auto simp: ranks_before_def)
  then show ?thesis
    using Some assms rrf_add_mono [OF assms(3), of j k] by (simp add: rrf_list_score rrf_add_exact)
qed

text \<open>Fusion respects the rankings it merges: an id that every ranking with the
  other id puts ahead of it never scores less, although the scores are sums of rounded
  floating-point quotients, and so it comes first in the merged order unless the scores tie.\<close>

lemma rrf_respects_rankings:
  assumes "\<forall>xs \<in> set rankings. distinct xs \<and> ranks_before xs a b"
  shows "rrf_score (rrfMerge rankings) b \<le> rrf_score (rrfMerge rankings) a
    \<and> (rrf_score (rrfMerge rankings) b \<noteq> rrf_score (rrfMerge rankings) a \<or> a \<le> b \<longrightarrow>
         ScoredID a (rrf_score (rrfMerge rankings) a) \<le> ScoredID b (rrf_score (rrfMerge rankings) b))"
proof -
  have "rrf_score (fold (rrf_list 0) rankings m) b \<le> rrf_score (fold (rrf_list 0) rankings m) a"
    if "rrf_score m b \<le> rrf_score m a" "f64 (rrf_score m a) = rrf_score m a" for m
    using assms that
  proof (induction rankings arbitrary: m)
    case (Cons xs rankings)
    then show ?case using rrf_list_before [of xs a b m] by simp
  qed simp
  from this [of "[]"] have "rrf_score (rrfMerge rankings) b \<le> rrf_score (rrfMerge rankings) a"
    by (simp add: rrfMerge_def rrf_score_def f64_def)
  then show ?thesis by (auto simp: less_eq_scoredID_def)
qed

lemma rrf_respects_rankings_witness:
  "rrf_score (rrfMerge [[7, 9], [7]]) 9 \<le> rrf_score (rrfMerge [[7, 9], [7]]) 7"
  using rrf_respects_rankings [of "[[7, 9], [7]]" 7 9] by (simp add: ranks_before_def)

end
