(* ===== verification/Netfetch_Addr.thy ===== *)
theory Netfetch_Addr
  imports Prelude "HOL-Library.Word"
begin

text \<open>
  The address policy of \<open>internal/netfetch/netfetch.go\<close>, over the addresses and prefixes of
  package \<open>net/netip\<close>: an IPv4 address is a 32-bit word, an IPv6 address a 128-bit word with a
  zone.
\<close>

section \<open>Package netip\<close>

datatype addr =
    NoAddr
  | V4 "32 word"
  | V6 "128 word" bytes

datatype net_prefix =
    P4 "32 word" nat
  | P6 "128 word" nat

definition Is4In6 :: "addr \<Rightarrow> bool" where
  "Is4In6 a = (case a of V6 w z \<Rightarrow> drop_bit 32 w = 0xFFFF | _ \<Rightarrow> False)"

definition Unmap :: "addr \<Rightarrow> addr" where
  "Unmap a = (case a of V6 w z \<Rightarrow> if drop_bit 32 w = 0xFFFF then V4 (ucast w) else a | _ \<Rightarrow> a)"

definition IsValid :: "addr \<Rightarrow> bool" where
  "IsValid a \<longleftrightarrow> a \<noteq> NoAddr"

definition Zone :: "addr \<Rightarrow> bytes" where
  "Zone a = (case a of V6 w z \<Rightarrow> z | _ \<Rightarrow> [])"

definition IsLoopback :: "addr \<Rightarrow> bool" where
  "IsLoopback a = (case Unmap a of NoAddr \<Rightarrow> False | V4 w \<Rightarrow> drop_bit 24 w = 127 | V6 w z \<Rightarrow> w = 1)"

definition IsMulticast :: "addr \<Rightarrow> bool" where
  "IsMulticast a =
     (case Unmap a of NoAddr \<Rightarrow> False | V4 w \<Rightarrow> drop_bit 28 w = 0xE | V6 w z \<Rightarrow> drop_bit 120 w = 0xFF)"

definition IsLinkLocalUnicast :: "addr \<Rightarrow> bool" where
  "IsLinkLocalUnicast a =
     (case Unmap a of NoAddr \<Rightarrow> False | V4 w \<Rightarrow> drop_bit 16 w = 0xA9FE | V6 w z \<Rightarrow> drop_bit 118 w = 0x3FA)"

definition IsLinkLocalMulticast :: "addr \<Rightarrow> bool" where
  "IsLinkLocalMulticast a =
     (case Unmap a of
        NoAddr \<Rightarrow> False
      | V4 w \<Rightarrow> drop_bit 8 w = 0xE00000
      | V6 w z \<Rightarrow> and (drop_bit 112 w) 0xFF0F = 0xFF02)"

definition IsPrivate :: "addr \<Rightarrow> bool" where
  "IsPrivate a =
     (case Unmap a of
        NoAddr \<Rightarrow> False
      | V4 w \<Rightarrow> drop_bit 24 w = 10 \<or> drop_bit 20 w = 0xAC1 \<or> drop_bit 16 w = 0xC0A8
      | V6 w z \<Rightarrow> drop_bit 121 w = 0x7E)"

definition IsUnspecified :: "addr \<Rightarrow> bool" where
  "IsUnspecified a \<longleftrightarrow> a = V4 0 \<or> a = V6 0 []"

definition IsGlobalUnicast :: "addr \<Rightarrow> bool" where
  "IsGlobalUnicast a0 =
     (let a = Unmap a0 in
      a \<noteq> NoAddr \<and> a \<noteq> V4 0 \<and> a \<noteq> V4 0xFFFFFFFF
      \<and> a \<noteq> V6 0 [] \<and> \<not> IsLoopback a \<and> \<not> IsMulticast a \<and> \<not> IsLinkLocalUnicast a)"

fun Contains :: "net_prefix \<Rightarrow> addr \<Rightarrow> bool" where
  "Contains (P4 p n) (V4 w) = (drop_bit (32 - n) w = drop_bit (32 - n) p)"
| "Contains (P6 p n) (V6 w z) = (z = [] \<and> drop_bit (128 - n) w = drop_bit (128 - n) p)"
| "Contains _ _ = False"

section \<open>The policy\<close>

definition loopback4 :: addr where "loopback4 = V4 0x7F000001"
definition loopback6 :: addr where "loopback6 = V6 1 []"
definition cgnat :: net_prefix where "cgnat = P4 0x64400000 10"
definition nat64 :: net_prefix where "nat64 = P6 0x0064FF9B000000000000000000000000 96"
definition zeroNet :: net_prefix where "zeroNet = P4 0 8"
definition v4CompatPrefix :: net_prefix where "v4CompatPrefix = P6 0 96"

definition blockedPrefixes :: "net_prefix list" where
  "blockedPrefixes =
     [P4 0xC0000200 24, P4 0xC6336400 24, P4 0xCB007100 24, P4 0xC6120000 15, P4 0xF0000000 4,
      P6 0x20010DB8000000000000000000000000 32, P6 0x20010000000000000000000000000000 23,
      P6 0x20020000000000000000000000000000 16, P6 0x20010000000000000000000000000000 32]"

text \<open>\<open>True\<close> is the answer \<open>"ok"\<close>, \<open>False\<close> the answer \<open>"block"\<close>.\<close>

definition ClassifyAddr :: "addr \<Rightarrow> bool" where
  "ClassifyAddr a0 =
     (let a = Unmap a0 in
      if \<not> IsValid a \<or> Zone a \<noteq> [] then False
      else if \<not> IsGlobalUnicast a \<or> IsLoopback a \<or> IsPrivate a \<or> IsLinkLocalUnicast a
        \<or> IsLinkLocalMulticast a \<or> IsMulticast a \<or> IsUnspecified a
        \<or> Contains cgnat a \<or> Contains nat64 a \<or> Contains zeroNet a \<or> Contains v4CompatPrefix a
      then False
      else \<not> list_ex (\<lambda>p. Contains p a) blockedPrefixes)"

definition allowedAddr :: "addr \<Rightarrow> bool \<Rightarrow> bool" where
  "allowedAddr a0 allowLocal =
     (let a = Unmap a0 in
      if allowLocal \<and> (a = loopback4 \<or> a = loopback6) then True else ClassifyAddr a)"

section \<open>The policy as address ranges\<close>

lemma Unmap_idem [simp]: "Unmap (Unmap a) = Unmap a"
  by (simp add: Unmap_def split: addr.splits)

definition in_range :: "nat \<Rightarrow> nat \<Rightarrow> nat \<Rightarrow> bool" where
  "in_range lo hi x \<longleftrightarrow> lo \<le> x \<and> x \<le> hi"

lemma div_range:
  assumes "0 < b"
  shows "x div b = k \<longleftrightarrow> in_range (k * b) (k * b + (b - 1)) (x :: nat)"
proof
  assume k: "x div b = k"
  then have "k * b \<le> x" "x < k * b + b"
    using div_times_less_eq_dividend [of x b] dividend_less_div_times [OF assms, of x] by auto
  then show "in_range (k * b) (k * b + (b - 1)) x" using assms by (simp add: in_range_def)
next
  assume "in_range (k * b) (k * b + (b - 1)) x"
  then have "b * k \<le> x" "x < b * Suc k"
    using assms by (auto simp: in_range_def mult.commute)
  then show "x div b = k" by (rule div_nat_eqI)
qed

lemma drop_bit_range:
  "drop_bit n w = k \<longleftrightarrow> in_range (unat k * 2 ^ n) (unat k * 2 ^ n + (2 ^ n - 1)) (unat (w :: 'a::len word))"
proof -
  have "unat (drop_bit n w) = unat w div 2 ^ n" 
    using unat_drop_bit_eq [of n w] drop_bit_eq_div [of n "unat w"] by (rule trans)
  then show ?thesis using div_range [of "2 ^ n" "unat w" "unat k"] by (simp only: word_unat_eq_iff) simp
qed

text \<open>The IPv4 ranges that are refused, first and last address of each.\<close>

definition special4 :: "(nat \<times> nat) list" where
  "special4 =
     [(0x00000000, 0x00FFFFFF),  \<comment> \<open>0.0.0.0/8\<close>
      (0x0A000000, 0x0AFFFFFF),  \<comment> \<open>10.0.0.0/8\<close>
      (0x64400000, 0x647FFFFF),  \<comment> \<open>100.64.0.0/10\<close>
      (0x7F000000, 0x7FFFFFFF),  \<comment> \<open>127.0.0.0/8\<close>
      (0xA9FE0000, 0xA9FEFFFF),  \<comment> \<open>169.254.0.0/16\<close>
      (0xAC100000, 0xAC1FFFFF),  \<comment> \<open>172.16.0.0/12\<close>
      (0xC0000200, 0xC00002FF),  \<comment> \<open>192.0.2.0/24\<close>
      (0xC0A80000, 0xC0A8FFFF),  \<comment> \<open>192.168.0.0/16\<close>
      (0xC6120000, 0xC613FFFF),  \<comment> \<open>198.18.0.0/15\<close>
      (0xC6336400, 0xC63364FF),  \<comment> \<open>198.51.100.0/24\<close>
      (0xCB007100, 0xCB0071FF),  \<comment> \<open>203.0.113.0/24\<close>
      (0xE0000000, 0xEFFFFFFF),  \<comment> \<open>224.0.0.0/4\<close>
      (0xF0000000, 0xFFFFFFFF)]" \<comment> \<open>240.0.0.0/4\<close>

definition special6 :: "(nat \<times> nat) list" where
  "special6 =
     [(0, 0xFFFFFFFF),                                          \<comment> \<open>::/96\<close>
      (0x0064FF9B000000000000000000000000, 0x0064FF9B0000000000000000FFFFFFFF),  \<comment> \<open>64:ff9b::/96\<close>
      (0x20010000000000000000000000000000, 0x200101FFFFFFFFFFFFFFFFFFFFFFFFFF),  \<comment> \<open>2001::/23\<close>
      (0x20010DB8000000000000000000000000, 0x20010DB8FFFFFFFFFFFFFFFFFFFFFFFF),  \<comment> \<open>2001:db8::/32\<close>
      (0x20020000000000000000000000000000, 0x2002FFFFFFFFFFFFFFFFFFFFFFFFFFFF),  \<comment> \<open>2002::/16\<close>
      (0xFC000000000000000000000000000000, 0xFDFFFFFFFFFFFFFFFFFFFFFFFFFFFFFF),  \<comment> \<open>fc00::/7\<close>
      (0xFE800000000000000000000000000000, 0xFEBFFFFFFFFFFFFFFFFFFFFFFFFFFFFF),  \<comment> \<open>fe80::/10\<close>
      (0xFF000000000000000000000000000000, 0xFFFFFFFFFFFFFFFFFFFFFFFFFFFFFFFF)]" \<comment> \<open>ff00::/8\<close>

lemma Classify_V4:
  "ClassifyAddr (V4 w) \<longleftrightarrow> \<not> (\<exists>(lo, hi) \<in> set special4. in_range lo hi (unat w))"
proof -
  have 1: "V4 w = V4 0 \<Longrightarrow> drop_bit 24 w = 0" "w = 0xFFFFFFFF \<Longrightarrow> drop_bit 28 w = 0xF" by simp_all
  have 2: "drop_bit 8 w = 0xE00000 \<Longrightarrow> drop_bit 28 w = 0xE"
    by (auto simp: drop_bit_range in_range_def)
  have "ClassifyAddr (V4 w) \<longleftrightarrow>
    \<not> (drop_bit 24 w = 0 \<or> drop_bit 24 w = 10 \<or> drop_bit 22 w = 0x191 \<or> drop_bit 24 w = 127
      \<or> drop_bit 16 w = 0xA9FE \<or> drop_bit 20 w = 0xAC1 \<or> drop_bit 8 w = 0xC00002
      \<or> drop_bit 16 w = 0xC0A8 \<or> drop_bit 17 w = 0x6309 \<or> drop_bit 8 w = 0xC63364
      \<or> drop_bit 8 w = 0xCB0071 \<or> drop_bit 28 w = 0xE \<or> drop_bit 28 w = 0xF)"
    using 1 2
    by (auto simp: ClassifyAddr_def Unmap_def IsValid_def Zone_def IsGlobalUnicast_def IsLoopback_def
        IsPrivate_def IsLinkLocalUnicast_def IsLinkLocalMulticast_def IsMulticast_def IsUnspecified_def
        cgnat_def nat64_def zeroNet_def v4CompatPrefix_def blockedPrefixes_def Let_def)
  also have "\<dots> \<longleftrightarrow> \<not> (\<exists>(lo, hi) \<in> set special4. in_range lo hi (unat w))"
    by (simp add: drop_bit_range special4_def)
  finally show ?thesis .
qed

lemma Classify_V6:
  assumes "drop_bit 32 w \<noteq> 0xFFFF"
  shows "ClassifyAddr (V6 w z) \<longleftrightarrow> z = [] \<and> \<not> (\<exists>(lo, hi) \<in> set special6. in_range lo hi (unat w))"
proof -
  have 1: "w = 0 \<Longrightarrow> drop_bit 32 w = 0" "w = 1 \<Longrightarrow> drop_bit 32 w = 0" by simp_all
  have 2: "and (drop_bit 112 w) 0xFF0F = 0xFF02 \<Longrightarrow> drop_bit 120 w = 0xFF"
  proof -
    assume "and (drop_bit 112 w) 0xFF0F = 0xFF02"
    then have "drop_bit 8 (and (drop_bit 112 w) 0xFF0F) = drop_bit 8 0xFF02" by simp
    then have "and (drop_bit 120 w) 0xFF = 0xFF" by (simp add: drop_bit_and)
    moreover have "and (drop_bit 120 w) 0xFF = drop_bit 120 w"
    proof -
      have "and (drop_bit 120 w) (mask 8) = take_bit 8 (drop_bit 120 w)" by (simp add: take_bit_eq_mask)
      also have "\<dots> = drop_bit 120 w" by (simp add: take_bit_drop_bit take_bit_word_eq_self)
      finally show ?thesis by (simp add: mask_eq_exp_minus_1)
    qed
    ultimately show "drop_bit 120 w = 0xFF" by simp
  qed
  have 3: "drop_bit 96 w = 0x20010000 \<Longrightarrow> drop_bit 105 w = 0x100080"
    by (auto simp: drop_bit_range in_range_def)
  have "ClassifyAddr (V6 w z) \<longleftrightarrow>
    z = [] \<and> \<not> (drop_bit 32 w = 0 \<or> drop_bit 32 w = 0x0064FF9B0000000000000000 \<or> drop_bit 105 w = 0x100080
      \<or> drop_bit 96 w = 0x20010DB8 \<or> drop_bit 112 w = 0x2002 \<or> drop_bit 121 w = 0x7E
      \<or> drop_bit 118 w = 0x3FA \<or> drop_bit 120 w = 0xFF)"
    using 1 2 3 assms
    by (auto simp: ClassifyAddr_def Unmap_def IsValid_def Zone_def IsGlobalUnicast_def IsLoopback_def
        IsPrivate_def IsLinkLocalUnicast_def IsLinkLocalMulticast_def IsMulticast_def IsUnspecified_def
        cgnat_def nat64_def zeroNet_def v4CompatPrefix_def blockedPrefixes_def Let_def)
  also have "\<dots> \<longleftrightarrow> z = [] \<and> \<not> (\<exists>(lo, hi) \<in> set special6. in_range lo hi (unat w))"
    by (simp add: drop_bit_range special6_def)
  finally show ?thesis .
qed

lemma Classify_Unmap: "ClassifyAddr (Unmap a) = ClassifyAddr a"
  by (simp add: ClassifyAddr_def)

lemma Unmap_V6: "Unmap a = V6 w z \<Longrightarrow> drop_bit 32 w \<noteq> 0xFFFF"
  by (auto simp: Unmap_def split: addr.splits if_splits)

definition public_addr :: "addr \<Rightarrow> bool" where
  "public_addr a \<longleftrightarrow>
     (case Unmap a of
        NoAddr \<Rightarrow> False
      | V4 w \<Rightarrow> \<not> (\<exists>(lo, hi) \<in> set special4. in_range lo hi (unat w))
      | V6 w z \<Rightarrow> z = [] \<and> \<not> (\<exists>(lo, hi) \<in> set special6. in_range lo hi (unat w)))"

lemma ClassifyAddr_public: "ClassifyAddr a \<longleftrightarrow> public_addr a"
proof (cases "Unmap a")
  case NoAddr
  then show ?thesis by (simp add: ClassifyAddr_def public_addr_def IsValid_def)
next
  case (V4 w)
  then show ?thesis using Classify_V4 [of w] Classify_Unmap [of a] by (simp add: public_addr_def)
next
  case (V6 w z)
  then show ?thesis
    using Classify_V6 [OF Unmap_V6 [OF V6]] Classify_Unmap [of a] by (simp add: public_addr_def)
qed

text \<open>Property C16.  The address policy is exactly a list of ranges: after unmapping an
  IPv4-in-IPv6 address, an address passes iff it is a zone-free address outside the thirteen
  special IPv4 ranges or the eight special IPv6 ranges; and with \<open>AllowLocal\<close> the two loopback
  addresses, and no other address, pass in addition.\<close>

theorem classify_addr_is_range_check:
  "(ClassifyAddr a \<longleftrightarrow> public_addr a)
   \<and> (allowedAddr a local \<longleftrightarrow> public_addr a \<or> (local \<and> Unmap a \<in> {V4 0x7F000001, V6 1 []}))"
  using ClassifyAddr_public [of a] Classify_Unmap [of a]
  by (auto simp: allowedAddr_def Let_def loopback4_def loopback6_def)

end
