(* ===== verification/Netfetch.thy ===== *)
theory Netfetch
  imports Netfetch_Addr Go_Strings Float64
begin

text \<open>
  \<open>internal/netfetch/netfetch.go\<close>: a fetch that resolves, checks and pins every hop.  What lies
  outside is a record of functions on a state \<open>'n\<close> of the network: parsing a URL and a reference
  (\<open>net/url\<close>), a DNS lookup, one request to a pinned address, the media type of a header
  (\<open>mime\<close>), character set conversion and the conversion of HTML to Markdown.  Every request is
  entered in a log, with the address it was sent to.
\<close>

section \<open>Values\<close>

text \<open>A parsed URL; \<open>u_port\<close> is the text of \<open>Port()\<close>, \<open>u_text\<close> that of \<open>String()\<close>.\<close>

record url =
  u_scheme :: bytes
  u_host :: bytes
  u_port :: bytes
  u_userinfo :: bool
  u_text :: bytes

record config =
  cfg_local :: bool
  cfg_ports :: "int list"
  cfg_max :: int

record fetched =
  n_raw :: "bytes option"
  n_body :: bytes
  n_media :: bytes
  n_extraction :: bytes
  n_url :: bytes
  n_title :: bytes

text \<open>The kinds of error the retry decision looks for along an error's chain.\<close>

datatype err_kind =
    KAddrTimeout | KCanceled | KDeadline | KOpError | KRecordHeader | KAlert | KHostname
  | KUnknownAuthority | KCertInvalid | KOther

text \<open>A failed request: whether it failed while dialling or in the handshake, the parent
  context's error, whether the per-address deadline had passed, and the chain.\<close>

record req_failure =
  y_dial :: bool
  y_parent :: bool
  y_deadline :: bool
  y_chain :: "err_kind list"

record response =
  p_status :: int
  p_location :: bytes
  p_ctype :: bytes
  p_body :: bytes
  p_bodyerr :: "go_error option"

definition isDowngrade :: "bytes \<Rightarrow> bytes \<Rightarrow> bool" where
  "isDowngrade fromScheme toScheme \<longleftrightarrow> fromScheme = ''https'' \<and> toScheme = ''http''"

definition resolvePort :: "url \<Rightarrow> config \<Rightarrow> go_error + int" where
  "resolvePort u cfg =
     (case (if u_port u = [] then Some (if u_scheme u = ''https'' then 443 else 80)
            else parse_int64 (u_port u)) of
        None \<Rightarrow> Inl NetDenied
      | Some port \<Rightarrow>
          if port = 80 \<or> port = 443 then Inr port
          else if port \<in> set (cfg_ports cfg) then Inr port
          else Inl NetDenied)"

definition classifyAddrCtxErr :: "req_failure \<Rightarrow> err_kind list" where
  "classifyAddrCtxErr f =
     (if y_dial f \<and> \<not> y_parent f \<and> y_deadline f then KAddrTimeout # y_chain f else y_chain f)"

definition retryableDialErr :: "err_kind list \<Rightarrow> bool" where
  "retryableDialErr chain =
     (if KAddrTimeout \<in> set chain then True
      else if KCanceled \<in> set chain \<or> KDeadline \<in> set chain then False
      else list_ex (\<lambda>k. k \<in> {KOpError, KRecordHeader, KAlert, KHostname, KUnknownAuthority, KCertInvalid}) chain)"

definition request_error :: "err_kind list \<Rightarrow> go_error" where
  "request_error chain =
     (if KCanceled \<in> set chain then CtxCanceled
      else if KAddrTimeout \<in> set chain then NetAddrTimeout
      else if KDeadline \<in> set chain then CtxDeadline
      else ErrOther ''request'')"

definition mediaTypeAllowed :: "bytes \<Rightarrow> bool" where
  "mediaTypeAllowed mt =
     (if mt = [] then False
      else if prefix ''text/'' mt then True
      else mt \<in> {''application/json'', ''application/xml'', ''application/xhtml+xml''})"

text \<open>\<open>readBody\<close> through a reader limited to one byte more than allowed: a failure of the body
  counts only if it comes within that limit.\<close>

definition readBody :: "response \<Rightarrow> int \<Rightarrow> go_error + bytes" where
  "readBody resp maxBytes =
     (if maxBytes \<le> 0 then (case p_bodyerr resp of Some e \<Rightarrow> Inl e | None \<Rightarrow> Inr (p_body resp))
      else if int (length (p_body resp)) \<ge> maxBytes + 1 then Inl NetBodyTooLarge
      else (case p_bodyerr resp of Some e \<Rightarrow> Inl e | None \<Rightarrow> Inr (p_body resp)))"

section \<open>The fidelity gate\<close>

text \<open>A node of the parsed document: an element with its name, a text, or another kind, with its
  children.\<close>

datatype html_node =
    Element bytes "html_node list"
  | Text bytes
  | OtherNode "html_node list"

fun visibleTextLen :: "html_node \<Rightarrow> nat" where
  "visibleTextLen (Element name kids) =
     (if name = ''script'' \<or> name = ''style'' then 0
      else sum_list (map visibleTextLen kids))"
| "visibleTextLen (Text d) = length (runes (trim_space d))"
| "visibleTextLen (OtherNode kids) = sum_list (map visibleTextLen kids)"

fun countPreCode :: "html_node \<Rightarrow> nat" where
  "countPreCode (Element name kids) =
     (if name = ''pre'' \<or> name = ''code'' then 1 else 0) + sum_list (map countPreCode kids)"
| "countPreCode (Text d) = 0"
| "countPreCode (OtherNode kids) = sum_list (map countPreCode kids)"

definition fidelityMinChars :: nat where "fidelityMinChars = 500"
definition fidelityMinTextRatio :: rat where "fidelityMinTextRatio = f64 (3 / 10)"
definition fidelityMinPreCodeRatio :: rat where "fidelityMinPreCodeRatio = 1 / 2"

text \<open>What the extraction library gives: the title, the rendered text and HTML (or an error),
  the article's node.\<close>

record article =
  r_title :: bytes
  r_text :: "bytes option"
  r_html :: "bytes option"
  r_node :: "html_node option"

definition fidelityOK :: "html_node option \<Rightarrow> article \<Rightarrow> bool" where
  "fidelityOK origDoc art =
     (case r_text art of
        None \<Rightarrow> False
      | Some rendered \<Rightarrow>
          let txt0 = trim_space rendered; n = length (runes txt0) in
          if txt0 = [] \<or> n < fidelityMinChars then False
          else (case origDoc of
                  None \<Rightarrow> True
                | Some doc \<Rightarrow>
                    if visibleTextLen doc > 0
                       \<and> f64 (of_nat n / of_nat (visibleTextLen doc)) < fidelityMinTextRatio then False
                    else if countPreCode doc > 0
                       \<and> f64 (of_nat (case r_node art of None \<Rightarrow> 0 | Some nd \<Rightarrow> countPreCode nd)
                              / of_nat (countPreCode doc)) < fidelityMinPreCodeRatio then False
                    else True))"

section \<open>The fetch loop\<close>

record 'n net =
  n_parse :: "bytes \<Rightarrow> url option"
  n_ref :: "url \<Rightarrow> bytes \<Rightarrow> url option"
  n_literal :: "bytes \<Rightarrow> addr option"
  n_lookup :: "'n \<Rightarrow> bytes \<Rightarrow> 'n \<times> (go_error + addr list)"
  n_request :: "'n \<Rightarrow> addr \<Rightarrow> int \<Rightarrow> url \<Rightarrow> 'n \<times> (req_failure + response)"
  n_mime :: "bytes \<Rightarrow> bytes option"
  n_decode :: "bytes \<Rightarrow> bytes \<Rightarrow> go_error + bytes"
  n_article :: "bytes \<Rightarrow> url \<Rightarrow> article option"
  n_html :: "bytes \<Rightarrow> html_node option"
  n_markdown :: "bytes \<Rightarrow> go_error + bytes"

type_synonym request_log = "(addr \<times> int \<times> url) list"

fun validate_all :: "config \<Rightarrow> addr list \<Rightarrow> go_error + addr list" where
  "validate_all cfg [] = Inr []"
| "validate_all cfg (a # as) =
     (if \<not> allowedAddr a (cfg_local cfg) then Inl NetDenied
      else (case validate_all cfg as of Inl e \<Rightarrow> Inl e | Inr out \<Rightarrow> Inr (Unmap a # out)))"

definition resolveAndValidate ::
  "('n, 'z) net_scheme \<Rightarrow> config \<Rightarrow> bytes \<Rightarrow> 'n \<Rightarrow> 'n \<times> (go_error + addr list)" where
  "resolveAndValidate net cfg host s =
     (case n_literal net host of
        Some lit \<Rightarrow>
          (s, if \<not> allowedAddr lit (cfg_local cfg) then Inl NetDenied else Inr [Unmap lit])
      | None \<Rightarrow>
          (case n_lookup net s host of
             (s', Inl e) \<Rightarrow> (s', Inl e)
           | (s', Inr addrs) \<Rightarrow>
               (s', if addrs = [] then Inl NetDenied else validate_all cfg addrs)))"

text \<open>One hop: the addresses in turn, moving on only after a retryable failure.  The log grows
  at its end.\<close>

fun try_addrs ::
  "('n, 'z) net_scheme \<Rightarrow> int \<Rightarrow> url \<Rightarrow> addr list \<Rightarrow> 'n \<Rightarrow> request_log
     \<Rightarrow> 'n \<times> request_log \<times> (go_error + response)" where
  "try_addrs net port u [] s lg = (s, lg, Inl (ErrOther ''no address''))"
| "try_addrs net port u (a # as) s lg =
     (case n_request net s a port u of
        (s', Inr resp) \<Rightarrow> (s', lg @ [(a, port, u)], Inr resp)
      | (s', Inl f) \<Rightarrow>
          let chain = classifyAddrCtxErr f in
          if as \<noteq> [] \<and> retryableDialErr chain
          then try_addrs net port u as s' (lg @ [(a, port, u)])
          else (s', lg @ [(a, port, u)], Inl (request_error chain)))"

definition convertToMarkdown :: "('n, 'z) net_scheme \<Rightarrow> bytes \<Rightarrow> url \<Rightarrow> go_error + (bytes \<times> bytes \<times> bytes)" where
  "convertToMarkdown net raw u =
     (let (content, extraction, title) =
            (case n_article net raw u of
               None \<Rightarrow> (raw, ''full'', [])
             | Some art \<Rightarrow>
                 if fidelityOK (n_html net raw) art then
                   (case r_html art of
                      Some h \<Rightarrow> (h, ''readability'', r_title art)
                    | None \<Rightarrow> (raw, ''full'', r_title art))
                 else (raw, ''full'', r_title art))
      in (case n_markdown net content of
            Inl e \<Rightarrow> Inl e
          | Inr md \<Rightarrow> Inr (md, extraction, title)))"

definition finish :: "('n, 'z) net_scheme \<Rightarrow> config \<Rightarrow> url \<Rightarrow> bytes \<Rightarrow> response \<Rightarrow> go_error + fetched" where
  "finish net cfg u current resp =
     (case readBody resp (cfg_max cfg) of
        Inl e \<Rightarrow> Inl e
      | Inr body \<Rightarrow>
          let mt = (case n_mime net (p_ctype resp) of Some m \<Rightarrow> m | None \<Rightarrow> []) in
          if \<not> mediaTypeAllowed mt then Inl NetUnsupportedMedia
          else (case n_decode net body (p_ctype resp) of
                  Inl e \<Rightarrow> Inl e
                | Inr decoded \<Rightarrow>
                    if mt \<noteq> ''text/html'' then
                      Inr \<lparr>n_raw = None, n_body = decoded, n_media = mt, n_extraction = [],
                           n_url = current, n_title = []\<rparr>
                    else (case convertToMarkdown net decoded u of
                            Inl e \<Rightarrow> Inl e
                          | Inr (md, extraction, title) \<Rightarrow>
                              Inr \<lparr>n_raw = Some body, n_body = md, n_media = ''text/markdown'',
                                   n_extraction = extraction, n_url = current, n_title = title\<rparr>)))"

text \<open>The checks a URL passes before anything is resolved.\<close>

definition admit :: "config \<Rightarrow> url \<Rightarrow> go_error + int" where
  "admit cfg u =
     (if u_userinfo u then Inl NetDenied
      else if u_scheme u \<noteq> ''http'' \<and> u_scheme u \<noteq> ''https'' then Inl NetDenied
      else resolvePort u cfg)"

text \<open>\<open>n\<close> is the number of redirects still allowed.\<close>

fun fetch_loop ::
  "('n, 'z) net_scheme \<Rightarrow> config \<Rightarrow> nat \<Rightarrow> bytes \<Rightarrow> 'n \<Rightarrow> request_log
     \<Rightarrow> 'n \<times> request_log \<times> (go_error + fetched)" where
  "fetch_loop net cfg n current s lg =
     (case n_parse net current of
        None \<Rightarrow> (s, lg, Inl (ErrOther ''parse url''))
      | Some u \<Rightarrow>
        (case admit cfg u of
           Inl e \<Rightarrow> (s, lg, Inl e)
         | Inr port \<Rightarrow>
           (case resolveAndValidate net cfg (u_host u) s of
              (s1, Inl e) \<Rightarrow> (s1, lg, Inl e)
            | (s1, Inr addrs) \<Rightarrow>
              (case try_addrs net port u addrs s1 lg of
                 (s2, log2, Inl e) \<Rightarrow> (s2, log2, Inl e)
               | (s2, log2, Inr resp) \<Rightarrow>
                   if 300 \<le> p_status resp \<and> p_status resp < 400 then
                     (if p_location resp = [] then (s2, log2, Inl (ErrOther ''redirect without Location''))
                      else (case n of
                          0 \<Rightarrow> (s2, log2, Inl NetTooManyRedirects)
                        | Suc m \<Rightarrow>
                            (case n_ref net u (p_location resp) of
                               None \<Rightarrow> (s2, log2, Inl (ErrOther ''bad redirect location''))
                             | Some next_u \<Rightarrow>
                                 if isDowngrade (u_scheme u) (u_scheme next_u)
                                 then (s2, log2, Inl NetDenied)
                                 else fetch_loop net cfg m (u_text next_u) s2 log2)))
                   else (s2, log2, finish net cfg u current resp)))))"

declare fetch_loop.simps [simp del]

definition maxRedirects :: nat where "maxRedirects = 5"
definition defaultMaxBytes :: int where "defaultMaxBytes = 10485760"

definition Fetch ::
  "('n, 'z) net_scheme \<Rightarrow> config \<Rightarrow> bytes \<Rightarrow> 'n \<Rightarrow> 'n \<times> request_log \<times> (go_error + fetched)" where
  "Fetch net cfg rawURL s =
     (let cfg' = (if cfg_max cfg \<le> 0 then cfg\<lparr>cfg_max := defaultMaxBytes\<rparr> else cfg)
      in fetch_loop net cfg' maxRedirects rawURL s [])"

section \<open>Every request goes to a checked address\<close>

lemma allowedAddr_Unmap [simp]: "allowedAddr (Unmap a) l = allowedAddr a l"
  by (simp add: allowedAddr_def)

lemma validate_all_allowed:
  "validate_all cfg as = Inr out \<Longrightarrow>
     (\<forall>a \<in> set out. allowedAddr a (cfg_local cfg) \<and> Unmap a = a) \<and> (\<forall>a \<in> set as. allowedAddr a (cfg_local cfg))"
proof (induction as arbitrary: out)
  case (Cons a as)
  then show ?case by (auto split: if_splits sum.splits)
qed simp

lemma resolveAndValidate_allowed:
  "resolveAndValidate net cfg host s = (s', Inr out) \<Longrightarrow>
     \<forall>a \<in> set out. allowedAddr a (cfg_local cfg) \<and> Unmap a = a"
  by (auto simp: resolveAndValidate_def split: option.splits prod.splits sum.splits if_splits
      dest: validate_all_allowed)

lemma try_addrs_log:
  "try_addrs net port u as s lg = (s', lg', r) \<Longrightarrow>
     \<exists>ks. lg' = lg @ map (\<lambda>a. (a, port, u)) ks \<and> prefix ks as"
proof (induction as arbitrary: s lg)
  case (Cons a as)
  obtain s1 q where req: "n_request net s a port u = (s1, q)" by fastforce
  show ?case
  proof (cases "\<exists>f. q = Inl f \<and> as \<noteq> [] \<and> retryableDialErr (classifyAddrCtxErr f)")
    case True
    then have "try_addrs net port u as s1 (lg @ [(a, port, u)]) = (s', lg', r)"
      using Cons.prems req by (auto simp: Let_def)
    from Cons.IH [OF this] obtain ks where
      "lg' = (lg @ [(a, port, u)]) @ map (\<lambda>a. (a, port, u)) ks" "prefix ks as" by blast
    then show ?thesis by (intro exI [of _ "a # ks"]) simp
  next
    case False
    then have "lg' = lg @ [(a, port, u)]"
      using Cons.prems req by (auto simp: Let_def split: sum.splits if_splits)
    then show ?thesis by (intro exI [of _ "[a]"]) simp
  qed
qed simp

text \<open>The shape of a hop.\<close>

lemma fetch_loop_cases:
  assumes "fetch_loop net cfg n current s lg = (s', lg', r)"
  obtains (stop) "lg' = lg" "\<exists>e. r = Inl e"
    | (hop) u port addrs s1 s2 lg2 q where
        "n_parse net current = Some u" "admit cfg u = Inr port"
        "resolveAndValidate net cfg (u_host u) s = (s1, Inr addrs)"
        "try_addrs net port u addrs s1 lg = (s2, lg2, q)"
        "(s', lg', r) = (s2, lg2, r) \<and> (\<forall>f. r = Inr f \<longrightarrow> (\<exists>resp. q = Inr resp \<and> finish net cfg u current resp = r))
         \<or> (\<exists>m resp v. n = Suc m \<and> q = Inr resp \<and> n_ref net u (p_location resp) = Some v
              \<and> \<not> isDowngrade (u_scheme u) (u_scheme v)
              \<and> fetch_loop net cfg m (u_text v) s2 lg2 = (s', lg', r))"
proof (cases "n_parse net current")
  case None
  with assms stop show ?thesis by (auto simp: fetch_loop.simps [of net cfg n])
next
  case (Some u)
  show ?thesis
  proof (cases "admit cfg u")
    case (Inl e)
    with Some assms stop show ?thesis by (auto simp: fetch_loop.simps [of net cfg n])
  next
    case (Inr port)
    obtain s1 x where rv: "resolveAndValidate net cfg (u_host u) s = (s1, x)" by fastforce
    show ?thesis
    proof (cases x)
      case (Inl e)
      with Some Inr rv assms stop show ?thesis by (auto simp: fetch_loop.simps [of net cfg n])
    next
      case x: (Inr addrs)
      obtain s2 lg2 q where t: "try_addrs net port u addrs s1 lg = (s2, lg2, q)" by (metis surj_pair)
      show ?thesis
        using assms Some Inr rv x t
        by (intro hop [of u port s1 addrs s2 lg2 q])
          (auto simp: fetch_loop.simps [of net cfg n] split: sum.splits if_splits nat.splits option.splits)
    qed
  qed
qed

definition request_ok :: "config \<Rightarrow> addr \<times> int \<times> url \<Rightarrow> bool" where
  "request_ok cfg e \<longleftrightarrow>
     (case e of (a, port, u) \<Rightarrow>
        allowedAddr a (cfg_local cfg) \<and> Unmap a = a
        \<and> (port = 80 \<or> port = 443 \<or> port \<in> set (cfg_ports cfg))
        \<and> u_scheme u \<in> {''http'', ''https''} \<and> \<not> u_userinfo u)"

lemma admit_ok:
  "admit cfg u = Inr port \<Longrightarrow>
     (port = 80 \<or> port = 443 \<or> port \<in> set (cfg_ports cfg)) \<and> u_scheme u \<in> {''http'', ''https''} \<and> \<not> u_userinfo u"
  by (auto simp: admit_def resolvePort_def split: if_splits option.splits)

lemma hop_requests_ok:
  assumes "admit cfg u = Inr port" and "resolveAndValidate net cfg host s = (s1, Inr addrs)"
    and "try_addrs net port u addrs s1 lg = (s2, lg2, q)" and "\<forall>e \<in> set lg. request_ok cfg e"
  shows "\<forall>e \<in> set lg2. request_ok cfg e"
proof -
  obtain ks where ks: "lg2 = lg @ map (\<lambda>a. (a, port, u)) ks" "prefix ks addrs"
    using try_addrs_log [OF assms(3)] by blast
  then have "\<forall>a \<in> set ks. allowedAddr a (cfg_local cfg) \<and> Unmap a = a"
    using resolveAndValidate_allowed [OF assms(2)] set_mono_prefix by blast
  then show ?thesis using ks(1) assms(4) admit_ok [OF assms(1)] by (auto simp: request_ok_def)
qed

lemma fetch_loop_requests:
  "fetch_loop net cfg n current s lg = (s', lg', r) \<Longrightarrow> \<forall>e \<in> set lg. request_ok cfg e \<Longrightarrow>
     \<forall>e \<in> set lg'. request_ok cfg e"
proof (induction n arbitrary: current s lg)
  case 0
  from 0(1) show ?case
  proof (cases rule: fetch_loop_cases)
    case stop
    with 0 show ?thesis by simp
  next
    case (hop u port addrs s1 s2 lg2 q)
    then show ?thesis using hop_requests_ok [OF hop(2-4) 0(2)] by simp
  qed
next
  case (Suc n)
  from Suc.prems(1) show ?case
  proof (cases rule: fetch_loop_cases)
    case stop
    with Suc.prems show ?thesis by simp
  next
    case (hop u port addrs s1 s2 lg2 q)
    have "\<forall>e \<in> set lg2. request_ok cfg e"
      using hop_requests_ok [OF hop(2-4) Suc.prems(2)] .
    note IH = Suc.IH [OF _ this]
    from hop(5) show ?thesis
    proof (elim disjE exE conjE)
      assume "(s', lg', r) = (s2, lg2, r)"
      with \<open>\<forall>e \<in> set lg2. request_ok cfg e\<close> show ?thesis by simp
    next
      fix m resp v
      assume "Suc n = Suc m" "fetch_loop net cfg m (u_text v) s2 lg2 = (s', lg', r)"
      then show ?thesis using IH by simp
    qed
  qed
qed

text \<open>Property C14.  No fetch reaches an inner service: whatever the resolver answers at each hop and
  wherever servers redirect to, every single request is sent to a literal, already unmapped
  address that the policy allows, which is a public address or, with \<open>AllowLocal\<close>, one of the two
  loopback addresses; to port 80, 443 or a configured one; over http or https and without user
  information.\<close>

theorem fetch_sends_only_allowed_requests:
  assumes "(a, port, u) \<in> set (fst (snd (Fetch net cfg raw s)))"
  shows "(public_addr a \<or> cfg_local cfg \<and> a \<in> {V4 0x7F000001, V6 1 []}) \<and> Unmap a = a
    \<and> (port = 80 \<or> port = 443 \<or> port \<in> set (cfg_ports cfg))
    \<and> u_scheme u \<in> {''http'', ''https''} \<and> \<not> u_userinfo u"
proof -
  let ?cfg = "if cfg_max cfg \<le> 0 then cfg\<lparr>cfg_max := defaultMaxBytes\<rparr> else cfg"
  obtain s' lg r where f: "fetch_loop net ?cfg maxRedirects raw s [] = (s', lg, r)" by (metis surj_pair)
  then have "request_ok ?cfg (a, port, u)"
    using fetch_loop_requests [OF f] assms by (simp add: Fetch_def Let_def)
  then have ok: "allowedAddr a (cfg_local cfg)" "Unmap a = a"
    "(port = 80 \<or> port = 443 \<or> port \<in> set (cfg_ports cfg))"
    "u_scheme u \<in> {''http'', ''https''}" "\<not> u_userinfo u"
    by (simp_all add: request_ok_def split: if_splits)
  have "allowedAddr a (cfg_local cfg) \<longleftrightarrow>
      public_addr a \<or> (cfg_local cfg \<and> Unmap a \<in> {V4 0x7F000001, V6 1 []})"
    using ClassifyAddr_public [of a] Classify_Unmap [of a]
    by (auto simp: allowedAddr_def Let_def loopback4_def loopback6_def)
  then show ?thesis using ok by simp
qed

text \<open>A small network: one host with a public address, whose server redirects once, to itself.\<close>

definition demo_url :: url where
  "demo_url = \<lparr>u_scheme = ''https'', u_host = ''h'', u_port = [], u_userinfo = False, u_text = ''u''\<rparr>"

definition demo_net :: "nat net" where
  "demo_net = \<lparr>n_parse = (\<lambda>t. Some demo_url), n_ref = (\<lambda>u l. Some demo_url), n_literal = (\<lambda>h. None),
     n_lookup = (\<lambda>s h. (s, Inr [V4 0x08080808])),
     n_request = (\<lambda>s a p u. (s + 1, Inr \<lparr>p_status = (if s = 0 then 302 else 200),
        p_location = ''/x'', p_ctype = ''text/plain'', p_body = ''body'', p_bodyerr = None\<rparr>)),
     n_mime = (\<lambda>c. Some c), n_decode = (\<lambda>b c. Inr b), n_article = (\<lambda>b u. None),
     n_html = (\<lambda>b. None), n_markdown = (\<lambda>b. Inr b)\<rparr>"

definition demo_cfg :: config where
  "demo_cfg = \<lparr>cfg_local = False, cfg_ports = [], cfg_max = 100\<rparr>"

lemma demo_allowed: "allowedAddr (V4 0x08080808) False"
  by (simp add: allowedAddr_def Unmap_def Classify_V4 special4_def in_range_def)

lemma demo_fetch:
  "Fetch demo_net demo_cfg ''u'' 0
     = (2, [(V4 0x08080808, 443, demo_url), (V4 0x08080808, 443, demo_url)],
        Inr \<lparr>n_raw = None, n_body = ''body'', n_media = ''text/plain'', n_extraction = [], n_url = ''u'', n_title = []\<rparr>)"
  by (simp add: Fetch_def demo_net_def demo_cfg_def maxRedirects_def fetch_loop.simps [of _ _ "Suc (Suc (Suc (Suc (Suc 0))))"]
      fetch_loop.simps [of _ _ "Suc (Suc (Suc (Suc 0)))"] eval_nat_numeral demo_url_def admit_def resolvePort_def
      resolveAndValidate_def demo_allowed [unfolded allowedAddr_def] demo_allowed Unmap_def
      finish_def readBody_def mediaTypeAllowed_def isDowngrade_def Let_def)

lemma demo_cfg_local [simp]: "cfg_local demo_cfg = False"
  by (simp add: demo_cfg_def)

lemma fetch_sends_only_allowed_requests_witness:
  "public_addr (V4 0x08080808)
     \<and> (V4 0x08080808, 443, demo_url) \<in> set (fst (snd (Fetch demo_net demo_cfg ''u'' 0)))"
  using fetch_sends_only_allowed_requests [of "V4 0x08080808" 443 demo_url demo_net demo_cfg "''u''" 0]
  by (simp add: demo_fetch)

section \<open>Redirects\<close>

definition scheme_of :: "addr \<times> int \<times> url \<Rightarrow> bytes" where
  "scheme_of e = u_scheme (snd (snd e))"

definition no_downgrade :: "request_log \<Rightarrow> bool" where
  "no_downgrade lg = sorted_wrt (\<lambda>x y. scheme_of x = ''https'' \<longrightarrow> scheme_of y = ''https'') lg"

text \<open>The number of hops of a log: neighbouring requests for the same URL, on different
  addresses, are one hop.\<close>

definition hops :: "request_log \<Rightarrow> nat" where
  "hops lg = length (remdups_adj (map (\<lambda>e. snd (snd e)) lg))"

lemma length_remdups_adj_Cons:
  "length (remdups_adj (x # zs))
     = (if zs \<noteq> [] \<and> x = hd zs then length (remdups_adj zs) else Suc (length (remdups_adj zs)))"
  by (cases zs) auto

lemma remdups_adj_append_length:
  "length (remdups_adj (xs @ ys)) \<le> length (remdups_adj xs) + length (remdups_adj ys)"
proof (induction xs)
  case (Cons x xs)
  then show ?case
    using length_remdups_adj_Cons [of x "xs @ ys"] length_remdups_adj_Cons [of x xs]
    by (cases "xs = []") (auto simp: hd_append split: if_splits)
qed simp

lemma remdups_adj_const: "length (remdups_adj (replicate n x)) \<le> 1"
  by (simp add: remdups_adj_replicate)

lemma try_addrs_hops:
  assumes "try_addrs net port u as s lg = (s', lg', r)"
  shows "hops lg' \<le> hops lg + 1"
proof -
  obtain ks where "lg' = lg @ map (\<lambda>a. (a, port, u)) ks" using try_addrs_log [OF assms] by blast
  then have "map (\<lambda>e. snd (snd e)) lg' = map (\<lambda>e. snd (snd e)) lg @ replicate (length ks) u"
    by (simp add: map_replicate_const comp_def)
  then have eq: "hops lg' = length (remdups_adj (map (\<lambda>e. snd (snd e)) lg @ replicate (length ks) u))"
    by (simp add: hops_def)
  show ?thesis
    unfolding eq
    using remdups_adj_append_length [of "map (\<lambda>e. snd (snd e)) lg" "replicate (length ks) u"]
      remdups_adj_const [of "length ks" u] unfolding hops_def by linarith
qed

lemma fetch_loop_hops:
  "fetch_loop net cfg n current s lg = (s', lg', r) \<Longrightarrow> hops lg' \<le> hops lg + n + 1"
proof (induction n arbitrary: current s lg)
  case 0
  from 0 show ?case
  proof (cases rule: fetch_loop_cases)
    case (hop u port addrs s1 s2 lg2 q)
    then show ?thesis using try_addrs_hops [OF hop(4)] by simp
  qed simp
next
  case (Suc n)
  from Suc.prems show ?case
  proof (cases rule: fetch_loop_cases)
    case (hop u port addrs s1 s2 lg2 q)
    note one = try_addrs_hops [OF hop(4)]
    from hop(5) show ?thesis
    proof (elim disjE exE conjE)
      fix m resp v
      assume "Suc n = Suc m" "fetch_loop net cfg m (u_text v) s2 lg2 = (s', lg', r)"
      then show ?thesis using Suc.IH one by fastforce
    qed (use one in simp)
  qed simp
qed

text \<open>A log in step with the URL about to be fetched.\<close>

definition may_follow :: "('n, 'z) net_scheme \<Rightarrow> request_log \<Rightarrow> bytes \<Rightarrow> bool" where
  "may_follow net lg current \<longleftrightarrow>
     (\<forall>u e. n_parse net current = Some u \<and> e \<in> set lg \<and> scheme_of e = ''https'' \<and> u_scheme u = ''http'' \<longrightarrow> False)"

lemma hop_no_downgrade:
  assumes "n_parse net current = Some u" and "admit cfg u = Inr port"
    and "try_addrs net port u addrs s1 lg = (s2, lg2, q)"
    and "no_downgrade lg" and "may_follow net lg current"
  shows "no_downgrade lg2 \<and> (\<forall>e \<in> set lg2. scheme_of e = ''https'' \<longrightarrow> u_scheme u = ''https'')"
proof -
  obtain ks where ks: "lg2 = lg @ map (\<lambda>a. (a, port, u)) ks" using try_addrs_log [OF assms(3)] by blast
  have u: "\<forall>e \<in> set lg. scheme_of e = ''https'' \<longrightarrow> u_scheme u = ''https''"
    using assms(1,5) admit_ok [OF assms(2)] by (auto simp: may_follow_def)
  have "sorted_wrt (\<lambda>x y. scheme_of x = ''https'' \<longrightarrow> scheme_of y = ''https'') (map (\<lambda>a. (a, port, u)) ks)"
    by (induction ks) (auto simp: scheme_of_def)
  then show ?thesis
    using u assms(4) unfolding ks no_downgrade_def by (auto simp: sorted_wrt_append scheme_of_def)
qed

lemma fetch_loop_no_downgrade:
  assumes law: "\<And>u l v w. n_ref net u l = Some v \<Longrightarrow> n_parse net (u_text v) = Some w \<Longrightarrow> u_scheme w = u_scheme v"
  shows "fetch_loop net cfg n current s lg = (s', lg', r) \<Longrightarrow> no_downgrade lg \<Longrightarrow>
     may_follow net lg current \<Longrightarrow> no_downgrade lg'"
proof (induction n arbitrary: current s lg)
  case 0
  from 0(1) show ?case
  proof (cases rule: fetch_loop_cases)
    case (hop u port addrs s1 s2 lg2 q)
    then show ?thesis using hop_no_downgrade [OF hop(1,2,4) 0(2,3)] by simp
  qed (use 0 in simp)
next
  case (Suc n)
  from Suc.prems(1) show ?case
  proof (cases rule: fetch_loop_cases)
    case (hop u port addrs s1 s2 lg2 q)
    note nd = hop_no_downgrade [OF hop(1,2,4) Suc.prems(2,3)]
    from hop(5) show ?thesis
    proof (elim disjE exE conjE)
      fix m resp v
      assume m: "Suc n = Suc m" "fetch_loop net cfg m (u_text v) s2 lg2 = (s', lg', r)"
        and v: "n_ref net u (p_location resp) = Some v" "\<not> isDowngrade (u_scheme u) (u_scheme v)"
      have "may_follow net lg2 (u_text v)"
        unfolding may_follow_def
      proof clarify
        fix w e
        assume w: "n_parse net (u_text v) = Some w" "e \<in> set lg2" "scheme_of e = ''https''" "u_scheme w = ''http''"
        then have "u_scheme v = ''http''" using law [OF v(1) w(1)] by simp
        with v(2) nd w show False by (simp add: isDowngrade_def)
      qed
      then show ?thesis using Suc.IH [of "u_text v" s2 lg2] m nd by simp
    qed (use nd in simp)
  qed (use Suc.prems in simp)
qed

text \<open>A fetch follows at most five redirects, so it asks at most six different URLs
  one after the other whatever servers answer, and once it has asked over https it never asks
  over http again.  The library law used: the text of a resolved reference parses to the same
  scheme.\<close>

lemma fetch_redirects_are_bounded:
  assumes "\<And>u l v w. n_ref net u l = Some v \<Longrightarrow> n_parse net (u_text v) = Some w \<Longrightarrow> u_scheme w = u_scheme v"
  shows "hops (fst (snd (Fetch net cfg raw s))) \<le> 6 \<and> no_downgrade (fst (snd (Fetch net cfg raw s)))"
proof -
  let ?cfg = "if cfg_max cfg \<le> 0 then cfg\<lparr>cfg_max := defaultMaxBytes\<rparr> else cfg"
  obtain s' lg r where f: "fetch_loop net ?cfg maxRedirects raw s [] = (s', lg, r)" by (metis surj_pair)
  have "hops lg \<le> 6" using fetch_loop_hops [OF f] by (simp add: hops_def maxRedirects_def)
  moreover have "no_downgrade lg"
    using fetch_loop_no_downgrade [OF assms f] by (simp add: no_downgrade_def may_follow_def)
  ultimately show ?thesis using f by (simp add: Fetch_def Let_def)
qed

lemma fetch_redirects_are_bounded_witness:
  "hops (fst (snd (Fetch demo_net demo_cfg ''u'' 0))) \<le> 6"
  using fetch_redirects_are_bounded [of demo_net demo_cfg "''u''" 0] by (simp add: demo_net_def)

section \<open>Results\<close>

lemma fetch_loop_result:
  "fetch_loop net cfg n current s lg = (s', lg', Inr f) \<Longrightarrow>
     \<exists>u c resp. finish net cfg u c resp = Inr f"
proof (induction n arbitrary: current s lg)
  case 0
  then show ?case by (cases rule: fetch_loop_cases) auto
next
  case (Suc n)
  from Suc.prems show ?case
  proof (cases rule: fetch_loop_cases)
    case (hop u port addrs s1 s2 lg2 q)
    from hop(5) show ?thesis
    proof (elim disjE exE conjE)
      fix m resp v
      assume "Suc n = Suc m" "fetch_loop net cfg m (u_text v) s2 lg2 = (s', lg', Inr f)"
      then show ?thesis using Suc.IH by blast
    qed auto
  qed simp
qed

lemma readBody_bound: "readBody resp m = Inr b \<Longrightarrow> 0 < m \<Longrightarrow> b = p_body resp \<and> int (length b) \<le> m"
  by (auto simp: readBody_def split: if_splits option.splits)

text \<open>What a successful fetch returns comes from a response body of at most
  \<open>MaxBytes\<close> bytes (ten mebibytes by default) of an allowed media type; an HTML page keeps its raw
  body and is delivered as Markdown with the extraction it came from, every other type is
  delivered decoded, without raw body or title.\<close>

lemma fetch_result_is_bounded:
  assumes "Fetch net cfg raw s = (s', lg, Inr f)"
  shows "\<exists>resp :: response. int (length (p_body resp)) \<le> (if cfg_max cfg \<le> 0 then 10485760 else cfg_max cfg)
    \<and> (\<exists>mt. n_mime net (p_ctype resp) = Some mt \<and> mediaTypeAllowed mt
        \<and> (if mt = ''text/html''
            then n_raw f = Some (p_body resp) \<and> n_media f = ''text/markdown''
              \<and> n_extraction f \<in> {''full'', ''readability''}
            else n_raw f = None \<and> n_media f = mt \<and> n_extraction f = [] \<and> n_title f = []
              \<and> n_decode net (p_body resp) (p_ctype resp) = Inr (n_body f)))"
proof -
  let ?cfg = "if cfg_max cfg \<le> 0 then cfg\<lparr>cfg_max := defaultMaxBytes\<rparr> else cfg"
  have run: "fetch_loop net ?cfg maxRedirects raw s [] = (s', lg, Inr f)"
    using assms unfolding Fetch_def Let_def .
  obtain u c resp where fin: "finish net ?cfg u c resp = Inr f"
    using fetch_loop_result [OF run] by (elim exE) (rule that)
  have pos: "0 < cfg_max ?cfg" by (simp add: defaultMaxBytes_def)
  obtain b where b: "readBody resp (cfg_max ?cfg) = Inr b"
    using fin by (auto simp: finish_def split: sum.splits)
  note bd = readBody_bound [OF b pos]
  obtain mt where mt: "n_mime net (p_ctype resp) = Some mt" "mediaTypeAllowed mt"
    using fin b by (auto simp: finish_def mediaTypeAllowed_def split: sum.splits option.splits if_splits)
  have "if mt = ''text/html''
      then n_raw f = Some (p_body resp) \<and> n_media f = ''text/markdown''
        \<and> n_extraction f \<in> {''full'', ''readability''}
      else n_raw f = None \<and> n_media f = mt \<and> n_extraction f = [] \<and> n_title f = []
        \<and> n_decode net (p_body resp) (p_ctype resp) = Inr (n_body f)"
    using fin b mt bd
    by (auto simp: finish_def convertToMarkdown_def Let_def split: sum.splits option.splits if_splits)
  moreover have "int (length (p_body resp)) \<le> (if cfg_max cfg \<le> 0 then 10485760 else cfg_max cfg)"
    using bd by (auto simp: defaultMaxBytes_def split: if_splits)
  ultimately show ?thesis using mt by blast
qed

lemma fetch_result_is_bounded_witness:
  "\<exists>resp :: response. int (length (p_body resp)) \<le> 100"
  using fetch_result_is_bounded [OF demo_fetch] by (auto simp: demo_cfg_def)

end
