(* ===== verification/Regexp.thy ===== *)
theory Regexp
  imports Go_Strings
begin

text \<open>
  The part of Go's package \<open>regexp\<close> the program uses: leftmost-first matching of the expressions
  it compiles, on byte strings decoded rune by rune (an invalid byte is one replacement rune).
  A matcher returns every way to match at a position in order of preference, so its first
  element is the match Go reports; \<open>find_all\<close> is the loop of \<open>FindAll\<close>.  The last section
  relates the matcher to the words of an expression, for expressions over ASCII characters.
\<close>

section \<open>Expressions and matching\<close>

datatype regex =
    RChr "rune \<Rightarrow> bool"
  | RBol | REol | REps
  | RSeq regex regex
  | RAlt regex regex
  | RStar bool regex  \<comment> \<open>greedy or not\<close>
  | RGrp regex        \<comment> \<open>the one capturing group an expression may have\<close>

type_synonym pos = "nat \<times> (nat \<times> nat) option"

primrec star_run :: "nat \<Rightarrow> bool \<Rightarrow> (pos \<Rightarrow> pos list) \<Rightarrow> pos \<Rightarrow> pos list" where
  "star_run 0 g f p = [p]"
| "star_run (Suc n) g f p =
     (let more = concat (map (\<lambda>q. if fst p < fst q then star_run n g f q else []) (f p))
      in if g then more @ [p] else p # more)"

primrec rmatch :: "regex \<Rightarrow> bytes \<Rightarrow> pos \<Rightarrow> pos list" where
  "rmatch (RChr P) s p =
     (if fst p < length s \<and> P (fst (decode_rune (drop (fst p) s)))
      then [(fst p + snd (decode_rune (drop (fst p) s)), snd p)] else [])"
| "rmatch RBol s p = (if fst p = 0 \<or> s ! (fst p - 1) = CHR 0x0A then [p] else [])"
| "rmatch REol s p = (if fst p = length s \<or> s ! fst p = CHR 0x0A then [p] else [])"
| "rmatch REps s p = [p]"
| "rmatch (RSeq a b) s p = concat (map (rmatch b s) (rmatch a s p))"
| "rmatch (RAlt a b) s p = rmatch a s p @ rmatch b s p"
| "rmatch (RStar g r) s p = star_run (length s - fst p) g (rmatch r s) p"
| "rmatch (RGrp r) s p = map (\<lambda>q. (fst q, Some (fst p, fst q))) (rmatch r s p)"

text \<open>Derived forms: literals, case-insensitive literals (with the two foldings Unicode adds to
  the ASCII letters), classes, repetitions.\<close>

definition rchar :: "char \<Rightarrow> regex" where "rchar c = RChr (\<lambda>r. r = byte c)"

definition fold_char :: "char \<Rightarrow> rune \<Rightarrow> bool" where
  "fold_char c r \<longleftrightarrow> r = byte c
     \<or> (is_lower c \<and> r + 32 = byte c)
     \<or> (c = CHR ''k'' \<and> r = 8490) \<or> (c = CHR ''s'' \<and> r = 383)"

definition rlit :: "bytes \<Rightarrow> regex" where "rlit s = foldr (\<lambda>c. RSeq (rchar c)) s REps"
definition rfold :: "bytes \<Rightarrow> regex" where "rfold s = foldr (\<lambda>c. RSeq (RChr (fold_char c))) s REps"
definition rset :: "char list \<Rightarrow> regex" where "rset cs = RChr (\<lambda>r. r \<in> byte ` set cs)"
definition rnot :: "char list \<Rightarrow> regex" where "rnot cs = RChr (\<lambda>r. r \<notin> byte ` set cs)"
definition rcat :: "regex list \<Rightarrow> regex" where "rcat rs = foldr RSeq rs REps"
definition ralt :: "regex list \<Rightarrow> regex" where "ralt rs = foldr RAlt (butlast rs) (last rs)"
definition rplus :: "regex \<Rightarrow> regex" where "rplus r = RSeq r (RStar True r)"
primrec rrep :: "nat \<Rightarrow> regex \<Rightarrow> regex \<Rightarrow> regex" where
  "rrep 0 r k = k"
| "rrep (Suc n) r k = RSeq r (rrep n r k)"
primrec ropts :: "nat \<Rightarrow> regex \<Rightarrow> regex" where
  "ropts 0 r = REps"
| "ropts (Suc n) r = RAlt (RSeq r (ropts n r)) REps"

definition rblank :: regex where "rblank = rset [CHR 0x09, CHR 0x0A, CHR 0x0C, CHR 0x0D, CHR 0x20]"
definition rnonblank :: regex where "rnonblank = rnot [CHR 0x09, CHR 0x0A, CHR 0x0C, CHR 0x0D, CHR 0x20]"
definition ranges :: "(nat \<times> nat) list \<Rightarrow> char list \<Rightarrow> regex" where
  "ranges rs cs = RChr (\<lambda>r. list_ex (\<lambda>(a, b). a \<le> r \<and> r \<le> b) rs \<or> r \<in> byte ` set cs)"

lemma rmatch_bounds:
  assumes "(j, c) \<in> set (rmatch r s p)" and "fst p \<le> length s"
  shows "fst p \<le> j \<and> j \<le> length s"
  using assms
proof (induction r arbitrary: j c p)
  case (RChr P)
  then show ?case using decode_rune_width_le [of "drop (fst p) s"] by (auto split: if_splits)
next
  case (RSeq a b)
  from RSeq.prems(1) obtain q where q: "q \<in> set (rmatch a s p)" "(j, c) \<in> set (rmatch b s q)"
    by auto
  have "fst p \<le> fst q \<and> fst q \<le> length s"
    using RSeq.IH(1) [of "fst q" "snd q" p] q(1) RSeq.prems(2) by simp
  with RSeq.IH(2) [OF q(2)] show ?case by simp
next
  case (RStar g r)
  have "fst p \<le> j \<and> j \<le> length s" if "(j, c) \<in> set (star_run n g (rmatch r s) p)" "fst p \<le> length s" for n
    using that
  proof (induction n arbitrary: p)
    case (Suc n)
    from Suc.prems(1) consider "p = (j, c)"
      | q where "q \<in> set (rmatch r s p)" "fst p < fst q" "(j, c) \<in> set (star_run n g (rmatch r s) q)"
      by (auto simp: Let_def split: if_splits)
    then show ?case
    proof cases
      case 2
      then have "fst q \<le> length s" using RStar.IH [of "fst q" "snd q" p] Suc.prems by simp
      then show ?thesis using Suc.IH [OF 2(3)] 2(2) by simp
    qed (use Suc.prems in auto)
  qed auto
  with RStar.prems show ?case by simp
qed (auto split: if_splits)

section \<open>Searching\<close>

text \<open>The leftmost match at or after a position: its start, its end and the group.\<close>

function find_first :: "regex \<Rightarrow> bytes \<Rightarrow> nat \<Rightarrow> (nat \<times> nat \<times> (nat \<times> nat) option) option" where
  "find_first r s i =
     (case rmatch r s (i, None) of
        (j, c) # _ \<Rightarrow> Some (i, j, c)
      | [] \<Rightarrow> if i < length s then find_first r s (i + snd (decode_rune (drop i s))) else None)"
  by pat_completeness auto
termination
proof (relation "measure (\<lambda>(r, s, i). length s - i)")
  fix s :: bytes and i :: nat
  assume "i < length s"
  then have "0 < snd (decode_rune (drop i s))" by (intro decode_rune_width_pos) simp
  with \<open>i < length s\<close> show "((r, s, i + snd (decode_rune (drop i s))), r, s, i)
      \<in> measure (\<lambda>(r, s, i). length s - i)" for r :: regex
    by simp
qed simp

declare find_first.simps [simp del]

lemma find_first_Some:
  "find_first r s i = Some (a, b, c) \<Longrightarrow> i \<le> length s \<Longrightarrow>
     i \<le> a \<and> a \<le> b \<and> b \<le> length s \<and> (b, c) \<in> set (rmatch r s (a, None))"
proof (induction r s i rule: find_first.induct)
  case (1 r s i)
  show ?case
  proof (cases "rmatch r s (i, None)")
    case Nil
    with 1 show ?thesis
      using decode_rune_width_le [of "drop i s"]
      by (subst (asm) (2) find_first.simps) (force split: if_splits)
  next
    case (Cons q qs)
    with 1(2) have "i = a" "q = (b, c)"
      by (auto simp: find_first.simps [of r s i] split: prod.splits)
    with Cons 1(3) rmatch_bounds [of b c r s "(a, None)"] show ?thesis by simp
  qed
qed

text \<open>\<open>FindAll\<close>: \<open>pos\<close> is where the next search starts and \<open>prev\<close> the end of the last match.\<close>

function find_all :: "regex \<Rightarrow> bytes \<Rightarrow> nat \<Rightarrow> nat option \<Rightarrow> (nat \<times> nat \<times> (nat \<times> nat) option) list" where
  "find_all r s i prev =
     (if length s < i then []
      else (case find_first r s i of
          None \<Rightarrow> []
        | Some (a, b, c) \<Rightarrow>
            let accept = \<not> (b = i \<and> prev = Some a);
                w = snd (decode_rune (drop i s));
                i' = (if b = i then (if w > 0 then i + w else length s + 1) else b)
            in (if accept then [(a, b, c)] else []) @ find_all r s i' (Some b)))"
  by pat_completeness auto
termination
  by (relation "measure (\<lambda>(r, s, i, prev). Suc (length s) - i)")
     (auto simp: not_less dest!: find_first_Some)

declare find_all.simps [simp del]

definition re_match :: "regex \<Rightarrow> bytes \<Rightarrow> bool" where
  "re_match r s \<longleftrightarrow> find_first r s 0 \<noteq> None"

text \<open>The bytes outside the given segments, each segment replaced; \<open>i\<close> is where the last one
  ended.\<close>

fun splice :: "bytes \<Rightarrow> nat \<Rightarrow> (nat \<times> nat \<times> bytes) list \<Rightarrow> bytes" where
  "splice b i [] = drop i b"
| "splice b i ((s, e, t) # segs) = take (s - i) (drop i b) @ t @ splice b e segs"

section \<open>Words of an expression\<close>

inductive_set star_words :: "bytes set \<Rightarrow> bytes set" for L where
  none: "[] \<in> star_words L"
| more: "u \<in> L \<Longrightarrow> u \<noteq> [] \<Longrightarrow> v \<in> star_words L \<Longrightarrow> u @ v \<in> star_words L"

primrec re_words :: "regex \<Rightarrow> bytes set" where
  "re_words (RChr P) = {[c] | c. P (byte c)}"
| "re_words RBol = {}"
| "re_words REol = {}"
| "re_words REps = {[]}"
| "re_words (RSeq a b) = {u @ v | u v. u \<in> re_words a \<and> v \<in> re_words b}"
| "re_words (RAlt a b) = re_words a \<union> re_words b"
| "re_words (RStar g r) = star_words (re_words r)"
| "re_words (RGrp r) = re_words r"

text \<open>An expression without anchors over an alphabet of ASCII characters.\<close>

primrec re_over :: "char set \<Rightarrow> regex \<Rightarrow> bool" where
  "re_over A (RChr P) \<longleftrightarrow> (\<forall>k. P k \<longrightarrow> k < 128 \<and> char_of k \<in> A)"
| "re_over A RBol \<longleftrightarrow> False"
| "re_over A REol \<longleftrightarrow> False"
| "re_over A REps \<longleftrightarrow> True"
| "re_over A (RSeq a b) \<longleftrightarrow> re_over A a \<and> re_over A b"
| "re_over A (RAlt a b) \<longleftrightarrow> re_over A a \<and> re_over A b"
| "re_over A (RStar g r) \<longleftrightarrow> re_over A r"
| "re_over A (RGrp r) \<longleftrightarrow> re_over A r"

lemma re_words_over: "re_over A r \<Longrightarrow> w \<in> re_words r \<Longrightarrow> \<forall>c \<in> set w. byte c < (128::nat) \<and> c \<in> A"
proof (induction r arbitrary: w)
  case (RStar g r)
  from RStar.prems(2) show ?case unfolding re_words.simps
    by (induction rule: star_words.induct) (use RStar in auto)
qed fastforce+

text \<open>The matcher finds exactly the words of an expression over an ASCII alphabet.\<close>

lemma decode_rune_high:
  assumes "128 \<le> (byte c :: nat)"
  shows "128 \<le> fst (decode_rune (c # t))"
proof -
  have "128 \<le> fst (decode_tail (byte c) t)" if "194 \<le> (byte c :: nat)"
  proof (cases t)
    case (Cons c1 cs)
    show ?thesis
    proof (cases "second_ok (byte c) c1")
      case True
      then have "128 \<le> (byte c1 :: nat)" "byte c = (224::nat) \<longrightarrow> 160 \<le> (byte c1 :: nat)"
        "byte c = (240::nat) \<longrightarrow> 144 \<le> (byte c1 :: nat)"
        by (auto simp: second_ok_def Let_def split: if_splits)
      then show ?thesis
        using that True Cons
        by (auto simp: decode_defs rune_error_def split: list.splits)
    qed (use Cons in \<open>simp add: decode_tail_def rune_error_def\<close>)
  qed (simp add: decode_tail_def rune_error_def)
  then show ?thesis using assms by (simp add: rune_error_def)
qed

lemma prefix_append_drop:
  "prefix (u @ v) (drop i s) \<longleftrightarrow> prefix u (drop i s) \<and> prefix v (drop (i + length u) s)"
proof -
  have "drop (i + length u) s = drop (length u) (drop i s)" by (simp add: add.commute)
  then show ?thesis by (simp only:) (auto simp: prefix_def simp del: drop_drop)
qed

lemma star_run_words:
  assumes step: "\<And>i j c0. i \<le> length s \<Longrightarrow>
      (\<exists>c. (j, c) \<in> set (f (i, c0))) \<longleftrightarrow> (\<exists>w \<in> L. prefix w (drop i s) \<and> j = i + length w)"
    and "i \<le> length s" and "length s - i \<le> n"
  shows "(\<exists>c. (j, c) \<in> set (star_run n g f (i, c0))) \<longleftrightarrow>
    (\<exists>w \<in> star_words L. prefix w (drop i s) \<and> j = i + length w)"
  using assms(2,3)
proof (induction n arbitrary: i c0)
  case 0
  then show ?case by (auto intro: star_words.none)
next
  case (Suc n)
  have split: "(\<exists>c. (j, c) \<in> set (star_run (Suc n) g f (i, c0))) \<longleftrightarrow>
      j = i \<or> (\<exists>k d. (k, d) \<in> set (f (i, c0)) \<and> i < k \<and> (\<exists>c. (j, c) \<in> set (star_run n g f (k, d))))"
    by (auto simp: Let_def split: if_splits) fastforce+
  have rest: "(\<exists>c. (j, c) \<in> set (star_run n g f (k, d))) \<longleftrightarrow>
      (\<exists>w \<in> star_words L. prefix w (drop k s) \<and> j = k + length w)"
    if "i < k" "k \<le> length s" for k d
    using Suc that by (intro Suc.IH) auto
  show ?case
  proof
    assume "\<exists>c. (j, c) \<in> set (star_run (Suc n) g f (i, c0))"
    then consider "j = i" | k d where "(k, d) \<in> set (f (i, c0))" "i < k"
        "\<exists>c. (j, c) \<in> set (star_run n g f (k, d))"
      unfolding split by blast
    then show "\<exists>w \<in> star_words L. prefix w (drop i s) \<and> j = i + length w"
    proof cases
      case 1
      then show ?thesis by (intro bexI [of _ "[]"]) (auto intro: star_words.none)
    next
      case 2
      with step [OF Suc.prems(1), of k c0] obtain u
        where u: "u \<in> L" "prefix u (drop i s)" "k = i + length u" by blast
      moreover have "k \<le> length s" using u prefix_length_le [of u "drop i s"] Suc.prems by simp
      ultimately obtain v where v: "v \<in> star_words L" "prefix v (drop k s)" "j = k + length v"
        using rest 2 by blast
      then show ?thesis
        using u 2(2) by (intro bexI [of _ "u @ v"]) (auto simp: prefix_append_drop intro!: star_words.more)
    qed
  next
    assume "\<exists>w \<in> star_words L. prefix w (drop i s) \<and> j = i + length w"
    then obtain w where w: "w \<in> star_words L" "prefix w (drop i s)" "j = i + length w" by blast
    from w(1) show "\<exists>c. (j, c) \<in> set (star_run (Suc n) g f (i, c0))"
    proof cases
      case none
      then show ?thesis using w(3) unfolding split by simp
    next
      case (more u v)
      let ?k = "i + length u"
      have "prefix u (drop i s)" "prefix v (drop ?k s)"
        using w(2) more by (auto simp: prefix_append_drop)
      moreover have "?k \<le> length s"
        using w(2) more Suc.prems prefix_length_le [of w "drop i s"] by simp
      moreover have "i < ?k" "j = ?k + length v" using more w(3) by auto
      ultimately show ?thesis
        using step [OF Suc.prems(1), of ?k c0] rest [of ?k] more unfolding split by blast
    qed
  qed
qed

lemma rmatch_words:
  assumes "re_over A r" and "i \<le> length s"
  shows "(\<exists>c. (j, c) \<in> set (rmatch r s (i, c0))) \<longleftrightarrow>
    (\<exists>w \<in> re_words r. prefix w (drop i s) \<and> j = i + length w)"
  using assms
proof (induction r arbitrary: i j c0)
  case (RChr P)
  show ?case
  proof (cases "drop i s")
    case (Cons c t)
    then have "i < length s" by (metis drop_eq_Nil2 leI list.distinct(1))
    with Cons RChr show ?thesis
      using decode_rune_high [of c t] by (cases "byte c < (128::nat)") auto
  qed (use RChr in auto)
next
  case (RSeq a b)
  show ?case
  proof
    assume "\<exists>c. (j, c) \<in> set (rmatch (RSeq a b) s (i, c0))"
    then obtain k d c where kd: "(k, d) \<in> set (rmatch a s (i, c0))" "(j, c) \<in> set (rmatch b s (k, d))"
      by auto
    then have "k \<le> length s" using rmatch_bounds [OF kd(1)] RSeq.prems by simp
    from kd(1) RSeq.IH(1) [of i k c0] RSeq.prems
    obtain u where "u \<in> re_words a" "prefix u (drop i s)" "k = i + length u" by auto
    moreover from kd(2) RSeq.IH(2) [of k j d] RSeq.prems \<open>k \<le> length s\<close>
    obtain v where "v \<in> re_words b" "prefix v (drop k s)" "j = k + length v" by auto
    ultimately show "\<exists>w \<in> re_words (RSeq a b). prefix w (drop i s) \<and> j = i + length w"
      by (intro bexI [of _ "u @ v"]) (auto simp: prefix_append_drop)
  next
    assume "\<exists>w \<in> re_words (RSeq a b). prefix w (drop i s) \<and> j = i + length w"
    then obtain u v where uv: "u \<in> re_words a" "v \<in> re_words b" "j = i + length u + length v"
        "prefix u (drop i s)" "prefix v (drop (i + length u) s)"
      by (auto simp: prefix_append_drop)
    let ?k = "i + length u"
    obtain d where d: "(?k, d) \<in> set (rmatch a s (i, c0))" using RSeq uv by simp blast
    then have "?k \<le> length s" using rmatch_bounds [OF d] RSeq.prems by simp
    then obtain c where "(j, c) \<in> set (rmatch b s (?k, d))" using RSeq uv by simp blast
    with d show "\<exists>c. (j, c) \<in> set (rmatch (RSeq a b) s (i, c0))" by auto
  qed
next
  case (RStar g r)
  then show ?case using star_run_words [of s "rmatch r s" "re_words r" i "length s - i" j g c0] by simp
next
  case (RAlt a b)
  then show ?case by (simp add: ex_disj_distrib) blast
next
  case (RGrp r)
  have "(\<exists>c. (j, c) \<in> set (rmatch (RGrp r) s (i, c0))) \<longleftrightarrow> (\<exists>c. (j, c) \<in> set (rmatch r s (i, c0)))"
    by force
  with RGrp.IH [of i j c0] RGrp.prems show ?case by simp
qed auto

text \<open>The search starts at rune boundaries only; a position it steps over lies inside a multi-byte
  rune, where no word over ASCII starts.\<close>

lemma skipped_not_ascii:
  assumes "i < k" and "k < i + snd (decode_rune (drop i s))" and "i \<le> length s"
  shows "128 \<le> (byte (s ! k) :: nat)"
proof -
  let ?d = "decode_rune (drop i s)"
  have "drop i s \<noteq> []" "\<not> bad_rune ?d"
    using assms by (auto simp: bad_rune_def)
  then have "cont_byte (drop i s ! (k - i))"
    using assms by (intro good_rune_cont) auto
  then have "cont_byte (s ! k)" using assms by simp
  then show ?thesis by (auto simp: rune_start_def)
qed

lemma find_first_skips:
  assumes "re_over A r" and "[] \<notin> re_words r"
    and "i \<le> k" and "k \<le> length s"
    and "case find_first r s i of None \<Rightarrow> True | Some (a, b, c) \<Rightarrow> k < a"
  shows "rmatch r s (k, None) = []"
  using assms
proof (induction r s i rule: find_first.induct)
  case (1 r s i)
  show ?case
  proof (cases "rmatch r s (i, None)")
    case Nil
    let ?i = "i + snd (decode_rune (drop i s))"
    consider "k = i" | "i < k" "k < ?i" | "i < k" "?i \<le> k" using 1(4) by linarith
    then show ?thesis
    proof cases
      case 2
      then have k: "k < length s" using decode_rune_width_le [of "drop i s"] 1(5) by simp
      have high: "128 \<le> (byte (s ! k) :: nat)" using 2 k by (intro skipped_not_ascii) auto
      have "False" if "(j, c) \<in> set (rmatch r s (k, None))" for j c
      proof -
        from that rmatch_words [OF 1(2,5), of j None]
        obtain w where w: "w \<in> re_words r" "prefix w (drop k s)" by blast
        with 1(3) have "hd w = s ! k" "w \<noteq> []" using k by (auto simp: prefix_def hd_drop_conv_nth)
          (metis hd_append2 hd_drop_conv_nth)
        then show False using re_words_over [OF 1(2) w(1)] high by (metis hd_in_set not_less)
      qed
      then show ?thesis by (metis list.set_intros(1) neq_Nil_conv surj_pair)
    next
      case 3
      then have "find_first r s i = find_first r s ?i" "i < length s"
        using Nil 1(5) by (auto simp: find_first.simps [of r s i])
      then show ?thesis using 1(1) [OF Nil] 1(2,3,5,6) 3 by simp
    qed (use Nil in simp)
  next
    case (Cons q qs)
    then have "k < i" using 1(6) by (cases q) (simp add: find_first.simps [of r s i])
    then show ?thesis using 1(4) by simp
  qed
qed

definition no_word :: "regex \<Rightarrow> bytes \<Rightarrow> bool" where
  "no_word r s \<longleftrightarrow> (\<forall>w \<in> re_words r. \<not> sublist w s)"

lemma find_first_no_word:
  assumes "re_over A r" and "[] \<notin> re_words r" and "i \<le> length s"
    and "case find_first r s i of None \<Rightarrow> e = length s | Some (a, b, c) \<Rightarrow> e = a"
  shows "no_word r (take (e - i) (drop i s))"
  unfolding no_word_def
proof (intro ballI notI)
  fix w assume w: "w \<in> re_words r" and "sublist w (take (e - i) (drop i s))"
  then obtain p q where pq: "take (e - i) (drop i s) = p @ w @ q" by (auto simp: sublist_def)
  let ?k = "i + length p"
  have e: "e \<le> length s"
    using assms(3,4) find_first_Some [of r s i] by (auto split: option.splits)
  have "length (take (e - i) (drop i s)) = length p + length w + length q" by (simp add: pq)
  then have k: "?k < e" using w assms(2) e by (cases w) auto
  have "prefix (p @ w) (drop i s)" by (metis append.assoc append_take_drop_id pq prefixI)
  then have "prefix w (drop ?k s)" by (simp add: prefix_append_drop)
  with w have "\<exists>c. (?k + length w, c) \<in> set (rmatch r s (?k, None))"
    using rmatch_words [OF assms(1), of ?k s] k e by auto
  moreover have "rmatch r s (?k, None) = []"
    using assms k e by (intro find_first_skips [OF assms(1,2), of i]) (auto split: option.splits)
  ultimately show False by simp
qed

lemma no_word_re_match:
  assumes "re_over A r" and "[] \<notin> re_words r" and "no_word r s"
  shows "\<not> re_match r s"
proof
  assume "re_match r s"
  then obtain a b c where "find_first r s 0 = Some (a, b, c)" by (auto simp: re_match_def)
  then have bd: "a \<le> length s" "(b, c) \<in> set (rmatch r s (a, None))"
    using find_first_Some [of r s 0 a b c] by auto
  with rmatch_words [OF assms(1), of a s b None]
  obtain w where "w \<in> re_words r" "prefix w (drop a s)" by blast
  then show False using assms(3) by (meson no_word_def prefix_imp_sublist sublist_drop sublist_order.order_trans)
qed

end
