(* ===== verification/Redact.thy ===== *)
theory Redact
  imports Regexp
begin

text \<open>
  Secret redaction of package \<open>ingest\<close> (\<open>ingest.go\<close>): the nine patterns, their replacement by a
  typed mark, the second pass over JSON string literals with escapes, and the theorem that no
  access key, GitHub token, Slack token or JSON web token survives both passes.
\<close>

section \<open>The patterns\<close>

record secretPattern =
  sp_typ :: bytes
  sp_re :: regex
  sp_group :: bool  \<comment> \<open>\<open>valueGroup\<close> is 1 rather than 0\<close>
  sp_token :: bytes

definition mark_open :: bytes where "mark_open = [CHR 0xC2, CHR 0xAB] @ ''REDACTED:''"
definition mark_close :: bytes where "mark_close = [CHR 0xC2, CHR 0xBB]"

definition mkPattern :: "bytes \<Rightarrow> regex \<Rightarrow> bool \<Rightarrow> secretPattern" where
  "mkPattern typ re g = \<lparr>sp_typ = typ, sp_re = re, sp_group = g, sp_token = mark_open @ typ @ mark_close\<rparr>"

definition upper_digit :: regex where "upper_digit = ranges [(48, 57), (65, 90)] []"
definition alnum :: regex where "alnum = ranges [(48, 57), (65, 90), (97, 122)] []"
definition alnum_dash :: regex where "alnum_dash = ranges [(48, 57), (65, 90), (97, 122)] [CHR ''-'']"
definition alnum_url :: regex where "alnum_url = ranges [(48, 57), (65, 90), (97, 122)] [CHR ''_'', CHR ''-'']"
definition base64 :: regex where
  "base64 = ranges [(48, 57), (65, 90), (97, 122)] [CHR ''+'', CHR ''/'', CHR ''='']"
definition at_least :: "nat \<Rightarrow> regex \<Rightarrow> regex" where "at_least n r = rrep n r (RStar True r)"
definition any_rune :: regex where "any_rune = RChr (\<lambda>r. True)"
definition any_in_line :: regex where "any_in_line = rnot [CHR 0x0A]"
definition quote_re :: regex where "quote_re = rset [CHR 0x22]"

definition aws_re :: regex where
  "aws_re = RSeq (rlit ''AKIA'') (rrep 16 upper_digit REps)"
definition github_re :: regex where
  "github_re = rcat [rlit ''gh'', rset ''pousr'', rlit ''_'', at_least 20 alnum]"
definition slack_re :: regex where
  "slack_re = rcat [rlit ''xox'', rset ''baprs'', rlit ''-'', at_least 10 alnum_dash]"
definition privkey_re :: regex where
  "privkey_re = rcat [rlit ''-----BEGIN '', RStar True (ranges [(65, 90)] [CHR '' '']), rlit ''PRIVATE KEY-----'',
     RStar False any_rune, rlit ''-----END '', RStar True (ranges [(65, 90)] [CHR '' '']), rlit ''PRIVATE KEY-----'']"
definition password_re :: regex where
  "password_re = rcat [ralt [rfold ''password'', rfold ''pwd'', rfold ''passwd''],
     RStar True rblank, rset ''=:'', RStar True rblank,
     RGrp (rplus (rnot [CHR 0x09, CHR 0x0A, CHR 0x0C, CHR 0x0D, CHR 0x20, CHR '';'', CHR ''&'', CHR 0x22, CHR 0x27]))]"
definition jwt_re :: regex where
  "jwt_re = rcat [rlit ''eyJ'', at_least 8 alnum_url, rlit ''.'', at_least 8 alnum_url, rlit ''.'', at_least 8 alnum_url]"
definition authheader_re :: regex where
  "authheader_re = rcat [RBol, ralt [rfold ''authorization'', rfold ''proxy-authorization''], rlit '':'',
     RStar True rblank, ralt [rfold ''basic'', rfold ''bearer''], rplus rblank, RGrp (rplus rnonblank)]"
definition cookie_re :: regex where
  "cookie_re = rcat [RBol, ralt [rfold ''cookie'', rfold ''set-cookie''], rlit '':'', RStar True rblank,
     RGrp (RSeq rnonblank (RStar True any_in_line)), REol]"
definition dockerauth_re :: regex where
  "dockerauth_re = rcat [quote_re, rlit ''auth'', quote_re, RStar True rblank, rlit '':'', RStar True rblank,
     quote_re, RGrp (at_least 12 base64), quote_re]"

definition patterns :: "secretPattern list" where
  "patterns =
    [mkPattern ''aws'' aws_re False, mkPattern ''github'' github_re False, mkPattern ''slack'' slack_re False,
     mkPattern ''privkey'' privkey_re False, mkPattern ''password'' password_re True,
     mkPattern ''jwt'' jwt_re False, mkPattern ''authheader'' authheader_re True,
     mkPattern ''cookie'' cookie_re True, mkPattern ''dockerauth'' dockerauth_re True]"

section \<open>Replacement\<close>

definition value_span :: "secretPattern \<Rightarrow> nat \<times> nat \<times> (nat \<times> nat) option \<Rightarrow> (nat \<times> nat \<times> bytes) option" where
  "value_span p loc =
     (case loc of (a, b, c) \<Rightarrow>
        if sp_group p then map_option (\<lambda>(s, e). (s, e, sp_token p)) c
        else Some (a, b, sp_token p))"

definition applyPattern :: "bytes \<Rightarrow> secretPattern \<Rightarrow> bytes \<times> nat" where
  "applyPattern b p =
     (let locs = find_all (sp_re p) b 0 None; segs = List.map_filter (value_span p) locs in
      if locs = [] then (b, 0) else (splice b 0 segs, length segs))"

definition redactPatterns :: "bytes \<Rightarrow> bytes \<times> nat" where
  "redactPatterns b =
     fold (\<lambda>p acc. let (nb, n) = applyPattern (fst acc) p in (nb, snd acc + n)) patterns (b, 0)"

section \<open>JSON string literals\<close>

definition jsonLiteralRe :: regex where
  "jsonLiteralRe = rcat [quote_re,
     RStar True (RAlt (rnot [CHR 0x22, CHR 0x5C]) (RSeq (rset [CHR 0x5C]) any_in_line)), quote_re]"

definition unhex :: "char \<Rightarrow> nat option" where
  "unhex c =
     (if is_digit c then Some (byte c - 48)
      else if 97 \<le> (byte c :: nat) \<and> byte c \<le> (102::nat) then Some (byte c - 87)
      else if 65 \<le> (byte c :: nat) \<and> byte c \<le> (70::nat) then Some (byte c - 55)
      else None)"

text \<open>\<open>strconv.ParseUint(s, 16, 32)\<close> on four bytes.\<close>

fun hex_val :: "nat \<Rightarrow> bytes \<Rightarrow> nat option" where
  "hex_val acc [] = Some acc"
| "hex_val acc (c # cs) = (case unhex c of None \<Rightarrow> None | Some d \<Rightarrow> hex_val (16 * acc + d) cs)"

text \<open>The second half of a surrogate pair, when the six bytes after the first are an escape of one.\<close>

definition low_half :: "bytes \<Rightarrow> nat option" where
  "low_half rest =
     (if length rest \<ge> 6 \<and> rest ! 0 = CHR 0x5C \<and> rest ! 1 = CHR ''u'' then
        (case hex_val 0 (take 4 (drop 2 rest)) of
           Some v \<Rightarrow> if 0xDC00 \<le> v \<and> v \<le> 0xDFFF then Some v else None
         | None \<Rightarrow> None)
      else None)"

function unescapeJSONBytes :: "bytes \<Rightarrow> bytes" where
  "unescapeJSONBytes [] = []"
| "unescapeJSONBytes [c] = [c]"
| "unescapeJSONBytes (c # d # rest) =
     (if c \<noteq> CHR 0x5C then c # unescapeJSONBytes (d # rest)
      else if d = CHR ''b'' then CHR 0x08 # unescapeJSONBytes rest
      else if d = CHR ''f'' then CHR 0x0C # unescapeJSONBytes rest
      else if d = CHR ''n'' then CHR 0x0A # unescapeJSONBytes rest
      else if d = CHR ''r'' then CHR 0x0D # unescapeJSONBytes rest
      else if d = CHR ''t'' then CHR 0x09 # unescapeJSONBytes rest
      else if d = CHR ''u'' then
        (if length rest < 4 then CHR 0x5C # CHR ''u'' # unescapeJSONBytes rest
         else (case hex_val 0 (take 4 rest) of
             None \<Rightarrow> CHR 0x5C # CHR ''u'' # unescapeJSONBytes rest
           | Some r \<Rightarrow>
               (case (if 0xD800 \<le> r \<and> r \<le> 0xDBFF then low_half (drop 4 rest) else None) of
                  Some r2 \<Rightarrow> encode_rune ((r - 0xD800) * 1024 + (r2 - 0xDC00) + 0x10000)
                              @ unescapeJSONBytes (drop 10 rest)
                | None \<Rightarrow> encode_rune r @ unescapeJSONBytes (drop 4 rest))))
      else d # unescapeJSONBytes rest)"
  by pat_completeness auto
termination by (relation "measure length") auto

definition matchAnyPattern :: "bytes \<Rightarrow> bytes option" where
  "matchAnyPattern b = map_option sp_token (find (\<lambda>p. re_match (sp_re p) b) patterns)"

definition literal_span :: "bytes \<Rightarrow> nat \<times> nat \<times> (nat \<times> nat) option \<Rightarrow> (nat \<times> nat \<times> bytes) option" where
  "literal_span b loc =
     (case loc of (s, e, c) \<Rightarrow>
        let inner = take (e - 1 - (s + 1)) (drop (s + 1) b) in
        if CHR 0x5C \<notin> set inner then None
        else map_option (\<lambda>tok. (s + 1, e, tok @ [CHR 0x22])) (matchAnyPattern (unescapeJSONBytes inner)))"

definition redactJSONEscaped :: "bytes \<Rightarrow> bytes \<times> nat" where
  "redactJSONEscaped b =
     (let locs = find_all jsonLiteralRe b 0 None; segs = List.map_filter (literal_span b) locs in
      if locs = [] then (b, 0) else (splice b 0 segs, length segs))"

definition Redact :: "bytes \<Rightarrow> bytes \<times> nat" where
  "Redact b = (let (o1, n1) = redactPatterns b; (o2, n2) = redactJSONEscaped o1 in (o2, n1 + n2))"

section \<open>No token survives\<close>

text \<open>The alphabet of the token patterns excludes the quote, the colon and the bytes of the mark's
  ends, and every token is longer than the words between them.\<close>

definition plain_chars :: "char set" where
  "plain_chars = {c. byte c < (128::nat) \<and> c \<noteq> CHR 0x22 \<and> c \<noteq> CHR '':''}"

primrec re_min :: "regex \<Rightarrow> nat" where
  "re_min (RChr P) = 1"
| "re_min RBol = 0"
| "re_min REol = 0"
| "re_min REps = 0"
| "re_min (RSeq a b) = re_min a + re_min b"
| "re_min (RAlt a b) = min (re_min a) (re_min b)"
| "re_min (RStar g r) = 0"
| "re_min (RGrp r) = re_min r"

lemma re_min_le: "w \<in> re_words r \<Longrightarrow> re_min r \<le> length w"
proof (induction r arbitrary: w)
  case (RSeq a b)
  then show ?case by (fastforce intro: add_mono)
next
  case (RAlt a b)
  then show ?case by (auto simp: min.coboundedI1 min.coboundedI2)
qed auto

definition token_re :: "regex \<Rightarrow> bool" where
  "token_re r \<longleftrightarrow> re_over plain_chars r \<and> 10 < re_min r"

lemma token_reD: "token_re r \<Longrightarrow> re_over plain_chars r \<and> [] \<notin> re_words r"
  using re_min_le [of "[]" r] by (auto simp: token_re_def)

lemma short_no_word: "token_re r \<Longrightarrow> length s \<le> 10 \<Longrightarrow> no_word r s"
  using re_min_le [of _ r] sublist_length_le [of _ s]
  by (fastforce simp: no_word_def token_re_def)

lemma sublist_separated:
  assumes "sublist w (u @ c # v)" and "c \<notin> set w"
  shows "sublist w u \<or> sublist w v"
  using assms
proof (induction u)
  case Nil
  then show ?case by (cases w) (auto simp: sublist_Cons_right)
next
  case (Cons a u)
  have "prefix w (a # u)" if "prefix w ((a # u) @ c # v)"
    using that Cons.prems(2) unfolding prefix_append by (auto simp: prefix_Cons)
  with Cons show ?case by (auto simp: sublist_Cons_right)
qed

lemma no_word_separated:
  assumes "re_over A r" and "c \<notin> A"
  shows "no_word r (u @ c # v) \<longleftrightarrow> no_word r u \<and> no_word r v"
proof -
  have "sublist u (u @ c # v)" "sublist v (u @ c # v)"
    by (auto simp: sublist_def) (metis append.assoc append_Cons append_Nil append_Nil2)
  moreover have "c \<notin> set w" if "w \<in> re_words r" for w
    using re_words_over [OF assms(1) that] assms(2) by blast
  ultimately show ?thesis
    unfolding no_word_def by (meson sublist_separated sublist_order.order_trans)
qed

lemma no_word_sublist: "no_word r s \<Longrightarrow> sublist t s \<Longrightarrow> no_word r t"
  unfolding no_word_def by (meson sublist_order.order_trans)

definition clean_token :: "regex \<Rightarrow> bytes \<Rightarrow> bool" where
  "clean_token r t \<longleftrightarrow> no_word r t \<and> t \<noteq> [] \<and> hd t \<notin> plain_chars \<and> last t \<notin> plain_chars"

lemma no_word_token:
  assumes "re_over plain_chars r" and "no_word r u" and "clean_token r t" and "no_word r v"
  shows "no_word r (u @ t @ v)"
proof -
  obtain x t' where t: "t = x # t'" "x \<notin> plain_chars"
    using assms(3) by (cases t) (auto simp: clean_token_def)
  have "no_word r (t' @ v)"
  proof (cases t' rule: rev_cases)
    case (snoc m y)
    then have "y \<notin> plain_chars" "no_word r (m @ y # [])"
      using assms(3) t no_word_separated [OF assms(1), of x "[]" t']
      by (auto simp: clean_token_def)
    with snoc assms(4) show ?thesis by (simp add: no_word_separated [OF assms(1)])
  qed (use assms in simp)
  with t assms(2) show ?thesis by (simp add: no_word_separated [OF assms(1)])
qed

lemma no_word_splice:
  assumes "re_over plain_chars r" and "no_word r b"
    and "\<forall>(s, e, t) \<in> set segs. clean_token r t"
  shows "no_word r (splice b i segs)"
  using assms(3)
proof (induction segs arbitrary: i)
  case Nil
  then show ?case using assms(2) by (simp add: no_word_sublist)
next
  case (Cons seg segs)
  obtain s e t where seg: "seg = (s, e, t)" by (cases seg)
  with Cons have "clean_token r t" and rest: "no_word r (splice b e segs)" by auto
  then have "no_word r (take (s - i) (drop i b) @ t @ splice b e segs)"
    using assms(2) by (intro no_word_token [OF assms(1)])
      (auto intro: no_word_sublist sublist_order.order_trans [OF sublist_take sublist_drop])
  then show ?case by (simp add: seg)
qed

lemma no_word_applyPattern:
  assumes "re_over plain_chars r" and "no_word r b" and "clean_token r (sp_token p)"
  shows "no_word r (fst (applyPattern b p))"
proof -
  have "no_word r (splice b 0 (List.map_filter (value_span p) locs))" for locs
    using assms(3)
    by (intro no_word_splice [OF assms(1,2)])
       (auto simp: map_filter_def value_span_def split: if_splits)
  then show ?thesis using assms(2) by (simp add: applyPattern_def Let_def)
qed

lemma clean_token_quote:
  assumes "re_over plain_chars r" and "clean_token r t"
  shows "clean_token r (t @ [CHR 0x22])"
  using assms no_word_separated [OF assms(1), of "CHR 0x22" t "[]"]
  by (auto simp: clean_token_def plain_chars_def no_word_def)

lemma no_word_redactJSONEscaped:
  assumes "re_over plain_chars r" and "no_word r b" and "\<forall>p \<in> set patterns. clean_token r (sp_token p)"
  shows "no_word r (fst (redactJSONEscaped b))"
proof -
  have tok: "clean_token r (t @ [CHR 0x22])" if "matchAnyPattern x = Some t" for x t
    using that assms(3) clean_token_quote [OF assms(1)]
    by (auto simp: matchAnyPattern_def find_Some_iff)
  have "no_word r (splice b 0 (List.map_filter (literal_span b) locs))" for locs
    using tok by (intro no_word_splice [OF assms(1,2)])
      (auto simp: map_filter_def literal_span_def Let_def split: if_splits)
  then show ?thesis using assms(2) by (simp add: redactJSONEscaped_def Let_def)
qed

lemma find_all_clears:
  assumes "token_re (sp_re p)" and "\<not> sp_group p" and "clean_token (sp_re p) (sp_token p)"
    and "i \<le> length b"
  shows "no_word (sp_re p) (splice b i (List.map_filter (value_span p) (find_all (sp_re p) b i prev)))"
  using assms(4)
proof (induction "sp_re p" b i prev rule: find_all.induct)
  case (1 b i prev)
  note re = token_reD [OF assms(1)]
  show ?case
  proof (cases "find_first (sp_re p) b i")
    case None
    then have "no_word (sp_re p) (drop i b)"
      using find_first_no_word [of plain_chars "sp_re p" i b "length b"] re 1(2) by simp
    then show ?thesis using None 1(2) by (simp add: find_all.simps [of _ b i] map_filter_simps)
  next
    case (Some m)
    obtain a e c where m: "m = (a, e, c)" by (cases m)
    note ff = find_first_Some [OF Some [unfolded m] 1(2)]
    obtain w where "w \<in> re_words (sp_re p)" "e = a + length w"
      using rmatch_words [of plain_chars "sp_re p" a b e None] re ff by auto
    with re have "a < e" by (cases w) auto
    then have step: "find_all (sp_re p) b i prev = (a, e, c) # find_all (sp_re p) b e (Some e)"
      using Some m ff 1(2) by (simp add: find_all.simps [of _ b i] Let_def)
    have "no_word (sp_re p) (splice b e (List.map_filter (value_span p) (find_all (sp_re p) b e (Some e))))"
      using 1(1) [OF _ Some [unfolded m] refl refl refl refl refl] ff 1(2) \<open>a < e\<close> by simp
    moreover have "no_word (sp_re p) (take (a - i) (drop i b))"
      using find_first_no_word [of plain_chars "sp_re p" i b a] re Some m 1(2) by simp
    ultimately show ?thesis
      using no_word_token [OF conjunct1 [OF re] _ assms(3)] assms(2)
      by (simp add: step map_filter_simps value_span_def)
  qed
qed

lemma applyPattern_clears:
  assumes "token_re (sp_re p)" and "\<not> sp_group p" and "clean_token (sp_re p) (sp_token p)"
  shows "no_word (sp_re p) (fst (applyPattern b p))"
proof (cases "find_all (sp_re p) b 0 None = []")
  case True
  with find_all_clears [OF assms, of 0 b None] show ?thesis
    by (simp add: applyPattern_def map_filter_simps)
next
  case False
  with find_all_clears [OF assms, of 0 b None] show ?thesis
    by (simp add: applyPattern_def Let_def)
qed

lemma redactPatterns_clears:
  assumes "p \<in> set patterns" and "token_re (sp_re p)" and "\<not> sp_group p"
    and "\<forall>q \<in> set patterns. clean_token (sp_re p) (sp_token q)"
  shows "no_word (sp_re p) (fst (redactPatterns b))"
proof -
  let ?step = "\<lambda>q acc. let (nb, n) = applyPattern (fst acc) q in (nb, snd acc + n)"
  have keep: "no_word (sp_re p) (fst (fold ?step qs (b, n)))"
    if "no_word (sp_re p) b" "set qs \<subseteq> set patterns" for qs b n
    using that
  proof (induction qs arbitrary: b n)
    case (Cons q qs)
    have "no_word (sp_re p) (fst (applyPattern b q))"
      using Cons.prems token_reD [OF assms(2)] assms(4) by (intro no_word_applyPattern) auto
    then show ?case using Cons by (auto simp: split_beta Let_def)
  qed simp
  have "no_word (sp_re p) (fst (fold ?step qs (b, n)))"
    if "p \<in> set qs" "set qs \<subseteq> set patterns" for qs b n
    using that
  proof (induction qs arbitrary: b n)
    case (Cons q qs)
    show ?case
    proof (cases "p = q")
      case True
      have "no_word (sp_re p) (fst (applyPattern b q))"
        unfolding True [symmetric] using assms by (intro applyPattern_clears) auto
      then show ?thesis using keep Cons.prems by (auto simp: split_beta Let_def)
    qed (use Cons in \<open>auto simp: split_beta Let_def\<close>)
  qed simp
  then show ?thesis using assms(1) by (simp add: redactPatterns_def)
qed

lemmas re_defs = rcat_def rlit_def rchar_def rset_def ranges_def upper_digit_def alnum_def
  alnum_dash_def alnum_url_def at_least_def

lemma re_over_rrep: "re_over A (rrep n r k) \<longleftrightarrow> (n = 0 \<or> re_over A r) \<and> re_over A k"
  by (induction n) auto

lemma re_over_rlit:
  "re_over plain_chars (rlit s) \<longleftrightarrow> (\<forall>c \<in> set s. byte c < (128::nat) \<and> c \<noteq> CHR 0x22 \<and> c \<noteq> CHR '':'')"
  by (induction s) (auto simp: rlit_def rchar_def plain_chars_def)

lemma re_over_class: "re_over plain_chars (RChr P) \<longleftrightarrow> (\<forall>k. P k \<longrightarrow> k < 128 \<and> k \<noteq> 34 \<and> k \<noteq> 58)"
proof -
  have "char_of k \<in> plain_chars \<longleftrightarrow> k \<noteq> 34 \<and> k \<noteq> 58" if "k < 128" for k :: nat
  proof -
    have q: "CHR 0x22 = char_of (34 :: nat)" "CHR '':'' = char_of (58 :: nat)" by code_simp+
    have "of_char (char_of k :: char) = k" using that by (simp add: of_char_of)
    then show ?thesis using that unfolding plain_chars_def q
      by (auto simp: char_of_eq_iff take_bit_eq_mod)
  qed
  then show ?thesis by auto
qed

lemma re_min_rrep: "re_min (rrep n r k) = n * re_min r + re_min k"
  by (induction n) auto

lemma re_min_rlit: "re_min (rlit s) = length s"
  by (induction s) (auto simp: rlit_def rchar_def)

lemma token_patterns:
  "token_re aws_re" "token_re github_re" "token_re slack_re" "token_re jwt_re"
  by (auto simp: token_re_def aws_re_def github_re_def slack_re_def jwt_re_def rcat_def rset_def
      ranges_def upper_digit_def alnum_def alnum_dash_def alnum_url_def at_least_def
      re_over_rrep re_over_rlit re_over_class re_min_rrep re_min_rlit simp del: re_over.simps(1))

lemma clean_marks:
  assumes "token_re r" and "p \<in> set patterns"
  shows "clean_token r (sp_token p)"
proof -
  obtain ty where p: "sp_token p = mark_open @ ty @ mark_close" "length ty \<le> 10"
    using assms(2) by (auto simp: patterns_def mkPattern_def)
  have eq: "sp_token p = [] @ CHR 0xC2 # [] @ CHR 0xAB # ''REDACTED'' @ CHR '':'' # ty @ CHR 0xC2 # [] @ CHR 0xBB # []"
    by (simp add: p mark_open_def mark_close_def)
  have "no_word r (sp_token p)"
    unfolding eq using assms(1) p(2) token_reD [OF assms(1)]
    by (subst no_word_separated, blast, simp add: plain_chars_def)+ (simp add: short_no_word)
  then show ?thesis by (simp add: clean_token_def p mark_open_def mark_close_def plain_chars_def)
qed

lemma Redact_clears:
  assumes "p \<in> set patterns" and "token_re (sp_re p)" and "\<not> sp_group p"
  shows "\<not> re_match (sp_re p) (fst (Redact b))"
proof -
  have clean: "\<forall>q \<in> set patterns. clean_token (sp_re p) (sp_token q)"
    using clean_marks [OF assms(2)] by blast
  have "no_word (sp_re p) (fst (redactJSONEscaped (fst (redactPatterns b))))"
    using redactPatterns_clears [OF assms(1,2,3) clean] token_reD [OF assms(2)] clean
    by (intro no_word_redactJSONEscaped) auto
  then show ?thesis
    using no_word_re_match [of plain_chars "sp_re p"] token_reD [OF assms(2)]
    by (simp add: Redact_def split_beta Let_def)
qed

lemma applyPattern_zero: "snd (applyPattern b p) = 0 \<Longrightarrow> fst (applyPattern b p) = b"
  by (auto simp: applyPattern_def Let_def)

lemma redactPatterns_fold_zero:
  "snd (fold (\<lambda>p acc. let (nb, n) = applyPattern (fst acc) p in (nb, snd acc + n)) ps acc) = 0 \<Longrightarrow>
   fst (fold (\<lambda>p acc. let (nb, n) = applyPattern (fst acc) p in (nb, snd acc + n)) ps acc) = fst acc
   \<and> snd acc = 0"
proof (induction ps arbitrary: acc)
  case (Cons p ps)
  obtain nb n where p: "applyPattern (fst acc) p = (nb, n)" by fastforce
  from Cons.IH [of "(nb, snd acc + n)"] Cons.prems p
  show ?case using applyPattern_zero [of "fst acc" p] by auto
qed simp

lemma Redact_zero: "snd (Redact b) = 0 \<Longrightarrow> fst (Redact b) = b"
  using redactPatterns_fold_zero [of patterns "(b, 0)"]
  by (auto simp: Redact_def redactPatterns_def redactJSONEscaped_def Let_def split_beta split: if_splits)

definition token_free :: "bytes \<Rightarrow> bool" where
  "token_free s \<longleftrightarrow> \<not> re_match aws_re s \<and> \<not> re_match github_re s \<and> \<not> re_match slack_re s \<and> \<not> re_match jwt_re s"

lemma token_free_Redact: "token_free (fst (Redact b))"
proof -
  have "mkPattern ''aws'' aws_re False \<in> set patterns" "mkPattern ''github'' github_re False \<in> set patterns"
    "mkPattern ''slack'' slack_re False \<in> set patterns" "mkPattern ''jwt'' jwt_re False \<in> set patterns"
    by (simp_all add: patterns_def)
  from this [THEN Redact_clears, of b] token_patterns show ?thesis by (auto simp: mkPattern_def token_free_def)
qed

text \<open>Property C8.  Redaction leaves no AWS access key, GitHub token, Slack token or JSON web token
  anywhere in its output, whatever the later patterns and the second pass over JSON literals put
  back together; and it either reports at least one span or returns its input.\<close>

theorem redact_removes_tokens:
  "\<not> re_match aws_re (fst (Redact b)) \<and> \<not> re_match github_re (fst (Redact b))
   \<and> \<not> re_match slack_re (fst (Redact b)) \<and> \<not> re_match jwt_re (fst (Redact b))
   \<and> (0 < snd (Redact b) \<or> fst (Redact b) = b)"
  using token_free_Redact [of b] Redact_zero [of b] by (auto simp: token_free_def)

text \<open>A text shorter than every secret stays as it is.\<close>

lemma rmatch_min:
  "q \<in> set (rmatch r s p) \<Longrightarrow> fst p \<le> length s \<Longrightarrow> fst p + re_min r \<le> fst q"
proof (induction r arbitrary: q p)
  case (RChr P)
  then show ?case using decode_rune_width_pos [of "drop (fst p) s"] by (auto split: if_splits)
next
  case (RSeq a b)
  from RSeq.prems(1) obtain x where x: "x \<in> set (rmatch a s p)" "q \<in> set (rmatch b s x)" by auto
  have "fst x \<le> length s" using rmatch_bounds [of "fst x" "snd x" a s p] x(1) RSeq.prems(2) by simp
  with RSeq.IH(1) [OF x(1) RSeq.prems(2)] RSeq.IH(2) [OF x(2)] show ?case by simp
next
  case (RAlt a b)
  then show ?case by (fastforce simp: min_def)
next
  case (RStar g r)
  then show ?case using rmatch_bounds [of "fst q" "snd q" "RStar g r" s p] by simp
qed (auto split: if_splits)

lemma find_first_short: "length s < re_min r \<Longrightarrow> find_first r s 0 = None"
proof (rule ccontr)
  assume short: "length s < re_min r" and "find_first r s 0 \<noteq> None"
  then obtain a b c where "find_first r s 0 = Some (a, b, c)" by auto
  with find_first_Some [OF this] rmatch_min [of "(b, c)" r s "(a, None)"] short show False by simp
qed

lemma find_all_short: "length s < re_min r \<Longrightarrow> find_all r s 0 None = []"
  by (simp add: find_all.simps [of r s 0] find_first_short)

lemma re_min_simps [simp]:
  "re_min (rchar c) = 1" "re_min (rset cs) = 1" "re_min (rnot cs) = 1" "re_min (ranges ss cs) = 1"
  "re_min (rlit s) = length s" "re_min (rfold s) = length s"
  "re_min (rplus r) = re_min r" "re_min (rrep n r k) = n * re_min r + re_min k" "re_min (ropts n r) = 0"
  "re_min (rcat []) = 0" "re_min (rcat (r # rs)) = re_min r + re_min (rcat rs)"
proof -
  show "re_min (rlit s) = length s" by (induction s) (simp_all add: rlit_def rchar_def)
  show "re_min (rfold s) = length s" by (induction s) (simp_all add: rfold_def)
  show "re_min (rrep n r k) = n * re_min r + re_min k" by (induction n) simp_all
  show "re_min (ropts n r) = 0" by (induction n) simp_all
qed (simp_all add: rchar_def rset_def rnot_def ranges_def rplus_def rcat_def)

lemma re_min_ralt [simp]: "re_min (ralt [r]) = re_min r" "re_min (ralt (r # r' # rs)) = min (re_min r) (re_min (ralt (r' # rs)))"
  by (simp_all add: ralt_def)

lemma re_min_patterns: "\<forall>p \<in> set patterns. 2 \<le> re_min (sp_re p)" "2 \<le> re_min jsonLiteralRe"
  by (simp_all add: patterns_def mkPattern_def aws_re_def github_re_def slack_re_def privkey_re_def
      password_re_def jwt_re_def authheader_re_def cookie_re_def dockerauth_re_def quote_re_def jsonLiteralRe_def
      at_least_def upper_digit_def alnum_def alnum_dash_def alnum_url_def rblank_def rnonblank_def base64_def)

lemma Redact_short: "length s < 2 \<Longrightarrow> Redact s = (s, 0)"
proof -
  assume short: "length s < 2"
  have "fold (\<lambda>p acc. let (nb, n) = applyPattern (fst acc) p in (nb, snd acc + n)) ps (s, 0) = (s, 0)"
    if "set ps \<subseteq> set patterns" for ps
    using that
  proof (induction ps)
    case (Cons p ps)
    then have "2 \<le> re_min (sp_re p)" using re_min_patterns(1) by auto
    with short have "applyPattern s p = (s, 0)" by (simp add: applyPattern_def find_all_short)
    with Cons show ?case by simp
  qed simp
  then have "redactPatterns s = (s, 0)" by (simp add: redactPatterns_def)
  moreover have "find_all jsonLiteralRe s 0 None = []" using re_min_patterns(2) short by (simp add: find_all_short)
  ultimately show ?thesis by (simp add: Redact_def redactJSONEscaped_def)
qed

lemma Redact_Nil: "Redact [] = ([], 0)"
  by (simp add: Redact_short)

end
