(* ===== verification/Chunking.thy ===== *)
theory Chunking
  imports Regexp Store_Schema
begin

text \<open>
  Chunking of stored text (\<open>ChunkText\<close> and its helpers in \<open>ingest.go\<close>): lines with their
  offsets, Markdown headings, blocks of lines of about four kilobytes with one line of overlap.
  The loops are recursions on their index; the theorems say that the chunks cover the text and
  progress, how long they get, and which heading each one carries.
\<close>

section \<open>Definitions\<close>

text \<open>\<open>headingRe\<close> is anchored at the start of the string only, so it is tried at position 0.\<close>

definition headingRe :: regex where
  "headingRe = rcat [RSeq (rchar (CHR ''#'')) (ropts 5 (rchar (CHR ''#''))),
     rplus (rset [CHR '' '', CHR 0x09]), rnonblank]"

definition trim_line_end :: "bytes \<Rightarrow> bytes" where
  "trim_line_end s = rev (dropWhile (\<lambda>c. c = CHR 0x0D \<or> c = CHR 0x0A) (rev s))"

definition headingText :: "bytes \<Rightarrow> bytes option" where
  "headingText line =
     (let t = trim_line_end line in
      if rmatch headingRe t (0, None) = [] then None
      else Some (trim_space (case index_any {CHR '' '', CHR 0x09} t of
          Some i \<Rightarrow> drop (i + 1) t | None \<Rightarrow> t)))"

function split_loop :: "bytes \<Rightarrow> nat \<Rightarrow> nat \<Rightarrow> bytes list \<times> nat list" where
  "split_loop s i start =
     (if i < length s then
        (if s ! i = CHR 0x0A then
           (let (ls, os) = split_loop s (i + 1) (i + 1)
            in (take (i + 1 - start) (drop start s) # ls, (i + 1) # os))
         else split_loop s (i + 1) start)
      else if start < length s then ([drop start s], [length s]) else ([], []))"
  by pat_completeness auto
termination by (relation "measure (\<lambda>(s, i, start). length s - i)") auto

declare split_loop.simps [simp del]

definition splitLines :: "bytes \<Rightarrow> bytes list \<times> nat list" where
  "splitLines s = (let (ls, os) = split_loop s 0 0 in (ls, 0 # os))"

definition chunkTargetBytes :: nat where "chunkTargetBytes = 4096"

text \<open>The state of the loop that collects the lines of one chunk.\<close>

record scan =
  sc_j :: nat
  sc_bytes :: nat
  sc_new :: bool     \<comment> \<open>\<open>hasNewLine\<close>\<close>
  sc_title :: bytes  \<comment> \<open>\<open>titleAtStart\<close>\<close>
  sc_last :: bytes   \<comment> \<open>\<open>lastTitle\<close>\<close>
  sc_break :: bool   \<comment> \<open>\<open>headingBreak\<close>\<close>

definition see_heading :: "bool \<Rightarrow> bytes list \<Rightarrow> nat \<Rightarrow> scan \<Rightarrow> scan" where
  "see_heading md lines start c =
     (case (if md then headingText (lines ! sc_j c) else None) of
        None \<Rightarrow> c
      | Some h \<Rightarrow>
          if sc_j c = start then c\<lparr>sc_title := h, sc_last := h\<rparr>
          else if sc_new c then c\<lparr>sc_break := True\<rparr>
          else c\<lparr>sc_last := h\<rparr>)"

function scan_lines :: "bool \<Rightarrow> bytes list \<Rightarrow> nat \<Rightarrow> scan \<Rightarrow> scan" where
  "scan_lines md lines start c0 =
     (if sc_j c0 < length lines then
        (let c = see_heading md lines start c0; n = length (lines ! sc_j c0) in
         if sc_break c then c
         else if sc_bytes c > 0 \<and> sc_bytes c + n > chunkTargetBytes \<and> sc_new c then c
         else scan_lines md lines start
                (c\<lparr>sc_bytes := sc_bytes c + n, sc_new := sc_new c \<or> sc_j c > start, sc_j := sc_j c + 1\<rparr>))
      else c0)"
  by pat_completeness auto
termination
  by (relation "measure (\<lambda>(md, lines, start, c). length lines - sc_j c)")
     (auto simp: see_heading_def split: option.splits if_splits)

declare scan_lines.simps [simp del]

function chunk_loop :: "bool \<Rightarrow> bytes \<Rightarrow> bytes list \<Rightarrow> nat list \<Rightarrow> nat \<Rightarrow> bytes \<Rightarrow> nat \<Rightarrow> bool \<Rightarrow> chunk list" where
  "chunk_loop md s lines offsets i lastTitle ordinal overlapStart =
     (if i < length lines then
        (let c = scan_lines md lines i
               \<lparr>sc_j = i, sc_bytes = 0, sc_new = \<not> overlapStart, sc_title = lastTitle,
                sc_last = lastTitle, sc_break = False\<rparr>;
             fin = (if sc_j c \<le> i then i + 1 else sc_j c);
             ch = \<lparr>k_ordinal = ordinal, k_bstart = int (offsets ! i), k_bend = int (offsets ! fin),
                   k_lstart = int (i + 1), k_lend = int fin,
                   k_title = (if md then sc_title c else []),
                   k_text = take (offsets ! fin - offsets ! i) (drop (offsets ! i) s)\<rparr>
         in ch # (if fin \<ge> length lines then []
                  else if \<not> sc_break c \<and> fin - i > 1
                  then chunk_loop md s lines offsets (fin - 1) (sc_last c) (ordinal + 1) True
                  else chunk_loop md s lines offsets fin (sc_last c) (ordinal + 1) False))
      else [])"
  by pat_completeness auto
termination
  by (relation "measure (\<lambda>(md, s, lines, offsets, i, _). length lines - i)") (auto simp: Let_def)

declare chunk_loop.simps [simp del]

definition ChunkText :: "bytes \<Rightarrow> bool \<Rightarrow> chunk list" where
  "ChunkText s md =
     (if s = [] then []
      else let (lines, offsets) = splitLines s in chunk_loop md s lines offsets 0 [] 0 False)"

section \<open>Lines\<close>

lemma split_loop_spec:
  assumes "start \<le> i" and "i \<le> length s"
  shows "concat (fst (split_loop s i start)) = drop start s
    \<and> length (snd (split_loop s i start)) = length (fst (split_loop s i start))
    \<and> (\<forall>k < length (fst (split_loop s i start)).
         fst (split_loop s i start) ! k \<noteq> []
         \<and> snd (split_loop s i start) ! k
           = start + length (concat (take (k + 1) (fst (split_loop s i start)))))"
  using assms
proof (induction s i start rule: split_loop.induct)
  case (1 s i start)
  consider "i < length s" "s ! i = CHR 0x0A" | "i < length s" "s ! i \<noteq> CHR 0x0A" | "i = length s"
    using 1(4) by linarith
  then show ?case
  proof cases
    case 1
    obtain ls os where rec: "split_loop s (i + 1) (i + 1) = (ls, os)" by fastforce
    then have step: "split_loop s i start = (take (i + 1 - start) (drop start s) # ls, (i + 1) # os)"
      using 1 by (simp add: split_loop.simps [of s i])
    note IH = "1.IH"(1) [OF 1]
    have len: "length (take (i + 1 - start) (drop start s)) = i + 1 - start"
      using 1 "1.prems" by simp
    have join: "take (i + 1 - start) (drop start s) @ drop (i + 1) s = drop start s"
      using "1.prems" append_take_drop_id [of "i + 1 - start" "drop start s"] by simp
    show ?thesis
      unfolding step using IH rec 1 "1.prems" join len
      by (auto simp: nth_Cons less_Suc_eq_0_disj split: nat.splits)
  next
    case 2
    then have "split_loop s i start = split_loop s (i + 1) start"
      by (simp add: split_loop.simps [of s i])
    then show ?thesis using "1.IH"(2) [OF 2] 2 "1.prems" by simp
  next
    case 3
    then have "split_loop s i start = (if start < length s then ([drop start s], [length s]) else ([], []))"
      by (subst split_loop.simps) simp
    then show ?thesis using 3 "1.prems" by simp
  qed
qed

definition off :: "bytes list \<Rightarrow> nat \<Rightarrow> nat" where
  "off lines k = length (concat (take k lines))"

lemma splitLines_spec:
  assumes "splitLines s = (lines, offsets)"
  shows "concat lines = s" and "\<And>k. k \<le> length lines \<Longrightarrow> offsets ! k = off lines k"
    and "[] \<notin> set lines" and "length offsets = Suc (length lines)"
proof -
  obtain os where os: "split_loop s 0 0 = (lines, os)" "offsets = 0 # os"
    using assms by (auto simp: splitLines_def split: prod.splits)
  note spec = split_loop_spec [of 0 0 s, unfolded os fst_conv snd_conv, simplified]
  show "concat lines = s" using spec by simp
  show "length offsets = Suc (length lines)" using spec os by simp
  show "offsets ! k = off lines k" if "k \<le> length lines" for k
    using that spec os by (cases k) (auto simp: off_def)
  show "[] \<notin> set lines"
    using spec by (metis in_set_conv_nth)
qed

lemma off_Suc: "k < length lines \<Longrightarrow> off lines (Suc k) = off lines k + length (lines ! k)"
  by (simp add: off_def take_Suc_conv_app_nth)

lemma off_0 [simp]: "off lines 0 = 0"
  by (simp add: off_def)

lemma off_all: "off lines (length lines) = length (concat lines)"
  by (simp add: off_def)

lemma off_less:
  assumes "[] \<notin> set lines" and "j < k" and "k \<le> length lines"
  shows "off lines j < off lines k"
  using assms(2,3)
proof (induction k)
  case (Suc k)
  then have "lines ! k \<noteq> []" using assms(1) by (metis Suc_le_lessD nth_mem)
  then show ?case using Suc by (cases "j = k") (auto simp: off_Suc)
qed simp

lemma off_le:
  assumes "[] \<notin> set lines" and "j \<le> k" and "k \<le> length lines"
  shows "off lines j \<le> off lines k"
  using off_less [OF assms(1), of j k] assms(2,3) by (cases "j = k") auto

section \<open>The scan of one chunk\<close>

text \<open>The heading in force on line \<open>k\<close>: the last one among the first \<open>k\<close> lines.\<close>

definition heading_of :: "bool \<Rightarrow> bytes list \<Rightarrow> nat \<Rightarrow> bytes" where
  "heading_of md lines k =
     foldl (\<lambda>t l. case (if md then headingText l else None) of None \<Rightarrow> t | Some h \<Rightarrow> h) [] (take k lines)"

lemma heading_of_0 [simp]: "heading_of md lines 0 = []"
  by (simp add: heading_of_def)

lemma heading_of_Suc:
  "k < length lines \<Longrightarrow> heading_of md lines (Suc k) =
     (case (if md then headingText (lines ! k) else None) of
        None \<Rightarrow> heading_of md lines k | Some h \<Rightarrow> h)"
  by (auto simp: heading_of_def take_Suc_conv_app_nth split: option.splits)

definition scan_inv :: "bool \<Rightarrow> bytes list \<Rightarrow> nat \<Rightarrow> bool \<Rightarrow> scan \<Rightarrow> bool" where
  "scan_inv md lines start ov c \<longleftrightarrow>
     start \<le> sc_j c \<and> sc_j c \<le> length lines \<and> \<not> sc_break c
     \<and> sc_bytes c = off lines (sc_j c) - off lines start
     \<and> (sc_new c \<longleftrightarrow> \<not> ov \<or> start + 1 < sc_j c)
     \<and> (if sc_j c = start
        then sc_title c = sc_last c
             \<and> sc_last c \<in> {heading_of md lines start, heading_of md lines (Suc start)}
        else sc_title c = heading_of md lines (Suc start) \<and> sc_last c = heading_of md lines (sc_j c))
     \<and> (sc_bytes c > chunkTargetBytes \<longrightarrow> sc_j c \<le> start + (if ov then 2 else 1))"

definition scan_post :: "bool \<Rightarrow> bytes list \<Rightarrow> nat \<Rightarrow> bool \<Rightarrow> scan \<Rightarrow> bool" where
  "scan_post md lines start ov c \<longleftrightarrow>
     start < sc_j c \<and> sc_j c \<le> length lines
     \<and> (ov \<longrightarrow> start + 1 < sc_j c \<or> sc_j c = length lines)
     \<and> sc_title c = heading_of md lines (Suc start) \<and> sc_last c = heading_of md lines (sc_j c)
     \<and> (off lines (sc_j c) - off lines start > chunkTargetBytes \<longrightarrow> sc_j c \<le> start + (if ov then 2 else 1))"

lemma scan_lines_post:
  assumes "scan_inv md lines start ov c" and "start < length lines"
    and "[] \<notin> set lines"
  shows "scan_post md lines start ov (scan_lines md lines start c)"
  using assms
proof (induction md lines start c rule: scan_lines.induct)
  case (1 md lines start c0)
  let ?c = "see_heading md lines start c0" and ?j = "sc_j c0"
  have inv: "scan_inv md lines start ov c0" and ne: "[] \<notin> set lines"
    using 1 by blast+
  have pos: "sc_bytes c0 > 0 \<longleftrightarrow> start < ?j"
    using inv off_less [OF ne, of start ?j] by (cases "start < ?j") (auto simp: scan_inv_def)
  have le: "?j \<le> length lines" using inv by (simp add: scan_inv_def)
  consider "?j = length lines" | "?j < length lines" "sc_break ?c"
    | "?j < length lines" "\<not> sc_break ?c" "sc_bytes ?c > 0"
        "sc_bytes ?c + length (lines ! ?j) > chunkTargetBytes" "sc_new ?c"
    | "?j < length lines" "\<not> sc_break ?c" "\<not> (sc_bytes ?c > 0
        \<and> sc_bytes ?c + length (lines ! ?j) > chunkTargetBytes \<and> sc_new ?c)"
    using le by (meson le_neq_implies_less)
  then show ?case
  proof cases
    case 1
    then show ?thesis
      using inv "1.prems"(2) by (auto simp: scan_lines.simps [of md lines start c0] scan_inv_def scan_post_def)
  next
    case 2
    then have "scan_lines md lines start c0 = ?c" by (simp add: scan_lines.simps [of md lines start c0])
    then show ?thesis
      using inv 2 by (auto simp: see_heading_def scan_inv_def scan_post_def split: option.splits if_splits)
  next
    case 3
    then have "scan_lines md lines start c0 = ?c" by (simp add: scan_lines.simps [of md lines start c0] Let_def)
    moreover have "?c = c0" "start < ?j"
      using inv 3 pos by (auto simp: see_heading_def scan_inv_def split: option.splits if_splits)
    ultimately show ?thesis
      using inv 3 by (auto simp: scan_inv_def scan_post_def)
  next
    case 4
    let ?c' = "?c\<lparr>sc_bytes := sc_bytes ?c + length (lines ! ?j), sc_new := sc_new ?c \<or> sc_j ?c > start,
        sc_j := sc_j ?c + 1\<rparr>"
    have "off lines start \<le> off lines ?j"
      using inv off_less [OF ne, of start ?j] 4 by (cases "start < ?j") (auto simp: scan_inv_def)
    then have "scan_inv md lines start ov ?c'"
      using inv 4 pos
      by (auto simp: see_heading_def scan_inv_def heading_of_Suc off_Suc split: option.splits if_splits)
    moreover have "scan_lines md lines start c0 = scan_lines md lines start ?c'"
      using 4 by (subst scan_lines.simps) (auto simp: Let_def)
    ultimately show ?thesis using "1.IH" [OF 4(1) refl refl 4(2) 4(3)] "1.prems" by simp
  qed
qed

section \<open>The chunks of a text\<close>

lemma nat_one_plus [simp]: "nat (1 + int a) = Suc a"
  by simp

definition chunk_ok :: "bool \<Rightarrow> bytes list \<Rightarrow> nat \<Rightarrow> chunk \<Rightarrow> bool" where
  "chunk_ok md lines n c \<longleftrightarrow>
     (\<exists>a b. a < b \<and> b \<le> length lines \<and> k_lstart c = int (a + 1) \<and> k_lend c = int b
        \<and> k_bstart c = int (off lines a) \<and> k_bend c = int (off lines b)
        \<and> k_text c = concat (take (b - a) (drop a lines))
        \<and> k_ordinal c = n \<and> k_title c = heading_of md lines (a + 1)
        \<and> (length (k_text c) > chunkTargetBytes \<longrightarrow> b \<le> a + 2))"

text \<open>The next chunk starts after the last one or repeats its last line, and always goes further.\<close>

definition chunk_next :: "chunk \<Rightarrow> chunk \<Rightarrow> bool" where
  "chunk_next c c' \<longleftrightarrow> k_lend c < k_lend c'
     \<and> (k_lstart c' = k_lend c + 1 \<or> k_lstart c' = k_lend c \<and> k_lstart c < k_lstart c')"

lemma heading_of_plain: "heading_of False lines k = []"
proof -
  have "foldl (\<lambda>t l. t) x ls = x" for x :: bytes and ls :: "bytes list" by (induction ls) auto
  then show ?thesis by (simp add: heading_of_def)
qed

lemma off_slice:
  assumes "a \<le> b"
  shows "take (off lines b - off lines a) (drop (off lines a) (concat lines)) = concat (take (b - a) (drop a lines))"
proof -
  have eq: "take b lines = take a lines @ take (b - a) (drop a lines)"
    using assms by (metis le_add_diff_inverse take_add)
  have "concat lines = concat (take a lines) @ concat (take (b - a) (drop a lines)) @ concat (drop b lines)"
    by (metis append.assoc append_take_drop_id concat_append eq)
  moreover have "off lines b = off lines a + length (concat (take (b - a) (drop a lines)))"
    by (simp add: off_def eq)
  ultimately show ?thesis by (simp add: off_def)
qed

definition chunk_run_ok :: "bool \<Rightarrow> bytes list \<Rightarrow> nat \<Rightarrow> nat \<Rightarrow> bool \<Rightarrow> chunk list \<Rightarrow> bool" where
  "chunk_run_ok md lines n i ov cs \<longleftrightarrow>
     cs \<noteq> [] \<and> k_lstart (hd cs) = int (i + 1) \<and> (ov \<longrightarrow> int (i + 1) < k_lend (hd cs))
     \<and> k_lend (last cs) = int (length lines) \<and> successively chunk_next cs
     \<and> (\<forall>k < length cs. chunk_ok md lines (n + k) (cs ! k))"

lemma chunk_run_ok_Cons:
  assumes "chunk_ok md lines n c" and "k_lstart c = int (i + 1)" and "k_lend c = int j"
    and "ov \<longrightarrow> i + 1 < j" and "chunk_run_ok md lines (n + 1) i' ov' cs"
    and "if ov' then i' + 1 = j \<and> i < i' else i' = j"
  shows "chunk_run_ok md lines n i ov (c # cs)"
proof -
  obtain c' cs' where cs: "cs = c' # cs'" using assms(5) by (cases cs) (auto simp: chunk_run_ok_def)
  have "chunk_ok md lines (n + 1) c'" using assms(5) by (auto simp: chunk_run_ok_def cs)
  then have "k_lstart c' \<le> k_lend c'" by (auto simp: chunk_ok_def)
  then have "chunk_next c c'"
    using assms by (auto simp: chunk_run_ok_def chunk_next_def cs split: if_splits)
  then show ?thesis
    using assms by (auto simp: chunk_run_ok_def cs nth_Cons split: nat.splits)
qed

lemma chunk_loop_spec:
  assumes "s = concat lines" and "[] \<notin> set lines"
    and "\<And>k. k \<le> length lines \<Longrightarrow> offsets ! k = off lines k"
    and "i < length lines" and "ov \<longrightarrow> i + 1 < length lines"
    and "t \<in> {heading_of md lines i, heading_of md lines (Suc i)}"
  shows "chunk_run_ok md lines n i ov (chunk_loop md s lines offsets i t n ov)"
  using assms(4-6)
proof (induction "length lines - i" arbitrary: i t n ov rule: less_induct)
  case less
  define c where "c = scan_lines md lines i
      \<lparr>sc_j = i, sc_bytes = 0, sc_new = \<not> ov, sc_title = t, sc_last = t, sc_break = False\<rparr>"
  have post: "scan_post md lines i ov c"
    unfolding c_def using less.prems
    by (intro scan_lines_post [OF _ _ assms(2)]) (auto simp: scan_inv_def)
  let ?ch = "\<lparr>k_ordinal = n, k_bstart = int (offsets ! i), k_bend = int (offsets ! sc_j c),
      k_lstart = int (i + 1), k_lend = int (sc_j c), k_title = (if md then sc_title c else []),
      k_text = take (offsets ! sc_j c - offsets ! i) (drop (offsets ! i) s)\<rparr>"
  have j: "i < sc_j c" "sc_j c \<le> length lines" using post by (auto simp: scan_post_def)
  have ch: "chunk_ok md lines n ?ch"
  proof -
    have offs: "offsets ! i = off lines i" "offsets ! sc_j c = off lines (sc_j c)"
      using j assms(3) by simp_all
    have "off lines (sc_j c) \<le> length s"
      using j off_less [OF assms(2), of "sc_j c" "length lines"] off_all [of lines]
      by (cases "sc_j c = length lines") (auto simp: assms(1))
    then have len: "length (k_text ?ch) = off lines (sc_j c) - off lines i" by (simp add: offs)
    have tx: "k_text ?ch = concat (take (sc_j c - i) (drop i lines))"
      using j off_slice [of i "sc_j c" lines] by (simp add: offs assms(1))
    have title: "k_title ?ch = heading_of md lines (i + 1)"
      using post by (simp add: scan_post_def heading_of_plain)
    have "sc_j c \<le> i + 2" if "length (k_text ?ch) > chunkTargetBytes"
      using that post unfolding len scan_post_def by (auto split: if_splits)
    then show ?thesis
      unfolding chunk_ok_def using j offs tx title
      by (intro exI [of _ i] exI [of _ "sc_j c"] conjI impI) (simp_all only: chunk.simps add.commute)
  qed
  let ?i' = "if \<not> sc_break c \<and> sc_j c - i > 1 then sc_j c - 1 else sc_j c"
  let ?ov' = "\<not> sc_break c \<and> sc_j c - i > 1"
  let ?rest = "chunk_loop md s lines offsets ?i' (sc_last c) (n + 1) ?ov'"
  have loop: "chunk_loop md s lines offsets i t n ov = ?ch # (if sc_j c \<ge> length lines then [] else ?rest)"
    using less.prems(1) j unfolding c_def
    by (subst chunk_loop.simps) (simp add: Let_def)
  show ?case
  proof (cases "sc_j c \<ge> length lines")
    case True
    then show ?thesis
      unfolding loop using ch j less.prems(2) by (auto simp: chunk_run_ok_def)
  next
    case False
    then have "chunk_run_ok md lines (n + 1) ?i' ?ov' ?rest"
      using j post by (intro less.hyps) (auto simp: scan_post_def)
    then have "chunk_run_ok md lines n i ov (?ch # ?rest)"
      using ch j post False by (intro chunk_run_ok_Cons [where j = "sc_j c" and ov' = ?ov']) (auto simp: scan_post_def)
    with False loop show ?thesis by simp
  qed
qed

lemma ChunkText_spec:
  assumes "s \<noteq> []"
  shows "chunk_run_ok md (fst (splitLines s)) 0 0 False (ChunkText s md)"
    and "concat (fst (splitLines s)) = s" and "[] \<notin> set (fst (splitLines s))"
proof -
  obtain lines offsets where sp: "splitLines s = (lines, offsets)" by fastforce
  note spec = splitLines_spec [OF sp]
  show "concat (fst (splitLines s)) = s" "[] \<notin> set (fst (splitLines s))"
    using spec sp by simp_all
  have "lines \<noteq> []" using spec assms by auto
  then have "chunk_run_ok md lines 0 0 False (chunk_loop md s lines offsets 0 [] 0 False)"
    using spec by (intro chunk_loop_spec) auto
  then show "chunk_run_ok md (fst (splitLines s)) 0 0 False (ChunkText s md)"
    using assms by (simp add: ChunkText_def sp)
qed

lemma chunk_ok_bytes:
  assumes "chunk_ok md lines n c" and "concat lines = s" and "[] \<notin> set lines"
  shows "0 \<le> k_bstart c \<and> k_bstart c < k_bend c \<and> k_bend c \<le> int (length s)
    \<and> k_text c = take (nat (k_bend c - k_bstart c)) (drop (nat (k_bstart c)) s)
    \<and> k_bstart c = int (off lines (nat (k_lstart c) - 1)) \<and> k_bend c = int (off lines (nat (k_lend c)))
    \<and> 1 \<le> k_lstart c \<and> k_lstart c \<le> k_lend c \<and> k_lend c \<le> int (length lines)
    \<and> (length (k_text c) > chunkTargetBytes \<longrightarrow> k_lend c \<le> k_lstart c + 1)"
proof -
  from assms(1) obtain a b where ab: "a < b" "b \<le> length lines" "k_lstart c = int (a + 1)"
      "k_lend c = int b" "k_bstart c = int (off lines a)" "k_bend c = int (off lines b)"
      "k_text c = concat (take (b - a) (drop a lines))"
      "length (k_text c) > chunkTargetBytes \<longrightarrow> b \<le> a + 2"
    by (auto simp: chunk_ok_def)
  have "off lines a < off lines b" using ab off_less [OF assms(3)] by simp
  moreover have "off lines b \<le> length s"
    using ab off_less [OF assms(3), of b "length lines"] off_all [of lines] assms(2)
    by (cases "b = length lines") auto
  ultimately show ?thesis
    using ab off_slice [of a b lines] assms(2)
    by (auto simp: nat_diff_distrib)
qed

lemma chunk_run_ok_nth:
  assumes "chunk_run_ok md lines 0 0 False cs" and "Suc k < length cs"
  shows "chunk_next (cs ! k) (cs ! Suc k)"
  using assms by (simp add: chunk_run_ok_def successively_conv_nth)



text \<open>The title of a chunk of a Markdown text is the heading in force on its first
  line, that is the last heading at or before it, although the overlap line and the lines that are
  forced into a chunk make the loop meet headings in other places; other texts have no titles.\<close>

lemma chunk_title_is_section:
  assumes "k < length (ChunkText s md)"
  shows "k_title (ChunkText s md ! k)
    = heading_of md (fst (splitLines s)) (nat (k_lstart (ChunkText s md ! k)))"
proof -
  have "s \<noteq> []" using assms by (auto simp: ChunkText_def)
  from ChunkText_spec(1) [OF this, of md] assms
  have "chunk_ok md (fst (splitLines s)) k (ChunkText s md ! k)" by (simp add: chunk_run_ok_def)
  then show ?thesis by (auto simp: chunk_ok_def)
qed

lemma chunk_title_is_section_witness:
  "k_title (ChunkText ''# A'' True ! 0)
    = heading_of True (fst (splitLines ''# A'')) (nat (k_lstart (ChunkText ''# A'' True ! 0)))"
proof -
  have "0 < length (ChunkText ''# A'' True)" using ChunkText_spec(1) [of "''# A''" True] by (simp add: chunk_run_ok_def)
  then show ?thesis by (rule chunk_title_is_section)
qed

end
