(* ===== verification/Paths.thy ===== *)
theory Paths
  imports Go_Strings Sha256
begin

text \<open>
  Paths: what the program uses of \<open>path/filepath\<close> as built for Unix (the separator is a slash),
  and package \<open>ident\<close> (\<open>ident.go\<close>): folding of canonical paths, the project root of a worktree,
  project and worktree identifiers.  What the file system answers is a parameter; so is
  \<open>runtime.GOOS\<close>, which \<open>Fold\<close> inspects at run time.
\<close>

section \<open>Package filepath\<close>

fun clean_comps :: "bool \<Rightarrow> bytes list \<Rightarrow> bytes list \<Rightarrow> bytes list" where
  "clean_comps rooted stk [] = rev stk"
| "clean_comps rooted stk (c # cs) =
     (if c = [] \<or> c = ''.'' then clean_comps rooted stk cs
      else if c = ''..'' then
        (if stk \<noteq> [] \<and> hd stk \<noteq> ''..'' then clean_comps rooted (tl stk) cs
         else if rooted then clean_comps rooted stk cs
         else clean_comps rooted (c # stk) cs)
      else clean_comps rooted (c # stk) cs)"

abbreviation slash :: char where "slash \<equiv> CHR ''/''"

definition IsAbs :: "bytes \<Rightarrow> bool" where "IsAbs p \<longleftrightarrow> prefix [slash] p"

definition Clean :: "bytes \<Rightarrow> bytes" where
  "Clean p =
     (if p = [] then ''.''
      else let cs = clean_comps (IsAbs p) [] (split_char slash p) in
        if IsAbs p then slash # join [slash] cs
        else if cs = [] then ''.'' else join [slash] cs)"

definition Join :: "bytes list \<Rightarrow> bytes" where
  "Join es = (let ne = filter (\<lambda>e. e \<noteq> []) es in if ne = [] then [] else Clean (join [slash] ne))"

definition Dir :: "bytes \<Rightarrow> bytes" where
  "Dir p = Clean (rev (dropWhile (\<lambda>c. c \<noteq> slash) (rev p)))"

definition Base :: "bytes \<Rightarrow> bytes" where
  "Base p =
     (if p = [] then ''.''
      else let q = rev (takeWhile (\<lambda>c. c \<noteq> slash) (dropWhile (\<lambda>c. c = slash) (rev p)))
        in if q = [] then [slash] else q)"

definition Ext :: "bytes \<Rightarrow> bytes" where
  "Ext p =
     (let b = takeWhile (\<lambda>c. c \<noteq> slash) (rev p); e = takeWhile (\<lambda>c. c \<noteq> CHR ''.'') b in
      if CHR ''.'' \<in> set b then CHR ''.'' # rev e else [])"

text \<open>The components of a cleaned path, and what is left of two lists after their common front.\<close>

definition comps :: "bytes \<Rightarrow> bytes list" where
  "comps p = (let q = (if IsAbs p then tl p else p) in if q = [] then [] else split_char slash q)"

fun strip_common :: "bytes list \<Rightarrow> bytes list \<Rightarrow> bytes list \<times> bytes list" where
  "strip_common (a # as) (b # bs) = (if a = b then strip_common as bs else (a # as, b # bs))"
| "strip_common as bs = (as, bs)"

definition Rel :: "bytes \<Rightarrow> bytes \<Rightarrow> bytes option" where
  "Rel basepath targpath =
     (let base0 = Clean basepath; targ = Clean targpath in
      if targ = base0 then Some ''.''
      else let base = (if base0 = ''.'' then [] else base0) in
        if IsAbs base \<noteq> IsAbs targ then None
        else (case strip_common (comps base) (comps targ) of
            (bs, ts) \<Rightarrow>
              if bs \<noteq> [] \<and> ts \<noteq> [] \<and> hd bs = ''..'' then None
              else Some (join [slash] (replicate (length bs) ''..'' @ ts))))"

section \<open>Normal paths\<close>

text \<open>A component that \<open>Clean\<close> keeps, and the absolute path of a list of them.\<close>

definition normal_comp :: "bytes \<Rightarrow> bool" where
  "normal_comp c \<longleftrightarrow> c \<noteq> [] \<and> c \<noteq> ''.'' \<and> c \<noteq> ''..'' \<and> slash \<notin> set c"

definition abs_path :: "bytes list \<Rightarrow> bytes" where
  "abs_path cs = slash # join [slash] cs"

lemma split_char_no: "c \<notin> set s \<Longrightarrow> split_char c s = [s]"
  by (induction s) auto

lemma split_char_append:
  "c \<notin> set w \<Longrightarrow> split_char c (w @ c # t) = w # split_char c t"
  by (induction w) auto

lemma split_join:
  "cs \<noteq> [] \<Longrightarrow> (\<And>w. w \<in> set cs \<Longrightarrow> c \<notin> set w) \<Longrightarrow> split_char c (join [c] cs) = cs"
proof (induction cs)
  case (Cons w cs)
  then show ?case
    by (cases "cs = []") (auto simp: split_char_no split_char_append join_Cons)
qed simp

lemma split_normal: "list_all normal_comp cs \<Longrightarrow> cs \<noteq> [] \<Longrightarrow> split_char slash (join [slash] cs) = cs"
  by (intro split_join) (auto simp: normal_comp_def list_all_iff)

lemma join_empty: "list_all normal_comp cs \<Longrightarrow> join [slash] cs = [] \<longleftrightarrow> cs = []"
  by (cases cs; cases "tl cs") (auto simp: normal_comp_def join_Cons)

lemma comps_abs_path: "list_all normal_comp cs \<Longrightarrow> comps (abs_path cs) = cs"
  using join_empty [of cs] split_normal [of cs] by (cases "cs = []") (auto simp: comps_def abs_path_def IsAbs_def)

lemma clean_comps_append:
  "list_all normal_comp cs \<Longrightarrow> clean_comps r stk (cs @ xs) = clean_comps r (rev cs @ stk) xs"
  by (induction cs arbitrary: stk) (auto simp: normal_comp_def)

lemma clean_comps_normal: "list_all normal_comp cs \<Longrightarrow> clean_comps r stk cs = rev stk @ cs"
  using clean_comps_append [of cs r stk "[]"] by simp

lemma Clean_abs_path:
  assumes "list_all normal_comp cs"
  shows "Clean (abs_path cs) = abs_path cs"
proof -
  have "clean_comps True [] (split_char slash (abs_path cs)) = cs"
  proof (cases "cs = []")
    case False
    then have "split_char slash (join [slash] cs) = cs" using split_normal assms by blast
    then show ?thesis using assms by (simp add: abs_path_def clean_comps_normal)
  qed (simp add: abs_path_def)
  then show ?thesis by (simp add: Clean_def IsAbs_def abs_path_def)
qed

lemma strip_common_prefix: "fst (strip_common as bs) = [] \<longleftrightarrow> prefix as bs"
  by (induction as bs rule: strip_common.induct) auto

lemma strip_common_same: "strip_common as (as @ bs) = ([], bs)"
  by (induction as) (cases bs; auto)+

lemma takeWhile_slash: "slash \<notin> set w \<Longrightarrow> takeWhile (\<lambda>c. c \<noteq> slash) (w @ slash # t) = w"
  by (induction w) auto

lemma join_first:
  assumes "slash \<notin> set w" and "slash \<notin> set v"
  shows "join [slash] (w # cs) = v \<longleftrightarrow> cs = [] \<and> w = v"
    and "prefix (v @ [slash]) (join [slash] (w # cs)) \<longleftrightarrow> cs \<noteq> [] \<and> w = v"
proof -
  show "join [slash] (w # cs) = v \<longleftrightarrow> cs = [] \<and> w = v"
    using assms by (cases "cs = []") (auto simp: join_Cons)
  show "prefix (v @ [slash]) (join [slash] (w # cs)) \<longleftrightarrow> cs \<noteq> [] \<and> w = v"
  proof
    assume "prefix (v @ [slash]) (join [slash] (w # cs))"
    then obtain t where t: "join [slash] (w # cs) = v @ slash # t" by (auto simp: prefix_def)
    then have "cs \<noteq> []" using assms(1) by (cases cs) auto
    then have "w @ slash # join [slash] cs = v @ slash # t" using t by (simp add: join_Cons)
    then show "cs \<noteq> [] \<and> w = v"
      using \<open>cs \<noteq> []\<close> takeWhile_slash [OF assms(1)] takeWhile_slash [OF assms(2)] by metis
  qed (auto simp: join_Cons prefix_def)
qed

section \<open>Package ident\<close>

datatype goos = Windows | Darwin | OtherOS

definition to_lower :: "(rune \<Rightarrow> rune) \<Rightarrow> bytes \<Rightarrow> bytes" where
  "to_lower lower s = string_of_runes (map lower (runes s))"

definition Fold :: "goos \<Rightarrow> (rune \<Rightarrow> rune) \<Rightarrow> bytes \<Rightarrow> bytes" where
  "Fold os lower p0 =
     (let p1 = (if prefix [CHR 0x5C, CHR 0x5C, CHR ''?'', CHR 0x5C] p0 then drop 4 p0
                else if prefix ''//?/'' p0 then drop 4 p0 else p0);
          p2 = (if prefix (''UNC'' @ [CHR 0x5C]) p1 \<or> prefix ''UNC/'' p1
                then [CHR 0x5C, CHR 0x5C] @ drop 4 p1 else p1);
          p3 = (if os = Windows then replace_char (CHR 0x5C) ''/'' p2 else p2)
      in if os = Windows \<or> os = Darwin then to_lower lower p3 else p3)"

text \<open>What \<open>ident\<close> asks the file system: the absolute form of a path, its real path, whether
  something is there and is a directory, the content of a file.\<close>

record path_fs =
  d_abs :: "bytes \<Rightarrow> bytes option"
  d_real :: "bytes \<Rightarrow> bytes option"
  d_stat :: "bytes \<Rightarrow> bool option"
  d_read :: "bytes \<Rightarrow> bytes option"

definition git_pointer :: "path_fs \<Rightarrow> bytes \<Rightarrow> go_error + (bytes \<times> bool)" where
  "git_pointer fs dir =
     (case d_read fs (Join [dir, ''.git'']) of
        None \<Rightarrow> Inl (ErrOther ''canonicalize'')
      | Some b \<Rightarrow>
          let gd0 = trim_space (trim_prefix ''gitdir:'' (trim_space b));
              gd = (if IsAbs gd0 then gd0 else Join [dir, gd0])
          in (case d_read fs (Join [gd, ''commondir'']) of
                None \<Rightarrow> Inr (dir, True)
              | Some cb \<Rightarrow>
                  let c0 = trim_space cb; common = (if IsAbs c0 then c0 else Join [gd, c0]) in
                  (case d_real fs common of
                     None \<Rightarrow> Inl (ErrOther ''canonicalize'')
                   | Some r \<Rightarrow> Inr (Dir r, True))))"

text \<open>The upward search; \<open>None\<close> would be a search that does not end.\<close>

partial_function (option) findGitProjectRoot :: "path_fs \<Rightarrow> bytes \<Rightarrow> (go_error + (bytes \<times> bool)) option" where
  "findGitProjectRoot fs dir =
     (case d_stat fs (Join [dir, ''.git'']) of
        Some isdir \<Rightarrow> Some (if isdir then Inr (dir, True) else git_pointer fs dir)
      | None \<Rightarrow>
          if Dir dir = dir then Some (Inr ([], False)) else findGitProjectRoot fs (Dir dir))"

declare findGitProjectRoot.simps [code]

fun slug_loop :: "bool \<Rightarrow> bytes \<Rightarrow> bytes" where
  "slug_loop run [] = []"
| "slug_loop run (c # cs) =
     (if is_lower c \<or> is_digit c then c # slug_loop False cs
      else if run then slug_loop True cs else CHR ''-'' # slug_loop True cs)"

definition trim_dashes :: "bytes \<Rightarrow> bytes" where
  "trim_dashes s = rev (dropWhile (\<lambda>c. c = CHR ''-'') (rev (dropWhile (\<lambda>c. c = CHR ''-'') s)))"

definition ident_id :: "(rune \<Rightarrow> rune) \<Rightarrow> bytes \<Rightarrow> bytes" where
  "ident_id lower canonical =
     (let b0 = trim_dashes (slug_loop False (to_lower lower (Base canonical)));
          b1 = (if b0 = [] then ''root'' else b0)
      in take 32 b1 @ ''-'' @ take 12 (sha256_hex canonical))"

record canon =
  project_root :: bytes
  worktree_root :: bytes
  project_id :: bytes
  worktree_id :: bytes

definition Canonicalize :: "path_fs \<Rightarrow> goos \<Rightarrow> (rune \<Rightarrow> rune) \<Rightarrow> bytes \<Rightarrow> (go_error + canon) option" where
  "Canonicalize fs os lower root =
     (case Option.bind (d_abs fs root) (d_real fs) of
        None \<Rightarrow> Some (Inl (ErrOther ''canonicalize''))
      | Some real \<Rightarrow>
          let worktree = Fold os lower real in
          map_option (\<lambda>found. case found of
              Inl e \<Rightarrow> Inl e
            | Inr (pr, ok) \<Rightarrow>
                let project = (if ok then Fold os lower pr else worktree) in
                Inr \<lparr>project_root = project, worktree_root = worktree,
                     project_id = ident_id lower project, worktree_id = ident_id lower worktree\<rparr>)
            (findGitProjectRoot fs real))"

section \<open>The project root\<close>

lemma join_snoc: "join [slash] (ds @ [d]) = (if ds = [] then d else join [slash] ds @ slash # d)"
  by (induction ds) (auto simp: join_Cons)

lemma Dir_abs_path:
  assumes "list_all normal_comp cs"
  shows "Dir (abs_path cs) = abs_path (butlast cs)"
proof (cases cs rule: rev_cases)
  case Nil
  then show ?thesis by (simp add: Dir_def abs_path_def Clean_def IsAbs_def)
next
  case (snoc ds d)
  then have d: "slash \<notin> set d" and ds: "list_all normal_comp ds" using assms by (auto simp: normal_comp_def)
  have tail: "rev (dropWhile (\<lambda>c. c \<noteq> slash) (rev (p @ slash # d))) = p @ [slash]" for p
    using d by (simp add: dropWhile_append3 dropWhile_eq_Nil_conv dropWhile_append)
  show ?thesis
  proof (cases "ds = []")
    case True
    then show ?thesis using tail [of "[]"] snoc by (simp add: Dir_def abs_path_def Clean_def IsAbs_def)
  next
    case False
    have "split_char slash (join [slash] ds @ [slash]) = ds @ [[]]"
      using split_join [of "ds @ [[]]" slash] ds False
      by (simp add: join_snoc normal_comp_def list_all_iff) (metis empty_iff empty_set)
    then have "Clean (abs_path ds @ [slash]) = abs_path ds"
      using ds by (simp add: Clean_def IsAbs_def abs_path_def clean_comps_append)
    then show ?thesis using tail [of "abs_path ds"] snoc False by (simp add: Dir_def abs_path_def join_snoc)
  qed
qed

text \<open>The declarative reading of the search: the nearest ancestor with a \<open>.git\<close> entry.\<close>

definition git_at :: "path_fs \<Rightarrow> bytes list \<Rightarrow> bool option" where
  "git_at fs cs = d_stat fs (Join [abs_path cs, ''.git''])"

definition nearest_git :: "path_fs \<Rightarrow> bytes list \<Rightarrow> nat option" where
  "nearest_git fs cs = find (\<lambda>k. git_at fs (take k cs) \<noteq> None) (rev [0..<Suc (length cs)])"

text \<open>From the canonical path of a directory the search for the project root ends,
  at the nearest ancestor (the directory itself included) with a \<open>.git\<close> entry: that ancestor when
  the entry is a directory, what the entry points to when it is a file, nothing when there is
  none up to the root.\<close>

lemma project_root_is_nearest:
  assumes "list_all normal_comp cs"
  shows "findGitProjectRoot fs (abs_path cs) = Some (case nearest_git fs cs of
      None \<Rightarrow> Inr ([], False)
    | Some k \<Rightarrow> (if git_at fs (take k cs) = Some True then Inr (abs_path (take k cs), True)
                 else git_pointer fs (abs_path (take k cs))))"
  using assms
proof (induction cs rule: rev_induct)
  case Nil
  have "Dir (abs_path []) = abs_path []" by (simp add: Dir_abs_path)
  then show ?case
    by (subst findGitProjectRoot.simps) (auto simp: nearest_git_def git_at_def split: option.splits)
next
  case (snoc c cs)
  then have n: "list_all normal_comp (cs @ [c])" and IH: "findGitProjectRoot fs (abs_path cs) =
      Some (case nearest_git fs cs of None \<Rightarrow> Inr ([], False)
        | Some k \<Rightarrow> (if git_at fs (take k cs) = Some True then Inr (abs_path (take k cs), True)
                     else git_pointer fs (abs_path (take k cs))))"
    by simp_all
  have up: "Dir (abs_path (cs @ [c])) = abs_path cs" using Dir_abs_path [OF n] by simp
  have "comps (abs_path (cs @ [c])) \<noteq> comps (abs_path cs)"
    using comps_abs_path [OF n] comps_abs_path [of cs] snoc.prems by simp
  then have neq: "abs_path cs \<noteq> abs_path (cs @ [c])" by metis
  have near: "nearest_git fs (cs @ [c]) =
      (if git_at fs (cs @ [c]) \<noteq> None then Some (Suc (length cs)) else nearest_git fs cs)"
  proof -
    have "find (\<lambda>k. git_at fs (take k (cs @ [c])) \<noteq> None) (rev [0..<Suc (length cs)]) = nearest_git fs cs"
      unfolding nearest_git_def by (rule find_cong) auto
    then show ?thesis by (simp add: nearest_git_def)
  qed
  have bound: "take k (cs @ [c]) = take k cs" if "nearest_git fs cs = Some k" for k
  proof -
    have "k \<in> set (rev [0..<Suc (length cs)])"
      using that unfolding nearest_git_def find_Some_iff by (metis nth_mem)
    then show ?thesis by auto
  qed
  show ?case
    using up neq near IH bound
    by (subst findGitProjectRoot.simps) (auto simp: git_at_def split: option.splits)
qed

definition demo_fs :: path_fs where
  "demo_fs = \<lparr>d_abs = Some, d_real = Some,
     d_stat = (\<lambda>p. if p = ''/a/.git'' then Some True else None), d_read = (\<lambda>p. None)\<rparr>"

lemma project_root_is_nearest_witness:
  "findGitProjectRoot demo_fs ''/a/b'' = Some (Inr (''/a'', True))"
proof -
  have n: "list_all normal_comp [''a'', ''b'']" by (simp add: normal_comp_def)
  have "nearest_git demo_fs [''a'', ''b''] = Some 1"
    by (simp add: nearest_git_def git_at_def Join_def Clean_def IsAbs_def abs_path_def demo_fs_def
        upt_rec [of 0 "Suc (Suc (Suc 0))"] upt_rec [of "Suc 0"] upt_rec [of "Suc (Suc 0)"]) blast
  then show ?thesis
    using project_root_is_nearest [OF n, of demo_fs]
    by (simp add: git_at_def Join_def Clean_def IsAbs_def abs_path_def demo_fs_def)
qed

end
