(* ===== verification/Ingest_Files.thy ===== *)
theory Ingest_Files
  imports Paths
begin

text \<open>
  Which files are ingested (\<open>ingest.go\<close>): glob matching, the secret file names, the binary test,
  the workspace boundary and the collection of a directory tree.  The answers of the file system
  are parameters.
\<close>

section \<open>\<open>filepath.Match\<close>\<close>

text \<open>Only whether the name matches is modelled, the program ignores the error of a malformed
  pattern, with which \<open>Match\<close> never reports a match.  The pattern up to the next star outside
  brackets:\<close>

fun scan_chunk :: "bool \<Rightarrow> bytes \<Rightarrow> bytes \<times> bytes" where
  "scan_chunk inrange [] = ([], [])"
| "scan_chunk inrange [c] = (if c = CHR ''*'' \<and> \<not> inrange then ([], [c]) else ([c], []))"
| "scan_chunk inrange (c # d # p) =
     (if c = CHR ''*'' \<and> \<not> inrange then ([], c # d # p)
      else if c = CHR 0x5C then (let (a, b) = scan_chunk inrange p in (c # d # a, b))
      else let (a, b) = scan_chunk (c = CHR ''['' \<or> inrange \<and> c \<noteq> CHR '']'') (d # p) in (c # a, b))"

definition get_esc :: "bytes \<Rightarrow> (rune \<times> bytes) option" where
  "get_esc chunk =
     (if chunk = [] \<or> hd chunk = CHR ''-'' \<or> hd chunk = CHR '']'' then None
      else let ch = (if hd chunk = CHR 0x5C then tl chunk else chunk); d = decode_rune ch in
        if ch = [] \<or> bad_rune d \<or> drop (snd d) ch = [] then None
        else Some (fst d, drop (snd d) ch))"

lemma get_esc_shorter: "get_esc ch = Some (r, rest) \<Longrightarrow> length rest < length ch \<and> rest \<noteq> []"
  using decode_rune_width_pos [of ch] decode_rune_width_pos [of "tl ch"]
  by (cases ch) (auto simp: get_esc_def Let_def split: if_splits)

text \<open>The ranges of a character class: whether one holds the rune, and what follows the bracket.\<close>

function match_ranges :: "rune \<Rightarrow> bool \<Rightarrow> bool \<Rightarrow> bytes \<Rightarrow> (bool \<times> bytes) option" where
  "match_ranges r seen matched ch =
     (if ch \<noteq> [] \<and> hd ch = CHR '']'' \<and> seen then Some (matched, tl ch)
      else (case get_esc ch of
          None \<Rightarrow> None
        | Some (lo, ch1) \<Rightarrow>
            if hd ch1 = CHR ''-'' then
              (case get_esc (tl ch1) of
                 None \<Rightarrow> None
               | Some (hi, ch2) \<Rightarrow> match_ranges r True (matched \<or> lo \<le> r \<and> r \<le> hi) ch2)
            else match_ranges r True (matched \<or> r = lo) ch1))"
  by pat_completeness auto
termination
  by (relation "measure (\<lambda>(r, seen, matched, ch). length ch)") (auto dest!: get_esc_shorter)

declare match_ranges.simps [simp del]

lemma match_ranges_shorter:
  "match_ranges r seen m ch = Some (m', rest) \<Longrightarrow> length rest < length ch"
  by (induction r seen m ch rule: match_ranges.induct)
     (subst (asm) (3) match_ranges.simps,
      auto split: if_splits option.splits dest!: get_esc_shorter, fastforce+)

text \<open>Matching a chunk without stars at the front of a string: the rest of the string.\<close>

function match_chunk :: "bytes \<Rightarrow> bytes \<Rightarrow> bytes option" where
  "match_chunk [] s = Some s"
| "match_chunk (c # ch) s =
     (if s = [] then None
      else if c = CHR ''['' then
        (let d = decode_rune s; neg = (ch \<noteq> [] \<and> hd ch = CHR ''^'') in
         case match_ranges (fst d) False False (if neg then tl ch else ch) of
           None \<Rightarrow> None
         | Some (m, rest) \<Rightarrow> if m = neg then None else match_chunk rest (drop (snd d) s))
      else if c = CHR ''?'' then
        (if hd s = slash then None else match_chunk ch (drop (snd (decode_rune s)) s))
      else if c = CHR 0x5C then
        (case ch of [] \<Rightarrow> None
         | e # ch' \<Rightarrow> if e = hd s then match_chunk ch' (tl s) else None)
      else if c = hd s then match_chunk ch (tl s) else None)"
  by pat_completeness auto
termination
  by (relation "measure (\<lambda>(ch, s). length ch)")
     (auto dest!: match_ranges_shorter split: if_splits)

text \<open>The leftmost place after a star where the chunk matches; the last chunk has to use up the
  name.\<close>

fun star_place :: "bool \<Rightarrow> bytes \<Rightarrow> bytes \<Rightarrow> bytes option" where
  "star_place lastp ch [] = None"
| "star_place lastp ch (c # s) =
     (if c = slash then None
      else (case match_chunk ch s of
          Some t \<Rightarrow> if lastp \<and> t \<noteq> [] then star_place lastp ch s else Some t
        | None \<Rightarrow> star_place lastp ch s))"

lemma scan_chunk_append: "fst (scan_chunk b p) @ snd (scan_chunk b p) = p"
  by (induction b p rule: scan_chunk.induct) (auto simp: split_beta Let_def)

lemma scan_chunk_shorter:
  assumes "pat \<noteq> []" and "\<not> (hd pat = CHR ''*'' \<and> fst (scan_chunk False (dropWhile (\<lambda>c. c = CHR ''*'') pat)) = [])"
  shows "length (snd (scan_chunk False (dropWhile (\<lambda>c. c = CHR ''*'') pat))) < length pat"
proof -
  let ?p = "dropWhile (\<lambda>c. c = CHR ''*'') pat"
  have len: "length (fst (scan_chunk False ?p)) + length (snd (scan_chunk False ?p)) = length ?p"
    using scan_chunk_append [of False ?p] by (metis length_append)
  have le: "length ?p \<le> length pat" by (rule length_dropWhile_le)
  show ?thesis
  proof (cases "hd pat = CHR ''*''")
    case True
    with assms len le show ?thesis by (cases "fst (scan_chunk False ?p)") auto
  next
    case False
    then obtain c q where pat: "pat = c # q" "c \<noteq> CHR ''*''" using assms(1) by (cases pat) auto
    then have "fst (scan_chunk False ?p) \<noteq> []"
      by (cases q) (auto simp: split_beta Let_def)
    with len le show ?thesis by (cases "fst (scan_chunk False ?p)") auto
  qed
qed

function glob_match :: "bytes \<Rightarrow> bytes \<Rightarrow> bool" where
  "glob_match pat name =
     (if pat = [] then name = []
      else let star = (hd pat = CHR ''*''); p = dropWhile (\<lambda>c. c = CHR ''*'') pat;
               ch = fst (scan_chunk False p); rest = snd (scan_chunk False p) in
        if star \<and> ch = [] then slash \<notin> set name
        else (case match_chunk ch name of
            Some t \<Rightarrow>
              if t = [] \<or> rest \<noteq> [] then glob_match rest t
              else if star then
                (case star_place (rest = []) ch name of Some u \<Rightarrow> glob_match rest u | None \<Rightarrow> False)
              else False
          | None \<Rightarrow>
              if star then
                (case star_place (rest = []) ch name of Some u \<Rightarrow> glob_match rest u | None \<Rightarrow> False)
              else False))"
  by pat_completeness auto
termination
  by (relation "measure (\<lambda>(pat, name). length pat)") (auto simp: scan_chunk_shorter)

declare glob_match.simps [simp del]

definition globMatchAny :: "bytes list \<Rightarrow> bytes \<Rightarrow> bool" where
  "globMatchAny pats name \<longleftrightarrow> list_ex (\<lambda>g. glob_match g name) pats"

section \<open>Secret file names and binary content\<close>

definition denyGlobs :: "bytes list" where
  "denyGlobs =
    [''.env*'', ''*.pem'', ''*.key'', ''id_rsa*'', ''id_ed25519*'', ''*.pfx'', ''*.p12'', ''*.kdbx'',
     ''credentials*'', ''*.tfstate'', ''.netrc'', ''.npmrc'', ''*.har'', ''*.jks'', ''*.p8'', ''kubeconfig*'']"

definition DeniedFilename :: "bytes \<Rightarrow> bool" where
  "DeniedFilename path \<longleftrightarrow>
     globMatchAny denyGlobs (Base path)
     \<or> path = ''.docker/config.json'' \<or> suffix ''/.docker/config.json'' path"

definition IsBinary :: "bytes \<Rightarrow> bool" where
  "IsBinary b \<longleftrightarrow> (if CHR 0x00 \<in> set (take 8192 b) then True else \<not> utf8_valid b)"

definition isMarkdownExt :: "(rune \<Rightarrow> rune) \<Rightarrow> bytes \<Rightarrow> bool" where
  "isMarkdownExt lower name \<longleftrightarrow>
     to_lower lower (Ext name) = ''.md'' \<or> to_lower lower (Ext name) = ''.markdown''"

text \<open>Globs made of a literal with a star before or after it.\<close>

definition plain_glob :: "bytes \<Rightarrow> bool" where
  "plain_glob l \<longleftrightarrow> l \<noteq> [] \<and> CHR ''*'' \<notin> set l \<and> CHR ''?'' \<notin> set l \<and> CHR ''['' \<notin> set l \<and> CHR 0x5C \<notin> set l"

lemma scan_chunk_Cons:
  "c \<noteq> CHR ''*'' \<Longrightarrow> c \<noteq> CHR ''['' \<Longrightarrow> c \<noteq> CHR 0x5C \<Longrightarrow>
     scan_chunk False (c # p) = (c # fst (scan_chunk False p), snd (scan_chunk False p))"
  by (cases p) (auto simp: split_beta Let_def)

lemma scan_chunk_star: "scan_chunk False (CHR ''*'' # p) = ([], CHR ''*'' # p)"
  by (cases p) auto

lemma scan_chunk_lit:
  assumes "\<forall>c \<in> set l. c \<noteq> CHR ''*'' \<and> c \<noteq> CHR ''['' \<and> c \<noteq> CHR 0x5C" and "rest = [] \<or> hd rest = CHR ''*''"
  shows "scan_chunk False (l @ rest) = (l, rest)"
  using assms(1)
proof (induction l)
  case Nil
  then show ?case using assms(2) scan_chunk_star [of "tl rest"] by (cases rest) auto
qed (simp add: scan_chunk_Cons)

lemma match_chunk_lit:
  "\<forall>c \<in> set l. c \<noteq> CHR ''?'' \<and> c \<noteq> CHR ''['' \<and> c \<noteq> CHR 0x5C \<Longrightarrow>
     match_chunk l s = (if prefix l s then Some (drop (length l) s) else None)"
proof (induction l arbitrary: s)
  case (Cons c l)
  then have c: "c \<noteq> CHR ''?''" "c \<noteq> CHR ''[''" "c \<noteq> CHR 0x5C" and
    IH: "\<And>s. match_chunk l s = (if prefix l s then Some (drop (length l) s) else None)"
    by simp_all
  show ?case by (cases s) (simp_all add: c IH)
qed simp

lemma plain_globD:
  assumes "plain_glob l"
  shows "scan_chunk False l = (l, [])" and "scan_chunk False (l @ ''*'') = (l, ''*'')"
    and "match_chunk l s = (if prefix l s then Some (drop (length l) s) else None)"
    and "hd l \<noteq> CHR ''*''" and "dropWhile (\<lambda>c. c = CHR ''*'') (l @ p) = l @ p" and "l \<noteq> []"
proof -
  have sp: "c \<noteq> CHR ''*'' \<and> c \<noteq> CHR ''?'' \<and> c \<noteq> CHR ''['' \<and> c \<noteq> CHR 0x5C" if "c \<in> set l" for c
    using assms that unfolding plain_glob_def by blast
  show "scan_chunk False l = (l, [])" using sp scan_chunk_lit [of l "[]"] by simp
  show "scan_chunk False (l @ ''*'') = (l, ''*'')" using sp by (intro scan_chunk_lit) simp_all
  show "match_chunk l s = (if prefix l s then Some (drop (length l) s) else None)"
    using sp by (intro match_chunk_lit) blast
  show ne: "l \<noteq> []" using assms by (simp add: plain_glob_def)
  then show hd: "hd l \<noteq> CHR ''*''" using sp by simp
  show "dropWhile (\<lambda>c. c = CHR ''*'') (l @ p) = l @ p" using ne hd by (cases l) auto
qed

lemma glob_exact:
  assumes "plain_glob l"
  shows "glob_match l name \<longleftrightarrow> name = l"
  using plain_globD [OF assms] plain_globD(5) [OF assms, of "[]"] assms
  by (subst glob_match.simps) (auto simp: plain_glob_def glob_match.simps [of "[]"] prefix_def)

lemma glob_prefix:
  assumes "plain_glob l"
  shows "glob_match (l @ ''*'') name \<longleftrightarrow> prefix l name \<and> slash \<notin> set (drop (length l) name)"
proof -
  have "glob_match ''*'' t \<longleftrightarrow> slash \<notin> set t" for t
    by (subst glob_match.simps) simp
  moreover have "hd (l @ ''*'') \<noteq> CHR ''*''" "l \<noteq> []"
    using plain_globD(4) [OF assms] assms by (auto simp: plain_glob_def)
  ultimately show ?thesis
    using plain_globD [OF assms] by (subst glob_match.simps) (auto simp: Let_def)
qed

lemma star_place_lit:
  assumes "plain_glob l"
  shows "star_place True l s = Some t \<longleftrightarrow>
    t = [] \<and> (\<exists>u. u \<noteq> [] \<and> s = u @ l \<and> slash \<notin> set u)"
proof (induction s)
  case (Cons c s)
  have shift: "(\<exists>u. u \<noteq> [] \<and> c # s = u @ l \<and> slash \<notin> set u) \<longleftrightarrow>
      c \<noteq> slash \<and> (s = l \<or> (\<exists>u. u \<noteq> [] \<and> s = u @ l \<and> slash \<notin> set u))"
    by (auto simp: Cons_eq_append_conv)
  show ?case
    unfolding shift using Cons plain_globD(3) [OF assms, of s]
    by (auto simp: prefix_def)
qed simp

lemma glob_suffix:
  assumes "plain_glob l"
  shows "glob_match (CHR ''*'' # l) name \<longleftrightarrow> (\<exists>u. name = u @ l \<and> slash \<notin> set u)"
proof -
  let ?P = "\<exists>u. u \<noteq> [] \<and> name = u @ l \<and> slash \<notin> set u"
  note l = plain_globD [OF assms] plain_globD(5) [OF assms, of "[]", simplified]
  have empty: "glob_match [] t \<longleftrightarrow> t = []" for t by (subst glob_match.simps) simp
  have place: "star_place True l name = (if ?P then Some [] else None)"
    using star_place_lit [OF assms, of name] by (cases "star_place True l name") auto
  have "glob_match (CHR ''*'' # l) name \<longleftrightarrow> name = l \<or> ?P"
    using l(1,6,7) empty by (subst glob_match.simps) (auto simp: Let_def l(3) place prefix_def)
  then show ?thesis by auto
qed

lemma Base_cases: "slash \<notin> set (Base p) \<or> Base p = ''/''"
  using set_takeWhileD [of slash "\<lambda>c. c \<noteq> slash" "dropWhile (\<lambda>c. c = slash) (rev p)"]
  by (auto simp: Base_def Let_def)

lemma glob_prefix_base:
  assumes "plain_glob l" and "slash \<notin> set l"
  shows "glob_match (l @ ''*'') (Base p) \<longleftrightarrow> prefix l (Base p)"
  using Base_cases [of p] assms glob_prefix [OF assms(1), of "Base p"] set_drop_subset [of "length l" "Base p"]
  by (auto simp: plain_glob_def prefix_Cons)

lemma glob_suffix_base:
  assumes "plain_glob l" and "slash \<notin> set l"
  shows "glob_match (CHR ''*'' # l) (Base p) \<longleftrightarrow> suffix l (Base p)"
proof -
  have "(\<exists>u. Base p = u @ l \<and> slash \<notin> set u) \<longleftrightarrow> suffix l (Base p)"
    using Base_cases [of p]
  proof
    assume "Base p = ''/''"
    moreover have "l \<noteq> []" using assms(1) by (simp add: plain_glob_def)
    ultimately show ?thesis using assms(2) by (auto simp: suffix_def Cons_eq_append_conv)
  qed (auto simp: suffix_def)
  then show ?thesis using glob_suffix [OF assms(1)] by simp
qed

lemma denied_filename_iff:
  "DeniedFilename path \<longleftrightarrow>
     list_ex (\<lambda>l. prefix l (Base path)) [''.env'', ''id_rsa'', ''id_ed25519'', ''credentials'', ''kubeconfig'']
     \<or> list_ex (\<lambda>l. suffix l (Base path))
         [''.pem'', ''.key'', ''.pfx'', ''.p12'', ''.kdbx'', ''.tfstate'', ''.har'', ''.jks'', ''.p8'']
     \<or> Base path = ''.netrc'' \<or> Base path = ''.npmrc''
     \<or> path = ''.docker/config.json'' \<or> suffix ''/.docker/config.json'' path"
proof -
  have pre: "list_ex (\<lambda>g. glob_match g (Base path)) (map (\<lambda>l. l @ ''*'') ls) \<longleftrightarrow> list_ex (\<lambda>l. prefix l (Base path)) ls"
    if "list_all (\<lambda>l. plain_glob l \<and> slash \<notin> set l) ls" for ls
    using that glob_prefix_base by (induction ls) auto
  have suf: "list_ex (\<lambda>g. glob_match g (Base path)) (map (Cons (CHR ''*'')) ls) \<longleftrightarrow> list_ex (\<lambda>l. suffix l (Base path)) ls"
    if "list_all (\<lambda>l. plain_glob l \<and> slash \<notin> set l) ls" for ls
    using that glob_suffix_base by (induction ls) auto
  have ex: "list_ex (\<lambda>g. glob_match g (Base path)) ls \<longleftrightarrow> list_ex (\<lambda>l. Base path = l) ls"
    if "list_all plain_glob ls" for ls
    using that glob_exact by (induction ls) auto
  have globs: "denyGlobs = map (\<lambda>l. l @ ''*'') [''.env''] @ map (Cons (CHR ''*'')) [''.pem'', ''.key'']
      @ map (\<lambda>l. l @ ''*'') [''id_rsa'', ''id_ed25519''] @ map (Cons (CHR ''*'')) [''.pfx'', ''.p12'', ''.kdbx'']
      @ map (\<lambda>l. l @ ''*'') [''credentials''] @ map (Cons (CHR ''*'')) [''.tfstate''] @ [''.netrc'', ''.npmrc'']
      @ map (Cons (CHR ''*'')) [''.har'', ''.jks'', ''.p8''] @ map (\<lambda>l. l @ ''*'') [''kubeconfig'']"
    by (simp add: denyGlobs_def)
  note plain = plain_glob_def list.pred_inject
  have "globMatchAny denyGlobs (Base path) \<longleftrightarrow>
      (list_ex (\<lambda>l. prefix l (Base path)) [''.env''] \<or> list_ex (\<lambda>l. suffix l (Base path)) [''.pem'', ''.key'']
      \<or> list_ex (\<lambda>l. prefix l (Base path)) [''id_rsa'', ''id_ed25519'']
      \<or> list_ex (\<lambda>l. suffix l (Base path)) [''.pfx'', ''.p12'', ''.kdbx'']
      \<or> list_ex (\<lambda>l. prefix l (Base path)) [''credentials''] \<or> list_ex (\<lambda>l. suffix l (Base path)) [''.tfstate'']
      \<or> list_ex (\<lambda>l. Base path = l) [''.netrc'', ''.npmrc'']
      \<or> list_ex (\<lambda>l. suffix l (Base path)) [''.har'', ''.jks'', ''.p8'']
      \<or> list_ex (\<lambda>l. prefix l (Base path)) [''kubeconfig''])"
    unfolding globMatchAny_def globs list_ex_append
    by (intro arg_cong2 [where f = "(\<or>)"] pre suf ex) (simp_all add: plain)
  then show ?thesis
    unfolding DeniedFilename_def by (simp only: list_ex_Nil_iff list_ex_Cons_iff simp_thms) blast
qed

text \<open>The file names that are never ingested, in plain words: by their beginning,
  their ending, their whole base name, or the Docker configuration file in any directory.\<close>

lemma denied_filename_list:
  "DeniedFilename path \<longleftrightarrow>
     list_ex (\<lambda>l. prefix l (Base path)) [''.env'', ''id_rsa'', ''id_ed25519'', ''credentials'', ''kubeconfig'']
     \<or> list_ex (\<lambda>l. suffix l (Base path))
         [''.pem'', ''.key'', ''.pfx'', ''.p12'', ''.kdbx'', ''.tfstate'', ''.har'', ''.jks'', ''.p8'']
     \<or> Base path = ''.netrc'' \<or> Base path = ''.npmrc''
     \<or> path = ''.docker/config.json'' \<or> suffix ''/.docker/config.json'' path"
  by (rule denied_filename_iff)

section \<open>The workspace boundary\<close>

definition withinRoot :: "goos \<Rightarrow> (rune \<Rightarrow> rune) \<Rightarrow> bytes \<Rightarrow> bytes \<Rightarrow> bool" where
  "withinRoot os lower foldedRoot real =
     (case Rel foldedRoot (Fold os lower real) of
        None \<Rightarrow> False
      | Some rel \<Rightarrow> rel \<noteq> ''..'' \<and> \<not> prefix ''../'' rel)"

definition withinAny :: "goos \<Rightarrow> (rune \<Rightarrow> rune) \<Rightarrow> bytes list \<Rightarrow> bytes \<Rightarrow> bool" where
  "withinAny os lower roots real \<longleftrightarrow> list_ex (\<lambda>r. withinRoot os lower r real) roots"

definition relDisplay :: "bytes \<Rightarrow> bytes \<Rightarrow> bytes" where
  "relDisplay root p = (case Rel root p of None \<Rightarrow> Base p | Some rel \<Rightarrow> rel)"

lemma Rel_abs_path:
  assumes "list_all normal_comp rs" and "list_all normal_comp ps"
  shows "Rel (abs_path rs) (abs_path ps) =
    (if rs = ps then Some ''.''
     else case strip_common rs ps of (bs, ts) \<Rightarrow> Some (join [slash] (replicate (length bs) ''..'' @ ts)))"
proof -
  have inj: "abs_path ps = abs_path rs \<longleftrightarrow> ps = rs"
    using comps_abs_path [OF assms(1)] comps_abs_path [OF assms(2)] by metis
  have "IsAbs (abs_path cs)" "abs_path cs \<noteq> ''.''" for cs by (auto simp: IsAbs_def abs_path_def)
  moreover have "fst (strip_common rs ps) \<noteq> [] \<Longrightarrow> hd (fst (strip_common rs ps)) \<noteq> ''..''"
    using assms(1) by (induction rs ps rule: strip_common.induct) (auto simp: normal_comp_def neq_Nil_conv split: if_splits)
  ultimately show ?thesis
    using assms inj by (auto simp: Rel_def Let_def Clean_abs_path comps_abs_path split: prod.splits)
qed

lemma withinRoot_prefix:
  assumes "list_all normal_comp rs" and "list_all normal_comp ps"
    and "Fold os lower real = abs_path ps"
  shows "withinRoot os lower (abs_path rs) real \<longleftrightarrow> prefix rs ps"
proof (cases "rs = ps")
  case True
  then show ?thesis using Rel_abs_path [OF assms(1,2)] assms(3) by (simp add: withinRoot_def)
next
  case False
  obtain bs ts where st: "strip_common rs ps = (bs, ts)" by fastforce
  have bs: "bs = [] \<longleftrightarrow> prefix rs ps" using strip_common_prefix [of rs ps] st by simp
  have ts: "list_all normal_comp ts"
    using assms(2) st by (induction rs ps arbitrary: bs ts rule: strip_common.induct) (auto split: if_splits)
  have rel: "Rel (abs_path rs) (abs_path ps) = Some (join [slash] (replicate (length bs) ''..'' @ ts))"
    using Rel_abs_path [OF assms(1,2)] False st by simp
  show ?thesis
  proof (cases bs)
    case Nil
    then have "ts \<noteq> []" using st False by (induction rs ps rule: strip_common.induct) (auto split: if_splits)
    then obtain t ts' where t: "ts = t # ts'" "slash \<notin> set t" "t \<noteq> ''..''"
      using ts by (cases ts) (auto simp: normal_comp_def)
    then show ?thesis
      using rel Nil bs assms(3) join_first [of t "''..''" ts'] by (simp add: withinRoot_def)
  next
    case (Cons b bs')
    then show ?thesis
      using rel bs assms(3) join_first [of "''..''" "''..''" "replicate (length bs') ''..'' @ ts"]
      by (auto simp: withinRoot_def)
  qed
qed

text \<open>Property C11.  The boundary check is inclusion of path components: for canonical absolute
  paths it accepts exactly the root and what lies below it, so a sibling directory whose name
  merely starts like the root's is outside.\<close>

theorem within_root_is_prefix:
  assumes "list_all normal_comp rs" and "list_all normal_comp ps"
    and "Fold os lower real = abs_path ps"
  shows "withinRoot os lower (abs_path rs) real \<longleftrightarrow> prefix rs ps"
  using assms by (rule withinRoot_prefix)

lemma within_root_is_prefix_witness:
  "withinRoot OtherOS (\<lambda>r. r) ''/a/b'' ''/a/b/c'' \<and> \<not> withinRoot OtherOS (\<lambda>r. r) ''/a/b'' ''/a/bc''"
  using within_root_is_prefix [of "[''a'', ''b'']" "[''a'', ''b'', ''c'']" OtherOS "\<lambda>r. r" "''/a/b/c''"]
    within_root_is_prefix [of "[''a'', ''b'']" "[''a'', ''bc'']" OtherOS "\<lambda>r. r" "''/a/bc''"]
  by (simp add: normal_comp_def Fold_def abs_path_def)

text \<open>On macOS the root is folded to lower case while the walked path keeps its case, and
  \<open>filepath.Rel\<close> compares exactly: the display path then climbs to the file system root and spells
  out the absolute path it is meant to hide.\<close>

lemma display_path_on_darwin:
  "relDisplay ''/users/ann/proj'' ''/Users/ann/proj/f'' = ''../../../Users/ann/proj/f''"
  using Rel_abs_path [of "[''users'', ''ann'', ''proj'']" "[''Users'', ''ann'', ''proj'', ''f'']"]
  by (simp add: relDisplay_def normal_comp_def abs_path_def)

section \<open>Collecting a directory\<close>

record request =
  q_path :: bytes
  q_content :: bytes
  q_title :: bytes
  q_include :: "bytes list"
  q_exclude :: "bytes list"
  q_maxbytes :: int
  q_kind :: bytes

record work_item =
  wi_abs :: bytes
  wi_rel :: bytes
  wi_base :: bytes
  wi_size :: int
  wi_mtime :: int
  wi_max :: int
  wi_skip :: bytes

text \<open>What the walk passes to its callback, with the state of the context at that call.\<close>

record walk_entry =
  v_ctx :: "go_error option"
  v_path :: bytes
  v_err :: bool
  v_dir :: bool
  v_name :: bytes

record disk_view = path_fs +
  d_info :: "bytes \<Rightarrow> (bool \<times> int \<times> int) option"  \<comment> \<open>\<open>os.Stat\<close>: directory, size, modification time\<close>
  d_walk :: "bytes \<Rightarrow> walk_entry list"
  d_open :: "bytes \<Rightarrow> (int option \<times> bytes option) option"  \<comment> \<open>\<open>os.Open\<close>, then size and content\<close>

definition canonicalPath :: "('a path_fs_scheme) \<Rightarrow> bytes \<Rightarrow> bytes option" where
  "canonicalPath fs p = (case d_abs fs p of None \<Rightarrow> None | Some a \<Rightarrow> d_real fs a)"

definition canonicalUnchanged :: "('a path_fs_scheme) \<Rightarrow> bytes \<Rightarrow> bool" where
  "canonicalUnchanged fs path \<longleftrightarrow> canonicalPath fs path = Some path"

definition skip_item :: "bytes \<Rightarrow> bytes \<Rightarrow> work_item" where
  "skip_item rel reason = \<lparr>wi_abs = [], wi_rel = rel, wi_base = [], wi_size = 0, wi_mtime = 0, wi_max = 0, wi_skip = reason\<rparr>"

text \<open>The callback on one entry: an error that ends the walk, or the item it adds, if any.\<close>

definition collect_entry ::
  "disk_view \<Rightarrow> goos \<Rightarrow> (rune \<Rightarrow> rune) \<Rightarrow> bytes list \<Rightarrow> bytes \<Rightarrow> request \<Rightarrow> int \<Rightarrow> walk_entry
     \<Rightarrow> go_error + work_item option" where
  "collect_entry fs os lower foldedRoots projectRoot req maxBytes v =
     (let rel = relDisplay projectRoot (v_path v); skip = (\<lambda>reason. Inr (Some (skip_item rel reason))) in
      case v_ctx v of Some e \<Rightarrow> Inl e
      | None \<Rightarrow>
        if v_err v then skip ''unreadable''
        else if v_dir v then Inr None
        else if q_include req \<noteq> [] \<and> \<not> globMatchAny (q_include req) (v_name v) then Inr None
        else if globMatchAny (q_exclude req) (v_name v) then Inr None
        else (case canonicalPath fs (v_path v) of
            None \<Rightarrow> skip ''unreadable''
          | Some real \<Rightarrow>
              if \<not> withinAny os lower foldedRoots real then skip ''outside-workspace''
              else (case d_info fs real of
                  None \<Rightarrow> skip ''unreadable''
                | Some (isdir, sz, mtime) \<Rightarrow>
                    if isdir then Inr None
                    else if DeniedFilename rel \<or> DeniedFilename real then skip ''secret-denylist''
                    else if sz > maxBytes then skip ''too-large''
                    else Inr (Some \<lparr>wi_abs = real, wi_rel = rel, wi_base = v_name v, wi_size = sz,
                                    wi_mtime = mtime, wi_max = maxBytes, wi_skip = []\<rparr>))))"

fun collect_walk ::
  "(walk_entry \<Rightarrow> go_error + work_item option) \<Rightarrow> walk_entry list \<Rightarrow> go_error + work_item list" where
  "collect_walk f [] = Inr []"
| "collect_walk f (v # vs) =
     (case f v of
        Inl e \<Rightarrow> Inl e
      | Inr x \<Rightarrow> (case collect_walk f vs of
          Inl e \<Rightarrow> Inl e
        | Inr items \<Rightarrow> Inr (case x of None \<Rightarrow> items | Some w \<Rightarrow> w # items)))"

definition collect ::
  "disk_view \<Rightarrow> goos \<Rightarrow> (rune \<Rightarrow> rune) \<Rightarrow> bytes \<Rightarrow> bytes list \<Rightarrow> bytes \<Rightarrow> request \<Rightarrow> int
     \<Rightarrow> go_error + work_item list" where
  "collect fs os lower root foldedRoots projectRoot req maxBytes =
     collect_walk (collect_entry fs os lower foldedRoots projectRoot req maxBytes) (d_walk fs root)"

text \<open>What an item that will be read has passed.\<close>

definition item_ok :: "goos \<Rightarrow> (rune \<Rightarrow> rune) \<Rightarrow> bytes list \<Rightarrow> int \<Rightarrow> work_item \<Rightarrow> bool" where
  "item_ok os lower roots maxBytes w \<longleftrightarrow>
     wi_skip w = [] \<longrightarrow> withinAny os lower roots (wi_abs w) \<and> \<not> DeniedFilename (wi_abs w)
       \<and> \<not> DeniedFilename (wi_rel w) \<and> wi_size w \<le> maxBytes \<and> wi_max w = maxBytes"

lemma collect_entry_ok:
  "collect_entry fs os lower roots pr req m v = Inr (Some w) \<Longrightarrow> item_ok os lower roots m w"
  by (auto simp: collect_entry_def item_ok_def skip_item_def Let_def split: option.splits if_splits prod.splits)

lemma collect_walk_ok:
  assumes "\<And>v w. f v = Inr (Some w) \<Longrightarrow> P w"
  shows "collect_walk f vs = Inr items \<Longrightarrow> list_all P items"
  by (induction vs arbitrary: items) (auto split: sum.splits option.splits dest: assms)

end
