(* ===== verification/Ingest.thy ===== *)
theory Ingest
  imports Redact Chunking Ingest_Files Store_Read Search_Text "HOL-Library.Multiset"
begin

text \<open>
  The ingestion pipeline (\<open>ingest.go\<close>): one file, the pool of workers over the collected items,
  inline content, web pages, and \<open>Run\<close>, which composes them with the store.  The pool is a step
  relation: the feeder hands items to workers in order, a worker finishes one item at a time, the
  first fatal error stops the feeder.
\<close>

section \<open>One item\<close>

datatype outcome = Skipped bytes | Stored int | Failed go_error

definition fatalRegisterErr :: "go_error \<Rightarrow> bool" where
  "fatalRegisterErr e \<longleftrightarrow> e = CtxCanceled \<or> e = CtxDeadline \<or> e = StoreUnavailable"

definition redaction_label :: "nat \<Rightarrow> bytes" where
  "redaction_label spans = (if spans > 0 then ''spans'' else ''none'')"

definition text_media :: "bool \<Rightarrow> bytes" where
  "text_media md = (if md then ''text/markdown'' else ''text/plain'')"

definition file_registration :: "goos \<Rightarrow> (rune \<Rightarrow> rune) \<Rightarrow> work_item \<Rightarrow> bytes \<Rightarrow> registration" where
  "file_registration os lower w raw =
     (let (stored, spans) = Redact raw; md = isMarkdownExt lower (wi_base w) in
      \<lparr>r_bytes = stored, r_media = text_media md, r_redaction = redaction_label spans,
       r_source = \<lparr>m_uri = Fold os lower (wi_abs w), m_kind = ''file'', m_size = wi_size w,
         m_mtime = wi_mtime w, m_hash = sha256_hex raw, m_extraction = []\<rparr>,
       r_chunks = ChunkText stored md, r_expected = [], r_raw = None\<rparr>)"

definition ingestOne ::
  "disk_view \<Rightarrow> goos \<Rightarrow> (rune \<Rightarrow> rune) \<Rightarrow> reg_io \<Rightarrow> work_item \<Rightarrow> world \<Rightarrow> world \<times> outcome" where
  "ingestOne fs os lower io w wd =
     (if wi_skip w \<noteq> [] then (wd, Skipped (wi_skip w))
      else (case d_open fs (wi_abs w) of
          None \<Rightarrow> (wd, Skipped ''unreadable'')
        | Some (sz, content) \<Rightarrow>
            (case sz of
               None \<Rightarrow> (wd, Skipped ''unreadable'')
             | Some n \<Rightarrow>
                 if n > wi_max w then (wd, Skipped ''too-large'')
                 else (case content of
                     None \<Rightarrow> (wd, Skipped ''unreadable'')
                   | Some raw \<Rightarrow>
                       if \<not> canonicalUnchanged fs (wi_abs w) then (wd, Skipped ''changed-during-read'')
                       else if IsBinary raw then (wd, Skipped ''binary'')
                       else (case Register io (file_registration os lower w raw) wd of
                           (wd', Inl e) \<Rightarrow>
                             (wd', if fatalRegisterErr e then Failed e else Skipped ''register-failed'')
                         | (wd', Inr art) \<Rightarrow> (wd', Stored (int (length (fst (Redact raw))))))))))"

section \<open>The pool\<close>

record report =
  rep_indexed :: nat
  rep_bytes :: int
  rep_skipped :: "(bytes \<times> bytes) list"
  rep_hash :: bytes

definition empty_report :: report where
  "empty_report = \<lparr>rep_indexed = 0, rep_bytes = 0, rep_skipped = [], rep_hash = []\<rparr>"

definition pool_size :: "int \<Rightarrow> nat" where
  "pool_size gomaxprocs = (let n = (if gomaxprocs > 4 then 4 else gomaxprocs) in nat (if n < 1 then 1 else n))"

text \<open>\<open>pl_left\<close> are the items the feeder never handed out, \<open>pl_log\<close> the outcomes so far (a history
  the code does not keep).\<close>

record pool =
  pl_queue :: "work_item list"
  pl_active :: "work_item list"
  pl_left :: "work_item list"
  pl_world :: world
  pl_report :: report
  pl_err :: "go_error option"
  pl_ctx :: "go_error option"
  pl_log :: "(work_item \<times> outcome) list"

definition tally :: "work_item \<Rightarrow> outcome \<Rightarrow> report \<Rightarrow> report" where
  "tally w out rep =
     (case out of
        Failed e \<Rightarrow> rep
      | Skipped reason \<Rightarrow> rep\<lparr>rep_skipped := rep_skipped rep @ [(wi_rel w, reason)]\<rparr>
      | Stored n \<Rightarrow> rep\<lparr>rep_indexed := rep_indexed rep + 1, rep_bytes := rep_bytes rep + n\<rparr>)"

definition first_err :: "go_error option \<Rightarrow> outcome \<Rightarrow> go_error option" where
  "first_err old out = (case old of Some e \<Rightarrow> Some e | None \<Rightarrow> (case out of Failed e \<Rightarrow> Some e | _ \<Rightarrow> None))"

inductive pool_step :: "goos \<Rightarrow> (rune \<Rightarrow> rune) \<Rightarrow> nat \<Rightarrow> pool \<Rightarrow> pool \<Rightarrow> bool" for os lower n where
  feed: "pl_queue s = w # q \<Longrightarrow> length (pl_active s) < n \<Longrightarrow>
    pool_step os lower n s (s\<lparr>pl_queue := q, pl_active := pl_active s @ [w]\<rparr>)"
| halt: "pl_queue s \<noteq> [] \<Longrightarrow> pl_err s \<noteq> None \<or> pl_ctx s \<noteq> None \<Longrightarrow>
    pool_step os lower n s (s\<lparr>pl_left := pl_queue s, pl_queue := []\<rparr>)"
| cancel: "pl_ctx s = None \<Longrightarrow> pool_step os lower n s (s\<lparr>pl_ctx := Some e\<rparr>)"
| work: "pl_active s = us @ w # vs \<Longrightarrow> ingestOne fs os lower io w (pl_world s) = (wd, out) \<Longrightarrow>
    pool_step os lower n s
      (s\<lparr>pl_active := us @ vs, pl_world := wd, pl_report := tally w out (pl_report s),
         pl_err := first_err (pl_err s) out, pl_log := pl_log s @ [(w, out)]\<rparr>)"

definition pool_init :: "work_item list \<Rightarrow> world \<Rightarrow> pool" where
  "pool_init items wd = \<lparr>pl_queue = items, pl_active = [], pl_left = [], pl_world = wd,
     pl_report = empty_report, pl_err = None, pl_ctx = None, pl_log = []\<rparr>"

definition pool_done :: "pool \<Rightarrow> bool" where
  "pool_done s \<longleftrightarrow> pl_queue s = [] \<and> pl_active s = []"

text \<open>What \<open>runPool\<close> returns at the end: the report and the first error, or that of the context.\<close>

definition pool_error :: "pool \<Rightarrow> go_error option" where
  "pool_error s = (case pl_err s of Some e \<Rightarrow> Some e | None \<Rightarrow> pl_ctx s)"

inductive runPool ::
  "goos \<Rightarrow> (rune \<Rightarrow> rune) \<Rightarrow> int \<Rightarrow> work_item list \<Rightarrow> world \<Rightarrow> world \<Rightarrow> report \<Rightarrow> go_error option \<Rightarrow> bool" where
  "(pool_step os lower (pool_size procs))\<^sup>*\<^sup>* (pool_init items wd) s \<Longrightarrow> pool_done s \<Longrightarrow>
     runPool os lower procs items wd (pl_world s) (pl_report s) (pool_error s)"

section \<open>Inline content and web pages\<close>

definition runInline :: "(rune \<Rightarrow> rune) \<Rightarrow> reg_io \<Rightarrow> request \<Rightarrow> world \<Rightarrow> world \<times> (go_error + report)" where
  "runInline lower io req wd =
     (let raw = q_content req; (stored, spans) = Redact raw; md = isMarkdownExt lower (q_path req);
          kind = (if q_kind req = [] then ''inline'' else q_kind req);
          contentHash = sha256_hex stored;
          uri = (if kind = ''hook'' then ''shadow:'' @ q_title req @ '':'' @ contentHash
                 else ''inline:'' @ q_title req)
      in (case Register io
            \<lparr>r_bytes = stored, r_media = text_media md, r_redaction = redaction_label spans,
             r_source = \<lparr>m_uri = uri, m_kind = kind, m_size = int (length raw), m_mtime = 0,
               m_hash = sha256_hex raw, m_extraction = []\<rparr>,
             r_chunks = ChunkText stored md, r_expected = [], r_raw = None\<rparr> wd of
            (wd', Inl e) \<Rightarrow> (wd', Inl e)
          | (wd', Inr art) \<Rightarrow>
              (wd', Inr \<lparr>rep_indexed = 1, rep_bytes = int (length stored), rep_skipped = [],
                         rep_hash = contentHash\<rparr>)))"

definition defaultMaxFileBytes :: int where "defaultMaxFileBytes = 5 * 2 ^ 20"

text \<open>\<open>Run\<close> up to the pool: what is ingested, or an error, or inline content.\<close>

datatype run_plan = Inline | Items "work_item list" | Refuse go_error

definition single_item :: "bytes \<Rightarrow> bytes \<Rightarrow> int \<Rightarrow> int \<Rightarrow> int \<Rightarrow> work_item" where
  "single_item projectRoot real sz mtime maxBytes =
     (let rel = relDisplay projectRoot real in
      if DeniedFilename rel \<or> DeniedFilename real then skip_item rel ''secret-denylist''
      else if sz > maxBytes then skip_item rel ''too-large''
      else \<lparr>wi_abs = real, wi_rel = rel, wi_base = Base real, wi_size = sz, wi_mtime = mtime,
            wi_max = maxBytes, wi_skip = []\<rparr>)"

definition folded_roots :: "goos \<Rightarrow> (rune \<Rightarrow> rune) \<Rightarrow> bytes \<Rightarrow> bytes list \<Rightarrow> bytes list" where
  "folded_roots os lower projectRoot allowPaths = Fold os lower projectRoot # map (Fold os lower) allowPaths"

definition max_file_bytes :: "request \<Rightarrow> int" where
  "max_file_bytes req = (if q_maxbytes req \<le> 0 then defaultMaxFileBytes else q_maxbytes req)"

definition run_plan ::
  "disk_view \<Rightarrow> goos \<Rightarrow> (rune \<Rightarrow> rune) \<Rightarrow> go_error option \<Rightarrow> bytes \<Rightarrow> bytes list \<Rightarrow> request \<Rightarrow> run_plan" where
  "run_plan fs os lower ctx projectRoot allowPaths req =
     (case ctx of Some e \<Rightarrow> Refuse e
      | None \<Rightarrow>
        if q_content req \<noteq> [] then Inline
        else (case canonicalPath fs (q_path req) of
            None \<Rightarrow> Refuse (ErrOther ''canonicalize'')
          | Some real \<Rightarrow>
              if \<not> withinAny os lower (folded_roots os lower projectRoot allowPaths) real
              then Refuse IngestWorkspace
              else (case d_info fs real of
                  None \<Rightarrow> Refuse (ErrOther ''stat'')
                | Some (isdir, sz, mtime) \<Rightarrow>
                    if isdir then
                      (case collect fs os lower real (folded_roots os lower projectRoot allowPaths)
                              projectRoot req (max_file_bytes req) of
                         Inl e \<Rightarrow> Refuse e | Inr items \<Rightarrow> Items items)
                    else Items [single_item projectRoot real sz mtime (max_file_bytes req)])))"

inductive Run ::
  "disk_view \<Rightarrow> goos \<Rightarrow> (rune \<Rightarrow> rune) \<Rightarrow> int \<Rightarrow> go_error option \<Rightarrow> bytes \<Rightarrow> bytes list \<Rightarrow> request
     \<Rightarrow> world \<Rightarrow> world \<Rightarrow> report \<Rightarrow> go_error option \<Rightarrow> bool"
  for fs os lower procs ctx projectRoot allowPaths req wd where
  refuse: "run_plan fs os lower ctx projectRoot allowPaths req = Refuse e \<Longrightarrow>
    Run fs os lower procs ctx projectRoot allowPaths req wd wd empty_report (Some e)"
| inline: "run_plan fs os lower ctx projectRoot allowPaths req = Inline \<Longrightarrow>
    runInline lower io req wd = (wd', r) \<Longrightarrow>
    Run fs os lower procs ctx projectRoot allowPaths req wd wd'
      (case r of Inl e \<Rightarrow> empty_report | Inr rep \<Rightarrow> rep) (case r of Inl e \<Rightarrow> Some e | Inr rep \<Rightarrow> None)"
| pool: "run_plan fs os lower ctx projectRoot allowPaths req = Items items \<Longrightarrow>
    runPool os lower procs items wd wd' rep err \<Longrightarrow>
    Run fs os lower procs ctx projectRoot allowPaths req wd wd' rep err"

record web_report =
  web_artifact :: int
  web_bytes :: int
  web_chunks :: nat
  web_snippet :: bytes

definition maxSnippetBytes :: nat where "maxSnippetBytes = 1024"

definition webSnippet :: "bytes \<Rightarrow> bytes" where
  "webSnippet stored =
     (if length stored \<le> maxSnippetBytes then stored
      else take (rune_back stored maxSnippetBytes) stored)"

definition maxWebTitleBytes :: nat where "maxWebTitleBytes = 512"

definition capTitleBytes :: "bytes \<Rightarrow> nat \<Rightarrow> bytes" where
  "capTitleBytes b n = (if length b \<le> n then b else take (rune_back b n) b)"

definition default_title :: "bytes \<Rightarrow> chunk \<Rightarrow> chunk" where
  "default_title t c = (if k_title c = [] then c\<lparr>k_title := t\<rparr> else c)"

definition web_registration :: "bytes \<Rightarrow> bytes option \<Rightarrow> bytes \<Rightarrow> bytes \<Rightarrow> bytes \<Rightarrow> bytes \<Rightarrow> registration" where
  "web_registration url rawHTML body mediaType extraction title =
     (let srcBytes = (case rawHTML of Some h \<Rightarrow> if h \<noteq> [] then h else body | None \<Rightarrow> body);
          (stored, bodySpans) = Redact body; (redactedTitle, titleSpans) = Redact title;
          safeTitle = capTitleBytes redactedTitle maxWebTitleBytes;
          chs = ChunkText stored (mediaType = ''text/markdown'')
      in \<lparr>r_bytes = stored, r_media = mediaType, r_redaction = redaction_label (bodySpans + titleSpans),
          r_source = \<lparr>m_uri = url, m_kind = ''web'', m_size = int (length body), m_mtime = 0,
            m_hash = sha256_hex srcBytes, m_extraction = extraction\<rparr>,
          r_chunks = (if safeTitle \<noteq> [] then map (default_title safeTitle) chs else chs),
          r_expected = [], r_raw = rawHTML\<rparr>)"

definition RunWeb ::
  "reg_io \<Rightarrow> go_error option \<Rightarrow> bytes \<Rightarrow> bytes option \<Rightarrow> bytes \<Rightarrow> bytes \<Rightarrow> bytes \<Rightarrow> bytes \<Rightarrow> world
     \<Rightarrow> world \<times> (go_error + web_report)" where
  "RunWeb io ctx url rawHTML body mediaType extraction title wd =
     (case ctx of Some e \<Rightarrow> (wd, Inl e)
      | None \<Rightarrow>
        let reg = web_registration url rawHTML body mediaType extraction title in
        (case Register io reg wd of
           (wd', Inl e) \<Rightarrow> (wd', Inl e)
         | (wd', Inr art) \<Rightarrow>
             (wd', Inr \<lparr>web_artifact = art, web_bytes = int (length (r_bytes reg)),
                        web_chunks = length (r_chunks reg), web_snippet = webSnippet (r_bytes reg)\<rparr>)))"

interpretation web_title: rune_cut capTitleBytes
  by unfold_locales (simp_all add: capTitleBytes_def)

lemma webSnippet_cap: "webSnippet s = capTitleBytes s maxSnippetBytes"
  by (simp add: webSnippet_def capTitleBytes_def)

section \<open>What one item leaves in the store\<close>

lemma ingestOne_cases:
  assumes "ingestOne fs os lower io w wd = (wd', out)"
  obtains (skip) reason where "wd' = wd" "out = Skipped reason"
  | (reg) raw sz r where "wi_skip w = []" "d_open fs (wi_abs w) = Some (Some sz, Some raw)" "sz \<le> wi_max w"
      "\<not> IsBinary raw" "Register io (file_registration os lower w raw) wd = (wd', r)"
      "out = (case r of Inl e \<Rightarrow> if fatalRegisterErr e then Failed e else Skipped ''register-failed''
              | Inr art \<Rightarrow> Stored (int (length (fst (Redact raw)))))"
proof (cases "d_open fs (wi_abs w)")
  case (Some p)
  obtain sz content where p: "p = (sz, content)" by fastforce
  show thesis
  proof (cases sz; cases content)
    fix n raw
    assume sc: "sz = Some n" "content = Some raw"
    obtain w2 r where reg: "Register io (file_registration os lower w raw) wd = (w2, r)" by fastforce
    show thesis
      using assms that(1) that(2) [of n raw r] Some p sc reg
      by (auto simp: ingestOne_def split: if_splits sum.splits)
  qed (use assms that(1) Some p in \<open>auto simp: ingestOne_def split: if_splits\<close>)
qed (use assms that(1) in \<open>auto simp: ingestOne_def split: if_splits\<close>)

lemma file_registration_simps [simp]:
  "r_bytes (file_registration os lower w raw) = fst (Redact raw)"
  "r_raw (file_registration os lower w raw) = None"
  "m_uri (r_source (file_registration os lower w raw)) = Fold os lower (wi_abs w)"
  "m_hash (r_source (file_registration os lower w raw)) = sha256_hex raw"
  by (simp_all add: file_registration_def split_beta Let_def)

lemma ingestOne_store_ok:
  assumes "ingestOne fs os lower io w wd = (wd', out)" and "store_ok (snd wd)"
  shows "store_ok (snd wd')"
  using assms(1)
proof (cases rule: ingestOne_cases)
  case (reg raw sz r)
  obtain v st v' st' where "wd = (v, st)" "wd' = (v', st')" by fastforce
  then show ?thesis using Register_ok [of io _ v st v' st' r] reg assms(2) by simp
qed (use assms in simp)

lemma ingested_file_stored:
  assumes "store_ok st" and "ingestOne fs os lower io w (v, st) = ((v', st'), Stored n)"
  shows "\<exists>raw sz art. d_open fs (wi_abs w) = Some (Some sz, Some raw) \<and> sz \<le> wi_max w \<and> \<not> IsBinary raw
    \<and> (\<exists>s \<in> set (sources st'). s_uri s = Fold os lower (wi_abs w) \<and> s_artifact s = art \<and> s_hash s = sha256_hex raw)
    \<and> ArtifactText st' art 0 = Inr (fst (Redact raw)) \<and> n = int (length (fst (Redact raw)))
    \<and> \<not> re_match aws_re (fst (Redact raw)) \<and> \<not> re_match github_re (fst (Redact raw))
    \<and> \<not> re_match slack_re (fst (Redact raw)) \<and> \<not> re_match jwt_re (fst (Redact raw))"
  using assms(2)
proof (cases rule: ingestOne_cases)
  case (reg raw sz r)
  then obtain art where r: "r = Inr art" "n = int (length (fst (Redact raw)))"
    by (cases r) (auto split: if_splits)
  note run = reg(5) [unfolded r]
  from Register_readable [OF assms(1) run] obtain rawh where
    stored: "source_row_of art rawh (file_registration os lower w raw) (w_now io) \<in> set (sources st')"
      "ArtifactText st' art 0 = Inr (fst (Redact raw))" by auto
  then have "\<exists>s \<in> set (sources st'). s_uri s = Fold os lower (wi_abs w) \<and> s_artifact s = art \<and> s_hash s = sha256_hex raw"
    by (intro bexI [OF _ stored(1)]) (simp add: source_row_of_def)
  then show ?thesis
    using reg(2-4) stored(2) r token_free_Redact [of raw] unfolding token_free_def by blast
qed simp

text \<open>Property C9.  A file that was ingested was read whole, within the size limit, and is not
  binary; the store then holds, under the artifact its source row names, exactly the redacted
  content, which contains no AWS, GitHub, Slack or JWT token; the source row records the hash of
  the original.\<close>

theorem ingested_file_is_redacted:
  assumes "store_ok st" and "ingestOne fs os lower io w (v, st) = ((v', st'), Stored n)"
  shows "\<exists>raw sz art. d_open fs (wi_abs w) = Some (Some sz, Some raw) \<and> sz \<le> wi_max w \<and> \<not> IsBinary raw
    \<and> (\<exists>s \<in> set (sources st'). s_uri s = Fold os lower (wi_abs w) \<and> s_artifact s = art \<and> s_hash s = sha256_hex raw)
    \<and> ArtifactText st' art 0 = Inr (fst (Redact raw)) \<and> n = int (length (fst (Redact raw)))
    \<and> \<not> re_match aws_re (fst (Redact raw)) \<and> \<not> re_match github_re (fst (Redact raw))
    \<and> \<not> re_match slack_re (fst (Redact raw)) \<and> \<not> re_match jwt_re (fst (Redact raw))"
  using assms by (rule ingested_file_stored)

definition demo_view :: disk_view where
  "demo_view = \<lparr>d_abs = Some, d_real = Some, d_stat = (\<lambda>p. None), d_read = (\<lambda>p. None),
     d_info = (\<lambda>p. Some (False, 0, 5)), d_walk = (\<lambda>p. []), d_open = (\<lambda>p. Some (Some 0, Some []))\<rparr>"

definition demo_item :: work_item where
  "demo_item = \<lparr>wi_abs = ''/r/a'', wi_rel = ''a'', wi_base = ''a'', wi_size = 0, wi_mtime = 5, wi_max = 9, wi_skip = []\<rparr>"

lemma demo_ingest:
  "\<exists>v' st'. ingestOne demo_view OtherOS (\<lambda>r. r) demo_io demo_item (demo_env, empty_store) = ((v', st'), Stored 0)"
proof -
  have "\<exists>v' st'. Register demo_io (file_registration OtherOS (\<lambda>r. r) demo_item []) (demo_env, empty_store)
      = ((v', st'), Inr 1)"
    by (simp add: Register_def demo_defs writeBlob_def txRetry_def file_registration_def Redact_Nil
        ChunkText_def txRetry_loop.simps [of 3] runTx_def pop_def register_tx_def select_or_insert_def
        find_artifact_def isBusy_def nextArtifactID_def upsert_source_def Let_def
        insert_artifact_def bump_watermark_def source_row_of_def)
  then show ?thesis
    by (auto simp: ingestOne_def demo_item_def demo_view_def canonicalUnchanged_def canonicalPath_def
        IsBinary_def Redact_Nil)
qed

lemma ingested_file_is_redacted_witness:
  "\<exists>st' raw art. ArtifactText st' art 0 = Inr (fst (Redact raw))"
proof -
  obtain v' st' where "ingestOne demo_view OtherOS (\<lambda>r. r) demo_io demo_item (demo_env, empty_store) = ((v', st'), Stored 0)"
    using demo_ingest by blast
  from ingested_file_is_redacted [OF store_ok_empty this] show ?thesis by blast
qed

section \<open>The pool\<close>

definition log_report :: "(work_item \<times> outcome) list \<Rightarrow> report" where
  "log_report lg =
     \<lparr>rep_indexed = length (filter (\<lambda>(w, out). case out of Stored n \<Rightarrow> True | _ \<Rightarrow> False) lg),
      rep_bytes = sum_list (map (\<lambda>(w, out). case out of Stored n \<Rightarrow> n | _ \<Rightarrow> 0) lg),
      rep_skipped = List.map_filter (\<lambda>(w, out). case out of Skipped r \<Rightarrow> Some (wi_rel w, r) | _ \<Rightarrow> None) lg,
      rep_hash = []\<rparr>"

definition no_failure :: "(work_item \<times> outcome) list \<Rightarrow> bool" where
  "no_failure lg \<longleftrightarrow> (\<forall>(w, out) \<in> set lg. \<forall>e. out \<noteq> Failed e)"

definition pool_inv :: "work_item list \<Rightarrow> pool \<Rightarrow> bool" where
  "pool_inv items s \<longleftrightarrow>
     mset items = mset (pl_queue s) + mset (pl_active s) + mset (pl_left s) + mset (map fst (pl_log s))
     \<and> pl_report s = log_report (pl_log s)
     \<and> (pl_err s = None \<longleftrightarrow> no_failure (pl_log s))
     \<and> (pl_left s \<noteq> [] \<longrightarrow> pl_err s \<noteq> None \<or> pl_ctx s \<noteq> None)
     \<and> (pl_queue s \<noteq> [] \<longrightarrow> pl_left s = [])
     \<and> store_ok (snd (pl_world s))"

lemma pool_init_inv: "store_ok (snd wd) \<Longrightarrow> pool_inv items (pool_init items wd)"
  by (simp add: pool_inv_def pool_init_def log_report_def empty_report_def no_failure_def map_filter_simps)

lemma map_filter_snoc:
  "List.map_filter f (xs @ [x]) = List.map_filter f xs @ (case f x of None \<Rightarrow> [] | Some y \<Rightarrow> [y])"
  by (simp add: map_filter_def split: option.splits)

lemma pool_step_inv:
  assumes "pool_step os lower n s s'" and "pool_inv items s"
  shows "pool_inv items s'"
  using assms
proof (cases rule: pool_step.cases)
  case (work us w vs fs io wd out)
  have "tally w out (log_report lg) = log_report (lg @ [(w, out)])" for lg
    by (cases out) (simp_all add: tally_def log_report_def map_filter_snoc)
  moreover have "store_ok (snd wd)"
    using ingestOne_store_ok [OF work(3)] assms(2) by (simp add: pool_inv_def)
  ultimately show ?thesis
    using work assms(2)
    by (auto simp: pool_inv_def first_err_def no_failure_def split: option.splits outcome.splits)
qed (auto simp: pool_inv_def)

lemma pool_steps_inv:
  "(pool_step os lower n)\<^sup>*\<^sup>* s s' \<Longrightarrow> pool_inv items s \<Longrightarrow> pool_inv items s'"
  by (induction rule: rtranclp_induct) (auto intro: pool_step_inv)

lemma log_report_Cons:
  "rep_indexed (log_report ((w, out) # lg)) = (case out of Stored n \<Rightarrow> 1 | _ \<Rightarrow> 0) + rep_indexed (log_report lg)"
  "length (rep_skipped (log_report ((w, out) # lg))) = (case out of Skipped r \<Rightarrow> 1 | _ \<Rightarrow> 0) + length (rep_skipped (log_report lg))"
  "rep_indexed (log_report []) = 0" "rep_skipped (log_report []) = []"
  by (cases out; simp add: log_report_def map_filter_simps)+

lemma log_report_le: "rep_indexed (log_report lg) + length (rep_skipped (log_report lg)) \<le> length lg"
proof (induction lg)
  case (Cons p lg)
  obtain w out where "p = (w, out)" by fastforce
  with Cons show ?case by (cases out) (simp_all add: log_report_Cons)
qed (simp add: log_report_Cons)

lemma no_failure_Cons: "no_failure ((w, out) # lg) \<longleftrightarrow> (\<forall>e. out \<noteq> Failed e) \<and> no_failure lg"
  by (auto simp: no_failure_def)

lemma log_report_count:
  "no_failure lg \<Longrightarrow> rep_indexed (log_report lg) + length (rep_skipped (log_report lg)) = length lg"
proof (induction lg)
  case (Cons p lg)
  obtain w out where p: "p = (w, out)" by fastforce
  with Cons show ?case by (cases out) (simp_all add: log_report_Cons no_failure_Cons)
qed (simp add: log_report_Cons)

lemma log_report_paths: "fst ` set (rep_skipped (log_report lg)) \<subseteq> wi_rel ` fst ` set lg"
proof (induction lg)
  case (Cons p lg)
  obtain w out where p: "p = (w, out)" by fastforce
  have "rep_skipped (log_report (p # lg)) =
      (case out of Skipped r \<Rightarrow> [(wi_rel w, r)] | _ \<Rightarrow> []) @ rep_skipped (log_report lg)"
    by (cases out) (simp_all add: p log_report_def map_filter_simps)
  with Cons show ?case by (cases out) (auto simp: p)
qed (simp add: log_report_Cons)



definition pool_measure :: "pool \<Rightarrow> nat" where
  "pool_measure s = 2 * length (pl_queue s) + length (pl_active s) + (if pl_ctx s = None then 1 else 0)"

lemma pool_step_measure: "pool_step os lower n s s' \<Longrightarrow> pool_measure s' < pool_measure s"
  by (cases rule: pool_step.cases) (auto simp: pool_measure_def neq_Nil_conv)

lemma pool_progress:
  assumes "0 < n" and "\<not> pool_done s"
  shows "\<exists>s'. pool_step os lower n s s'"
proof (cases "pl_active s")
  case Nil
  then obtain w q where "pl_queue s = w # q" using assms(2) by (cases "pl_queue s") (auto simp: pool_done_def)
  then show ?thesis using pool_step.feed [of s w q n] Nil assms(1) by auto
next
  case (Cons w vs)
  obtain wd out where "ingestOne undefined os lower undefined w (pl_world s) = (wd, out)" by fastforce
  then show ?thesis using pool_step.work [of s "[]" w vs] Cons by fastforce
qed

lemma pool_finishes:
  assumes "0 < n"
  shows "\<exists>s'. (pool_step os lower n)\<^sup>*\<^sup>* s s' \<and> pool_done s'"
proof (induction "pool_measure s" arbitrary: s rule: less_induct)
  case less
  show ?case
  proof (cases "pool_done s")
    case False
    then obtain s1 where s1: "pool_step os lower n s s1" using pool_progress [OF assms] by blast
    from less [OF pool_step_measure [OF s1]] show ?thesis
      using s1 by (meson converse_rtranclp_into_rtranclp)
  qed auto
qed


section \<open>What a run may read\<close>

lemma single_item_ok:
  "withinAny os lower roots real \<Longrightarrow> item_ok os lower roots m (single_item pr real sz mtime m)"
  by (auto simp: single_item_def item_ok_def skip_item_def Let_def)

text \<open>Property C10.  Whatever the request names, every item \<open>Run\<close> hands to a worker for reading has a
  canonical path inside the project or one of the allowed paths, no secret file name by its real
  or its display path, and a size within the limit.\<close>

theorem run_reads_only_workspace:
  assumes "run_plan fs os lower ctx projectRoot allowPaths req = Items items"
    and "w \<in> set items" and "wi_skip w = []"
  shows "withinAny os lower (Fold os lower projectRoot # map (Fold os lower) allowPaths) (wi_abs w)
    \<and> \<not> DeniedFilename (wi_abs w) \<and> \<not> DeniedFilename (wi_rel w)
    \<and> wi_size w \<le> wi_max w
    \<and> wi_max w = (if q_maxbytes req \<le> 0 then 5242880 else q_maxbytes req)"
proof -
  let ?roots = "folded_roots os lower projectRoot allowPaths" and ?m = "max_file_bytes req"
  have "list_all (item_ok os lower ?roots ?m) items"
    using assms(1) single_item_ok [of os lower ?roots]
      collect_walk_ok [of _ "item_ok os lower ?roots ?m", OF collect_entry_ok]
    by (auto simp: run_plan_def collect_def split: option.splits if_splits sum.splits prod.splits)
  then have "item_ok os lower ?roots ?m w" using assms(2) by (simp add: list_all_iff)
  then show ?thesis
    using assms(3) by (simp add: item_ok_def folded_roots_def max_file_bytes_def defaultMaxFileBytes_def)
qed

definition demo_request :: request where
  "demo_request = \<lparr>q_path = ''/r/a'', q_content = [], q_title = [], q_include = [], q_exclude = [],
     q_maxbytes = 9, q_kind = []\<rparr>"

lemma run_reads_only_workspace_witness:
  "\<exists>w. run_plan demo_view OtherOS (\<lambda>r. r) None ''/r'' [] demo_request = Items [w] \<and> wi_abs w = ''/r/a''
     \<and> \<not> DeniedFilename (wi_abs w)"
proof -
  let ?w = "single_item ''/r'' ''/r/a'' 0 5 9"
  have "withinRoot OtherOS (\<lambda>r. r) ''/r'' ''/r/a''"
    using withinRoot_prefix [of "[''r'']" "[''r'', ''a'']" OtherOS "\<lambda>r. r" "''/r/a''"]
    by (simp add: normal_comp_def Fold_def abs_path_def)
  then have plan: "run_plan demo_view OtherOS (\<lambda>r. r) None ''/r'' [] demo_request = Items [?w]"
    by (simp add: run_plan_def demo_request_def canonicalPath_def demo_view_def folded_roots_def
        withinAny_def Fold_def max_file_bytes_def)
  have "relDisplay ''/r'' ''/r/a'' = ''a''"
    using Rel_abs_path [of "[''r'']" "[''r'', ''a'']"] by (simp add: relDisplay_def normal_comp_def abs_path_def)
  then have w: "wi_skip ?w = []" "wi_abs ?w = ''/r/a''"
    by (simp_all add: single_item_def denied_filename_iff Base_def suffix_def append_eq_Cons_conv Let_def)
  with run_reads_only_workspace [OF plan _ w(1)] plan show ?thesis by auto
qed

end
