(* ===== verification/Json.thy ===== *)
theory Json
  imports Go_Strings Sha256
begin

text \<open>
  What the program uses of \<open>encoding/json\<close>: strings and lists of strings, written with HTML
  escaping as \<open>Marshal\<close> does, and read back as \<open>Unmarshal\<close> into \<open>[]string\<close> does.  The theorem is
  the round trip on valid UTF-8.
\<close>

section \<open>Writing\<close>

definition hex2 :: "nat \<Rightarrow> bytes" where
  "hex2 n = [hex_digit (n div 16), hex_digit (n mod 16)]"

definition json_byte :: "char \<Rightarrow> bytes" where
  "json_byte c =
     (if c = CHR 0x22 \<or> c = CHR 0x5C then [CHR 0x5C, c]
      else if c = CHR 0x08 then [CHR 0x5C, CHR ''b'']
      else if c = CHR 0x0C then [CHR 0x5C, CHR ''f'']
      else if c = CHR 0x0A then [CHR 0x5C, CHR ''n'']
      else if c = CHR 0x0D then [CHR 0x5C, CHR ''r'']
      else if c = CHR 0x09 then [CHR 0x5C, CHR ''t'']
      else if byte c < (32::nat) \<or> c = CHR ''<'' \<or> c = CHR ''>'' \<or> c = CHR ''&''
        then CHR 0x5C # ''u00'' @ hex2 (byte c)
      else [c])"

function json_chars :: "bytes \<Rightarrow> bytes" where
  "json_chars [] = []"
| "json_chars (c # s) =
     (if byte c < (128::nat) then json_byte c @ json_chars s
      else let d = decode_rune (c # s) in
        (if bad_rune d then CHR 0x5C # ''ufffd''
         else if fst d = 8232 then CHR 0x5C # ''u2028''
         else if fst d = 8233 then CHR 0x5C # ''u2029''
         else take (snd d) (c # s)) @ json_chars (drop (snd d) (c # s)))"
  by pat_completeness auto
termination
proof (relation "measure length")
  fix c s and x :: "rune \<times> nat"
  assume "x = decode_rune (c # s)"
  then show "(drop (snd x) (c # s), c # s) \<in> measure length"
    using decode_rune_width_pos [of "c # s"] by simp
qed auto

definition json_string :: "bytes \<Rightarrow> bytes" where
  "json_string s = CHR 0x22 # json_chars s @ [CHR 0x22]"

definition json_strings :: "bytes list \<Rightarrow> bytes" where
  "json_strings vs = CHR ''['' # join '','' (map json_string vs) @ '']''"

section \<open>Reading\<close>

definition unhex1 :: "char \<Rightarrow> nat option" where
  "unhex1 c =
     (if is_digit c then Some (byte c - 48 :: nat)
      else if 97 \<le> (byte c :: nat) \<and> byte c \<le> (102::nat) then Some (byte c - 87)
      else if 65 \<le> (byte c :: nat) \<and> byte c \<le> (70::nat) then Some (byte c - 55)
      else None)"

definition unhex4 :: "bytes \<Rightarrow> nat option" where
  "unhex4 s =
     (case s of
        a # b # c # d # _ \<Rightarrow>
          (case (unhex1 a, unhex1 b, unhex1 c, unhex1 d) of
             (Some w, Some x, Some y, Some z) \<Rightarrow> Some (w * 4096 + x * 256 + y * 16 + z)
           | _ \<Rightarrow> None)
      | _ \<Rightarrow> None)"

definition low_escape :: "bytes \<Rightarrow> nat option" where
  "low_escape s =
     (case s of
        a # b # t \<Rightarrow>
          if a = CHR 0x5C \<and> b = CHR ''u'' then
            (case unhex4 t of
               Some r \<Rightarrow> if 56320 \<le> r \<and> r \<le> 57343 then Some r else None
             | None \<Rightarrow> None)
          else None
      | _ \<Rightarrow> None)"

text \<open>The content of a string literal after its opening quote, and what follows the closing one.\<close>

definition push :: "bytes \<Rightarrow> (bytes \<times> bytes) option \<Rightarrow> (bytes \<times> bytes) option" where
  "push p = map_option (\<lambda>(a, r). (p @ a, r))"

function read_chars :: "bytes \<Rightarrow> (bytes \<times> bytes) option" where
  "read_chars [] = None"
| "read_chars (c # s) =
     (if c = CHR 0x22 then Some ([], s)
      else if c = CHR 0x5C then
        (case s of
           [] \<Rightarrow> None
         | e # t \<Rightarrow>
             if e = CHR 0x22 \<or> e = CHR 0x5C \<or> e = CHR ''/'' then push [e] (read_chars t)
             else if e = CHR ''b'' then push [CHR 0x08] (read_chars t)
             else if e = CHR ''f'' then push [CHR 0x0C] (read_chars t)
             else if e = CHR ''n'' then push [CHR 0x0A] (read_chars t)
             else if e = CHR ''r'' then push [CHR 0x0D] (read_chars t)
             else if e = CHR ''t'' then push [CHR 0x09] (read_chars t)
             else if e = CHR ''u'' then
               (case unhex4 t of
                  None \<Rightarrow> None
                | Some r \<Rightarrow>
                    (case (if 55296 \<le> r \<and> r \<le> 56319 then low_escape (drop 4 t) else None) of
                       Some r2 \<Rightarrow> push (encode_rune ((r - 55296) * 1024 + (r2 - 56320) + 65536))
                                    (read_chars (drop 10 t))
                     | None \<Rightarrow> push (encode_rune r) (read_chars (drop 4 t))))
             else None)
      else if byte c < (32::nat) then None
      else if byte c < (128::nat) then push [c] (read_chars s)
      else push (encode_rune (fst (decode_rune (c # s)))) (read_chars (drop (snd (decode_rune (c # s))) (c # s))))"
  by pat_completeness auto
termination
proof (relation "measure length")
  fix c :: char and s :: bytes
  show "(drop (snd (decode_rune (c # s))) (c # s), c # s) \<in> measure length"
    using decode_rune_width_pos [of "c # s"] by simp
qed auto

declare read_chars.simps [simp del]

definition skip_ws :: "bytes \<Rightarrow> bytes" where
  "skip_ws s = dropWhile (\<lambda>c. c \<in> {CHR 0x20, CHR 0x09, CHR 0x0A, CHR 0x0D}) s"

text \<open>An element of the list: a string, or \<open>null\<close>, which leaves the empty string.\<close>

definition read_elem :: "bytes \<Rightarrow> (bytes \<times> bytes) option" where
  "read_elem s =
     (if prefix ''null'' s then Some ([], drop 4 s)
      else (case s of c # t \<Rightarrow> if c = CHR 0x22 then read_chars t else None | [] \<Rightarrow> None))"

lemma push_Some: "push p x = Some (a, r) \<longleftrightarrow> (\<exists>b. x = Some (b, r) \<and> a = p @ b)"
  by (auto simp: push_def)

lemma read_chars_shorter: "read_chars s = Some (a, r) \<Longrightarrow> length r < length s"
proof (induction "length s" arbitrary: s a r rule: less_induct)
  case less
  obtain c t where s: "s = c # t" using less.prems by (cases s) (auto simp: read_chars.simps)
  note prem = less.prems [unfolded s read_chars.simps(2)]
  have IH: "length r < length s" if "length u < length s" "read_chars u = Some (b, r)" for u b
    using less.hyps [OF that] that(1) by linarith
  show ?case
  proof (cases "c = CHR 0x5C")
    case True
    show ?thesis
    proof (cases t)
      case Nil
      then show ?thesis using prem True by simp
    next
      case (Cons e v)
      have R: "length (drop n v) < length s" for n by (simp add: s Cons)
      note rest = IH [OF R [of 0], simplified] IH [OF R [of 4]] IH [OF R [of 10]]
      show ?thesis
        using prem True Cons
        by (simp add: push_Some split: if_split_asm option.split_asm) (auto dest: rest)
    qed
  next
    case False
    have "0 < snd (decode_rune (c # t))" by (rule decode_rune_width_pos) simp
    then have d: "length (drop (snd (decode_rune (c # t))) (c # t)) < length s" by (simp add: s)
    have t: "length t < length s" by (simp add: s)
    show ?thesis
      using prem False t IH [OF t] IH [OF d]
      by (simp add: push_Some split: if_split_asm) (use s in auto)
  qed
qed

lemma length_skip_ws: "length (skip_ws s) \<le> length s"
  by (simp add: skip_ws_def length_dropWhile_le)

lemma read_elem_shorter: "read_elem s = Some (v, r) \<Longrightarrow> length r < length s"
  by (cases s) (auto simp: read_elem_def split: if_splits dest: read_chars_shorter)

function read_elems :: "bytes \<Rightarrow> (bytes list \<times> bytes) option" where
  "read_elems s =
     (case read_elem s of
        None \<Rightarrow> None
      | Some (v, r) \<Rightarrow>
          (case skip_ws r of
             c # t \<Rightarrow>
               if c = CHR '']'' then Some ([v], t)
               else if c = CHR '','' then map_option (\<lambda>(vs, r'). (v # vs, r')) (read_elems (skip_ws t))
               else None
           | [] \<Rightarrow> None))"
  by pat_completeness auto
termination
proof (relation "measure length")
  fix s :: bytes and p v r c t
  assume "read_elem s = Some p" "(v, r) = p" "skip_ws r = c # t"
  then have "length (skip_ws t) < length s"
    using read_elem_shorter [of s v r] length_skip_ws [of r] length_skip_ws [of t] by simp
  then show "(skip_ws t, s) \<in> measure length" by simp
qed simp

declare read_elems.simps [simp del]

definition unmarshal_strings :: "bytes \<Rightarrow> bytes list option" where
  "unmarshal_strings s =
     (let t = skip_ws s in
      if prefix ''null'' t \<and> skip_ws (drop 4 t) = [] then Some []
      else (case t of
          c # u \<Rightarrow>
            if c \<noteq> CHR ''['' then None
            else (let v = skip_ws u in
              if prefix '']'' v then (if skip_ws (tl v) = [] then Some [] else None)
              else (case read_elems v of
                  Some (vs, r) \<Rightarrow> if skip_ws r = [] then Some vs else None
                | None \<Rightarrow> None))
        | [] \<Rightarrow> None))"

section \<open>The round trip\<close>

lemma cont_byte_range: "cont_byte c \<Longrightarrow> 128 \<le> (byte c :: nat) \<and> (byte c :: nat) < 192"
  by (auto simp: rune_start_def)

lemma second_ok_range:
  "second_ok b0 c \<Longrightarrow> 128 \<le> (byte c :: nat) \<and> (byte c :: nat) < 192 \<and>
     (b0 = 224 \<longrightarrow> 160 \<le> (byte c :: nat)) \<and> (b0 = 240 \<longrightarrow> 144 \<le> (byte c :: nat)) \<and>
     (b0 = 237 \<longrightarrow> (byte c :: nat) < 160) \<and> (b0 = 244 \<longrightarrow> (byte c :: nat) < 144)"
  by (auto simp: second_ok_def Let_def split: if_splits)

lemma byte_char: "n < 256 \<Longrightarrow> n = (byte c :: nat) \<Longrightarrow> char_of n = c"
  by simp

lemma sextet: "z < 64 \<Longrightarrow> (q * 64 + z) mod 64 = z" "z < 64 \<Longrightarrow> (q * 64 + z) div 64 = (q::nat)"
  by simp_all

lemma encode_two:
  assumes "194 \<le> (a::nat)" "a < 224" "128 \<le> (b::nat)" "b < 192" 
  shows "encode_rune ((a - 192) * 64 + (b - 128)) = [char_of a, char_of b]"
proof -
  define x y where "x = a - 192" and "y = b - 128"
  have a: "a = 192 + x" "b = 128 + y" "2 \<le> x" "x < 32" "y < 64"
    using assms by (auto simp: x_def y_def)
  define r where "r = x * 64 + y"
  have "128 \<le> r" "r < 2048" "r div 64 = x" "r mod 64 = y" using a by (simp_all add: r_def)
  then have "encode_rune r = [char_of (192 + x), char_of (128 + y)]"
    by (simp add: encode_rune_def Let_def)
  then show ?thesis by (simp add: a r_def)
qed

lemma encode_three:
  assumes "224 \<le> (a::nat)" "a < 240" "128 \<le> (b::nat)" "b < 192" "128 \<le> (c::nat)" "c < 192"
    and "a = 224 \<longrightarrow> 160 \<le> b" "a = 237 \<longrightarrow> b < 160"
  shows "encode_rune ((a - 224) * 4096 + (b - 128) * 64 + (c - 128)) = [char_of a, char_of b, char_of c]"
proof -
  define x y z where "x = a - 224" and "y = b - 128" and "z = c - 128"
  have a: "a = 224 + x" "b = 128 + y" "c = 128 + z" "x < 16" "y < 64" "z < 64"
    using assms by (auto simp: x_def y_def z_def)
  have lo: "x = 0 \<longrightarrow> 32 \<le> y" and sur: "x = 13 \<longrightarrow> y < 32" using assms a by auto
  define r where "r = x * 4096 + y * 64 + z"
  have d: "r div 4096 = x" "r div 64 mod 64 = y" "r mod 64 = z"
  proof -
    have r: "r = (x * 64 + y) * 64 + z" by (simp add: r_def)
    show "r div 64 mod 64 = y" "r mod 64 = z" using a by (simp_all only: r sextet)
    have "r div 4096 = r div 64 div 64" by (simp add: div_mult2_eq [symmetric])
    then show "r div 4096 = x" using a by (simp only: r sextet)
  qed
  have "2048 \<le> r" "r < 65536" using a lo by (auto simp: r_def)
  moreover have "\<not> (55296 \<le> r \<and> r \<le> 57343)"
  proof
    assume "55296 \<le> r \<and> r \<le> 57343"
    then have "x = 13" using a by (simp add: r_def)
    with sur show False using \<open>55296 \<le> r \<and> r \<le> 57343\<close> a by (simp add: r_def)
  qed
  ultimately have "encode_rune r =
      [char_of (224 + r div 4096), char_of (128 + r div 64 mod 64), char_of (128 + r mod 64)]"
    by (auto simp: encode_rune_def Let_def)
  then show ?thesis by (simp only: d) (simp add: a r_def)
qed

lemma encode_four:
  assumes "240 \<le> (a::nat)" "a \<le> 244" "128 \<le> (b::nat)" "b < 192" "128 \<le> (c::nat)" "c < 192"
    and "128 \<le> (d::nat)" "d < 192" and "a = 240 \<longrightarrow> 144 \<le> b" "a = 244 \<longrightarrow> b < 144"
  shows "encode_rune ((a - 240) * 262144 + (b - 128) * 4096 + (c - 128) * 64 + (d - 128)) =
    [char_of a, char_of b, char_of c, char_of d]"
proof -
  define x y z w where "x = a - 240" and "y = b - 128" and "z = c - 128" and "w = d - 128"
  have a: "a = 240 + x" "b = 128 + y" "c = 128 + z" "d = 128 + w" "x < 5" "y < 64" "z < 64" "w < 64"
    using assms by (auto simp: x_def y_def z_def w_def)
  have lo: "x = 0 \<longrightarrow> 16 \<le> y" and hi: "x = 4 \<longrightarrow> y < 16" using assms a by auto
  define r where "r = x * 262144 + y * 4096 + z * 64 + w"
  have d: "r div 262144 = x" "r div 4096 mod 64 = y" "r div 64 mod 64 = z" "r mod 64 = w"
  proof -
    have r: "r = ((x * 64 + y) * 64 + z) * 64 + w" by (simp add: r_def)
    show "r div 64 mod 64 = z" "r mod 64 = w" using a by (simp_all only: r sextet)
    have "r div 4096 = r div 64 div 64" by (simp add: div_mult2_eq [symmetric])
    then show "r div 4096 mod 64 = y" using a by (simp only: r sextet)
    have "r div 262144 = r div 64 div 64 div 64" by (simp add: div_mult2_eq [symmetric])
    then show "r div 262144 = x" using a by (simp only: r sextet)
  qed
  have "65536 \<le> r" using a lo by (auto simp: r_def)
  moreover have "r \<le> 1114111"
  proof (cases "x = 4")
    case False
    with a have "x \<le> 3" by simp
    then show ?thesis using a by (simp add: r_def)
  qed (use a hi in \<open>simp add: r_def\<close>)
  ultimately have "encode_rune r = [char_of (240 + x), char_of (128 + y), char_of (128 + z), char_of (128 + w)]"
    by (simp add: encode_rune_def d)
  then show ?thesis by (simp add: a r_def)
qed

lemma encode_decode_shape: "rune_shape s n \<Longrightarrow> encode_rune (fst (decode_rune s)) = take n s"
proof (induction rule: rune_shape.induct)
  case (one c t)
  then show ?case by (simp add: encode_rune_def)
next
  case (two c c1 t)
  with second_ok_range [OF two(3)] encode_two [of "byte c" "byte c1"] show ?case
    by (simp add: decode_tail_def)
next
  case (three c c1 c2 t)
  with second_ok_range [OF three(3)] cont_byte_range [OF three(4)]
    encode_three [of "byte c" "byte c1" "byte c2"] show ?case
    by (simp add: decode_tail_def decode_tail2_def)
next
  case (four c c1 c2 c3 t)
  with second_ok_range [OF four(3)] cont_byte_range [OF four(4)] cont_byte_range [OF four(5)]
    encode_four [of "byte c" "byte c1" "byte c2" "byte c3"] show ?case
    by (simp add: decode_tail_def decode_tail3_def)
qed

lemma encode_decode:
  "s \<noteq> [] \<Longrightarrow> \<not> bad_rune (decode_rune s) \<Longrightarrow> encode_rune (fst (decode_rune s)) = take (snd (decode_rune s)) s"
  by (rule encode_decode_shape) (rule good_rune_shape)


lemma unhex_digit: "n < 16 \<Longrightarrow> unhex1 (hex_digit n) = Some n"
  by (simp add: unhex1_def hex_digit_def is_digit_def)

lemma unhex_hex2: "n < 256 \<Longrightarrow> unhex4 (CHR ''0'' # CHR ''0'' # hex2 n @ t) = Some n"
proof -
  assume n: "n < 256"
  have "unhex1 (CHR ''0'') = Some 0" by (simp add: unhex1_def is_digit_def)
  moreover have "n div 16 < 16" "n mod 16 < 16" using n by auto
  ultimately show ?thesis
    by (simp add: unhex4_def hex2_def unhex_digit)
qed

lemma encode_byte: "byte c < (128::nat) \<Longrightarrow> encode_rune (byte c) = [c]"
  by (simp add: encode_rune_def)

lemma drop_hex2: "drop 4 (CHR ''0'' # CHR ''0'' # hex2 n @ t) = t"
  by (simp add: hex2_def)

lemma read_json_byte: "byte c < (128::nat) \<Longrightarrow> read_chars (json_byte c @ t) = push [c] (read_chars t)"
  using encode_byte [of c] unhex_hex2 [of "byte c" t] drop_hex2 [of "byte c" t]
  by (simp add: json_byte_def read_chars.simps(2))

lemma read_json_chars:
  "utf8_valid s \<Longrightarrow> read_chars (json_chars s @ CHR 0x22 # r) = Some (s, r)"
proof (induction s rule: json_chars.induct)
  case 1
  show ?case by (simp add: read_chars.simps)
next
  case (2 c s)
  show ?case
  proof (cases "byte c < (128::nat)")
    case True
    with 2(3) have "utf8_valid s" by (simp add: utf8_valid_step)
    with 2(1) True show ?thesis by (simp add: read_json_byte push_def)
  next
    case False
    let ?d = "decode_rune (c # s)"
    have good: "\<not> bad_rune ?d" and rest: "utf8_valid (drop (snd ?d) (c # s))"
      using 2(3) utf8_valid_step [of "c # s"] by simp_all
    let ?t = "json_chars (drop (snd ?d) (c # s)) @ CHR 0x22 # r"
    have IH: "read_chars ?t = Some (drop (snd ?d) (c # s), r)"
      using 2(2) [OF False refl rest] .
    have enc: "encode_rune (fst ?d) = take (snd ?d) (c # s)"
      using encode_decode [OF _ good] by simp
    have whole: "push (take (snd ?d) (c # s)) (Some (drop (snd ?d) (c # s), r)) = Some (c # s, r)"
      by (simp add: push_def del: drop.simps take.simps)
    have out: "json_chars (c # s) @ CHR 0x22 # r =
        (if fst ?d = 8232 then CHR 0x5C # ''u2028'' else if fst ?d = 8233 then CHR 0x5C # ''u2029''
         else take (snd ?d) (c # s)) @ ?t"
      using False good by (simp add: Let_def del: decode_rune.simps)
    consider "fst ?d = 8232" | "fst ?d = 8233" | "fst ?d \<noteq> 8232" "fst ?d \<noteq> 8233" by blast
    then show ?thesis
    proof cases
      case 1
      have "unhex4 (''2028'' @ ?t) = Some 8232" by (simp add: unhex4_def unhex1_def is_digit_def)
      then show ?thesis
        unfolding out using 1 whole IH enc by (simp add: read_chars.simps(2) del: decode_rune.simps)
    next
      case 2
      have "unhex4 (''2029'' @ ?t) = Some 8233" by (simp add: unhex4_def unhex1_def is_digit_def)
      then show ?thesis
        unfolding out using 2 whole IH enc by (simp add: read_chars.simps(2) del: decode_rune.simps)
    next
      case 3
      obtain k where k: "snd ?d = Suc k"
        using decode_rune_width_pos [of "c # s"] by (cases "snd ?d") auto
      have same: "decode_rune (take (snd ?d) (c # s) @ ?t) = ?d"
        by (rule good_rune_prefix [OF _ good]) simp
      have shape: "take (snd ?d) (c # s) @ ?t = c # take k s @ ?t"
        by (simp add: k del: decode_rune.simps)
      have cut: "drop (snd ?d) (c # take k s @ ?t) = ?t"
        using decode_rune_width_le [of "c # s"] by (simp add: shape [symmetric] del: decode_rune.simps)
      have "read_chars (c # take k s @ ?t) = push (encode_rune (fst ?d)) (read_chars ?t)"
        using False same cut
        by (subst read_chars.simps) (auto simp: shape simp del: decode_rune.simps)
      then show ?thesis
        unfolding out using 3 whole IH enc by (simp add: k del: decode_rune.simps)
    qed
  qed
qed

lemma skip_ws_Cons: "c \<notin> {CHR 0x20, CHR 0x09, CHR 0x0A, CHR 0x0D} \<Longrightarrow> skip_ws (c # s) = c # s"
  by (simp add: skip_ws_def)

lemma read_elem_string: "utf8_valid v \<Longrightarrow> read_elem (json_string v @ r) = Some (v, r)"
  by (simp add: read_elem_def json_string_def read_json_chars)

lemma read_elems_join:
  "vs \<noteq> [] \<Longrightarrow> list_all utf8_valid vs \<Longrightarrow>
     read_elems (join '','' (map json_string vs) @ '']'') = Some (vs, [])"
proof (induction vs)
  case (Cons v vs)
  then have v: "utf8_valid v" by simp
  show ?case
  proof (cases vs)
    case Nil
    show ?thesis
      by (subst read_elems.simps) (simp add: Nil v read_elem_string skip_ws_Cons)
  next
    case (Cons w ws)
    have IH: "read_elems (join '','' (map json_string vs) @ '']'') = Some (vs, [])"
      using Cons.IH Cons.prems Cons by simp
    have q: "join '','' (map json_string (v # vs)) @ '']'' =
        json_string v @ '','' @ join '','' (map json_string vs) @ '']''"
      by (simp add: join_Cons Cons)
    have hd: "\<exists>t. join '','' (map json_string vs) @ '']'' = CHR 0x22 # t"
      by (cases ws) (simp_all add: Cons json_string_def)
    then obtain t where t: "join '','' (map json_string vs) @ '']'' = CHR 0x22 # t" ..
    show ?thesis
      unfolding q
      by (subst read_elems.simps) (use IH in \<open>simp add: v read_elem_string skip_ws_Cons t\<close>)
  qed
qed simp

lemma unmarshal_json_strings:
  assumes "list_all utf8_valid vs"
  shows "unmarshal_strings (json_strings vs) = Some vs"
proof (cases vs)
  case Nil
  show ?thesis by (simp add: Nil unmarshal_strings_def json_strings_def skip_ws_Cons) (simp add: skip_ws_def)
next
  case (Cons v ws)
  have "\<exists>t. join '','' (map json_string vs) @ '']'' = CHR 0x22 # t"
    by (cases ws) (simp_all add: Cons json_string_def)
  then obtain t where t: "join '','' (map json_string vs) @ '']'' = CHR 0x22 # t" ..
  have "read_elems (CHR 0x22 # t) = Some (vs, [])"
    using read_elems_join [of vs] assms Cons t by simp
  then show ?thesis
    using t by (simp add: unmarshal_strings_def json_strings_def skip_ws_Cons Let_def) (simp add: skip_ws_def)
qed

end
