(* ===== verification/Session.thy ===== *)
theory Session
  imports Store_Register Json
begin

text \<open>
  The session log of \<open>internal/session\<close>: its tables, the validation of an event, and the two
  ways a row is written, \<open>appendEvent\<close> and \<open>EnsureSession\<close>.  A table is a list of rows in rowid
  order.  The transactions are those of \<open>Store_Schema\<close>, run on this database.
\<close>

section \<open>Tables\<close>

record event_row =
  v_id :: int
  v_event :: bytes
  v_session :: bytes
  v_type :: bytes
  v_ts :: int
  v_summary :: bytes
  v_payload :: "bytes option"
  v_refs :: "bytes option"
  v_related :: "bytes option"
  v_redaction :: bytes
  v_supersedes :: "bytes option"

record session_row =
  n_session :: bytes
  n_started :: int
  n_producer :: bytes
  n_retention :: int

type_synonym ev_fts_row = "int \<times> bytes"

text \<open>\<open>user_version\<close> is 0 in a new file, 1 once \<open>schemaV1\<close> is applied.\<close>

record session_db =
  events :: "event_row list"
  sessions :: "session_row list"
  ev_porter :: "ev_fts_row list"
  ev_trigram :: "ev_fts_row list"
  user_version :: int

definition fresh_session_db :: session_db where
  "fresh_session_db = \<lparr>events = [], sessions = [], ev_porter = [], ev_trigram = [], user_version = 0\<rparr>"

section \<open>Events\<close>

record event =
  ev_type :: bytes
  ev_summary :: bytes
  ev_attributes :: bytes
  ev_refs :: "bytes list"
  ev_related :: "bytes list"
  ev_supersedes :: bytes
  ev_redaction :: bytes

definition MaxEventTypeBytes :: nat where "MaxEventTypeBytes = 64"
definition MaxSummaryBytes :: nat where "MaxSummaryBytes = 2048"
definition MaxAttributesBytes :: nat where "MaxAttributesBytes = 4096"
definition MaxRefsOrRelated :: nat where "MaxRefsOrRelated = 16"
definition MaxRelatedItemBytes :: nat where "MaxRelatedItemBytes = 512"
definition MaxEventTotalBytes :: nat where "MaxEventTotalBytes = 8192"

lemmas event_limits =
  MaxEventTypeBytes_def MaxSummaryBytes_def MaxAttributesBytes_def MaxRefsOrRelated_def
  MaxRelatedItemBytes_def MaxEventTotalBytes_def

text \<open>\<open>^[a-z0-9_]+$\<close>, without flags: \<open>$\<close> is the end of the text.\<close>

definition eventTypeRe :: "bytes \<Rightarrow> bool" where
  "eventTypeRe s \<longleftrightarrow> s \<noteq> [] \<and> (\<forall>c \<in> set s. is_lower c \<or> is_digit c \<or> c = CHR ''_'')"

text \<open>The second loop adds the sizes up and stops at a related item that is too long.\<close>

fun related_total :: "nat \<Rightarrow> bytes list \<Rightarrow> nat option" where
  "related_total acc [] = Some acc"
| "related_total acc (r # rs) =
     (if MaxRelatedItemBytes < length r then None else related_total (acc + length r) rs)"

definition ValidateEvent :: "event \<Rightarrow> go_error option" where
  "ValidateEvent ev =
     (if MaxEventTypeBytes < length (ev_type ev) \<or> \<not> eventTypeRe (ev_type ev)
        then Some (ErrOther ''event_type'')
      else if length (ev_summary ev) = 0 \<or> MaxSummaryBytes < length (ev_summary ev)
        then Some (ErrOther ''summary'')
      else if MaxAttributesBytes < length (ev_attributes ev) then Some (ErrOther ''attributes'')
      else if MaxRefsOrRelated < length (ev_refs ev) then Some (ErrOther ''artifact_refs'')
      else if MaxRefsOrRelated < length (ev_related ev) then Some (ErrOther ''related_resources'')
      else
        let acc = length (ev_type ev) + length (ev_summary ev) + length (ev_attributes ev)
              + length (ev_supersedes ev) + sum_list (map length (ev_refs ev)) in
        (case related_total acc (ev_related ev) of
           None \<Rightarrow> Some (ErrOther ''related_resources item'')
         | Some n \<Rightarrow> if MaxEventTotalBytes < n then Some (ErrOther ''event total'') else None))"

section \<open>Writing\<close>

text \<open>Triggers \<open>session_events_ai\<close> and \<open>session_events_ad\<close>.\<close>

definition ev_fts :: "event_row \<Rightarrow> ev_fts_row" where
  "ev_fts e = (v_id e, v_summary e)"

text \<open>An insert picks the next rowid, fails on a duplicate \<open>event_id\<close>, and indexes the summary.\<close>

definition insert_event :: "event_row \<Rightarrow> session_db \<Rightarrow> go_error + (int \<times> session_db)" where
  "insert_event e db =
     (if \<exists>x \<in> set (events db). v_event x = v_event e
      then Inl (ErrOther ''UNIQUE constraint failed: session_events.event_id'')
      else
        let i = next_rowid (map v_id (events db)); e' = e\<lparr>v_id := i\<rparr> in
        Inr (i, db\<lparr>events := events db @ [e'],
                   ev_porter := ev_porter db @ [ev_fts e'],
                   ev_trigram := ev_trigram db @ [ev_fts e']\<rparr>))"

definition delete_events :: "(event_row \<Rightarrow> bool) \<Rightarrow> session_db \<Rightarrow> session_db" where
  "delete_events P db =
     (let gone = map ev_fts (filter P (events db)) in
      db\<lparr>events := filter (\<lambda>e. \<not> P e) (events db),
         ev_porter := filter (\<lambda>r. r \<notin> set gone) (ev_porter db),
         ev_trigram := filter (\<lambda>r. r \<notin> set gone) (ev_trigram db)\<rparr>)"

definition has_session :: "session_db \<Rightarrow> bytes \<Rightarrow> bool" where
  "has_session db sid \<longleftrightarrow> (\<exists>s \<in> set (sessions db). n_session s = sid)"

definition marshalStrings :: "bytes list \<Rightarrow> bytes option" where
  "marshalStrings v = (if v = [] then None else Some (json_strings v))"

text \<open>What a call reads off its surroundings: the outcome of \<open>uuid.NewV7\<close> and the clock.\<close>

record session_io =
  q_uuid :: "go_error + bytes"
  q_now :: int

definition event_row_of :: "bytes \<Rightarrow> bytes \<Rightarrow> int \<Rightarrow> event \<Rightarrow> event_row" where
  "event_row_of eid sid ts ev =
     \<lparr>v_id = 0, v_event = eid, v_session = sid, v_type = ev_type ev, v_ts = ts,
      v_summary = ev_summary ev,
      v_payload = (if length (ev_attributes ev) > 0 then Some (ev_attributes ev) else None),
      v_refs = marshalStrings (ev_refs ev), v_related = marshalStrings (ev_related ev),
      v_redaction = (if ev_redaction ev = [] then ''none'' else ev_redaction ev),
      v_supersedes = nullIfEmpty (ev_supersedes ev)\<rparr>"

definition append_tx :: "event_row \<Rightarrow> session_db \<Rightarrow> go_error + (int \<times> session_db)" where
  "append_tx row db =
     (if (case v_supersedes row of None \<Rightarrow> False
          | Some old \<Rightarrow> \<not> (\<exists>x \<in> set (events db). v_event x = old))
      then Inl StoreNotFound
      else if \<not> has_session db (v_session row) then Inl StoreNotFound
      else insert_event row db)"

definition appendEvent ::
  "session_io \<Rightarrow> bytes \<Rightarrow> event \<Rightarrow> session_db tx_world \<Rightarrow>
     session_db tx_world \<times> (go_error + (int \<times> bytes \<times> int))" where
  "appendEvent io sid ev w =
     (case q_uuid io of
        Inl e \<Rightarrow> (w, Inl e)
      | Inr eid \<Rightarrow>
          (case txRetry (append_tx (event_row_of eid sid (q_now io) ev)) w of
             (w', Inl e) \<Rightarrow> (w', Inl e)
           | (w', Inr i) \<Rightarrow> (w', Inr (i, eid, q_now io))))"

text \<open>\<open>AppendDB.Append\<close> validates first; \<open>DB.Append\<close> is \<open>appendEvent\<close> itself.\<close>

definition AppendDB_Append ::
  "session_io \<Rightarrow> bytes \<Rightarrow> event \<Rightarrow> session_db tx_world \<Rightarrow>
     session_db tx_world \<times> (go_error + (int \<times> bytes \<times> int))" where
  "AppendDB_Append io sid ev w =
     (case ValidateEvent ev of Some e \<Rightarrow> (w, Inl e) | None \<Rightarrow> appendEvent io sid ev w)"

text \<open>\<open>json.Marshal(sessionStartPayload{...})\<close>: an empty source is left out.\<close>

definition session_start_payload :: "bytes \<Rightarrow> bytes \<Rightarrow> int \<Rightarrow> bytes" where
  "session_start_payload source root retention =
     CHR ''{'' # (if source = [] then [] else json_string ''source'' @ '':'' @ json_string source @ '','')
     @ json_string ''worktree_root'' @ '':'' @ json_string root @ '',''
     @ json_string ''retention_sec'' @ '':'' @ itoa retention @ ''}''"

definition eventTypeSessionStart :: bytes where
  "eventTypeSessionStart = ''session_start''"

definition ensure_tx ::
  "bytes \<Rightarrow> session_row \<Rightarrow> bytes \<Rightarrow> session_db \<Rightarrow> go_error + (bool \<times> session_db)" where
  "ensure_tx eid row payload db =
     (if has_session db (n_session row) then Inr (False, db)
      else
        let db1 = db\<lparr>sessions := sessions db @ [row]\<rparr>;
            e = \<lparr>v_id = 0, v_event = eid, v_session = n_session row, v_type = eventTypeSessionStart,
                 v_ts = n_started row, v_summary = ''session started'', v_payload = Some payload,
                 v_refs = None, v_related = None, v_redaction = ''none'', v_supersedes = None\<rparr>
        in (case insert_event e db1 of
              Inl err \<Rightarrow> Inl err
            | Inr (i, db2) \<Rightarrow> Inr (True, db2)))"

text \<open>The handle of \<open>OpenAppend\<close>, without its connections and lease.\<close>

record append_handle =
  ad_session :: bytes
  ad_producer :: bytes
  ad_retention :: int

definition EnsureSession ::
  "session_io \<Rightarrow> append_handle \<Rightarrow> bytes \<Rightarrow> bytes \<Rightarrow> session_db tx_world \<Rightarrow>
     session_db tx_world \<times> (go_error + bool)" where
  "EnsureSession io ad source root w =
     (case q_uuid io of
        Inl e \<Rightarrow> (w, Inl e)
      | Inr eid \<Rightarrow>
          txRetry
            (ensure_tx eid \<lparr>n_session = ad_session ad, n_started = q_now io,
                            n_producer = ad_producer ad, n_retention = ad_retention ad\<rparr>
               (session_start_payload source root (ad_retention ad))) w)"

definition SessionExists :: "go_error option \<Rightarrow> append_handle \<Rightarrow> session_db \<Rightarrow> go_error + bool" where
  "SessionExists qerr ad db =
     (case qerr of Some e \<Rightarrow> Inl e | None \<Rightarrow> Inr (has_session db (ad_session ad)))"

text \<open>\<open>Open\<close> inserts its own row without \<open>OR IGNORE\<close>.\<close>

definition open_session_tx :: "session_row \<Rightarrow> session_db \<Rightarrow> go_error + (unit \<times> session_db)" where
  "open_session_tx row db =
     (if has_session db (n_session row)
      then Inl (ErrOther ''UNIQUE constraint failed: sessions.session_id'')
      else Inr ((), db\<lparr>sessions := sessions db @ [row]\<rparr>))"

section \<open>The invariant\<close>

text \<open>Rows are in increasing rowid order, event and session ids are keys, every event belongs to
  a session, and both indexes hold the summaries.\<close>

definition session_ok :: "session_db \<Rightarrow> bool" where
  "session_ok db \<longleftrightarrow>
     sorted_wrt (<) (map v_id (events db)) \<and> (\<forall>e \<in> set (events db). 0 < v_id e) \<and>
     distinct (map v_event (events db)) \<and> distinct (map n_session (sessions db)) \<and>
     (\<forall>e \<in> set (events db). has_session db (v_session e)) \<and>
     ev_porter db = map ev_fts (events db) \<and> ev_trigram db = map ev_fts (events db)"

lemma session_ok_fresh: "session_ok fresh_session_db"
  by (simp add: session_ok_def fresh_session_db_def)

lemma next_rowid_above: "x \<in> set ids \<Longrightarrow> x < next_rowid ids"
proof -
  assume "x \<in> set ids"
  then have "x \<le> Max (set ids)" "ids \<noteq> []" by auto
  then show "x < next_rowid ids" by (simp add: next_rowid_def)
qed

lemma next_rowid_pos: "(\<And>x. x \<in> set ids \<Longrightarrow> 0 < x) \<Longrightarrow> 0 < next_rowid ids"
proof (cases ids)
  case (Cons a as)
  assume "\<And>x. x \<in> set ids \<Longrightarrow> 0 < x"
  then have "0 < a" using Cons by simp
  moreover have "a < next_rowid ids" using Cons by (intro next_rowid_above) simp
  ultimately show ?thesis by simp
qed (simp add: next_rowid_def)

lemma insert_event_Inr:
  assumes "insert_event e db = Inr (i, db')"
  shows "i = next_rowid (map v_id (events db))"
    and "events db' = events db @ [e\<lparr>v_id := i\<rparr>]" and "sessions db' = sessions db"
    and "\<forall>x \<in> set (events db). v_event x \<noteq> v_event e"
    and "ev_porter db' = ev_porter db @ [ev_fts (e\<lparr>v_id := i\<rparr>)]"
    and "ev_trigram db' = ev_trigram db @ [ev_fts (e\<lparr>v_id := i\<rparr>)]"
    and "user_version db' = user_version db"
  using assms by (auto simp: insert_event_def Let_def split: if_splits)

lemma insert_event_ok:
  assumes "session_ok db" and "insert_event e db = Inr (i, db')" and "has_session db (v_session e)"
  shows "session_ok db'"
proof -
  note ins = insert_event_Inr [OF assms(2)]
  have "\<forall>x \<in> set (events db). v_id x < i"
    using next_rowid_above [of _ "map v_id (events db)"] ins(1) by auto
  moreover have "0 < i"
    unfolding ins(1) using assms(1) by (intro next_rowid_pos) (auto simp: session_ok_def)
  ultimately show ?thesis
    using assms(1,3) ins(2-6)
    by (auto simp: session_ok_def sorted_wrt_append has_session_def)
qed

lemma append_tx_Inr:
  "append_tx row db = Inr (i, db') \<Longrightarrow>
     insert_event row db = Inr (i, db') \<and> has_session db (v_session row) \<and>
     (\<forall>old. v_supersedes row = Some old \<longrightarrow> (\<exists>x \<in> set (events db). v_event x = old))"
  by (auto simp: append_tx_def split: if_splits option.splits)

lemma append_tx_ok: "session_ok db \<Longrightarrow> append_tx row db = Inr (i, db') \<Longrightarrow> session_ok db'"
  using append_tx_Inr insert_event_ok by blast

lemma session_ok_snoc_session:
  "session_ok db \<Longrightarrow> \<not> has_session db (n_session row) \<Longrightarrow>
     session_ok (db\<lparr>sessions := sessions db @ [row]\<rparr>)"
  by (auto simp: session_ok_def has_session_def)

lemma ensure_tx_ok:
  assumes "session_ok db" and "ensure_tx eid row payload db = Inr (c, db')"
  shows "session_ok db'"
proof (cases "has_session db (n_session row)")
  case False
  let ?db1 = "db\<lparr>sessions := sessions db @ [row]\<rparr>"
  have ok: "session_ok ?db1" using assms(1) False by (rule session_ok_snoc_session)
  have has: "has_session ?db1 (n_session row)" by (simp add: has_session_def)
  from assms(2) False obtain i e where "insert_event e ?db1 = Inr (i, db')" "v_session e = n_session row"
    by (auto simp: ensure_tx_def Let_def split: sum.splits)
  with insert_event_ok [OF ok] has show ?thesis by simp
qed (use assms in \<open>simp add: ensure_tx_def\<close>)

lemma open_session_tx_ok:
  "session_ok db \<Longrightarrow> open_session_tx row db = Inr (u, db') \<Longrightarrow> session_ok db'"
  by (auto simp: open_session_tx_def session_ok_snoc_session split: if_splits)

lemma appendEvent_cases:
  assumes "appendEvent io sid ev w = (w', r)"
  shows "(\<exists>e. r = Inl e) \<and> snd w' = snd w
    \<or> (\<exists>i eid. q_uuid io = Inr eid \<and> r = Inr (i, eid, q_now io) \<and>
          append_tx (event_row_of eid sid (q_now io) ev) (snd w) = Inr (i, snd w'))"
  using assms by (auto simp: appendEvent_def split: sum.splits prod.splits dest: txRetry_Inl txRetry_Inr)

lemma appendEvent_ok:
  "session_ok (snd w) \<Longrightarrow> appendEvent io sid ev w = (w', r) \<Longrightarrow> session_ok (snd w')"
  using appendEvent_cases append_tx_ok by metis

lemma EnsureSession_ok:
  "session_ok (snd w) \<Longrightarrow> EnsureSession io ad source root w = (w', r) \<Longrightarrow> session_ok (snd w')"
  using ensure_tx_ok
  by (fastforce simp: EnsureSession_def split: sum.splits elim: txRetry_preserves)

end
