(* ===== verification/Session_Sweep.thy ===== *)
theory Session_Sweep
  imports Session "HOL-Library.Char_ord" "HOL-Library.List_Lexorder"
begin

text \<open>
  Retention of the session log, \<open>internal/session/retention.go\<close>: events past the retention of
  their session go in batches, then sessions that never held anything but their start event and
  are a week old go with that event.  Both loops end because a batch that is not the last one
  deletes a row.
\<close>

section \<open>The batches\<close>

definition emptySessionMaxAgeSec :: int where
  "emptySessionMaxAgeSec = 7 * 24 * 3600"

definition sweepBatchSessions :: nat where
  "sweepBatchSessions = 64"

record sweep_report =
  EventsDeleted :: int
  EmptySessionsDeleted :: int

text \<open>The join condition of the first statement.\<close>

definition expired :: "int \<Rightarrow> session_db \<Rightarrow> event_row \<Rightarrow> bool" where
  "expired now db e \<longleftrightarrow>
     (\<exists>s \<in> set (sessions db). n_session s = v_session e \<and> 0 < n_retention s \<and>
        v_ts e < now - n_retention s)"

definition retention_tx :: "int \<Rightarrow> session_db \<Rightarrow> go_error + (int \<times> session_db)" where
  "retention_tx now db =
     (let ids = take sweepBatchSessions (map v_id (filter (expired now db) (events db)));
          P = (\<lambda>e. v_id e \<in> set ids)
      in Inr (int (length (filter P (events db))), delete_events P db))"

text \<open>A session that is old and holds no event but its own start.\<close>

definition idle :: "int \<Rightarrow> session_db \<Rightarrow> session_row \<Rightarrow> bool" where
  "idle cutoff db s \<longleftrightarrow>
     n_started s < cutoff \<and>
     \<not> (\<exists>e \<in> set (events db). v_session e = n_session s \<and> v_type e \<noteq> eventTypeSessionStart)"

definition idle_batch :: "int \<Rightarrow> session_db \<Rightarrow> bytes list" where
  "idle_batch cutoff db =
     take sweepBatchSessions (sort (map n_session (filter (idle cutoff db) (sessions db))))"

definition idle_tx :: "int \<Rightarrow> session_db \<Rightarrow> go_error + (int \<times> session_db)" where
  "idle_tx cutoff db =
     (let ids = idle_batch cutoff db;
          db1 = delete_events (\<lambda>e. v_type e = eventTypeSessionStart \<and> v_session e \<in> set ids) db;
          ids1 = idle_batch cutoff db1
      in Inr (int (length (filter (\<lambda>s. n_session s \<in> set ids1) (sessions db1))),
              db1\<lparr>sessions := filter (\<lambda>s. n_session s \<notin> set ids1) (sessions db1)\<rparr>))"

section \<open>The loops\<close>

lemma length_filter_not: "length (filter (\<lambda>x. \<not> P x) xs) + length (filter P xs) = length xs"
  by (induction xs) auto

lemma int_length_filter_not [simp]:
  "int (length (filter (\<lambda>x. f x \<notin> S) xs)) + int (length (filter (\<lambda>x. f x \<in> S) xs)) = int (length xs)"
  using length_filter_not [of "\<lambda>x. f x \<in> S" xs] by simp

lemma delete_events_sel [simp]:
  "events (delete_events P db) = filter (\<lambda>e. \<not> P e) (events db)"
  "sessions (delete_events P db) = sessions db"
  "user_version (delete_events P db) = user_version db"
  by (simp_all add: delete_events_def Let_def)

lemma retention_tx_length:
  "retention_tx now db = Inr (n, db') \<Longrightarrow> int (length (events db')) + n = int (length (events db)) \<and> 0 \<le> n"
  by (auto simp: retention_tx_def Let_def)

lemma idle_tx_length:
  "idle_tx cutoff db = Inr (n, db') \<Longrightarrow> int (length (sessions db')) + n = int (length (sessions db)) \<and> 0 \<le> n"
  by (auto simp: idle_tx_def Let_def)

function sweep_events ::
  "int \<Rightarrow> session_db tx_world \<Rightarrow> int \<Rightarrow> session_db tx_world \<times> int \<times> go_error option" where
  "sweep_events now w acc =
     (case txRetry (retention_tx now) w of
        (w1, Inl e) \<Rightarrow> (w1, acc, Some e)
      | (w1, Inr n) \<Rightarrow> if n = 0 then (w1, acc + n, None) else sweep_events now w1 (acc + n))"
  by pat_completeness auto
termination
proof (relation "measure (\<lambda>(now, w, acc). length (events (snd w)))")
  fix now w acc w1 r n
  assume "(w1, r) = txRetry (retention_tx now) w" "r = Inr n" and n: "n \<noteq> (0::int)"
  then have "retention_tx now (snd w) = Inr (n, snd w1)" using txRetry_Inr by metis
  then have "length (events (snd w1)) < length (events (snd w))" using retention_tx_length n by fastforce
  then show "((now, w1, acc + n), now, w, acc) \<in> measure (\<lambda>(now, w, acc). length (events (snd w)))"
    by simp
qed simp

function sweep_idle ::
  "int \<Rightarrow> session_db tx_world \<Rightarrow> int \<Rightarrow> session_db tx_world \<times> int \<times> go_error option" where
  "sweep_idle cutoff w acc =
     (case txRetry (idle_tx cutoff) w of
        (w1, Inl e) \<Rightarrow> (w1, acc, Some e)
      | (w1, Inr n) \<Rightarrow> if n = 0 then (w1, acc + n, None) else sweep_idle cutoff w1 (acc + n))"
  by pat_completeness auto
termination
proof (relation "measure (\<lambda>(cutoff, w, acc). length (sessions (snd w)))")
  fix cutoff w acc w1 r n
  assume "(w1, r) = txRetry (idle_tx cutoff) w" "r = Inr n" and n: "n \<noteq> (0::int)"
  then have "idle_tx cutoff (snd w) = Inr (n, snd w1)" using txRetry_Inr by metis
  then have "length (sessions (snd w1)) < length (sessions (snd w))" using idle_tx_length n by fastforce
  then show "((cutoff, w1, acc + n), cutoff, w, acc) \<in> measure (\<lambda>(cutoff, w, acc). length (sessions (snd w)))"
    by simp
qed simp

declare sweep_events.simps [simp del] sweep_idle.simps [simp del]

definition Sweep ::
  "int \<Rightarrow> session_db tx_world \<Rightarrow> session_db tx_world \<times> sweep_report \<times> go_error option" where
  "Sweep now w =
     (case sweep_events now w 0 of
        (w1, n, Some e) \<Rightarrow> (w1, \<lparr>EventsDeleted = n, EmptySessionsDeleted = 0\<rparr>, Some e)
      | (w1, n, None) \<Rightarrow>
          (case sweep_idle (now - emptySessionMaxAgeSec) w1 0 of
             (w2, m, err) \<Rightarrow> (w2, \<lparr>EventsDeleted = n, EmptySessionsDeleted = m\<rparr>, err)))"

section \<open>What a batch does\<close>

lemma sorted_wrt_less_distinct: "sorted_wrt (<) (xs :: int list) \<Longrightarrow> distinct xs"
  by (simp add: strict_sorted_iff)

text \<open>Deleting events keeps the indexes in step.\<close>

lemma map_fts_filter:
  assumes "distinct (map v_id es)"
  shows "filter (\<lambda>r. r \<notin> set (map ev_fts (filter P es))) (map ev_fts es) =
    map ev_fts (filter (\<lambda>e. \<not> P e) es)"
proof -
  have member: "(ev_fts e \<in> set (map ev_fts (filter P es))) = P e" if "e \<in> set es" for e
  proof
    assume "ev_fts e \<in> set (map ev_fts (filter P es))"
    then obtain x where "x \<in> set es" "P x" "v_id x = v_id e" by (auto simp: ev_fts_def)
    moreover have "inj_on v_id (set es)" using assms by (simp add: distinct_map)
    ultimately show "P e" using that by (metis inj_onD)
  qed (use that in simp)
  have "filter (\<lambda>e. ev_fts e \<notin> set (map ev_fts (filter P es))) es = filter (\<lambda>e. \<not> P e) es"
    by (rule filter_cong [OF refl]) (simp only: member)
  then show ?thesis by (simp only: filter_map comp_def)
qed

lemma session_ok_ids: "session_ok db \<Longrightarrow> distinct (map v_id (events db))"
  using sorted_wrt_less_distinct [of "map v_id (events db)"] by (simp add: session_ok_def)

lemma sorted_wrt_map_filter: "sorted_wrt R (map f xs) \<Longrightarrow> sorted_wrt R (map f (filter P xs))"
  by (induction xs) auto

lemma delete_events_ok: "session_ok db \<Longrightarrow> session_ok (delete_events P db)"
proof -
  assume ok: "session_ok db"
  then have d: "distinct (map v_id (events db))"
    by (simp add: session_ok_def sorted_wrt_less_distinct)
  have "ev_porter (delete_events P db) = map ev_fts (filter (\<lambda>e. \<not> P e) (events db))"
       "ev_trigram (delete_events P db) = map ev_fts (filter (\<lambda>e. \<not> P e) (events db))"
    using ok map_fts_filter [OF d, of P]
    by (simp_all add: delete_events_def session_ok_def Let_def)
  then show ?thesis
    using ok by (simp add: session_ok_def has_session_def sorted_wrt_map_filter distinct_map_filter)
qed

lemma expired_cong: "sessions db' = sessions db \<Longrightarrow> expired now db' = expired now db"
  by (simp add: expired_def fun_eq_iff)

lemma take_map_filter_Nil:
  "filter (\<lambda>x. f x \<in> set (take sweepBatchSessions (map f (filter P xs)))) xs = [] \<longleftrightarrow> filter P xs = []"
proof
  assume none: "filter (\<lambda>x. f x \<in> set (take sweepBatchSessions (map f (filter P xs)))) xs = []"
  show "filter P xs = []"
  proof (rule ccontr)
    assume "filter P xs \<noteq> []"
    then obtain y ys where y: "filter P xs = y # ys" by (cases "filter P xs") auto
    then have "y \<in> set xs" using filter_eq_ConsD [OF y] by auto
    moreover have "f y \<in> set (take sweepBatchSessions (map f (filter P xs)))"
      by (simp add: y sweepBatchSessions_def take_Cons')
    ultimately show False using none by (auto simp: filter_empty_conv)
  qed
qed simp

lemma retention_tx_effect:
  assumes ok: "session_ok db" and tx: "retention_tx now db = Inr (n, db')"
  shows "\<exists>G. db' = delete_events G db \<and> (\<forall>e \<in> set (events db). G e \<longrightarrow> expired now db e)
    \<and> n = int (length (filter G (events db)))
    \<and> (n = 0 \<longrightarrow> (\<forall>e \<in> set (events db). \<not> expired now db e))"
proof -
  let ?ids = "take sweepBatchSessions (map v_id (filter (expired now db) (events db)))"
  let ?G = "\<lambda>e. v_id e \<in> set ?ids"
  have eq: "db' = delete_events ?G db" "n = int (length (filter ?G (events db)))"
    using tx by (simp_all add: retention_tx_def Let_def)
  have inj: "inj_on v_id (set (events db))"
    using session_ok_ids [OF ok] by (simp add: distinct_map)
  have sound: "expired now db e" if "e \<in> set (events db)" "?G e" for e
  proof -
    from that(2) obtain x where "x \<in> set (events db)" "expired now db x" "v_id x = v_id e"
      by (auto dest!: in_set_takeD)
    with inj that(1) show ?thesis by (metis inj_onD)
  qed
  have all: "\<not> expired now db e" if "n = 0" "e \<in> set (events db)" for e
  proof -
    from that(1) eq(2) have "filter ?G (events db) = []" by simp
    then have "filter (expired now db) (events db) = []" by (simp only: take_map_filter_Nil)
    with that(2) show ?thesis by (simp add: filter_empty_conv)
  qed
  from eq sound all show ?thesis
    by (intro exI [of _ ?G] conjI ballI impI) blast+
qed


text \<open>The two statements of the second phase choose the same sessions: deleting start events does
  not change who is idle.\<close>

definition idle_start :: "bytes list \<Rightarrow> event_row \<Rightarrow> bool" where
  "idle_start ids e \<longleftrightarrow> v_type e = eventTypeSessionStart \<and> v_session e \<in> set ids"

lemma idle_cong:
  assumes "events db' = filter (\<lambda>e. \<not> (v_type e = eventTypeSessionStart \<and> v_session e \<in> G)) (events db)"
  shows "idle cutoff db' = idle cutoff db"
  using assms by (auto simp: idle_def fun_eq_iff)

lemma idle_batch_same:
  "idle_batch cutoff (delete_events (idle_start ids) db) = idle_batch cutoff db"
  using idle_cong [of "delete_events (idle_start ids) db" "set ids" db cutoff]
  by (simp add: idle_batch_def idle_start_def)

lemma idle_tx_eq:
  "idle_tx cutoff db =
     (let ids = idle_batch cutoff db; db1 = delete_events (idle_start ids) db in
      Inr (int (length (filter (\<lambda>s. n_session s \<in> set ids) (sessions db))),
           db1\<lparr>sessions := filter (\<lambda>s. n_session s \<notin> set ids) (sessions db)\<rparr>))"
  using idle_batch_same [of cutoff "idle_batch cutoff db" db]
  by (simp add: idle_tx_def Let_def idle_start_def [abs_def])

lemma idle_batch_sound:
  assumes "session_ok db" and "s \<in> set (sessions db)" and "n_session s \<in> set (idle_batch cutoff db)"
  shows "idle cutoff db s"
proof -
  from assms(3) obtain t where "t \<in> set (sessions db)" "idle cutoff db t" "n_session t = n_session s"
    by (auto simp: idle_batch_def dest!: in_set_takeD)
  moreover have "inj_on n_session (set (sessions db))"
    using assms(1) by (simp add: session_ok_def distinct_map)
  ultimately show ?thesis using assms(2) by (metis inj_onD)
qed

lemma idle_batch_Nil: "idle_batch cutoff db = [] \<longleftrightarrow> (\<forall>s \<in> set (sessions db). \<not> idle cutoff db s)"
proof -
  have "length (idle_batch cutoff db) = min (length (filter (idle cutoff db) (sessions db))) 64"
    by (simp add: idle_batch_def sweepBatchSessions_def)
  then have "idle_batch cutoff db = [] \<longleftrightarrow> filter (idle cutoff db) (sessions db) = []"
    by (simp flip: length_0_conv add: min_def split: if_splits)
  then show ?thesis by (simp add: filter_empty_conv)
qed

lemma idle_tx_effect:
  assumes ok: "session_ok db" and tx: "idle_tx cutoff db = Inr (n, db')"
  shows "\<exists>G. sessions db' = filter (\<lambda>s. n_session s \<notin> G) (sessions db)
    \<and> events db' = filter (\<lambda>e. \<not> (v_type e = eventTypeSessionStart \<and> v_session e \<in> G)) (events db)
    \<and> (\<forall>s \<in> set (sessions db). n_session s \<in> G \<longrightarrow> idle cutoff db s)
    \<and> (\<forall>x \<in> G. has_session db x)
    \<and> (n = 0 \<longrightarrow> (\<forall>s \<in> set (sessions db). \<not> idle cutoff db s))
    \<and> n = int (length (filter (\<lambda>s. n_session s \<in> G) (sessions db)))
    \<and> session_ok db'"
proof -
  let ?ids = "idle_batch cutoff db"
  let ?db1 = "delete_events (idle_start ?ids) db"
  have eq: "db' = ?db1\<lparr>sessions := filter (\<lambda>s. n_session s \<notin> set ?ids) (sessions db)\<rparr>"
      "n = int (length (filter (\<lambda>s. n_session s \<in> set ?ids) (sessions db)))"
    using tx by (simp_all add: idle_tx_eq Let_def)
  have sound: "\<forall>s \<in> set (sessions db). n_session s \<in> set ?ids \<longrightarrow> idle cutoff db s"
    using idle_batch_sound [OF ok] by blast
  have from_db: "\<forall>x \<in> set ?ids. has_session db x"
    by (auto simp: idle_batch_def has_session_def dest!: in_set_takeD)
  have all: "\<forall>s \<in> set (sessions db). \<not> idle cutoff db s" if "n = 0"
  proof -
    have "?ids = []"
    proof (rule ccontr)
      assume "?ids \<noteq> []"
      then obtain x where "x \<in> set ?ids" by (cases ?ids) auto
      with from_db that eq(2) show False by (auto simp: has_session_def filter_empty_conv)
    qed
    then show ?thesis by (simp add: idle_batch_Nil)
  qed
  have ok1: "session_ok ?db1" using ok by (rule delete_events_ok)
  have "has_session db' (v_session e)" if e: "e \<in> set (events ?db1)" for e
  proof -
    from e ok obtain s where s: "s \<in> set (sessions db)" "n_session s = v_session e"
      by (auto simp: session_ok_def has_session_def)
    moreover have "v_session e \<notin> set ?ids"
    proof
      assume g: "v_session e \<in> set ?ids"
      with s sound have "idle cutoff db s" by auto
      with e s g show False by (auto simp: idle_def idle_start_def)
    qed
    ultimately show ?thesis unfolding eq by (auto simp: has_session_def)
  qed
  then have "session_ok db'"
    using ok1 unfolding eq by (simp add: session_ok_def distinct_map_filter)
  with eq sound from_db all show ?thesis
    by (intro exI [of _ "set ?ids"]) (simp add: idle_start_def)
qed


section \<open>What the sweep does\<close>

text \<open>A run of the first loop, whatever ends it: only expired events go, they are counted, and
  after a run without error none is left.\<close>

lemma sweep_events_effect:
  assumes "session_ok (snd w)" and "sweep_events now w acc = (w', acc', err)"
  shows "session_ok (snd w') \<and> sessions (snd w') = sessions (snd w)
    \<and> (\<exists>G. events (snd w') = filter (\<lambda>e. \<not> G e) (events (snd w)) \<and> (\<forall>e. G e \<longrightarrow> expired now (snd w) e))
    \<and> acc' + int (length (events (snd w'))) = acc + int (length (events (snd w)))
    \<and> (err = None \<longrightarrow> (\<forall>e \<in> set (events (snd w')). \<not> expired now (snd w) e))"
  using assms
proof (induction now w acc rule: sweep_events.induct)
  case (1 now w acc)
  obtain w1 r where tx: "txRetry (retention_tx now) w = (w1, r)" by fastforce
  show ?case
  proof (cases r)
    case (Inl e)
    with tx 1(3) have "w' = w1" "acc' = acc" "err = Some e"
      by (simp_all add: sweep_events.simps [of now w])
    with tx Inl 1(2) txRetry_Inl [of "retention_tx now" w w1 e] show ?thesis
      by (auto intro!: exI [of _ "\<lambda>_. False"])
  next
    case (Inr n)
    then have step: "retention_tx now (snd w) = Inr (n, snd w1)" using tx by (simp add: txRetry_Inr)
    from retention_tx_effect [OF 1(2) step] obtain G where
      G: "snd w1 = delete_events G (snd w)" "\<forall>e \<in> set (events (snd w)). G e \<longrightarrow> expired now (snd w) e"
        "n = 0 \<longrightarrow> (\<forall>e \<in> set (events (snd w)). \<not> expired now (snd w) e)" by blast
    have ok1: "session_ok (snd w1)" unfolding G(1) using 1(2) by (rule delete_events_ok)
    have len: "int (length (events (snd w1))) + n = int (length (events (snd w)))"
      using retention_tx_length [OF step] by simp
    let ?G = "\<lambda>e. G e \<and> expired now (snd w) e"
    have ev1: "events (snd w1) = filter (\<lambda>e. \<not> ?G e) (events (snd w))"
      unfolding G(1) using G(2) by (auto intro!: filter_cong)
    have exp1: "expired now (snd w1) = expired now (snd w)" by (rule expired_cong) (simp add: G(1))
    show ?thesis
    proof (cases "n = 0")
      case True
      with tx Inr 1(3) have "w' = w1" "acc' = acc" "err = None"
        by (simp_all add: sweep_events.simps [of now w])
      with True ok1 len ev1 G show ?thesis by (auto intro!: exI [of _ ?G])
    next
      case False
      then have "sweep_events now w1 (acc + n) = (w', acc', err)"
        using tx Inr 1(3) by (simp add: sweep_events.simps [of now w])
      from 1(1) [OF tx [symmetric] Inr False ok1 this] obtain H where
        H: "session_ok (snd w')" "sessions (snd w') = sessions (snd w1)"
          "events (snd w') = filter (\<lambda>e. \<not> H e) (events (snd w1))" "\<forall>e. H e \<longrightarrow> expired now (snd w) e"
          "acc' + int (length (events (snd w'))) = acc + n + int (length (events (snd w1)))"
          "err = None \<longrightarrow> (\<forall>e \<in> set (events (snd w')). \<not> expired now (snd w) e)"
        unfolding exp1 by blast
      have "events (snd w') = filter (\<lambda>e. \<not> (?G e \<or> H e)) (events (snd w))"
        unfolding H(3) ev1 by (simp add: filter_filter conj_ac)
      with H len show ?thesis
        by (intro conjI exI [of _ "\<lambda>e. ?G e \<or> H e"]) (simp_all add: G(1))
    qed
  qed
qed


lemma sweep_idle_effect:
  assumes "session_ok (snd w)" and "sweep_idle cutoff w acc = (w', acc', err)"
  shows "session_ok (snd w')
    \<and> (\<exists>G. sessions (snd w') = filter (\<lambda>s. n_session s \<notin> G) (sessions (snd w))
         \<and> events (snd w') = filter (\<lambda>e. \<not> (v_type e = eventTypeSessionStart \<and> v_session e \<in> G)) (events (snd w))
         \<and> (\<forall>s \<in> set (sessions (snd w)). n_session s \<in> G \<longrightarrow> idle cutoff (snd w) s)
         \<and> (\<forall>x \<in> G. has_session (snd w) x))
    \<and> acc' + int (length (sessions (snd w'))) = acc + int (length (sessions (snd w)))
    \<and> (err = None \<longrightarrow> (\<forall>s \<in> set (sessions (snd w')). \<not> idle cutoff (snd w) s))"
  using assms
proof (induction cutoff w acc rule: sweep_idle.induct)
  case (1 cutoff w acc)
  obtain w1 r where tx: "txRetry (idle_tx cutoff) w = (w1, r)" by fastforce
  show ?case
  proof (cases r)
    case (Inl e)
    with tx 1(3) have "w' = w1" "acc' = acc" "err = Some e"
      by (simp_all add: sweep_idle.simps [of cutoff w])
    with tx Inl 1(2) txRetry_Inl [of "idle_tx cutoff" w w1 e] show ?thesis
      by (auto intro!: exI [of _ "{}"])
  next
    case (Inr n)
    then have step: "idle_tx cutoff (snd w) = Inr (n, snd w1)" using tx by (simp add: txRetry_Inr)
    from idle_tx_effect [OF 1(2) step] obtain G where
      G: "sessions (snd w1) = filter (\<lambda>s. n_session s \<notin> G) (sessions (snd w))"
        "events (snd w1) = filter (\<lambda>e. \<not> (v_type e = eventTypeSessionStart \<and> v_session e \<in> G)) (events (snd w))"
        "\<forall>s \<in> set (sessions (snd w)). n_session s \<in> G \<longrightarrow> idle cutoff (snd w) s"
        "\<forall>x \<in> G. has_session (snd w) x"
        "n = 0 \<longrightarrow> (\<forall>s \<in> set (sessions (snd w)). \<not> idle cutoff (snd w) s)"
        "session_ok (snd w1)" by blast
    have len: "int (length (sessions (snd w1))) + n = int (length (sessions (snd w)))"
      using idle_tx_length [OF step] by simp
    have same: "idle cutoff (snd w1) = idle cutoff (snd w)" by (rule idle_cong [OF G(2)])
    show ?thesis
    proof (cases "n = 0")
      case True
      with tx Inr 1(3) have "w' = w1" "acc' = acc" "err = None"
        by (simp_all add: sweep_idle.simps [of cutoff w])
      with True len G show ?thesis by (intro conjI exI [of _ G]) simp_all
    next
      case False
      then have "sweep_idle cutoff w1 (acc + n) = (w', acc', err)"
        using tx Inr 1(3) by (simp add: sweep_idle.simps [of cutoff w])
      from 1(1) [OF tx [symmetric] Inr False G(6) this] obtain H where
        H: "session_ok (snd w')" "sessions (snd w') = filter (\<lambda>s. n_session s \<notin> H) (sessions (snd w1))"
          "events (snd w') = filter (\<lambda>e. \<not> (v_type e = eventTypeSessionStart \<and> v_session e \<in> H)) (events (snd w1))"
          "\<forall>s \<in> set (sessions (snd w1)). n_session s \<in> H \<longrightarrow> idle cutoff (snd w) s"
          "\<forall>x \<in> H. has_session (snd w1) x"
          "acc' + int (length (sessions (snd w'))) = acc + n + int (length (sessions (snd w1)))"
          "err = None \<longrightarrow> (\<forall>s \<in> set (sessions (snd w')). \<not> idle cutoff (snd w) s)"
        unfolding same by blast
      have ss: "sessions (snd w') = filter (\<lambda>s. n_session s \<notin> G \<union> H) (sessions (snd w))"
        unfolding H(2) G(1) by (simp add: conj_ac)
      have es: "events (snd w') =
          filter (\<lambda>e. \<not> (v_type e = eventTypeSessionStart \<and> v_session e \<in> G \<union> H)) (events (snd w))"
        unfolding H(3) G(2) by (auto intro!: filter_cong)
      have sound: "idle cutoff (snd w) s" if "s \<in> set (sessions (snd w))" "n_session s \<in> G \<union> H" for s
        using that G(1,3) H(4) by (cases "n_session s \<in> G") auto
      have from_db: "has_session (snd w) x" if "x \<in> G \<union> H" for x
        using that G(1,4) H(5) by (auto simp: has_session_def)
      from H(1,6,7) len ss es sound from_db show ?thesis
        by (intro conjI exI [of _ "G \<union> H"]) simp_all
    qed
  qed
qed

text \<open>The two phases of a run.\<close>

lemma Sweep_cases:
  assumes "Sweep now w = (w', rep, err)"
  obtains (events_failed) n e where "sweep_events now w 0 = (w', n, Some e)" "err = Some e"
      "rep = \<lparr>EventsDeleted = n, EmptySessionsDeleted = 0\<rparr>"
    | (both) w1 n m where "sweep_events now w 0 = (w1, n, None)"
      "sweep_idle (now - emptySessionMaxAgeSec) w1 0 = (w', m, err)"
      "rep = \<lparr>EventsDeleted = n, EmptySessionsDeleted = m\<rparr>"
proof -
  obtain w1 n e1 where 1: "sweep_events now w 0 = (w1, n, e1)" by (metis prod_cases3)
  show thesis
  proof (cases e1)
    case (Some e)
    with 1 assms show ?thesis by (intro events_failed [of n e]) (simp_all add: Sweep_def)
  next
    case None
    obtain w2 m e2 where 2: "sweep_idle (now - emptySessionMaxAgeSec) w1 0 = (w2, m, e2)"
      by (metis prod_cases3)
    with 1 None assms show ?thesis by (intro both [of w1 n m]) (simp_all add: Sweep_def)
  qed
qed

lemma Sweep_ok:
  assumes "session_ok (snd w)" and "Sweep now w = (w', rep, err)"
  shows "session_ok (snd w')"
  using assms(2)
proof (cases rule: Sweep_cases)
  case events_failed
  with sweep_events_effect [OF assms(1)] show ?thesis by blast
next
  case (both w1 n m)
  with sweep_events_effect [OF assms(1)] have "session_ok (snd w1)" by blast
  with both(2) sweep_idle_effect show ?thesis by blast
qed

text \<open>A sweep that returns no error has deleted exactly the events past the
  retention of their session, and then exactly the sessions older than seven days that are left
  with nothing but start events, together with those start events; the report counts the expired
  events and the sessions.\<close>

lemma sweep_exact:
  assumes ok: "session_ok (snd w)" and run: "Sweep now w = (w', rep, None)"
    and old: "old = (\<lambda>e. \<exists>s \<in> set (sessions (snd w)).
      n_session s = v_session e \<and> 0 < n_retention s \<and> v_ts e < now - n_retention s)"
    and kept: "kept = filter (\<lambda>e. \<not> old e) (events (snd w))"
    and gone: "gone = (\<lambda>s. n_started s < now - 604800 \<and>
      (\<forall>e \<in> set kept. v_session e = n_session s \<longrightarrow> v_type e = ''session_start''))"
  shows "sessions (snd w') = filter (\<lambda>s. \<not> gone s) (sessions (snd w))
    \<and> events (snd w') = filter (\<lambda>e. \<not> (v_type e = ''session_start'' \<and>
        (\<exists>s \<in> set (sessions (snd w)). gone s \<and> n_session s = v_session e))) kept
    \<and> EventsDeleted rep = int (length (filter old (events (snd w))))
    \<and> EmptySessionsDeleted rep = int (length (filter gone (sessions (snd w))))"
  using run
proof (cases rule: Sweep_cases)
  case (both w1 n m)
  have old': "old = expired now (snd w)" by (simp add: old expired_def fun_eq_iff)
  from sweep_events_effect [OF ok both(1)] obtain G where
    1: "session_ok (snd w1)" "sessions (snd w1) = sessions (snd w)"
      "events (snd w1) = filter (\<lambda>e. \<not> G e) (events (snd w))" "\<forall>e. G e \<longrightarrow> expired now (snd w) e"
      "n + int (length (events (snd w1))) = int (length (events (snd w)))"
      "\<forall>e \<in> set (events (snd w1)). \<not> expired now (snd w) e" by auto
  have ev1: "events (snd w1) = kept"
    unfolding 1(3) kept old' using 1(3,4,6) by (auto intro!: filter_cong)
  have idle: "idle (now - emptySessionMaxAgeSec) (snd w1) = gone"
    by (auto simp: gone idle_def ev1 emptySessionMaxAgeSec_def eventTypeSessionStart_def fun_eq_iff)
  from sweep_idle_effect [OF 1(1) both(2)] obtain H where
    2: "sessions (snd w') = filter (\<lambda>s. n_session s \<notin> H) (sessions (snd w))"
      "events (snd w') = filter (\<lambda>e. \<not> (v_type e = ''session_start'' \<and> v_session e \<in> H)) kept"
      "\<forall>s \<in> set (sessions (snd w)). n_session s \<in> H \<longrightarrow> gone s" "\<forall>x \<in> H. has_session (snd w) x"
      "m + int (length (sessions (snd w'))) = int (length (sessions (snd w)))"
      "\<forall>s \<in> set (sessions (snd w')). \<not> gone s"
    unfolding idle by (auto simp: ev1 1(2) eventTypeSessionStart_def has_session_def)
  have H: "n_session s \<in> H \<longleftrightarrow> gone s" if "s \<in> set (sessions (snd w))" for s
    using that 2(1,3,6) by auto
  have "x \<in> H \<longleftrightarrow> (\<exists>s \<in> set (sessions (snd w)). gone s \<and> n_session s = x)" for x
    using 2(4) H unfolding has_session_def by metis
  moreover have ss: "sessions (snd w') = filter (\<lambda>s. \<not> gone s) (sessions (snd w))"
    unfolding 2(1) by (rule filter_cong) (simp_all add: H)
  moreover have "n = int (length (filter old (events (snd w))))"
    using 1(5) length_filter_not [of old "events (snd w)"]
    by (simp add: ev1 kept)
  moreover have "m = int (length (filter gone (sessions (snd w))))"
    using 2(5) length_filter_not [of gone "sessions (snd w)"] by (simp add: ss)
  ultimately show ?thesis using 2(2) both(3) by simp
qed simp


definition demo_event :: "int \<Rightarrow> bytes \<Rightarrow> bytes \<Rightarrow> bytes \<Rightarrow> int \<Rightarrow> event_row" where
  "demo_event i eid sid t ts =
     \<lparr>v_id = i, v_event = eid, v_session = sid, v_type = t, v_ts = ts, v_summary = ''s'',
      v_payload = None, v_refs = None, v_related = None, v_redaction = ''none'', v_supersedes = None\<rparr>"

text \<open>Session \<open>a\<close> keeps events for a day, \<open>b\<close> for ever; both are ten days old.\<close>

definition demo_sweep_db :: session_db where
  "demo_sweep_db =
     (let es = [demo_event 1 ''e1'' ''a'' ''session_start'' 0, demo_event 2 ''e2'' ''a'' ''note'' 10,
                demo_event 3 ''e3'' ''b'' ''session_start'' 20, demo_event 4 ''e4'' ''c'' ''session_start'' 800000,
                demo_event 5 ''e5'' ''c'' ''note'' 800000] in
      \<lparr>events = es,
       sessions = [\<lparr>n_session = ''a'', n_started = 0, n_producer = ''p'', n_retention = 86400\<rparr>,
                   \<lparr>n_session = ''b'', n_started = 20, n_producer = ''p'', n_retention = 0\<rparr>,
                   \<lparr>n_session = ''c'', n_started = 800000, n_producer = ''p'', n_retention = 86400\<rparr>],
       ev_porter = map ev_fts es, ev_trigram = map ev_fts es, user_version = 1\<rparr>)"

lemma demo_sweep_ok: "session_ok demo_sweep_db"
  by (simp add: demo_sweep_db_def demo_event_def session_ok_def has_session_def Let_def)

lemma demo_sweep_run:
  "snd (snd (Sweep 864000 (\<lparr>e_tx = [Some SqliteBusy], e_ctx = []\<rparr>, demo_sweep_db))) = None"
  by code_simp


lemma demo_sweep_old:
  "length (filter (\<lambda>e. \<exists>s \<in> set (sessions demo_sweep_db).
      n_session s = v_session e \<and> 0 < n_retention s \<and> v_ts e < 864000 - n_retention s) (events demo_sweep_db)) = 2"
  by code_simp

lemma sweep_exact_witness:
  "\<exists>w' rep. Sweep 864000 (\<lparr>e_tx = [Some SqliteBusy], e_ctx = []\<rparr>, demo_sweep_db) = (w', rep, None)
     \<and> EventsDeleted rep = 2"
proof -
  obtain w' rep where run: "Sweep 864000 (\<lparr>e_tx = [Some SqliteBusy], e_ctx = []\<rparr>, demo_sweep_db) = (w', rep, None)"
    using demo_sweep_run by (metis prod.collapse)
  have "EventsDeleted rep = 2"
    using sweep_exact [OF _ run refl refl refl, THEN conjunct2, THEN conjunct2, THEN conjunct1]
      demo_sweep_ok demo_sweep_old by simp
  with run show ?thesis by blast
qed

end
