(* ===== verification/Session_Export.thy ===== *)
theory Session_Export
  imports Session_Sweep
begin

text \<open>
  Reading the session log: the external form of an event and its pages
  (\<open>internal/session/export.go\<close>), the loop of \<open>session export\<close> (\<open>internal/cli/cli.go\<close>), and the
  session summary (\<open>internal/session/summary.go\<close>).
\<close>

section \<open>The time stamp\<close>

text \<open>\<open>time.Unix(ts, 0).UTC().Format(time.RFC3339)\<close>: the proleptic Gregorian date of the day
  number, then the time of day.\<close>

definition civil_date :: "int \<Rightarrow> int \<times> int \<times> int" where
  "civil_date days =
     (let z = days + 719468; era = z div 146097; doe = z mod 146097;
          yoe = (doe - doe div 1460 + doe div 36524 - doe div 146096) div 365;
          doy = doe - (365 * yoe + yoe div 4 - yoe div 100);
          mp = (5 * doy + 2) div 153;
          d = doy - (153 * mp + 2) div 5 + 1;
          m = (if mp < 10 then mp + 3 else mp - 9)
      in (yoe + era * 400 + (if m \<le> 2 then 1 else 0), m, d))"

definition pad_int :: "nat \<Rightarrow> int \<Rightarrow> bytes" where
  "pad_int n i =
     (let s = itoa \<bar>i\<bar> in
      (if i < 0 then ''-'' else []) @ replicate (n - length s) (CHR ''0'') @ s)"

definition rfc3339 :: "int \<Rightarrow> bytes" where
  "rfc3339 ts =
     (case civil_date (ts div 86400) of (y, m, d) \<Rightarrow>
        let s = ts mod 86400 in
        pad_int 4 y @ ''-'' @ pad_int 2 m @ ''-'' @ pad_int 2 d @ ''T'' @
        pad_int 2 (s div 3600) @ '':'' @ pad_int 2 (s div 60 mod 60) @ '':'' @ pad_int 2 (s mod 60) @ ''Z'')"

section \<open>The external event\<close>

record producer =
  p_name :: bytes
  p_version :: bytes

record event_v1 =
  x_schema :: bytes
  x_event :: bytes
  x_session :: bytes
  x_type :: bytes
  x_timestamp :: bytes
  x_summary :: bytes
  x_refs :: "bytes list"
  x_related :: "bytes list"
  x_attributes :: "bytes option"
  x_privacy :: bytes
  x_producer :: producer
  x_supersedes :: bytes
  x_redaction :: bytes
  x_row :: int

definition deriveProducer :: "bytes option \<Rightarrow> producer" where
  "deriveProducer raw =
     (case raw of
        Some r \<Rightarrow>
          (case cut_char (CHR ''/'') r of
             Some (name, version) \<Rightarrow> \<lparr>p_name = ''context-router'', p_version = version\<rparr>
           | None \<Rightarrow> \<lparr>p_name = ''context-router'', p_version = ''unknown''\<rparr>)
      | None \<Rightarrow> \<lparr>p_name = ''context-router'', p_version = ''unknown''\<rparr>)"

text \<open>A nullable column that holds a JSON list: nothing when it is NULL or empty.\<close>

definition strings_column :: "bytes option \<Rightarrow> go_error + bytes list" where
  "strings_column c =
     (case c of
        None \<Rightarrow> Inr []
      | Some s \<Rightarrow>
          if s = [] then Inr []
          else (case unmarshal_strings s of
              None \<Rightarrow> Inl (ErrOther ''json'')
            | Some vs \<Rightarrow> Inr vs))"

definition scanEventV1 :: "event_row \<Rightarrow> bytes option \<Rightarrow> go_error + event_v1" where
  "scanEventV1 e pr =
     (case strings_column (v_refs e) of
        Inl err \<Rightarrow> Inl err
      | Inr refs \<Rightarrow>
          (case strings_column (v_related e) of
             Inl err \<Rightarrow> Inl err
           | Inr related \<Rightarrow>
               Inr \<lparr>x_schema = ''1.0'', x_event = v_event e, x_session = v_session e,
                    x_type = v_type e, x_timestamp = rfc3339 (v_ts e), x_summary = v_summary e,
                    x_refs = refs, x_related = related,
                    x_attributes = (case v_payload e of Some p \<Rightarrow> if p \<noteq> [] then Some p else None
                                    | None \<Rightarrow> None),
                    x_privacy = ''internal'', x_producer = deriveProducer pr,
                    x_supersedes = (case v_supersedes e of Some s \<Rightarrow> s | None \<Rightarrow> []),
                    x_redaction = (if v_redaction e \<noteq> ''none'' then v_redaction e else []),
                    x_row = v_id e\<rparr>))"

section \<open>Pages\<close>

text \<open>\<open>LIMIT\<close> with a negative number is no limit.\<close>

definition sql_limit :: "int \<Rightarrow> 'a list \<Rightarrow> 'a list" where
  "sql_limit n xs = (if n < 0 then xs else take (nat n) xs)"

definition producer_of :: "session_db \<Rightarrow> bytes \<Rightarrow> bytes option" where
  "producer_of db sid = map_option n_producer (List.find (\<lambda>s. n_session s = sid) (sessions db))"

definition selected :: "int \<Rightarrow> bytes \<Rightarrow> event_row \<Rightarrow> bool" where
  "selected after sid e \<longleftrightarrow> after < v_id e \<and> (sid \<noteq> [] \<longrightarrow> v_session e = sid)"

text \<open>The failures of one query: of the query itself, or of the row iteration after some rows.\<close>

record query_io =
  y_query :: "go_error option"
  y_rows :: "(nat \<times> go_error) option"

fun scan_rows :: "session_db \<Rightarrow> event_row list \<Rightarrow> event_v1 list \<Rightarrow> int \<Rightarrow> go_error + (event_v1 list \<times> int)" where
  "scan_rows db [] evs nextAfter = Inr (evs, nextAfter)"
| "scan_rows db (e # es) evs nextAfter =
     (case scanEventV1 e (producer_of db (v_session e)) of
        Inl err \<Rightarrow> Inl err
      | Inr ev \<Rightarrow> scan_rows db es (evs @ [ev]) (x_row ev))"

definition Export ::
  "query_io \<Rightarrow> session_db \<Rightarrow> int \<Rightarrow> bytes \<Rightarrow> int \<Rightarrow> event_v1 list \<times> int \<times> go_error option" where
  "Export io db after sid limit =
     (case y_query io of
        Some err \<Rightarrow> ([], after, Some err)
      | None \<Rightarrow>
          let rows = sql_limit limit (filter (selected after sid) (events db));
              seen = (case y_rows io of None \<Rightarrow> rows | Some (k, _) \<Rightarrow> take k rows) in
          (case scan_rows db seen [] after of
             Inl err \<Rightarrow> ([], after, Some err)
           | Inr (evs, nextAfter) \<Rightarrow>
               (case y_rows io of
                  Some (_, err) \<Rightarrow> ([], after, Some err)
                | None \<Rightarrow> (evs, nextAfter, None))))"

text \<open>A page on success: the rows, in order, each read, and the id of the last.\<close>

lemma scan_rows_Inr:
  "scan_rows db es evs n = Inr (evs', n') \<Longrightarrow>
     \<exists>xs. evs' = evs @ xs \<and> list_all2 (\<lambda>e x. scanEventV1 e (producer_of db (v_session e)) = Inr x) es xs
        \<and> n' = (if es = [] then n else v_id (last es))"
proof (induction es arbitrary: evs n)
  case (Cons e es)
  from Cons.prems obtain ev where ev: "scanEventV1 e (producer_of db (v_session e)) = Inr ev"
      "scan_rows db es (evs @ [ev]) (x_row ev) = Inr (evs', n')"
    by (auto split: sum.splits)
  moreover have "x_row ev = v_id e" using ev(1) by (auto simp: scanEventV1_def split: sum.splits)
  ultimately show ?case using Cons.IH [OF ev(2)] by auto
qed simp

lemma Export_Ok:
  assumes "Export io db after sid limit = (evs, n, None)"
  shows "list_all2 (\<lambda>e x. scanEventV1 e (producer_of db (v_session e)) = Inr x)
      (sql_limit limit (filter (selected after sid) (events db))) evs
    \<and> n = (if evs = [] then after else v_id (last (sql_limit limit (filter (selected after sid) (events db)))))"
proof -
  let ?rows = "sql_limit limit (filter (selected after sid) (events db))"
  from assms have "scan_rows db ?rows [] after = Inr (evs, n)"
    by (auto simp: Export_def Let_def split: option.splits sum.splits prod.splits)
  from scan_rows_Inr [OF this] show ?thesis
    by (cases evs) (auto simp: list_all2_lengthD)
qed

lemma sql_limit_subset: "set (sql_limit n xs) \<subseteq> set xs"
  by (auto simp: sql_limit_def dest: in_set_takeD)

lemma Export_next:
  assumes page: "Export io db after sid limit = (evs, n, None)" and ne: "evs \<noteq> []"
  shows "after < n \<and> (\<exists>e \<in> set (events db). v_id e = n)"
proof -
  obtain rows where rows: "rows = sql_limit limit (filter (selected after sid) (events db))" by simp
  note ok = Export_Ok [OF page, folded rows]
  have len: "length rows = length evs" using ok [THEN conjunct1] by (rule list_all2_lengthD)
  have r: "rows \<noteq> []" using len ne by auto
  have n: "n = v_id (last rows)" using ok [THEN conjunct2] ne by (simp only: if_False)
  have "last rows \<in> set (filter (selected after sid) (events db))"
    using last_in_set [OF r] unfolding rows by (rule subsetD [OF sql_limit_subset])
  then have "after < v_id (last rows)" "last rows \<in> set (events db)"
    by (simp_all add: selected_def)
  with n show ?thesis by (intro conjI bexI [of _ "last rows"]) simp_all
qed

lemma length_filter_less_subset:
  assumes "\<And>x. P x \<Longrightarrow> Q x" and "x \<in> set xs" "Q x" "\<not> P x"
  shows "length (filter P xs) < length (filter Q xs)"
proof -
  have "filter P xs = filter P (filter Q xs)" using assms(1) by (auto intro!: filter_cong)
  moreover have "length (filter P (filter Q xs)) < length (filter Q xs)"
    using assms(2-4) by (intro length_filter_less [of x]) auto
  ultimately show ?thesis by simp
qed

text \<open>The command's loop: pages of 500 until an empty one, each event encoded and written as a
  line.  The encoder and the outcome of the writes are parameters.\<close>

fun write_events ::
  "(event_v1 \<Rightarrow> go_error + bytes) \<Rightarrow> (nat \<Rightarrow> go_error option) \<Rightarrow> event_v1 list \<Rightarrow> bytes list \<Rightarrow>
     bytes list \<times> go_error option" where
  "write_events enc wr [] out = (out, None)"
| "write_events enc wr (ev # evs) out =
     (case enc ev of
        Inl err \<Rightarrow> (out, Some err)
      | Inr b \<Rightarrow>
          (case wr (length out) of
             Some err \<Rightarrow> (out, Some err)
           | None \<Rightarrow> write_events enc wr evs (out @ [b @ [CHR 0x0A]])))"

function exportJSONL ::
  "(event_v1 \<Rightarrow> go_error + bytes) \<Rightarrow> (nat \<Rightarrow> go_error option) \<Rightarrow> (int \<Rightarrow> query_io) \<Rightarrow>
     session_db \<Rightarrow> bytes \<Rightarrow> int \<Rightarrow> bytes list \<Rightarrow> bytes list \<times> go_error option" where
  "exportJSONL enc wr io db sid cur out =
     (case Export (io cur) db cur sid 500 of
        (evs, n, Some err) \<Rightarrow> (out, Some err)
      | (evs, n, None) \<Rightarrow>
          (case write_events enc wr evs out of
             (out', Some err) \<Rightarrow> (out', Some err)
           | (out', None) \<Rightarrow>
               if evs = [] \<or> n = cur then (out', None)
               else exportJSONL enc wr io db sid n out'))"
  by pat_completeness auto
termination
proof (relation "measure (\<lambda>(enc, wr, io, db, sid, cur, out). length (filter (\<lambda>e. cur < v_id e) (events db)))")
  fix enc :: "event_v1 \<Rightarrow> go_error + bytes" and wr :: "nat \<Rightarrow> go_error option" and io :: "int \<Rightarrow> query_io"
    and db sid cur out p evs q n r out' u
  assume "(evs, q) = Export (io cur) db cur sid 500" "(n, r) = q" "r = None"
    and more: "\<not> (evs = [] \<or> n = cur)"
  then have page: "Export (io cur) db cur sid 500 = (evs, n, None)" by simp
  with more obtain e where e: "cur < n" "e \<in> set (events db)" "v_id e = n"
    using Export_next by blast
  have "length (filter (\<lambda>e. n < v_id e) (events db)) < length (filter (\<lambda>e. cur < v_id e) (events db))"
    using e by (intro length_filter_less_subset) auto
  then show "((enc, wr, io, db, sid, n, out'), enc, wr, io, db, sid, cur, out)
      \<in> measure (\<lambda>(enc, wr, io, db, sid, cur, out). length (filter (\<lambda>e. cur < v_id e) (events db)))"
    by simp
qed simp

declare exportJSONL.simps [simp del]


section \<open>The pages cover the log\<close>

lemma filter_after_last:
  fixes f :: "'a \<Rightarrow> int"
  assumes sorted: "sorted_wrt (<) (map f (a @ b))" and ne: "a \<noteq> []"
  shows "filter (\<lambda>e. f (last a) < f e) (a @ b) = b"
proof -
  obtain c l where a: "a = c @ [l]" using ne by (metis append_butlast_last_id)
  have "\<forall>x \<in> set c. f x < f l" "\<forall>y \<in> set b. f l < f y"
    using sorted by (auto simp: a sorted_wrt_append)
  then show ?thesis by (auto simp: a filter_empty_conv filter_id_conv not_less less_imp_le)
qed

lemma filter_after_page:
  fixes f :: "'a \<Rightarrow> int"
  assumes "sorted_wrt (<) (map f xs)" and "take k xs \<noteq> []"
  shows "filter (\<lambda>e. f (last (take k xs)) < f e) xs = drop k xs"
  using filter_after_last [of f "take k xs" "drop k xs"] assms by simp

text \<open>The line an event becomes.\<close>

definition line_of :: "(event_v1 \<Rightarrow> go_error + bytes) \<Rightarrow> session_db \<Rightarrow> event_row \<Rightarrow> bytes \<Rightarrow> bool" where
  "line_of enc db e l \<longleftrightarrow>
     (\<exists>x b. scanEventV1 e (producer_of db (v_session e)) = Inr x \<and> enc x = Inr b \<and> l = b @ [CHR 0x0A])"

lemma write_events_None:
  "write_events enc wr evs out = (out', None) \<Longrightarrow>
     \<exists>ls. out' = out @ ls \<and> list_all2 (\<lambda>x l. \<exists>b. enc x = Inr b \<and> l = b @ [CHR 0x0A]) evs ls"
proof (induction evs arbitrary: out)
  case (Cons ev evs)
  then obtain b where b: "enc ev = Inr b" "write_events enc wr evs (out @ [b @ [CHR 0x0A]]) = (out', None)"
    by (auto split: sum.splits option.splits)
  from Cons.IH [OF b(2)] obtain ls where
    "out' = (out @ [b @ [CHR 0x0A]]) @ ls"
    "list_all2 (\<lambda>x l. \<exists>b. enc x = Inr b \<and> l = b @ [CHR 0x0A]) evs ls" by blast
  with b(1) show ?case by (intro exI [of _ "(b @ [CHR 0x0A]) # ls"]) simp
qed simp

lemma page_lines:
  "list_all2 (\<lambda>e x. scanEventV1 e (producer_of db (v_session e)) = Inr x) es evs \<Longrightarrow>
   list_all2 (\<lambda>x l. \<exists>b. enc x = Inr b \<and> l = b @ [CHR 0x0A]) evs ls \<Longrightarrow>
   list_all2 (line_of enc db) es ls"
  by (rule list_all2_trans) (auto simp: line_of_def)

lemma exportJSONL_lines:
  assumes "sorted_wrt (<) (map v_id (events db))"
    and "exportJSONL enc wr io db sid cur out = (out', None)"
  shows "\<exists>ls. out' = out @ ls \<and> list_all2 (line_of enc db) (filter (selected cur sid) (events db)) ls"
  using assms
proof (induction enc wr io db sid cur out rule: exportJSONL.induct)
  case (1 enc wr io db sid cur out)
  obtain evs n r where q: "Export (io cur) db cur sid 500 = (evs, n, r)" by (metis prod_cases3)
  with 1(3) have r: "r = None" by (cases r) (simp_all add: exportJSONL.simps [of enc wr io db sid cur])
  note page = q [unfolded r]
  obtain out1 r1 where w: "write_events enc wr evs out = (out1, r1)" by fastforce
  with 1(3) page have r1: "r1 = None" by (cases r1) (simp_all add: exportJSONL.simps [of enc wr io db sid cur])
  note written = w [unfolded r1]
  obtain rows where rows: "rows = filter (selected cur sid) (events db)" by simp
  have ok: "list_all2 (\<lambda>e x. scanEventV1 e (producer_of db (v_session e)) = Inr x) (take 500 rows) evs"
      "n = (if evs = [] then cur else v_id (last (take 500 rows)))"
    using Export_Ok [OF page] unfolding rows by (auto simp: sql_limit_def)
  have len: "length (take 500 rows) = length evs" using ok(1) by (rule list_all2_lengthD)
  from write_events_None [OF written] obtain ls where
    ls: "out1 = out @ ls" "list_all2 (\<lambda>x l. \<exists>b. enc x = Inr b \<and> l = b @ [CHR 0x0A]) evs ls" by blast
  have here: "list_all2 (line_of enc db) (take 500 rows) ls" using ok(1) ls(2) by (rule page_lines)
  show ?case
  proof (cases "evs = []")
    case True
    with len have "rows = []" by (cases rows) auto
    moreover have "out' = out" using 1(3) page written ls(2) True ls(1)
      by (simp add: exportJSONL.simps [of enc wr io db sid cur])
    ultimately show ?thesis by (simp add: rows)
  next
    case False
    with Export_next [OF page] have more: "n \<noteq> cur" "cur < n" by auto
    then have rest: "exportJSONL enc wr io db sid n out1 = (out', None)"
      using 1(3) page written False by (simp add: exportJSONL.simps [of enc wr io db sid cur])
    have "filter (selected n sid) (events db) = filter (\<lambda>e. n < v_id e) rows"
      using more(2) by (auto simp: rows selected_def intro!: filter_cong)
    also have "\<dots> = drop 500 rows"
    proof -
      have "take 500 rows \<noteq> []" using len False by (metis length_0_conv)
      moreover have "sorted_wrt (<) (map v_id rows)"
        using 1(2) unfolding rows by (rule sorted_wrt_map_filter)
      moreover have "n = v_id (last (take 500 rows))" using ok(2) False by simp
      ultimately show ?thesis using filter_after_page [of v_id rows 500] by simp
    qed
    finally have tail: "filter (selected n sid) (events db) = drop 500 rows" .
    from 1(1) [OF page [symmetric] refl refl written [symmetric] refl _ 1(2) rest] False more(1) obtain ms where
      "out' = out1 @ ms" "list_all2 (line_of enc db) (drop 500 rows) ms"
      unfolding tail by auto
    with ls(1) list_all2_appendI [OF here this(2)] show ?thesis
      unfolding rows [symmetric] by (intro exI [of _ "ls @ ms"]) simp
  qed
qed


text \<open>When \<open>session export\<close> ends without error, it has written one line for
  every event after the cursor (of the session asked for, if any), in the order of the log, none
  missing and none twice, each the encoding of that event; and it always ends.\<close>

lemma export_is_complete:
  assumes "session_ok db" and "exportJSONL enc wr io db sid after [] = (out, None)"
  shows "list_all2 (\<lambda>e l. \<exists>x b. scanEventV1 e (producer_of db (v_session e)) = Inr x \<and> enc x = Inr b
             \<and> l = b @ [CHR 0x0A])
    (filter (\<lambda>e. after < v_id e \<and> (sid = [] \<or> v_session e = sid)) (events db)) out"
proof -
  have "filter (selected after sid) (events db) =
      filter (\<lambda>e. after < v_id e \<and> (sid = [] \<or> v_session e = sid)) (events db)"
    by (rule filter_cong) (auto simp: selected_def)
  moreover have "list_all2 (line_of enc db) (filter (selected after sid) (events db)) out"
    using exportJSONL_lines [OF _ assms(2)] assms(1) by (auto simp: session_ok_def)
  ultimately show ?thesis unfolding line_of_def [abs_def] by (simp only:)
qed

lemma demo_export_run:
  "exportJSONL (\<lambda>x. Inr (x_event x)) (\<lambda>_. None) (\<lambda>_. \<lparr>y_query = None, y_rows = None\<rparr>)
     demo_sweep_db ''a'' 1 [] = ([''e2'' @ [CHR 0x0A]], None)"
  by code_simp

lemma export_is_complete_witness:
  "list_all2 (\<lambda>e l. \<exists>x b. scanEventV1 e (producer_of demo_sweep_db (v_session e)) = Inr x \<and> Inr (x_event x) = (Inr b :: go_error + bytes)
             \<and> l = b @ [CHR 0x0A])
    (filter (\<lambda>e. 1 < v_id e \<and> (''a'' = [] \<or> v_session e = ''a'')) (events demo_sweep_db)) [''e2'' @ [CHR 0x0A]]"
  by (rule export_is_complete [OF demo_sweep_ok demo_export_run])

lemma utf8_unmarshal: "list_all utf8_valid vs \<Longrightarrow> strings_column (marshalStrings vs) = Inr vs"
  by (simp add: strings_column_def marshalStrings_def unmarshal_json_strings)
     (simp add: json_strings_def)

text \<open>Property C20.  Round trip: an event that was appended comes back from an export that starts
  just below its id, alone, with every field as it was given; references are JSON in the
  database and come back as the same strings when they are valid UTF-8.\<close>

theorem append_export_roundtrip:
  assumes ok: "session_ok (snd w)" and app: "appendEvent io sid ev w = (w', Inr (i, eid, ts))"
    and "list_all utf8_valid (ev_refs ev)" and "list_all utf8_valid (ev_related ev)" and "0 < limit"
  shows "\<exists>x :: event_v1. Export \<lparr>y_query = None, y_rows = None\<rparr> (snd w') (i - 1) sid limit = ([x], i, None)
    \<and> x_event x = eid \<and> x_session x = sid \<and> x_type x = ev_type ev \<and> x_timestamp x = rfc3339 ts
    \<and> x_summary x = ev_summary ev \<and> x_refs x = ev_refs ev \<and> x_related x = ev_related ev
    \<and> x_attributes x = (if ev_attributes ev = [] then None else Some (ev_attributes ev))
    \<and> x_supersedes x = ev_supersedes ev
    \<and> x_redaction x = (if ev_redaction ev = ''none'' then [] else ev_redaction ev) \<and> x_row x = i"
proof -
  let ?row = "event_row_of eid sid ts ev"
  from appendEvent_cases [OF app] have tx: "append_tx ?row (snd w) = Inr (i, snd w')" by auto
  then have ins: "insert_event ?row (snd w) = Inr (i, snd w')" by (simp add: append_tx_Inr)
  note new = insert_event_Inr [OF ins]
  have low: "v_id e < i" if "e \<in> set (events (snd w))" for e
    using that next_rowid_above [of _ "map v_id (events (snd w))"] new(1) by auto
  have "filter (selected (i - 1) sid) (events (snd w)) = []"
    using low by (auto simp: filter_empty_conv selected_def not_less)
  then have sel: "filter (selected (i - 1) sid) (events (snd w')) = [?row\<lparr>v_id := i\<rparr>]"
    by (simp add: new(2) selected_def event_row_of_def)
  obtain k where k: "nat limit = Suc k" using assms(5) by (cases "nat limit") auto
  obtain x where x: "scanEventV1 (?row\<lparr>v_id := i\<rparr>) (producer_of (snd w') sid) = Inr x"
      "x_event x = eid" "x_session x = sid" "x_type x = ev_type ev" "x_timestamp x = rfc3339 ts"
      "x_summary x = ev_summary ev" "x_refs x = ev_refs ev" "x_related x = ev_related ev"
      "x_attributes x = (if ev_attributes ev = [] then None else Some (ev_attributes ev))"
      "x_supersedes x = ev_supersedes ev"
      "x_redaction x = (if ev_redaction ev = ''none'' then [] else ev_redaction ev)" "x_row x = i"
    using assms(3,4)
    by (simp add: scanEventV1_def event_row_of_def utf8_unmarshal nullIfEmpty_def)
  have "Export \<lparr>y_query = None, y_rows = None\<rparr> (snd w') (i - 1) sid limit = ([x], i, None)"
    using x(1,12) assms(5) sel k
    by (simp add: Export_def sql_limit_def event_row_of_def)
  with x(2-) show ?thesis by blast
qed


definition demo_ev :: event where
  "demo_ev = \<lparr>ev_type = ''note'', ev_summary = ''s'', ev_attributes = [], ev_refs = [''r<1>''],
     ev_related = [], ev_supersedes = ''e2'', ev_redaction = []\<rparr>"

lemma demo_append_run:
  "snd (appendEvent \<lparr>q_uuid = Inr ''e6'', q_now = 900000\<rparr> ''c'' demo_ev
     (\<lparr>e_tx = [], e_ctx = []\<rparr>, demo_sweep_db)) = Inr (6, ''e6'', 900000)"
  by code_simp

theorem append_export_roundtrip_witness:
  "\<exists>w' x. appendEvent \<lparr>q_uuid = Inr ''e6'', q_now = 900000\<rparr> ''c'' demo_ev
       (\<lparr>e_tx = [], e_ctx = []\<rparr>, demo_sweep_db) = (w', Inr (6, ''e6'', 900000))
     \<and> Export \<lparr>y_query = None, y_rows = None\<rparr> (snd w') 5 ''c'' 10 = ([x :: event_v1], 6, None)
     \<and> x_refs x = [''r<1>'']"
proof -
  obtain w' where run: "appendEvent \<lparr>q_uuid = Inr ''e6'', q_now = 900000\<rparr> ''c'' demo_ev
       (\<lparr>e_tx = [], e_ctx = []\<rparr>, demo_sweep_db) = (w', Inr (6, ''e6'', 900000))"
    using demo_append_run by (metis prod.collapse)
  have "list_all utf8_valid (ev_refs demo_ev)" "list_all utf8_valid (ev_related demo_ev)"
    by (simp_all add: demo_ev_def utf8_valid_ascii)
  from append_export_roundtrip [OF _ run this, of 10] demo_sweep_ok run show ?thesis
    by (auto simp: demo_ev_def)
qed

section \<open>The summary\<close>

definition eventTypeSessionCheckpoint :: bytes where
  "eventTypeSessionCheckpoint = ''session_checkpoint''"

definition maxSummaryGroups :: nat where "maxSummaryGroups = 32"

record summary_event =
  u_event :: bytes
  u_session :: bytes
  u_summary :: bytes
  u_ts :: int
  u_refs :: "bytes list"

record event_group =
  g_type :: bytes
  g_events :: "summary_event list"

record session_summary =
  z_checkpoint :: "summary_event option"
  z_groups :: "event_group list"
  z_truncated :: bool

text \<open>\<open>event_id NOT IN (SELECT supersedes ... WHERE supersedes IS NOT NULL)\<close>, and the session.\<close>

definition current :: "session_db \<Rightarrow> bytes \<Rightarrow> event_row \<Rightarrow> bool" where
  "current db sid e \<longleftrightarrow>
     \<not> (\<exists>x \<in> set (events db). v_supersedes x = Some (v_event e)) \<and> (sid \<noteq> [] \<longrightarrow> v_session e = sid)"

definition scanSummaryEvent :: "event_row \<Rightarrow> go_error + summary_event" where
  "scanSummaryEvent e =
     (case strings_column (v_refs e) of
        Inl err \<Rightarrow> Inl err
      | Inr refs \<Rightarrow> Inr \<lparr>u_event = v_event e, u_session = v_session e, u_summary = v_summary e,
                        u_ts = v_ts e, u_refs = refs\<rparr>)"

text \<open>Newest first.\<close>

definition newest :: "(event_row \<Rightarrow> bool) \<Rightarrow> session_db \<Rightarrow> event_row list" where
  "newest P db = rev (filter P (events db))"

definition queryCheckpoint ::
  "go_error option \<Rightarrow> session_db \<Rightarrow> bytes \<Rightarrow> go_error + summary_event option" where
  "queryCheckpoint qerr db sid =
     (case qerr of
        Some e \<Rightarrow> Inl e
      | None \<Rightarrow>
          (case newest (\<lambda>e. v_type e = eventTypeSessionCheckpoint \<and> current db sid e) db of
             [] \<Rightarrow> Inr None
           | e # _ \<Rightarrow> map_sum id Some (scanSummaryEvent e)))"

definition queryEventTypes ::
  "go_error option \<Rightarrow> session_db \<Rightarrow> bytes \<Rightarrow> go_error + (bytes list \<times> bool)" where
  "queryEventTypes qerr db sid =
     (case qerr of
        Some e \<Rightarrow> Inl e
      | None \<Rightarrow>
          let types = take (maxSummaryGroups + 1)
                (sort (remdups (map v_type (filter (current db sid) (events db))))) in
          if maxSummaryGroups < length types then Inr (take maxSummaryGroups types, True)
          else Inr (types, False))"

fun scan_summaries :: "event_row list \<Rightarrow> go_error + summary_event list" where
  "scan_summaries [] = Inr []"
| "scan_summaries (e # es) =
     (case scanSummaryEvent e of
        Inl err \<Rightarrow> Inl err
      | Inr u \<Rightarrow> map_sum id (Cons u) (scan_summaries es))"

definition queryEventsByType ::
  "go_error option \<Rightarrow> session_db \<Rightarrow> bytes \<Rightarrow> bytes \<Rightarrow> int \<Rightarrow> go_error + summary_event list" where
  "queryEventsByType qerr db sid t limit =
     (case qerr of
        Some e \<Rightarrow> Inl e
      | None \<Rightarrow> scan_summaries (sql_limit limit (newest (\<lambda>e. v_type e = t \<and> current db sid e) db)))"

fun removeByEventID :: "summary_event list \<Rightarrow> bytes \<Rightarrow> summary_event list" where
  "removeByEventID [] eid = []"
| "removeByEventID (ev # evs) eid = (if u_event ev = eid then evs else ev # removeByEventID evs eid)"

fun group_events ::
  "(bytes \<Rightarrow> go_error option) \<Rightarrow> session_db \<Rightarrow> bytes \<Rightarrow> int \<Rightarrow> summary_event option \<Rightarrow> bytes list \<Rightarrow>
     event_group list \<Rightarrow> go_error + event_group list" where
  "group_events qerr db sid limit ckpt [] gs = Inr gs"
| "group_events qerr db sid limit ckpt (t # ts) gs =
     (case queryEventsByType (qerr t) db sid t limit of
        Inl err \<Rightarrow> Inl err
      | Inr evs0 \<Rightarrow>
          let evs = (case ckpt of
                Some c \<Rightarrow> if t = eventTypeSessionCheckpoint then removeByEventID evs0 (u_event c) else evs0
              | None \<Rightarrow> evs0) in
          group_events qerr db sid limit ckpt ts
            (if evs \<noteq> [] then gs @ [\<lparr>g_type = t, g_events = evs\<rparr>] else gs))"

definition Summarize ::
  "go_error option \<Rightarrow> go_error option \<Rightarrow> (bytes \<Rightarrow> go_error option) \<Rightarrow> session_db \<Rightarrow> bytes \<Rightarrow> int \<Rightarrow>
     go_error + session_summary" where
  "Summarize cerr terr qerr db sid limitPerType =
     (case queryCheckpoint cerr db sid of
        Inl e \<Rightarrow> Inl e
      | Inr ckpt \<Rightarrow>
          (case queryEventTypes terr db sid of
             Inl e \<Rightarrow> Inl e
           | Inr (types, trunc) \<Rightarrow>
               (case group_events qerr db sid limitPerType ckpt types [] of
                  Inl e \<Rightarrow> Inl e
                | Inr gs \<Rightarrow> Inr \<lparr>z_checkpoint = ckpt, z_groups = gs, z_truncated = trunc\<rparr>)))"

end
