(* ===== verification/Session_Open.thy ===== *)
theory Session_Open
  imports Session_Sweep
begin

text \<open>
  Opening and closing the session log, \<open>internal/session/session.go\<close>: the classification of
  SQLite errors, the migration and its busy retry, the integrity check, the leases, \<open>Open\<close> and
  \<open>OpenAppend\<close> with everything they give back on failure, and \<open>Close\<close>.
\<close>

section \<open>Classification of errors\<close>

text \<open>What an SQLite result code becomes: the low byte is the primary code.\<close>

definition sqlite_error :: "int \<Rightarrow> string \<Rightarrow> go_error" where
  "sqlite_error code msg =
     (let c = code mod 256 in
      if c = 11 \<or> c = 26 then SqliteMalformed
      else if c = 5 \<or> c = 6 then SqliteBusy
      else if c = 14 then SqliteCantOpen
      else ErrOther msg)"

definition isMalformed :: "go_error \<Rightarrow> bool" where
  "isMalformed e \<longleftrightarrow> e = SqliteMalformed"

definition isBusyErr :: "go_error \<Rightarrow> bool" where
  "isBusyErr e \<longleftrightarrow> e = SqliteBusy"

definition isCantOpen :: "go_error \<Rightarrow> bool" where
  "isCantOpen e \<longleftrightarrow> e = SqliteCantOpen"

definition ClassifyStorageErr :: "go_error option \<Rightarrow> go_error option" where
  "ClassifyStorageErr err =
     (case err of
        None \<Rightarrow> None
      | Some e \<Rightarrow> if isMalformed e \<or> isCantOpen e then Some SessionCorrupt else Some e)"

lemma primary_codes:
  "isMalformed (sqlite_error code msg) \<longleftrightarrow> code mod 256 \<in> {11, 26}"
  "isBusyErr (sqlite_error code msg) \<longleftrightarrow> code mod 256 \<in> {5, 6}"
  "isCantOpen (sqlite_error code msg) \<longleftrightarrow> code mod 256 = 14"
  by (auto simp: isMalformed_def isBusyErr_def isCantOpen_def sqlite_error_def Let_def)

section \<open>Bounded retries\<close>

text \<open>Three attempts; \<open>n\<close> is the number of attempts left after this one.\<close>

fun migrateBusyRetry :: "nat \<Rightarrow> ('s \<Rightarrow> 's \<times> (go_error + 'a)) \<Rightarrow> 's \<Rightarrow> 's \<times> (go_error + 'a)" where
  "migrateBusyRetry n op s =
     (case op s of
        (s1, Inr x) \<Rightarrow> (s1, Inr x)
      | (s1, Inl e) \<Rightarrow>
          if isMalformed e then (s1, Inl SessionCorrupt)
          else if \<not> isBusyErr e then (s1, Inl e)
          else (case n of
              0 \<Rightarrow> (s1, Inl SessionLeaseHeld)
            | Suc m \<Rightarrow> migrateBusyRetry m op s1))"

text \<open>The integrity check gives up its verdict after three attempts that could not run it: open
  goes on, recovery takes it for damage.\<close>

fun quick_check_loop :: "go_error option \<Rightarrow> nat \<Rightarrow> ('s \<Rightarrow> 's \<times> (go_error + bytes)) \<Rightarrow> 's \<Rightarrow>
    's \<times> go_error option" where
  "quick_check_loop verdict n op s =
     (case op s of
        (s1, Inr result) \<Rightarrow> (s1, if result = ''ok'' then None else Some SessionCorrupt)
      | (s1, Inl e) \<Rightarrow>
          if isMalformed e then (s1, Some SessionCorrupt)
          else (case n of
              0 \<Rightarrow> (s1, verdict)
            | Suc m \<Rightarrow> quick_check_loop verdict m op s1))"

declare migrateBusyRetry.simps [simp del] quick_check_loop.simps [simp del]

definition quickCheck :: "('s \<Rightarrow> 's \<times> (go_error + bytes)) \<Rightarrow> 's \<Rightarrow> 's \<times> go_error option" where
  "quickCheck op s = quick_check_loop None 2 op s"

definition quickCheckStrict :: "('s \<Rightarrow> 's \<times> (go_error + bytes)) \<Rightarrow> 's \<Rightarrow> 's \<times> go_error option" where
  "quickCheckStrict op s = quick_check_loop (Some SessionCorrupt) 2 op s"

text \<open>Both loops, and the transaction loop of \<open>Store_Schema\<close>, meet the contract \<open>bounded_retry\<close>.\<close>

definition migrate_verdict :: "go_error + 'a \<Rightarrow> go_error + 'a" where
  "migrate_verdict r =
     (case r of Inl e \<Rightarrow> if isMalformed e then Inl SessionCorrupt else Inl e | Inr x \<Rightarrow> Inr x)"

interpretation migrate_retry:
  bounded_retry migrateBusyRetry "\<lambda>s. (s, None)" isBusy migrate_verdict "\<lambda>r. Inl SessionLeaseHeld"
  by unfold_locales
     (auto simp: migrateBusyRetry.simps isBusy_def migrate_verdict_def isMalformed_def isBusyErr_def
        split: sum.splits)

definition check_undecided :: "go_error + bytes \<Rightarrow> bool" where
  "check_undecided r \<longleftrightarrow> (\<exists>e. r = Inl e \<and> \<not> isMalformed e)"

definition check_verdict :: "go_error + bytes \<Rightarrow> go_error option" where
  "check_verdict r = (if r = Inr ''ok'' then None else Some SessionCorrupt)"

lemma check_verdict_None: "check_verdict r = None \<longleftrightarrow> r = Inr ''ok''"
  by (simp add: check_verdict_def)

interpretation check_retry:
  bounded_retry "quick_check_loop verdict" "\<lambda>s. (s, None)" check_undecided check_verdict "\<lambda>r. verdict"
  for verdict :: "go_error option"
  by unfold_locales
     (auto simp: quick_check_loop.simps check_undecided_def check_verdict_def split: sum.splits)

section \<open>The directory of a session log\<close>

text \<open>What the processes around one directory hold: the exclusive lease of a recovery, the number
  of shared leases, of init locks and of open connection pairs; the recovery marker; the database.\<close>

record session_dir =
  d_excl :: bool
  d_shared :: nat
  d_init :: nat
  d_conns :: nat
  d_marker :: bool
  d_world :: "session_db tx_world"

record init_try =
  t_lock :: "go_error option"
  t_db :: bool
  t_late :: nat

text \<open>What the calls of one opening meet.  \<open>p_stat\<close> is \<open>Some FsNotExist\<close> when there is no database
  file yet.  The SQLite calls use their lists up from the front; past the end they succeed.\<close>

record open_io =
  p_mkdir :: "go_error option"
  p_lock :: "go_error option"
  p_marker :: "go_error option"
  p_stat :: "go_error option"
  p_tries :: "nat \<Rightarrow> init_try"
  p_conn :: "go_error option"
  p_migrate :: "go_error option list"
  p_quick :: "(go_error + bytes) list"
  p_uuid :: "go_error + bytes"
  p_now :: int
  p_start :: session_io

definition acquireSharedLease :: "open_io \<Rightarrow> session_dir \<Rightarrow> go_error + session_dir" where
  "acquireSharedLease io d =
     (case p_mkdir io of
        Some e \<Rightarrow> Inl e
      | None \<Rightarrow>
          if p_lock io \<noteq> None \<or> d_excl d then Inl SessionLeaseHeld
          else Inr (d\<lparr>d_shared := d_shared d + 1\<rparr>))"

definition checkRecoverMarker :: "open_io \<Rightarrow> session_dir \<Rightarrow> go_error option" where
  "checkRecoverMarker io d =
     (case p_marker io of
        Some e \<Rightarrow> Some e
      | None \<Rightarrow> if d_marker d then Some SessionRecoverPending else None)"

text \<open>The delays of the init lock: 10, 20, 40, 80, then 160 ms.\<close>

definition init_delay :: "nat \<Rightarrow> nat" where
  "init_delay i = (if i < 4 then 10 * 2 ^ i else 160)"

lemma init_delay_pos: "0 < init_delay i"
  by (simp add: init_delay_def)

text \<open>Times are milliseconds since the first attempt; a sleep lasts its delay and \<open>t_late\<close> more.
  The result tells whether the lock was taken; it is not needed once the file is there.\<close>

function init_lock_loop :: "(nat \<Rightarrow> init_try) \<Rightarrow> nat \<Rightarrow> nat \<Rightarrow> go_error + bool" where
  "init_lock_loop tries i elapsed =
     (if t_lock (tries i) = None then Inr True
      else if t_db (tries i) then Inr False
      else if 5000 < elapsed then Inl SessionLeaseHeld
      else init_lock_loop tries (Suc i) (elapsed + init_delay i + t_late (tries i)))"
  by pat_completeness auto
termination
  by (relation "measure (\<lambda>(tries, i, elapsed). 5001 - elapsed)")
     (use init_delay_pos in \<open>auto intro: diff_less_mono2 trans_less_add1\<close>)

declare init_lock_loop.simps [simp del]

definition acquireInitLock :: "(nat \<Rightarrow> init_try) \<Rightarrow> go_error + bool" where
  "acquireInitLock tries = init_lock_loop tries 0 0"

text \<open>The same under a context that is done after \<open>limit\<close> milliseconds: the wait ends early with it.\<close>

function init_lock_ctx_loop :: "nat \<Rightarrow> (nat \<Rightarrow> init_try) \<Rightarrow> nat \<Rightarrow> nat \<Rightarrow> go_error + bool" where
  "init_lock_ctx_loop limit tries i elapsed =
     (if t_lock (tries i) = None then Inr True
      else if t_db (tries i) then Inr False
      else if limit \<le> elapsed then Inl SessionLeaseHeld
      else if limit < elapsed + init_delay i then Inl SessionLeaseHeld
      else init_lock_ctx_loop limit tries (Suc i) (elapsed + init_delay i + t_late (tries i)))"
  by pat_completeness auto
termination
  by (relation "measure (\<lambda>(limit, tries, i, elapsed). limit - elapsed)")
     (use init_delay_pos in \<open>auto intro: diff_less_mono2 trans_less_add1\<close>)

declare init_lock_ctx_loop.simps [simp del]

definition acquireInitLockCtx :: "nat \<Rightarrow> (nat \<Rightarrow> init_try) \<Rightarrow> go_error + bool" where
  "acquireInitLockCtx limit tries = init_lock_ctx_loop limit tries 0 0"

section \<open>Migration\<close>

text \<open>The calls of the migration and what is left of their outcomes.\<close>

type_synonym migrate_state = "go_error option list \<times> session_db"

definition read_version :: "migrate_state \<Rightarrow> migrate_state \<times> (go_error + int)" where
  "read_version s =
     (case s of (outs, db) \<Rightarrow>
        (case pop outs of
           (Some e, rest) \<Rightarrow> ((rest, db), Inl e)
         | (None, rest) \<Rightarrow> ((rest, db), Inr (user_version db))))"

text \<open>\<open>applySchemaV1\<close>: begin, the statements of the schema (all \<open>IF NOT EXISTS\<close>), commit.\<close>

definition applySchemaV1 :: "migrate_state \<Rightarrow> migrate_state \<times> (go_error + unit)" where
  "applySchemaV1 s =
     (case s of (outs, db) \<Rightarrow>
        (case pop outs of
           (Some e, rest) \<Rightarrow> ((rest, db), Inl e)
         | (None, rest) \<Rightarrow>
             (case pop rest of
                (Some e, rest') \<Rightarrow> ((rest', db), Inl e)
              | (None, rest') \<Rightarrow>
                  (case pop rest' of
                     (Some e, rest'') \<Rightarrow> ((rest'', db), Inl e)
                   | (None, rest'') \<Rightarrow> ((rest'', db\<lparr>user_version := 1\<rparr>), Inr ())))))"

definition migrateWriter :: "migrate_state \<Rightarrow> migrate_state \<times> go_error option" where
  "migrateWriter s =
     (case migrateBusyRetry 2 read_version s of
        (s1, Inl e) \<Rightarrow> (s1, Some e)
      | (s1, Inr v) \<Rightarrow>
          if v = 0 then
            (case migrateBusyRetry 2 applySchemaV1 s1 of
               (s2, Inl e) \<Rightarrow> (s2, Some e)
             | (s2, Inr u) \<Rightarrow> (s2, None))
          else if v = 1 then (s1, None)
          else (s1, Some StoreUnavailable))"

definition quick_op :: "(go_error + bytes) list \<Rightarrow> (go_error + bytes) list \<times> (go_error + bytes)" where
  "quick_op outs = (case outs of [] \<Rightarrow> ([], Inr ''ok'') | r # rs \<Rightarrow> (rs, r))"

section \<open>Opening\<close>

definition release_lease :: "session_dir \<Rightarrow> session_dir" where
  "release_lease d = d\<lparr>d_shared := d_shared d - 1\<rparr>"

definition release_init :: "bool \<Rightarrow> session_dir \<Rightarrow> session_dir" where
  "release_init held d = (if held then d\<lparr>d_init := d_init d - 1\<rparr> else d)"

definition close_conns :: "session_dir \<Rightarrow> session_dir" where
  "close_conns d = d\<lparr>d_conns := d_conns d - 1\<rparr>"

text \<open>The part \<open>Open\<close> and \<open>OpenAppend\<close> have in common: lease, marker, init lock, connections,
  migration.  On success the lease and the connections are held and the init lock is not.\<close>

definition open_prefix ::
  "(go_error + bool) \<Rightarrow> open_io \<Rightarrow> session_dir \<Rightarrow> session_dir \<times> go_error option" where
  "open_prefix init io d =
     (case acquireSharedLease io d of
        Inl e \<Rightarrow> (d, Some e)
      | Inr d1 \<Rightarrow>
          (case checkRecoverMarker io d1 of
             Some e \<Rightarrow> (release_lease d1, Some e)
           | None \<Rightarrow>
               if p_stat io \<noteq> None \<and> p_stat io \<noteq> Some FsNotExist then (release_lease d1, p_stat io)
               else
                 (case (if p_stat io = Some FsNotExist then init else Inr False) of
                    Inl e \<Rightarrow> (release_lease d1, Some e)
                  | Inr held \<Rightarrow>
                      let d2 = (if held then d1\<lparr>d_init := d_init d1 + 1\<rparr> else d1) in
                      (case p_conn io of
                         Some e \<Rightarrow> (release_lease (release_init held d2), Some e)
                       | None \<Rightarrow>
                           let d3 = d2\<lparr>d_conns := d_conns d2 + 1\<rparr> in
                           (case migrateWriter (p_migrate io, snd (d_world d3)) of
                              ((outs, db), r) \<Rightarrow>
                                let d4 = d3\<lparr>d_world := (fst (d_world d3), db)\<rparr> in
                                (case r of
                                   Some e \<Rightarrow> (release_lease (release_init held (close_conns d4)), Some e)
                                 | None \<Rightarrow> (release_init held d4, None)))))))"

definition abort_open :: "session_dir \<Rightarrow> session_dir" where
  "abort_open d = release_lease (close_conns d)"

record options =
  o_retention :: int
  o_producer :: bytes
  o_worktree :: bytes

text \<open>\<open>Open\<close> goes on with the integrity check, the session row and the start event; \<open>dir\<close> is
  its path, the default worktree root.\<close>

definition Open :: "open_io \<Rightarrow> bytes \<Rightarrow> options \<Rightarrow> session_dir \<Rightarrow> session_dir \<times> (go_error + bytes)" where
  "Open io dir opts d =
     (case open_prefix (acquireInitLock (p_tries io)) io d of
        (d1, Some e) \<Rightarrow> (d1, Inl e)
      | (d1, None) \<Rightarrow>
          (case quickCheck quick_op (p_quick io) of
             (q, Some e) \<Rightarrow> (abort_open d1, Inl e)
           | (q, None) \<Rightarrow>
               (case p_uuid io of
                  Inl e \<Rightarrow> (abort_open d1, Inl e)
                | Inr sid \<Rightarrow>
                    (case txRetry (open_session_tx \<lparr>n_session = sid, n_started = p_now io,
                             n_producer = o_producer opts, n_retention = o_retention opts\<rparr>) (d_world d1) of
                       (w1, Inl e) \<Rightarrow> (abort_open (d1\<lparr>d_world := w1\<rparr>), Inl e)
                     | (w1, Inr u) \<Rightarrow>
                         let root = (if o_worktree opts = [] then dir else o_worktree opts);
                             ev = \<lparr>ev_type = eventTypeSessionStart, ev_summary = ''session started'',
                               ev_attributes = session_start_payload [] root (o_retention opts),
                               ev_refs = [], ev_related = [], ev_supersedes = [], ev_redaction = []\<rparr> in
                         (case appendEvent (p_start io) sid ev w1 of
                            (w2, Inl e) \<Rightarrow> (abort_open (d1\<lparr>d_world := w2\<rparr>), Inl e)
                          | (w2, Inr x) \<Rightarrow> (d1\<lparr>d_world := w2\<rparr>, Inr sid))))))"

text \<open>\<open>OpenAppend\<close> writes nothing beyond the migration; \<open>limit\<close> is the deadline of its context.\<close>

definition OpenAppend ::
  "nat \<Rightarrow> open_io \<Rightarrow> append_handle \<Rightarrow> session_dir \<Rightarrow> session_dir \<times> (go_error + append_handle)" where
  "OpenAppend limit io opts d =
     (case open_prefix (acquireInitLockCtx limit (p_tries io)) io d of
        (d1, Some e) \<Rightarrow> (d1, Inl e)
      | (d1, None) \<Rightarrow> (d1, Inr opts))"

text \<open>Closing gives the lease back whatever the checkpoint and the connections report.\<close>

definition Close :: "session_dir \<Rightarrow> session_dir" where
  "Close d = abort_open d"

section \<open>What opening guarantees\<close>

definition same_locks :: "session_dir \<Rightarrow> session_dir \<Rightarrow> bool" where
  "same_locks d d' \<longleftrightarrow> d_excl d' = d_excl d \<and> d_shared d' = d_shared d \<and> d_init d' = d_init d
     \<and> d_conns d' = d_conns d \<and> d_marker d' = d_marker d"

definition one_handle_more :: "session_dir \<Rightarrow> session_dir \<Rightarrow> bool" where
  "one_handle_more d d' \<longleftrightarrow> d_excl d' = d_excl d \<and> d_shared d' = d_shared d + 1 \<and> d_init d' = d_init d
     \<and> d_conns d' = d_conns d + 1 \<and> d_marker d' = d_marker d"

lemma acquireSharedLease_Inr:
  "acquireSharedLease io d = Inr d1 \<Longrightarrow> d1 = d\<lparr>d_shared := d_shared d + 1\<rparr> \<and> \<not> d_excl d"
  by (auto simp: acquireSharedLease_def split: option.splits if_splits)

lemma migrate_loop_keeps:
  assumes "\<And>s s' r. op s = (s', r) \<Longrightarrow> P s \<Longrightarrow> P s'" and "P s" and "migrateBusyRetry n op s = (s', r)"
  shows "P s'"
  using migrate_retry.attempt_invariant [of P op s n] assms by fastforce

text \<open>A success of the loop is a success of its last call.\<close>

lemma migrate_loop_Inr:
  assumes "\<And>s s' r. op s = (s', r) \<Longrightarrow> P s \<Longrightarrow> P s'"
  shows "P s \<Longrightarrow> migrateBusyRetry n op s = (s', Inr x) \<Longrightarrow> \<exists>s0. P s0 \<and> op s0 = (s', Inr x)"
proof (induction n arbitrary: s)
  case 0
  then show ?case
    by (auto simp: migrateBusyRetry.simps [of 0] split: prod.splits sum.splits if_splits)
next
  case (Suc n)
  obtain s1 r1 where 1: "op s = (s1, r1)" by fastforce
  with assms Suc.prems(1) have "P s1" by blast
  with Suc 1 show ?case
    by (auto simp: migrateBusyRetry.simps [of "Suc n"] split: sum.splits if_splits)
qed

definition migrated_from :: "session_db \<Rightarrow> session_db \<Rightarrow> bool" where
  "migrated_from db db' \<longleftrightarrow> db' = db \<or> user_version db = 0 \<and> db' = db\<lparr>user_version := 1\<rparr>"

lemma read_version_db: "read_version s = (s', r) \<Longrightarrow> snd s = db \<Longrightarrow> snd s' = db"
  by (auto simp: read_version_def split: prod.splits option.splits)

lemma applySchemaV1_db:
  "applySchemaV1 s = (s', r) \<Longrightarrow> user_version db = 0 \<Longrightarrow> migrated_from db (snd s) \<Longrightarrow> migrated_from db (snd s')"
  by (auto simp: applySchemaV1_def migrated_from_def split: prod.splits option.splits)

lemma migrateWriter_db:
  assumes run: "migrateWriter s = (s', r)"
  shows "migrated_from (snd s) (snd s') \<and> (r = None \<longrightarrow> user_version (snd s') = 1)"
proof -
  obtain s1 r1 where 1: "migrateBusyRetry 2 read_version s = (s1, r1)" by fastforce
  have db1: "snd s1 = snd s"
    by (rule migrate_loop_keeps [OF _ _ 1, where P = "\<lambda>x. snd x = snd s"]) (auto dest: read_version_db)
  show ?thesis
  proof (cases r1)
    case (Inl e)
    with run 1 db1 show ?thesis by (auto simp: migrateWriter_def migrated_from_def)
  next
    case (Inr v)
    have "\<exists>s0. snd s0 = snd s \<and> read_version s0 = (s1, Inr v)"
      by (rule migrate_loop_Inr [OF _ refl 1 [unfolded Inr]]) (rule read_version_db)
    then obtain s0 where s0: "snd s0 = snd s" "read_version s0 = (s1, Inr v)" by blast
    then have v: "v = user_version (snd s)"
      by (auto simp: read_version_def split: prod.splits option.splits)
    show ?thesis
    proof (cases "v = 0")
      case False
      with run 1 Inr db1 v show ?thesis
        by (auto simp: migrateWriter_def migrated_from_def split: if_splits)
    next
      case True
      obtain s2 r2 where 2: "migrateBusyRetry 2 applySchemaV1 s1 = (s2, r2)" by fastforce
      have m: "migrated_from (snd s) (snd s2)"
        by (rule migrate_loop_keeps [OF _ _ 2, where P = "\<lambda>x. migrated_from (snd s) (snd x)"])
           (use True v db1 applySchemaV1_db in \<open>auto simp: migrated_from_def\<close>)
      show ?thesis
      proof (cases r2)
        case (Inl e)
        with run 1 Inr True 2 m show ?thesis by (auto simp: migrateWriter_def)
      next
        case R: (Inr u)
        from migrate_loop_Inr [OF _ _ 2 [unfolded R], where P = "\<lambda>_. True"] obtain s3 where
          "applySchemaV1 s3 = (s2, Inr u)" by blast
        then have "user_version (snd s2) = 1"
          by (auto simp: applySchemaV1_def split: prod.splits option.splits)
        with run 1 Inr True 2 m R show ?thesis by (auto simp: migrateWriter_def)
      qed
    qed
  qed
qed

text \<open>The shared prefix either leaves every lock as it was, or one lease and one connection pair
  more, on a migrated database, with no recovery under way.\<close>

lemma open_prefix_cases:
  assumes "open_prefix init io d = (d', r)"
  shows "migrated_from (snd (d_world d)) (snd (d_world d')) \<and> fst (d_world d') = fst (d_world d)
    \<and> (case r of
         Some e \<Rightarrow> same_locks d d'
       | None \<Rightarrow> one_handle_more d d' \<and> \<not> d_excl d \<and> \<not> d_marker d \<and> user_version (snd (d_world d')) = 1)"
proof (cases "acquireSharedLease io d")
  case (Inl e)
  with assms show ?thesis by (auto simp: open_prefix_def same_locks_def migrated_from_def)
next
  case (Inr d1)
  note lease = acquireSharedLease_Inr [OF Inr]
  show ?thesis
  proof (cases "checkRecoverMarker io d1")
    case (Some e)
    with assms Inr have "d' = release_lease d1" "r = Some e" by (simp_all add: open_prefix_def)
    with lease show ?thesis by (simp add: release_lease_def same_locks_def migrated_from_def)
  next
    case None
    then have marker: "\<not> d_marker d"
      using lease by (auto simp: checkRecoverMarker_def split: option.splits if_splits)
    show ?thesis
    proof (cases "p_stat io \<noteq> None \<and> p_stat io \<noteq> Some FsNotExist")
      case True
      with assms Inr lease None show ?thesis
        by (auto simp: open_prefix_def release_lease_def same_locks_def migrated_from_def)
    next
      case False
      obtain ir where ir: "(if p_stat io = Some FsNotExist then init else Inr False) = ir" by blast
      show ?thesis
      proof (cases ir)
        case (Inl e)
        with assms \<open>acquireSharedLease io d = Inr d1\<close> lease None False ir show ?thesis
          by (auto simp: open_prefix_def release_lease_def same_locks_def migrated_from_def)
      next
        case held: (Inr held)
        show ?thesis
        proof (cases "p_conn io")
          case (Some e)
          have "r = Some e" "d' = release_lease (release_init held
              (if held then d1\<lparr>d_init := d_init d1 + 1\<rparr> else d1))"
            using assms \<open>acquireSharedLease io d = Inr d1\<close> None False ir held Some
            by (auto simp: open_prefix_def Let_def)
          with lease show ?thesis
            by (simp add: release_lease_def release_init_def same_locks_def migrated_from_def)
        next
          case conn: None
          let ?d2 = "if held then d1\<lparr>d_init := d_init d1 + 1\<rparr> else d1"
          have w2: "d_world ?d2 = d_world d" using lease by simp
          obtain outs db mr where m: "migrateWriter (p_migrate io, snd (d_world d)) = ((outs, db), mr)"
            by (metis surj_pair)
          from migrateWriter_db [OF m] have mig: "migrated_from (snd (d_world d)) db"
              "mr = None \<longrightarrow> user_version db = 1" by simp_all
          show ?thesis
            using assms \<open>acquireSharedLease io d = Inr d1\<close> lease None False ir held conn m mig w2 marker
            by (cases mr; cases held)
               (auto simp: open_prefix_def release_lease_def release_init_def close_conns_def
                same_locks_def one_handle_more_def Let_def)
        qed
      qed
    qed
  qed
qed


lemma migrated_from_ok: "migrated_from db db' \<Longrightarrow> session_ok db \<Longrightarrow> session_ok db'"
  by (auto simp: migrated_from_def session_ok_def has_session_def)

lemma abort_open_locks:
  "one_handle_more d d1 \<Longrightarrow> same_locks d (abort_open (d1\<lparr>d_world := w\<rparr>))"
  "one_handle_more d d1 \<Longrightarrow> same_locks d (abort_open d1)"
  by (simp_all add: abort_open_def release_lease_def close_conns_def one_handle_more_def same_locks_def)

lemma open_session_tx_Inr:
  "open_session_tx row db = Inr (u, db') \<Longrightarrow>
     \<not> has_session db (n_session row) \<and> has_session db' (n_session row) \<and> events db' = events db"
  by (auto simp: open_session_tx_def has_session_def split: if_splits)

lemma Open_cases:
  assumes run: "Open io dir opts d = (d', r)" and ok: "session_ok (snd (d_world d))"
  shows "session_ok (snd (d_world d')) \<and>
    (case r of
       Inl e \<Rightarrow> same_locks d d' \<and> events (snd (d_world d')) = events (snd (d_world d))
     | Inr sid \<Rightarrow> one_handle_more d d' \<and> \<not> d_excl d \<and> \<not> d_marker d \<and>
         \<not> has_session (snd (d_world d)) sid \<and> has_session (snd (d_world d')) sid \<and>
         (\<exists>e. events (snd (d_world d')) = events (snd (d_world d)) @ [e] \<and> v_session e = sid
            \<and> v_type e = eventTypeSessionStart))"
proof -
  obtain d1 r1 where 1: "open_prefix (acquireInitLock (p_tries io)) io d = (d1, r1)" by fastforce
  note prefix = open_prefix_cases [OF 1]
  from prefix have mig: "migrated_from (snd (d_world d)) (snd (d_world d1))" by simp
  then have ok1: "session_ok (snd (d_world d1))" using ok by (rule migrated_from_ok)
  have sess1: "sessions (snd (d_world d1)) = sessions (snd (d_world d))"
      "events (snd (d_world d1)) = events (snd (d_world d))"
    using mig by (auto simp: migrated_from_def)
  show ?thesis
  proof (cases r1)
    case (Some e)
    with run 1 prefix ok1 sess1 show ?thesis by (auto simp: Open_def)
  next
    case None
    with prefix have more: "one_handle_more d d1" "\<not> d_excl d" "\<not> d_marker d" by simp_all
    note abort = abort_open_locks [OF more(1)]
    obtain q qr where 2: "quickCheck quick_op (p_quick io) = (q, qr)" by fastforce
    have abort_world: "d_world (abort_open x) = d_world x" for x
      by (simp add: abort_open_def release_lease_def close_conns_def)
    show ?thesis
    proof (cases qr)
      case (Some e)
      then have "d' = abort_open d1" "r = Inl e" using run 1 2 None by (simp_all add: Open_def)
      with abort ok1 abort_world sess1 show ?thesis by simp
    next
      case q: None
      show ?thesis
      proof (cases "p_uuid io")
        case (Inl e)
        then have "d' = abort_open d1" "r = Inl e" using run 1 2 None q by (simp_all add: Open_def)
        with abort ok1 abort_world sess1 show ?thesis by simp
      next
        case sid: (Inr sid)
        let ?row = "\<lparr>n_session = sid, n_started = p_now io, n_producer = o_producer opts,
            n_retention = o_retention opts\<rparr>"
        obtain w1 tr where 3: "txRetry (open_session_tx ?row) (d_world d1) = (w1, tr)" by fastforce
        show ?thesis
        proof (cases tr)
          case (Inl e)
          then have r: "d' = abort_open (d1\<lparr>d_world := w1\<rparr>)" "r = Inl e"
            using run 1 2 None q sid 3 by (simp_all add: Open_def)
          have "snd w1 = snd (d_world d1)" using 3 Inl txRetry_Inl by blast
          with r abort ok1 abort_world sess1 show ?thesis by simp
        next
          case (Inr u)
          then have tx: "open_session_tx ?row (snd (d_world d1)) = Inr (u, snd w1)"
            using 3 by (simp add: txRetry_Inr)
          have ok2: "session_ok (snd w1)" using open_session_tx_ok [OF ok1 tx] .
          have new: "\<not> has_session (snd (d_world d1)) sid" "has_session (snd w1) sid"
              "events (snd w1) = events (snd (d_world d1))"
            using open_session_tx_Inr [OF tx] by simp_all
          let ?root = "if o_worktree opts = [] then dir else o_worktree opts"
          let ?ev = "\<lparr>ev_type = eventTypeSessionStart, ev_summary = ''session started'',
              ev_attributes = session_start_payload [] ?root (o_retention opts),
              ev_refs = [], ev_related = [], ev_supersedes = [], ev_redaction = []\<rparr>"
          obtain w2 ar where 4: "appendEvent (p_start io) sid ?ev w1 = (w2, ar)" by fastforce
          have ok3: "session_ok (snd w2)" using appendEvent_ok [OF ok2 4] .
          show ?thesis
          proof (cases ar)
            case (Inl e)
            then have r: "d' = abort_open (d1\<lparr>d_world := w2\<rparr>)" "r = Inl e"
              using run 1 2 None q sid 3 \<open>tr = Inr u\<close> 4 by (simp_all add: Open_def Let_def)
            have "snd w2 = snd w1" using appendEvent_cases [OF 4] Inl by auto
            with r abort ok3 abort_world new(3) sess1 show ?thesis by simp
          next
            case appended: (Inr x)
            have r: "d' = d1\<lparr>d_world := w2\<rparr>" "r = Inr sid"
              using run 1 2 None q sid 3 \<open>tr = Inr u\<close> 4 appended by (simp_all add: Open_def Let_def)
            from appendEvent_cases [OF 4] appended obtain i eid where
              "append_tx (event_row_of eid sid (q_now (p_start io)) ?ev) (snd w1) = Inr (i, snd w2)" by auto
            then have ins: "insert_event (event_row_of eid sid (q_now (p_start io)) ?ev) (snd w1) = Inr (i, snd w2)"
              by (simp add: append_tx_Inr)
            note row = insert_event_Inr [OF ins]
            have has: "has_session (snd w2) sid" using new(2) row(3) by (simp add: has_session_def)
            have "\<not> has_session (snd (d_world d)) sid" using new(1) sess1 by (simp add: has_session_def)
            moreover have "one_handle_more d d'" using more(1) r(1) by (simp add: one_handle_more_def)
            ultimately show ?thesis
              using r has ok3 more(2,3) row(2) new(3) sess1(2)
              by (simp add: event_row_of_def)
          qed
        qed
      qed
    qed
  qed
qed


text \<open>Property C25.  \<open>Open\<close> gives back everything it took when it fails, wherever it fails: no lease,
  init lock or connection stays behind.  When it succeeds no recovery was running or pending, it
  holds exactly one lease and one connection pair more, the session is new and its start event is
  the last of the log, and closing the handle restores the locks.\<close>

theorem open_gives_back_leases:
  assumes "session_ok (snd (d_world d))" and "Open io dir opts d = (d', r)"
  shows "case r of
      Inl e \<Rightarrow> d_shared d' = d_shared d \<and> d_init d' = d_init d \<and> d_conns d' = d_conns d
    | Inr sid \<Rightarrow> \<not> d_excl d \<and> \<not> d_marker d
        \<and> d_shared d' = d_shared d + 1 \<and> d_init d' = d_init d \<and> d_conns d' = d_conns d + 1
        \<and> \<not> has_session (snd (d_world d)) sid
        \<and> (\<exists>e. events (snd (d_world d')) = events (snd (d_world d)) @ [e] \<and> v_session e = sid
             \<and> v_type e = ''session_start'')
        \<and> d_shared (Close d') = d_shared d \<and> d_conns (Close d') = d_conns d"
  using Open_cases [OF assms(2,1)]
  by (auto simp: same_locks_def one_handle_more_def eventTypeSessionStart_def Close_def
      abort_open_def release_lease_def close_conns_def split: sum.splits)

definition demo_dir :: session_dir where
  "demo_dir = \<lparr>d_excl = False, d_shared = 1, d_init = 0, d_conns = 1, d_marker = False,
     d_world = (\<lparr>e_tx = [None, Some SqliteBusy], e_ctx = []\<rparr>, demo_sweep_db)\<rparr>"

definition demo_io :: open_io where
  "demo_io = \<lparr>p_mkdir = None, p_lock = None, p_marker = None, p_stat = Some FsNotExist,
     p_tries = (\<lambda>i. \<lparr>t_lock = if i < 2 then Some (ErrOther ''busy'') else None, t_db = False, t_late = 0\<rparr>),
     p_conn = None, p_migrate = [Some SqliteBusy], p_quick = [Inl SqliteBusy], p_uuid = Inr ''n1'',
     p_now = 900000, p_start = \<lparr>q_uuid = Inr ''e9'', q_now = 900000\<rparr>\<rparr>"

lemma demo_open_run:
  "snd (Open demo_io ''/d'' \<lparr>o_retention = 0, o_producer = ''p'', o_worktree = []\<rparr> demo_dir) = Inr ''n1''"
  by code_simp

theorem open_gives_back_leases_witness:
  "\<exists>d'. Open demo_io ''/d'' \<lparr>o_retention = 0, o_producer = ''p'', o_worktree = []\<rparr> demo_dir = (d', Inr ''n1'')
     \<and> d_shared d' = 2"
proof -
  obtain d' where run: "Open demo_io ''/d'' \<lparr>o_retention = 0, o_producer = ''p'', o_worktree = []\<rparr> demo_dir = (d', Inr ''n1'')"
    using demo_open_run by (metis prod.collapse)
  have "session_ok (snd (d_world demo_dir))" by (simp add: demo_dir_def demo_sweep_ok)
  from open_gives_back_leases [OF this run] have "d_shared d' = 2" by (simp add: demo_dir_def)
  with run show ?thesis by blast
qed

text \<open>The integrity check runs the pragma at most three times, and stops at the first
  answer.  \<open>Open\<close> lets a database pass that answered \<open>ok\<close> or could not be asked three times in a
  row; the strict check of recovery passes only one that answered \<open>ok\<close>.\<close>

lemma quick_check_verdicts:
  "(\<exists>rs. op_trace op (\<lambda>s. (s, None :: go_error option option)) s rs (fst (quickCheck op s)) \<and> length rs \<le> 3
      \<and> (snd (quickCheck op s) = None \<longleftrightarrow>
           last rs = Inr ''ok'' \<or> length rs = 3 \<and> (\<exists>e. last rs = Inl e \<and> e \<noteq> SqliteMalformed)))
   \<and> (\<exists>rs. op_trace op (\<lambda>s. (s, None :: go_error option option)) s rs (fst (quickCheckStrict op s)) \<and> length rs \<le> 3
      \<and> (snd (quickCheckStrict op s) = None \<longleftrightarrow> last rs = Inr ''ok''))"
proof -
  let ?w = "\<lambda>s. (s, None :: go_error option option)"
  note trace = check_retry.attempt_trace [where n = 2 and call = op and s = s]
  obtain rs s1 where 1: "op_trace op ?w s rs s1" "length rs \<le> 3"
      "\<not> check_undecided (last rs) \<and> quickCheck op s = (s1, check_verdict (last rs))
       \<or> check_undecided (last rs) \<and> length rs = 3 \<and> quickCheck op s = (s1, None)"
    using trace [of None] by (auto simp: quickCheck_def)
  obtain qs s2 where 2: "op_trace op ?w s qs s2" "length qs \<le> 3"
      "\<not> check_undecided (last qs) \<and> quickCheckStrict op s = (s2, check_verdict (last qs))
       \<or> check_undecided (last qs) \<and> length qs = 3 \<and> quickCheckStrict op s = (s2, Some SessionCorrupt)"
    using trace [of "Some SessionCorrupt"] by (auto simp: quickCheckStrict_def)
  have ok: "\<not> check_undecided (Inr x)" for x by (simp add: check_undecided_def)
  have undecided: "check_undecided r \<longleftrightarrow> (\<exists>e. r = Inl e \<and> e \<noteq> SqliteMalformed)" for r
    by (simp add: check_undecided_def isMalformed_def)
  from 1(3) have first: "fst (quickCheck op s) = s1
      \<and> (snd (quickCheck op s) = None \<longleftrightarrow> last rs = Inr ''ok'' \<or> length rs = 3 \<and> check_undecided (last rs))"
    by (elim disjE conjE) (simp_all add: check_verdict_None)
  from 2(3) have "fst (quickCheckStrict op s) = s2
      \<and> (snd (quickCheckStrict op s) = None \<longleftrightarrow> last qs = Inr ''ok'')"
    using ok by (elim disjE conjE) (auto simp: check_verdict_None)
  with first 1(1,2) 2(1,2) show ?thesis unfolding undecided by metis
qed

end
