(* ===== verification/Session_Query.thy ===== *)
theory Session_Query
  imports Session_Export Session_Open Search
begin

text \<open>
  Questions to the session log: the full-text search over event summaries (\<open>QueryEvents\<close> of
  \<open>internal/search/search.go\<close>), what the session summary shows, and the invariant of the log over
  any sequence of its operations.
\<close>

section \<open>Searching events\<close>

text \<open>The full-text engine answers from the rows of an index table, best first.\<close>

record event_engine =
  k_match :: "ev_fts_row list \<Rightarrow> bytes \<Rightarrow> go_error + int list"

record event_hit =
  eh_event :: bytes
  eh_session :: bytes
  eh_type :: bytes
  eh_ts :: int
  eh_summary :: bytes
  eh_superseded :: bool

definition bm25RankEvents :: "event_engine \<Rightarrow> ev_fts_row list \<Rightarrow> bytes \<Rightarrow> nat \<Rightarrow> go_error + int list" where
  "bm25RankEvents eng rows match n =
     (if match = [] then Inr []
      else (case k_match eng rows match of Inl e \<Rightarrow> Inl e | Inr ids \<Rightarrow> Inr (take n ids)))"

definition event_of :: "session_db \<Rightarrow> int \<Rightarrow> event_row option" where
  "event_of db i = List.find (\<lambda>e. v_id e = i) (events db)"

text \<open>\<open>None\<close> is \<open>sql.ErrNoRows\<close>.\<close>

definition loadEventHit :: "session_db \<Rightarrow> int \<Rightarrow> event_hit option" where
  "loadEventHit db i =
     map_option (\<lambda>e. \<lparr>eh_event = v_event e, eh_session = v_session e, eh_type = v_type e,
         eh_ts = v_ts e, eh_summary = v_summary e,
         eh_superseded = list_ex (\<lambda>x. v_supersedes x = Some (v_event e)) (events db)\<rparr>)
       (event_of db i)"

text \<open>The filter of short tokens, here on the \<open>summary\<close> column of \<open>session_events\<close>.\<close>

definition filterShortEvents :: "(rune \<Rightarrow> rune) \<Rightarrow> session_db \<Rightarrow> int list \<Rightarrow> bytes list \<Rightarrow> int list" where
  "filterShortEvents lower db ids shortToks =
     (if shortToks = [] \<or> ids = [] then ids
      else filter (\<lambda>i. case event_of db i of
                         None \<Rightarrow> False
                       | Some e \<Rightarrow> list_all (\<lambda>t. foldIndex lower (v_summary e) t \<noteq> None) shortToks) ids)"

definition QueryEvents ::
  "event_engine \<Rightarrow> (rune \<Rightarrow> rune) \<Rightarrow> session_db \<Rightarrow> bytes \<Rightarrow> nat \<Rightarrow> go_error + event_hit list" where
  "QueryEvents eng lower db q limit =
     (case normalizeQuery q of
        (porter, trigram, shortToks) \<Rightarrow>
          (case bm25RankEvents eng (ev_porter db) porter (limit * 4) of
             Inl e \<Rightarrow> Inl e
           | Inr pIDs \<Rightarrow>
               (case bm25RankEvents eng (ev_trigram db) trigram (limit * 4) of
                  Inl e \<Rightarrow> Inl e
                | Inr tIDs0 \<Rightarrow>
                    let tIDs = filterShortEvents lower db tIDs0 shortToks;
                        best = topN (rrfMerge [pIDs, tIDs]) limit
                    in Inr (List.map_filter (\<lambda>sc. loadEventHit db (sc_id sc)) best))))"

text \<open>What FTS5 documents of a query: the rowids it returns are rows of the table.\<close>

definition engine_ok :: "event_engine \<Rightarrow> bool" where
  "engine_ok eng \<longleftrightarrow>
     (\<forall>rows m ids. k_match eng rows m = Inr ids \<longrightarrow> set ids \<subseteq> fst ` set rows)"

lemma rrf_list_keys: "fst ` set (rrf_list r is m) = fst ` set m \<union> set is"
proof (induction "is" arbitrary: r m)
  case (Cons i "is")
  have "fst ` set (AList.update i x m) = insert i (fst ` set m)" for x
    by (simp add: AList.dom_update)
  with Cons show ?case by (simp add: Let_def)
qed simp

lemma topN_ids: "sc_id ` set (topN scores n) \<subseteq> fst ` set scores"
  unfolding topN_def by (force dest: in_set_takeD)

lemma bm25RankEvents_ids:
  "engine_ok eng \<Longrightarrow> bm25RankEvents eng rows m n = Inr ids \<Longrightarrow> set ids \<subseteq> fst ` set rows"
  unfolding engine_ok_def
  by (force simp: bm25RankEvents_def split: if_splits sum.splits dest: in_set_takeD)

lemma filterShortEvents_ids: "set (filterShortEvents lower db ids ts) \<subseteq> set ids"
  by (auto simp: filterShortEvents_def)

lemma event_of_Some: "event_of db i = Some e \<Longrightarrow> e \<in> set (events db) \<and> v_id e = i"
  by (auto simp: event_of_def find_Some_iff)

lemma event_of_member: "i \<in> v_id ` set (events db) \<Longrightarrow> \<exists>e. event_of db i = Some e"
  by (cases "event_of db i") (auto simp: event_of_def find_None_iff)

text \<open>A hit that says of an event of the log what the log says.\<close>

definition true_hit :: "session_db \<Rightarrow> int \<Rightarrow> event_hit \<Rightarrow> bool" where
  "true_hit db i h \<longleftrightarrow>
     (\<exists>e \<in> set (events db). v_id e = i \<and> eh_event h = v_event e \<and> eh_session h = v_session e
        \<and> eh_type h = v_type e \<and> eh_ts h = v_ts e \<and> eh_summary h = v_summary e
        \<and> (eh_superseded h \<longleftrightarrow> (\<exists>x \<in> set (events db). v_supersedes x = Some (v_event e))))"

lemma loadEventHit_true: "loadEventHit db i = Some h \<Longrightarrow> true_hit db i h"
  using event_of_Some [of db i]
  by (auto simp: loadEventHit_def true_hit_def list_ex_iff)

lemma loadEventHit_member: "i \<in> v_id ` set (events db) \<Longrightarrow> \<exists>h. loadEventHit db i = Some h"
  using event_of_member [of i db] by (auto simp: loadEventHit_def)

lemma map_filter_all:
  "(\<And>x. x \<in> set xs \<Longrightarrow> \<exists>y. f x = Some y \<and> R x y) \<Longrightarrow> list_all2 R xs (List.map_filter f xs)"
  by (induction xs) (force simp: List.map_filter_simps)+

lemma fts_ids: "session_ok db \<Longrightarrow> fst ` set (ev_porter db) = v_id ` set (events db)
    \<and> fst ` set (ev_trigram db) = v_id ` set (events db)"
  by (auto simp: session_ok_def ev_fts_def image_iff)

lemma QueryEvents_Inr:
  assumes "session_ok db" and "engine_ok eng" and "QueryEvents eng lower db q limit = Inr hits"
  shows "\<exists>best. length best \<le> limit \<and> list_all2 (\<lambda>sc h. true_hit db (sc_id sc) h) best hits"
proof -
  obtain porter trigram toks where n: "normalizeQuery q = (porter, trigram, toks)" by (metis prod_cases3)
  with assms(3) obtain ps ts where
    p: "bm25RankEvents eng (ev_porter db) porter (limit * 4) = Inr ps" and
    t: "bm25RankEvents eng (ev_trigram db) trigram (limit * 4) = Inr ts" and
    h: "hits = List.map_filter (\<lambda>sc. loadEventHit db (sc_id sc))
          (topN (rrfMerge [ps, filterShortEvents lower db ts toks]) limit)"
    by (auto simp: QueryEvents_def Let_def split: sum.splits)
  let ?fs = "filterShortEvents lower db ts toks" and ?best = "topN (rrfMerge [ps, filterShortEvents lower db ts toks]) limit"
  have "set ps \<union> set ?fs \<subseteq> v_id ` set (events db)"
    using bm25RankEvents_ids [OF assms(2) p] bm25RankEvents_ids [OF assms(2) t] fts_ids [OF assms(1)]
      filterShortEvents_ids [of lower db ts toks] by auto
  moreover have "fst ` set (rrfMerge [ps, ?fs]) = set ps \<union> set ?fs"
    by (simp add: rrfMerge_def rrf_list_keys)
  ultimately have "sc_id ` set ?best \<subseteq> v_id ` set (events db)"
    using topN_ids [of "rrfMerge [ps, ?fs]" limit] by blast
  then have "\<exists>h. loadEventHit db (sc_id sc) = Some h \<and> true_hit db (sc_id sc) h" if "sc \<in> set ?best" for sc
    using that loadEventHit_member [of "sc_id sc" db] loadEventHit_true [of db "sc_id sc"] by blast
  then have "list_all2 (\<lambda>sc h. true_hit db (sc_id sc) h) ?best hits"
    unfolding h by (rule map_filter_all)
  then show ?thesis using topN_length by blast
qed

text \<open>Every hit of an event search is an event of the log with its own session, type,
  time and summary, marked superseded exactly when another event of the log supersedes it.  As the
  indexes are in step with the log, no candidate of the ranking is lost while loading: there is
  one hit for each of the at most \<open>limit\<close> events the ranking chose, in its order.\<close>

lemma event_hits_are_true:
  assumes "session_ok db" and "engine_ok eng" and "QueryEvents eng lower db q limit = Inr hits"
  shows "\<exists>ids. length ids \<le> limit \<and> list_all2 (\<lambda>i h. \<exists>e \<in> set (events db). v_id e = i
        \<and> eh_event h = v_event e \<and> eh_session h = v_session e \<and> eh_type h = v_type e \<and> eh_ts h = v_ts e
        \<and> eh_summary h = v_summary e
        \<and> (eh_superseded h \<longleftrightarrow> (\<exists>x \<in> set (events db). v_supersedes x = Some (v_event e)))) ids hits"
proof -
  obtain best where "length best \<le> limit" "list_all2 (\<lambda>sc h. true_hit db (sc_id sc) h) best hits"
    using QueryEvents_Inr [OF assms] by blast
  then show ?thesis
    by (intro exI [of _ "map sc_id best"]) (simp add: list_all2_map1 true_hit_def)
qed

definition demo_engine :: event_engine where
  "demo_engine = \<lparr>k_match = (\<lambda>rows m. Inr (map fst (take 1 rows)))\<rparr>"

lemma demo_query_run:
  "\<exists>h. QueryEvents demo_engine id demo_sweep_db ''b'' 5 = Inr [h]"
  by (simp add: QueryEvents_def normalizeQuery_def demo_fields demo_runes bm25RankEvents_def
      quote_def replace_char_def filterShortEvents_def rrfMerge_def topN_def Let_def
      demo_engine_def event_of_def demo_sweep_db_def demo_event_def loadEventHit_def
      ev_fts_def map_filter_simps split: prod.splits)

lemma event_hits_are_true_witness:
  "\<exists>h ids. QueryEvents demo_engine id demo_sweep_db ''b'' 5 = Inr [h]
     \<and> (\<exists>e \<in> set (events demo_sweep_db). eh_event h = v_event e \<and> eh_summary h = v_summary e)"
proof -
  obtain h where run: "QueryEvents demo_engine id demo_sweep_db ''b'' 5 = Inr [h]"
    using demo_query_run by blast
  have "engine_ok demo_engine" by (auto simp: engine_ok_def demo_engine_def dest: in_set_takeD)
  from event_hits_are_true [OF demo_sweep_ok this run]
  have "\<exists>e \<in> set (events demo_sweep_db). eh_event h = v_event e \<and> eh_summary h = v_summary e"
    by (auto simp: list_all2_Cons2)
  with run show ?thesis by blast
qed

section \<open>The log over time\<close>

text \<open>The operations that change a database, with whatever their surroundings do to them.\<close>

inductive session_step :: "session_db \<Rightarrow> session_db \<Rightarrow> bool" where
  append_step: "appendEvent io sid ev (v, db) = (w', r) \<Longrightarrow> session_step db (snd w')"
| ensure_step: "EnsureSession io ad source base (v, db) = (w', r) \<Longrightarrow> session_step db (snd w')"
| sweep_step: "Sweep now (v, db) = (w', rep, err) \<Longrightarrow> session_step db (snd w')"
| open_step: "Open io dir opts d = (d', r) \<Longrightarrow> session_step (snd (d_world d)) (snd (d_world d'))"
| open_append_step: "OpenAppend limit io opts d = (d', r) \<Longrightarrow>
    session_step (snd (d_world d)) (snd (d_world d'))"

text \<open>The abstract log: a list of rows in the order of their ids, to which one row is appended under
  a greater id and a new key, and from which rows are forgotten; a row is never changed.\<close>

inductive log_step :: "event_row list \<Rightarrow> event_row list \<Rightarrow> bool" where
  log_stay: "log_step L L"
| log_append: "\<forall>e \<in> set L. v_id e < v_id x \<and> v_event e \<noteq> v_event x \<Longrightarrow> log_step L (L @ [x])"
| log_forget: "log_step L (filter P L)"

lemma insert_event_log: "insert_event e db = Inr (i, db') \<Longrightarrow> log_step (events db) (events db')"
proof -
  assume ins: "insert_event e db = Inr (i, db')"
  note new = insert_event_Inr [OF ins]
  have "\<forall>x \<in> set (events db). v_id x < i"
    using next_rowid_above [of _ "map v_id (events db)"] new(1) by auto
  with new(4) show ?thesis unfolding new(2) by (intro log_append) simp
qed

lemma ensure_tx_log: "ensure_tx eid row payload db = Inr (c, db') \<Longrightarrow> log_step (events db) (events db')"
  by (auto simp: ensure_tx_def Let_def log_stay split: if_splits sum.splits dest!: insert_event_log)

lemma Sweep_log:
  assumes "session_ok (snd w)" and "Sweep now w = (w', rep, err)"
  shows "log_step (events (snd w)) (events (snd w'))"
  using assms(2)
proof (cases rule: Sweep_cases)
  case (events_failed n e)
  from sweep_events_effect [OF assms(1) events_failed(1)] obtain G where
    "events (snd w') = filter (\<lambda>e. \<not> G e) (events (snd w))" by blast
  then show ?thesis by (simp add: log_forget)
next
  case (both w1 n m)
  from sweep_events_effect [OF assms(1) both(1)] obtain G where
    1: "session_ok (snd w1)" "events (snd w1) = filter (\<lambda>e. \<not> G e) (events (snd w))" by auto
  from sweep_idle_effect [OF 1(1) both(2)] obtain H where
    "events (snd w') = filter H (events (snd w1))" by auto
  then show ?thesis unfolding 1(2) filter_filter by (auto intro: log_forget)
qed

lemma Open_log:
  assumes "session_ok (snd (d_world d))" and "Open io dir opts d = (d', r)"
  shows "session_ok (snd (d_world d')) \<and> log_step (events (snd (d_world d))) (events (snd (d_world d')))"
proof -
  note cases = Open_cases [OF assms(2,1)]
  then have ok: "session_ok (snd (d_world d'))" by simp
  show ?thesis
  proof (cases r)
    case (Inl e)
    with cases show ?thesis by (simp add: log_stay)
  next
    case (Inr sid)
    with cases obtain e where e: "events (snd (d_world d')) = events (snd (d_world d)) @ [e]" by auto
    with ok have "\<forall>x \<in> set (events (snd (d_world d))). v_id x < v_id e \<and> v_event x \<noteq> v_event e"
      by (auto simp: session_ok_def sorted_wrt_append image_iff)
    with ok e show ?thesis by (simp add: log_append)
  qed
qed

lemma OpenAppend_world:
  assumes "OpenAppend limit io opts d = (d', r)"
  shows "migrated_from (snd (d_world d)) (snd (d_world d'))"
proof -
  obtain d1 r1 where "open_prefix (acquireInitLockCtx limit (p_tries io)) io d = (d1, r1)" by fastforce
  with open_prefix_cases [OF this] assms show ?thesis
    by (cases r1) (auto simp: OpenAppend_def)
qed

lemma appendEvent_log:
  "appendEvent io sid ev w = (w', r) \<Longrightarrow> log_step (events (snd w)) (events (snd w'))"
  using appendEvent_cases append_tx_Inr insert_event_log log_stay by metis

lemma EnsureSession_log:
  assumes "EnsureSession io ad source base w = (w', r)"
  shows "log_step (events (snd w)) (events (snd w'))"
proof (cases "q_uuid io")
  case (Inl e)
  with assms show ?thesis by (simp add: EnsureSession_def log_stay)
next
  case (Inr eid)
  show ?thesis
    using assms Inr
    by (cases r) (auto simp: EnsureSession_def log_stay dest!: txRetry_Inl txRetry_Inr ensure_tx_log)
qed

lemma session_step_log:
  assumes "session_step db db'" and "session_ok db"
  shows "session_ok db' \<and> log_step (events db) (events db')"
  using assms
proof (induction rule: session_step.induct)
  case (append_step io sid ev v db w' r)
  then show ?case using appendEvent_ok [of "(v, db)"] appendEvent_log [OF append_step(1)] by simp
next
  case (ensure_step io ad source base v db w' r)
  then show ?case using EnsureSession_ok [of "(v, db)"] EnsureSession_log [OF ensure_step(1)] by simp
next
  case (sweep_step now v db w' rep err)
  then show ?case
    using Sweep_ok [of "(v, db)" now w' rep err] Sweep_log [of "(v, db)" now w' rep err] by simp
next
  case (open_step io dir opts d d' r)
  then show ?case using Open_log by blast
next
  case (open_append_step limit io opts d d' r)
  have m: "migrated_from (snd (d_world d)) (snd (d_world d'))"
    using OpenAppend_world [OF open_append_step(1)] .
  then have "events (snd (d_world d')) = events (snd (d_world d))" by (auto simp: migrated_from_def)
  with migrated_from_ok [OF m open_append_step(2)] show ?case by (simp add: log_stay)
qed

lemma session_steps_ok: "session_step\<^sup>*\<^sup>* fresh_session_db db \<Longrightarrow> session_ok db"
proof (induction rule: rtranclp_induct)
  case base
  show ?case by (rule session_ok_fresh)
next
  case step
  then show ?case using session_step_log by blast
qed

text \<open>Property C19.  Refinement: whatever the operations on a session log do and however they fail,
  seen as a list of events each of them appends one event under an id above all stored ones and a
  key no stored event has, or forgets events, or changes nothing.  In every log reached from a
  fresh one ids and keys are unique, every event belongs to a session and the indexes hold its
  summary.\<close>

theorem session_refines_log:
  assumes "session_step\<^sup>*\<^sup>* fresh_session_db db" and "session_step db db'"
  shows "session_ok db' \<and> log_step (events db) (events db')"
  using session_step_log [OF assms(2) session_steps_ok [OF assms(1)]] .

theorem session_refines_log_witness:
  "\<exists>db. session_step fresh_session_db db \<and> log_step (events fresh_session_db) (events db) \<and> events db \<noteq> []"
proof -
  let ?w = "(\<lparr>e_tx = [], e_ctx = []\<rparr>, fresh_session_db)"
  let ?run = "EnsureSession \<lparr>q_uuid = Inr ''e1'', q_now = 5\<rparr>
      \<lparr>ad_session = ''a'', ad_producer = ''p'', ad_retention = 0\<rparr> [] ''/w'' ?w"
  have step: "session_step fresh_session_db (snd (fst ?run))"
    by (rule ensure_step) (rule prod.collapse [symmetric])
  have "length (events (snd (fst ?run))) = 1" by code_simp
  then have "events (snd (fst ?run)) \<noteq> []" by (metis length_0_conv zero_neq_one)
  with step session_refines_log [OF rtranclp.rtrancl_refl step] show ?thesis by blast
qed

text \<open>A sweep at a time when the newest event is still kept leaves it the newest, whatever ends the
  sweep, so the next event gets a greater id and a cursor of an export stays valid.\<close>

lemma filter_last:
  "xs \<noteq> [] \<Longrightarrow> P (last xs) \<Longrightarrow> filter P xs \<noteq> [] \<and> last (filter P xs) = last xs"
  by (induction xs rule: rev_induct) simp_all

lemma next_rowid_last:
  "sorted_wrt (<) (map v_id es) \<Longrightarrow> es \<noteq> [] \<Longrightarrow> next_rowid (map v_id es) = v_id (last es) + 1"
proof (induction es rule: rev_induct)
  case (snoc e es)
  have "Max (insert (v_id e) (v_id ` set es)) = v_id e"
    using snoc.prems by (intro Max_eqI) (auto simp: sorted_wrt_append less_imp_le)
  then show ?case by (simp add: next_rowid_def)
qed simp

text \<open>Ids are not reused across a sweep while the newest event is to be kept: if its
  session is at most seven days old and keeps it still, then after the sweep, whether it succeeds
  or fails, it is still the newest and the next id is the one it would have been.\<close>

lemma sweep_keeps_newest:
  assumes ok: "session_ok (snd w)" and run: "Sweep now w = (w', rep, err)"
    and "events (snd w) \<noteq> []" and e: "e = last (events (snd w))"
    and s: "s \<in> set (sessions (snd w))" "n_session s = v_session e"
    and young: "now - 604800 \<le> n_started s" and kept: "0 < n_retention s \<Longrightarrow> now - n_retention s \<le> v_ts e"
  shows "events (snd w') \<noteq> [] \<and> last (events (snd w')) = e
    \<and> next_rowid (map v_id (events (snd w'))) = next_rowid (map v_id (events (snd w)))"
proof -
  have one: "t = s" if "t \<in> set (sessions (snd w))" "n_session t = v_session e" for t
    using that s ok by (auto simp: session_ok_def distinct_map inj_on_def)
  have live: "\<not> expired now (snd w) e"
    using one kept by (fastforce simp: expired_def)
  have "\<exists>P. events (snd w') = filter P (events (snd w)) \<and> P e"
    using run
  proof (cases rule: Sweep_cases)
    case events_failed
    from sweep_events_effect [OF ok events_failed(1)] live show ?thesis by blast
  next
    case (both w1 n m)
    from sweep_events_effect [OF ok both(1)] obtain G where
      1: "session_ok (snd w1)" "sessions (snd w1) = sessions (snd w)"
        "events (snd w1) = filter (\<lambda>e. \<not> G e) (events (snd w))" "\<forall>e. G e \<longrightarrow> expired now (snd w) e" by auto
    from sweep_idle_effect [OF 1(1) both(2)] obtain H where
      2: "events (snd w') = filter (\<lambda>e. \<not> (v_type e = eventTypeSessionStart \<and> v_session e \<in> H)) (events (snd w1))"
        "\<forall>s \<in> set (sessions (snd w1)). n_session s \<in> H \<longrightarrow> idle (now - emptySessionMaxAgeSec) (snd w1) s" by auto
    have "v_session e \<notin> H"
      using 2(2) s young unfolding 1(2) by (auto simp: idle_def emptySessionMaxAgeSec_def)
    with 1(3,4) 2(1) live show ?thesis unfolding 1(3) filter_filter by blast
  qed
  then obtain P where P: "events (snd w') = filter P (events (snd w))" "P e" by blast
  with assms(3) e filter_last [of "events (snd w)" P] have
    "events (snd w') \<noteq> []" "last (events (snd w')) = e" by auto
  moreover have "session_ok (snd w')" using Sweep_ok [OF ok run] .
  ultimately show ?thesis
    using next_rowid_last [of "events (snd w')"] next_rowid_last [of "events (snd w)"] ok e assms(3)
    by (simp add: session_ok_def)
qed


lemma sweep_keeps_newest_witness:
  "\<exists>w' rep err. Sweep 864000 (\<lparr>e_tx = [], e_ctx = []\<rparr>, demo_sweep_db) = (w', rep, err)
     \<and> v_event (last (events (snd w'))) = ''e5''"
proof -
  let ?w = "(\<lparr>e_tx = [], e_ctx = []\<rparr>, demo_sweep_db)"
  obtain w' rep err where run: "Sweep 864000 ?w = (w', rep, err)" by (metis prod_cases3)
  let ?e = "demo_event 5 ''e5'' ''c'' ''note'' 800000"
  let ?s = "\<lparr>n_session = ''c'', n_started = 800000, n_producer = ''p'', n_retention = 86400\<rparr>"
  have "last (events (snd w')) = ?e"
    by (rule sweep_keeps_newest [OF _ run, of ?e ?s, THEN conjunct2, THEN conjunct1])
       (use demo_sweep_ok in \<open>simp_all add: demo_sweep_db_def demo_event_def Let_def\<close>)
  with run show ?thesis by (auto simp: demo_event_def)
qed

end
