(* ===== verification/Session_Rescue.thy ===== *)
theory Session_Rescue
  imports Session_Export Session_Open
begin

text \<open>
  Copying the rows of a damaged session log, \<open>internal/session/recover.go\<close>: \<open>rescueTable\<close> reads in
  batches by rowid, tries again where the damage stops it, and gives up after eight tries without
  a row.
\<close>

section \<open>The loop\<close>

definition rescueBatch :: nat where "rescueBatch = 200"
definition rescueMaxStall :: nat where "rescueMaxStall = 8"

text \<open>What becomes of a query: it fails, it delivers its rows, the iteration breaks after some rows,
  or the process dies in it.  Past the end of the outcomes every query delivers.\<close>

datatype read_outcome = ReadErr go_error | ReadAll | ReadSome nat go_error | ReadKilled

datatype rescue_end = RescueDone | RescueFailed go_error | RescueKilled

text \<open>\<open>copyRow\<close> on the rows delivered: it stops at the first row the copy refuses.  The result
  counts the rows copied and gives the cursor after them.\<close>

fun copy_rows ::
  "('r \<Rightarrow> int) \<Rightarrow> ('r \<Rightarrow> 'd \<Rightarrow> go_error + 'd) \<Rightarrow> 'r list \<Rightarrow> int \<Rightarrow> 'd \<Rightarrow> nat \<Rightarrow> int \<times> 'd \<times> nat \<times> go_error option" where
  "copy_rows rid ins [] cursor dst got = (cursor, dst, got, None)"
| "copy_rows rid ins (r # rs) cursor dst got =
     (case ins r dst of
        Inl e \<Rightarrow> (cursor, dst, got, Some e)
      | Inr dst' \<Rightarrow> copy_rows rid ins rs (rid r) dst' (got + 1))"

definition batch_after :: "('r \<Rightarrow> int) \<Rightarrow> 'r list \<Rightarrow> int \<Rightarrow> 'r list" where
  "batch_after rid rows cursor = take rescueBatch (filter (\<lambda>r. cursor < rid r) rows)"

lemma copy_rows_cursor:
  assumes "\<forall>r \<in> set rs. c < rid r" and "copy_rows rid ins rs cursor dst got = (cursor', dst', got', e)"
    and "c \<le> cursor"
  shows "got \<le> got' \<and> (got < got' \<longrightarrow> c < cursor' \<and> (\<exists>r \<in> set rs. rid r = cursor')) \<and> (got = got' \<longrightarrow> cursor' = cursor)"
  using assms
proof (induction rs arbitrary: cursor dst got)
  case (Cons r rs)
  show ?case
  proof (cases "ins r dst")
    case (Inr d)
    with Cons.prems have run: "copy_rows rid ins rs (rid r) d (got + 1) = (cursor', dst', got', e)" by simp
    have "got + 1 \<le> got' \<and> (got + 1 < got' \<longrightarrow> c < cursor' \<and> (\<exists>r \<in> set rs. rid r = cursor')) \<and> (got + 1 = got' \<longrightarrow> cursor' = rid r)"
      using Cons.prems(1) by (intro Cons.IH [OF _ run]) (auto intro: less_imp_le)
    with Cons.prems(1) show ?thesis by (cases "got + 1 = got'") auto
  qed (use Cons.prems in simp)
qed simp

text \<open>The rows a query hands out and the error that ends them.  A query that fails behaves as one
  that breaks before its first row.\<close>

definition rows_read :: "read_outcome \<Rightarrow> 'r list \<Rightarrow> 'r list \<times> go_error option" where
  "rows_read out batch =
     (case out of
        ReadErr e \<Rightarrow> ([], Some e)
      | ReadSome k e \<Rightarrow> (take k batch, Some e)
      | _ \<Rightarrow> (batch, None))"

text \<open>One pass of the loop: cursor, copy, number of rows and error after it.\<close>

definition rescue_pass ::
  "('r \<Rightarrow> int) \<Rightarrow> ('r \<Rightarrow> 'd \<Rightarrow> go_error + 'd) \<Rightarrow> 'r list \<Rightarrow> read_outcome \<Rightarrow> int \<Rightarrow> 'd \<Rightarrow>
     int \<times> 'd \<times> nat \<times> go_error option" where
  "rescue_pass rid ins rows out cursor dst =
     (case rows_read out (batch_after rid rows cursor) of
        (given, rerr) \<Rightarrow>
          (case copy_rows rid ins given cursor dst 0 of
             (cursor', dst', got, cerr) \<Rightarrow> (cursor', dst', got, if cerr = None then rerr else cerr)))"

lemma rescue_pass_cursor:
  assumes "rescue_pass rid ins rows out cursor dst = (cursor', dst', got, e)"
  shows "if got = 0 then cursor' = cursor else cursor < cursor' \<and> (\<exists>r \<in> set rows. rid r = cursor')"
proof -
  obtain given rerr where g: "rows_read out (batch_after rid rows cursor) = (given, rerr)" by fastforce
  have sub: "set given \<subseteq> set (filter (\<lambda>r. cursor < rid r) rows)"
    using g by (auto simp: rows_read_def batch_after_def split: read_outcome.splits dest!: in_set_takeD)
  from assms g obtain cerr where "copy_rows rid ins given cursor dst 0 = (cursor', dst', got, cerr)"
    by (auto simp: rescue_pass_def split: prod.splits)
  from copy_rows_cursor [OF _ this, of cursor] sub show ?thesis by fastforce
qed

text \<open>\<open>stall\<close> counts the passes in a row that gave nothing.\<close>

function rescueTable ::
  "('r \<Rightarrow> int) \<Rightarrow> ('r \<Rightarrow> 'd \<Rightarrow> go_error + 'd) \<Rightarrow> 'r list \<Rightarrow> read_outcome list \<Rightarrow> int \<Rightarrow> nat \<Rightarrow> nat \<Rightarrow> 'd \<Rightarrow>
     read_outcome list \<times> 'd \<times> nat \<times> rescue_end" where
  "rescueTable rid ins rows outs cursor stall copied dst =
     (let out = (if outs = [] then ReadAll else hd outs); rest = tl outs in
      if out = ReadKilled then (rest, dst, copied, RescueKilled)
      else (case rescue_pass rid ins rows out cursor dst of
          (cursor', dst', got, err) \<Rightarrow>
            if got = 0 then
              (case err of
                 None \<Rightarrow> (rest, dst', copied, RescueDone)
               | Some e \<Rightarrow>
                   if \<not> isMalformed e then (rest, dst', copied, RescueFailed e)
                   else if rescueMaxStall < stall + 1 then (rest, dst', copied, RescueDone)
                   else rescueTable rid ins rows rest cursor' (stall + 1) copied dst')
            else rescueTable rid ins rows rest cursor' 0 (copied + got) dst'))"
  by pat_completeness auto
termination
proof (relation "measures [\<lambda>(rid, ins, rows, outs, cursor, stall, copied, dst).
      length (filter (\<lambda>r. cursor < rid r) rows),
    \<lambda>(rid, ins, rows, outs, cursor, stall, copied, dst). 9 - stall]", simp, goal_cases)
  case (1 rid ins rows outs cursor stall copied dst out rest cursor' p dst' q got err e)
  then have "rescue_pass rid ins rows out cursor dst = (cursor', dst', got, err)" by simp
  with 1 rescue_pass_cursor [OF this] show ?case by (simp add: rescueMaxStall_def)
next
  case (2 rid ins rows outs cursor stall copied dst out rest cursor' p dst' q got err)
  then have "rescue_pass rid ins rows out cursor dst = (cursor', dst', got, err)" by simp
  with 2 rescue_pass_cursor [OF this] obtain r where r: "cursor < cursor'" "r \<in> set rows" "rid r = cursor'"
    by auto
  have "length (filter (\<lambda>r. cursor' < rid r) rows) < length (filter (\<lambda>r. cursor < rid r) rows)"
    using r by (intro length_filter_less_subset [of _ _ r]) auto
  then show ?case by simp
qed

declare rescueTable.simps [simp del]

section \<open>What is copied\<close>

fun insert_all :: "('r \<Rightarrow> 'd \<Rightarrow> go_error + 'd) \<Rightarrow> 'r list \<Rightarrow> 'd \<Rightarrow> go_error + 'd" where
  "insert_all ins [] d = Inr d"
| "insert_all ins (r # rs) d = (case ins r d of Inl e \<Rightarrow> Inl e | Inr d' \<Rightarrow> insert_all ins rs d')"

lemma insert_all_append:
  "insert_all ins (xs @ ys) d = (case insert_all ins xs d of Inl e \<Rightarrow> Inl e | Inr d' \<Rightarrow> insert_all ins ys d')"
  by (induction xs arbitrary: d) (auto split: sum.splits)

lemma copy_rows_spec:
  "copy_rows rid ins rs cursor dst got = (cursor', dst', got', e) \<Longrightarrow>
     \<exists>m. got' = got + m \<and> m \<le> length rs \<and> insert_all ins (take m rs) dst = Inr dst'
       \<and> (e = None \<longrightarrow> m = length rs) \<and> cursor' = (if m = 0 then cursor else rid (last (take m rs)))
       \<and> (\<forall>x. e = Some x \<longrightarrow> (\<exists>r d. ins r d = Inl x))"
proof (induction rs arbitrary: cursor dst got)
  case (Cons r rs)
  show ?case
  proof (cases "ins r dst")
    case (Inl x)
    with Cons.prems show ?thesis by (intro exI [of _ 0]) auto
  next
    case (Inr d)
    with Cons.prems have "copy_rows rid ins rs (rid r) d (got + 1) = (cursor', dst', got', e)" by simp
    from Cons.IH [OF this] obtain m where m: "got' = got + 1 + m" "m \<le> length rs"
        "insert_all ins (take m rs) d = Inr dst'" "e = None \<longrightarrow> m = length rs"
        "cursor' = (if m = 0 then rid r else rid (last (take m rs)))"
        "\<forall>x. e = Some x \<longrightarrow> (\<exists>r d. ins r d = Inl x)" by blast
    have "last (take (Suc m) (r # rs)) = (if m = 0 then r else last (take m rs))"
      using m(2) by (auto simp: last_conv_nth)
    with m Inr show ?thesis by (intro exI [of _ "Suc m"]) simp
  qed
qed simp

text \<open>The rows still to come.\<close>

abbreviation rows_after :: "('r \<Rightarrow> int) \<Rightarrow> 'r list \<Rightarrow> int \<Rightarrow> 'r list" where
  "rows_after rid rows cursor \<equiv> filter (\<lambda>r. cursor < rid r) rows"

lemma rescue_pass_spec:
  assumes sorted: "sorted_wrt (<) (map rid rows)"
    and pass: "rescue_pass rid ins rows out cursor dst = (cursor', dst', got, err)"
  shows "insert_all ins (take got (rows_after rid rows cursor)) dst = Inr dst'
    \<and> rows_after rid rows cursor' = drop got (rows_after rid rows cursor)
    \<and> got \<le> length (rows_after rid rows cursor)
    \<and> (got = 0 \<and> err = None \<and> out \<noteq> ReadKilled \<longrightarrow> rows_after rid rows cursor = [])
    \<and> (\<forall>x. err = Some x \<longrightarrow> (\<exists>r d. ins r d = Inl x) \<or> out = ReadErr x \<or> (\<exists>k. out = ReadSome k x))"
proof -
  let ?R = "rows_after rid rows cursor"
  obtain given rerr where g: "rows_read out (batch_after rid rows cursor) = (given, rerr)" by fastforce
  obtain n where n: "given = take n ?R" and
    full: "rerr = None \<longrightarrow> out = ReadKilled \<or> n = rescueBatch" and
    err: "\<forall>x. rerr = Some x \<longrightarrow> out = ReadErr x \<or> (\<exists>k. out = ReadSome k x)"
  proof (cases out)
    case (ReadErr e)
    with g that [of 0] show thesis by (auto simp: rows_read_def)
  next
    case ReadAll
    with g that [of rescueBatch] show thesis by (auto simp: rows_read_def batch_after_def)
  next
    case (ReadSome k e)
    with g that [of "min k rescueBatch"] show thesis by (auto simp: rows_read_def batch_after_def take_take)
  next
    case ReadKilled
    with g that [of rescueBatch] show thesis by (auto simp: rows_read_def batch_after_def)
  qed
  from pass g obtain cerr where run: "copy_rows rid ins given cursor dst 0 = (cursor', dst', got, cerr)"
    and e: "err = (if cerr = None then rerr else cerr)"
    by (auto simp: rescue_pass_def split: prod.splits)
  from copy_rows_spec [OF run] have c: "got \<le> length given" "insert_all ins (take got given) dst = Inr dst'"
      "cerr = None \<longrightarrow> got = length given" "cursor' = (if got = 0 then cursor else rid (last (take got given)))"
      "\<forall>x. cerr = Some x \<longrightarrow> (\<exists>r d. ins r d = Inl x)" by auto
  have tk: "take got given = take got ?R" using c(1) by (auto simp: n take_take min_def split: if_splits)
  have after: "rows_after rid rows cursor' = drop got ?R"
  proof (cases "got = 0")
    case False
    then have "take got ?R \<noteq> []" using c(1) by (auto simp: n)
    moreover have "sorted_wrt (<) (map rid ?R)" using sorted by (rule sorted_wrt_map_filter)
    ultimately have "filter (\<lambda>r. rid (last (take got ?R)) < rid r) ?R = drop got ?R"
      by (intro filter_after_page)
    moreover have "rows_after rid rows cursor' = filter (\<lambda>r. cursor' < rid r) ?R"
      using rescue_pass_cursor [OF pass] False by (auto intro!: filter_cong)
    ultimately show ?thesis using c(4) tk False by simp
  qed (use c(4) in simp)
  have "got \<le> length ?R" using c(1) by (simp add: n)
  moreover have "?R = []" if "got = 0" "err = None" "out \<noteq> ReadKilled"
  proof -
    from that(2) e have "cerr = None" "rerr = None" by (auto split: if_splits)
    with that c(3) full have "length (take rescueBatch ?R) = 0" by (auto simp: n)
    then show ?thesis by (cases ?R) (simp_all add: rescueBatch_def)
  qed
  ultimately show ?thesis
    using c(2,5) tk after err e by (auto split: if_splits)
qed

text \<open>An outcome without damage.\<close>

definition undamaged :: "read_outcome \<Rightarrow> bool" where
  "undamaged out \<longleftrightarrow> (\<forall>e k. out = ReadErr e \<or> out = ReadSome k e \<longrightarrow> \<not> isMalformed e)"

lemma rescueTable_spec:
  assumes "sorted_wrt (<) (map rid rows)"
    and "rescueTable rid ins rows outs cursor stall copied dst = (outs', dst', copied', fin)"
  shows "\<exists>n. n \<le> length (rows_after rid rows cursor) \<and> copied' = copied + n
    \<and> insert_all ins (take n (rows_after rid rows cursor)) dst = Inr dst'
    \<and> set outs' \<subseteq> set outs
    \<and> (fin = RescueDone \<and> (\<forall>out \<in> set outs. undamaged out) \<and> (\<forall>r d e. ins r d = Inl e \<longrightarrow> \<not> isMalformed e)
        \<longrightarrow> n = length (rows_after rid rows cursor))"
  using assms
proof (induction rid ins rows outs cursor stall copied dst rule: rescueTable.induct)
  case (1 rid ins rows outs cursor stall copied dst)
  let ?out = "if outs = [] then ReadAll else hd outs" and ?R = "rows_after rid rows cursor"
  have sub: "set (tl outs) \<subseteq> set outs" by (cases outs) auto
  show ?case
  proof (cases "?out = ReadKilled")
    case True
    with 1(4) sub show ?thesis
      by (simp add: rescueTable.simps [of rid ins rows outs])
  next
    case alive: False
    obtain cursor' dst1 got err where pass: "rescue_pass rid ins rows ?out cursor dst = (cursor', dst1, got, err)"
      by (metis prod_cases4)
    note spec = rescue_pass_spec [OF 1(3) pass]
    have quiet: "\<not> isMalformed e" if "err = Some e" "\<forall>out \<in> set outs. undamaged out"
        "\<forall>r d e. ins r d = Inl e \<longrightarrow> \<not> isMalformed e" for e
    proof -
      from spec that(1) consider r d where "ins r d = Inl e" | k where "?out = ReadErr e \<or> ?out = ReadSome k e"
        by blast
      then show ?thesis
      proof cases
        case 2
        then have "?out \<in> set outs" by (cases outs) auto
        with that(2) 2 show ?thesis unfolding undamaged_def by blast
      qed (use that(3) in blast)
    qed
    show ?thesis
    proof (cases "got = 0")
      case False
      have rec: "rescueTable rid ins rows (tl outs) cursor' 0 (copied + got) dst1 = (outs', dst', copied', fin)"
        using 1(4) alive pass False by (simp add: rescueTable.simps [of rid ins rows outs] Let_def)
      have R': "rows_after rid rows cursor' = drop got ?R" and le: "got \<le> length ?R"
        and ins1: "insert_all ins (take got ?R) dst = Inr dst1" using spec by simp_all
      from 1(2) [OF refl refl alive pass [symmetric] refl refl False 1(3) rec, unfolded R'] obtain n where
        n: "n \<le> length (drop got ?R)" "copied' = copied + got + n"
          "insert_all ins (take n (drop got ?R)) dst1 = Inr dst'" "set outs' \<subseteq> set (tl outs)"
          "fin = RescueDone \<and> (\<forall>out \<in> set (tl outs). undamaged out) \<and> (\<forall>r d e. ins r d = Inl e \<longrightarrow> \<not> isMalformed e)
            \<longrightarrow> n = length (drop got ?R)" by blast
      have "insert_all ins (take (got + n) ?R) dst = Inr dst'"
        using ins1 n(3) by (simp add: take_add insert_all_append)
      moreover have "got + n \<le> length ?R" using n(1) le by simp
      moreover have "set outs' \<subseteq> set outs" using n(4) sub by blast
      moreover have "got + n = length ?R"
        if "fin = RescueDone" "\<forall>out \<in> set outs. undamaged out" "\<forall>r d e. ins r d = Inl e \<longrightarrow> \<not> isMalformed e"
      proof -
        have "\<forall>out \<in> set (tl outs). undamaged out" using that(2) sub by blast
        with n(5) that(1,3) le show ?thesis by simp
      qed
      ultimately show ?thesis using n(2) by (intro exI [of _ "got + n"]) simp
    next
      case True
      show ?thesis
      proof (cases err)
        case None
        with True alive pass 1(4) have "fin = RescueDone" "copied' = copied" "dst' = dst1" "outs' = tl outs"
          by (simp_all add: rescueTable.simps [of rid ins rows outs] Let_def)
        with spec True None alive sub show ?thesis by (intro exI [of _ 0]) simp
      next
        case (Some e)
        show ?thesis
        proof (cases "isMalformed e \<and> \<not> rescueMaxStall < stall + 1")
          case False
          with True Some alive pass 1(4) have r: "dst' = dst1" "copied' = copied" "outs' = tl outs"
              "fin = RescueDone \<longrightarrow> isMalformed e"
            by (auto simp: rescueTable.simps [of rid ins rows outs] Let_def split: if_splits)
          with spec True quiet [OF Some] sub show ?thesis by (intro exI [of _ 0]) auto
        next
          case again: True
          have rec: "rescueTable rid ins rows (tl outs) cursor' (stall + 1) copied dst1 = (outs', dst', copied', fin)"
            using 1(4) alive pass True Some again by (simp add: rescueTable.simps [of rid ins rows outs] Let_def)
          have m: "\<not> \<not> isMalformed e" "\<not> rescueMaxStall < stall + 1" using again by simp_all
          have R': "rows_after rid rows cursor' = ?R" and same: "dst1 = dst" using spec True by simp_all
          from 1(1) [OF refl refl alive pass [symmetric] refl refl True Some m 1(3) rec, unfolded R' same]
          obtain n where n: "n \<le> length ?R" "copied' = copied + n" "insert_all ins (take n ?R) dst = Inr dst'"
              "set outs' \<subseteq> set (tl outs)"
              "fin = RescueDone \<and> (\<forall>out \<in> set (tl outs). undamaged out) \<and> (\<forall>r d e. ins r d = Inl e \<longrightarrow> \<not> isMalformed e)
                \<longrightarrow> n = length ?R" by blast
          moreover have "set outs' \<subseteq> set outs" using n(4) sub by blast
          moreover have "n = length ?R"
            if "fin = RescueDone" "\<forall>out \<in> set outs. undamaged out" "\<forall>r d e. ins r d = Inl e \<longrightarrow> \<not> isMalformed e"
            using n(5) that sub by blast
          ultimately show ?thesis by (intro exI [of _ n]) simp
        qed
      qed
    qed
  qed
qed

section \<open>Rescuing the two tables\<close>

text \<open>The copies keep the rowids of the events; the insert trigger indexes them.\<close>

definition copy_event :: "event_row \<Rightarrow> session_db \<Rightarrow> go_error + session_db" where
  "copy_event e db =
     (if \<exists>x \<in> set (events db). v_id x = v_id e
      then Inl (ErrOther ''UNIQUE constraint failed: session_events.id'')
      else if \<exists>x \<in> set (events db). v_event x = v_event e
      then Inl (ErrOther ''UNIQUE constraint failed: session_events.event_id'')
      else Inr (db\<lparr>events := events db @ [e], ev_porter := ev_porter db @ [ev_fts e],
                   ev_trigram := ev_trigram db @ [ev_fts e]\<rparr>))"

definition copy_session :: "int \<times> session_row \<Rightarrow> session_db \<Rightarrow> go_error + session_db" where
  "copy_session r db =
     (if has_session db (n_session (snd r))
      then Inl (ErrOther ''UNIQUE constraint failed: sessions.session_id'')
      else Inr (db\<lparr>sessions := sessions db @ [snd r]\<rparr>))"

text \<open>The rowids of the sessions: their places in the table.\<close>

definition numbered :: "'a list \<Rightarrow> (int \<times> 'a) list" where
  "numbered xs = zip (map int [1..<length xs + 1]) xs"

definition rescueSessions ::
  "read_outcome list \<Rightarrow> session_db \<Rightarrow> session_db \<Rightarrow> read_outcome list \<times> session_db \<times> nat \<times> rescue_end" where
  "rescueSessions outs src dst = rescueTable fst copy_session (numbered (sessions src)) outs 0 0 0 dst"

definition rescueSessionEvents ::
  "read_outcome list \<Rightarrow> session_db \<Rightarrow> session_db \<Rightarrow> read_outcome list \<times> session_db \<times> nat \<times> rescue_end" where
  "rescueSessionEvents outs src dst = rescueTable v_id copy_event (events src) outs 0 0 0 dst"

lemma insert_all_events:
  "insert_all copy_event es db = Inr db' \<Longrightarrow>
     events db' = events db @ es \<and> sessions db' = sessions db \<and> user_version db' = user_version db
     \<and> ev_porter db' = ev_porter db @ map ev_fts es \<and> ev_trigram db' = ev_trigram db @ map ev_fts es"
proof (induction es arbitrary: db)
  case (Cons e es)
  then obtain d where d: "copy_event e db = Inr d" "insert_all copy_event es d = Inr db'"
    by (auto split: sum.splits)
  from Cons.IH [OF d(2)] d(1) show ?case by (auto simp: copy_event_def split: if_splits)
qed simp

lemma insert_all_sessions:
  "insert_all copy_session rs db = Inr db' \<Longrightarrow>
     sessions db' = sessions db @ map snd rs \<and> events db' = events db \<and> user_version db' = user_version db
     \<and> ev_porter db' = ev_porter db \<and> ev_trigram db' = ev_trigram db"
proof (induction rs arbitrary: db)
  case (Cons r rs)
  then obtain d where d: "copy_session r db = Inr d" "insert_all copy_session rs d = Inr db'"
    by (auto split: sum.splits)
  from Cons.IH [OF d(2)] d(1) show ?case by (auto simp: copy_session_def split: if_splits)
qed simp

lemma copies_not_malformed:
  "copy_event e db = Inl x \<Longrightarrow> \<not> isMalformed x" "copy_session r db = Inl x \<Longrightarrow> \<not> isMalformed x"
  by (auto simp: copy_event_def copy_session_def isMalformed_def split: if_splits)

lemma numbered_simps: "map snd (numbered xs) = xs" "sorted_wrt (<) (map fst (numbered xs))"
    "\<forall>r \<in> set (numbered xs). 0 < fst r"
  by (auto simp: numbered_def sorted_wrt_map set_zip simp del: upt_Suc)

lemma map_snd_take: "map snd (take n xs) = take n (map snd xs)"
  by (simp add: take_map)

lemma rescue_sessions_spec:
  assumes "rescueSessions outs src dst = (outs', d, n, fin)"
  shows "n \<le> length (sessions src) \<and> sessions d = sessions dst @ take n (sessions src)
    \<and> events d = events dst \<and> ev_porter d = ev_porter dst \<and> ev_trigram d = ev_trigram dst
    \<and> user_version d = user_version dst
    \<and> (fin = RescueDone \<and> (\<forall>out \<in> set outs. undamaged out) \<longrightarrow> n = length (sessions src))"
proof -
  let ?rows = "numbered (sessions src)"
  have all: "filter (\<lambda>r. 0 < fst r) ?rows = ?rows"
    using numbered_simps(3) by (simp add: filter_id_conv)
  have len: "length ?rows = length (sessions src)" by (metis length_map numbered_simps(1))
  from rescueTable_spec [OF numbered_simps(2) assms [unfolded rescueSessions_def], unfolded all len]
    copies_not_malformed(2)
  obtain m where m: "m \<le> length (sessions src)" "n = m" "insert_all copy_session (take m ?rows) dst = Inr d"
      "fin = RescueDone \<and> (\<forall>out \<in> set outs. undamaged out) \<longrightarrow> m = length (sessions src)" by fastforce
  from insert_all_sessions [OF m(3)] m(1,2,4) show ?thesis
    by (simp add: map_snd_take numbered_simps(1))
qed

lemma rescue_events_spec:
  assumes "sorted_wrt (<) (map v_id (events src))" and pos: "\<forall>e \<in> set (events src). 0 < v_id e"
    and "rescueSessionEvents outs src dst = (outs', d, n, fin)"
  shows "n \<le> length (events src) \<and> events d = events dst @ take n (events src) \<and> sessions d = sessions dst
    \<and> ev_porter d = ev_porter dst @ map ev_fts (take n (events src))
    \<and> ev_trigram d = ev_trigram dst @ map ev_fts (take n (events src))
    \<and> user_version d = user_version dst
    \<and> (fin = RescueDone \<and> (\<forall>out \<in> set outs. undamaged out) \<longrightarrow> n = length (events src))"
proof -
  have all: "filter (\<lambda>r. 0 < v_id r) (events src) = events src" using pos by (simp add: filter_id_conv)
  from rescueTable_spec [OF assms(1) assms(3) [unfolded rescueSessionEvents_def], unfolded all]
    copies_not_malformed(1)
  obtain m where m: "m \<le> length (events src)" "n = m" "insert_all copy_event (take m (events src)) dst = Inr d"
      "fin = RescueDone \<and> (\<forall>out \<in> set outs. undamaged out) \<longrightarrow> m = length (events src)" by fastforce
  from insert_all_events [OF m(3)] m(1,2,4) show ?thesis by simp
qed


text \<open>A damaged place that gives way at the ninth try costs nothing.\<close>

definition demo_reads :: "read_outcome list" where
  "demo_reads = ReadSome 2 SqliteMalformed # replicate 8 (ReadErr SqliteMalformed) @ [ReadSome 1 SqliteMalformed]"

lemma demo_rescue_run:
  "(case rescueSessions [] demo_sweep_db fresh_session_db of (so, d1, ns, fs) \<Rightarrow>
      (case rescueSessionEvents demo_reads demo_sweep_db d1 of (eo, d2, ne, fe) \<Rightarrow>
         ns = 3 \<and> ne = 5 \<and> fs = RescueDone \<and> fe = RescueDone))"
  by code_simp

lemma demo_sweep_sorted:
  "sorted_wrt (<) (map v_id (events demo_sweep_db))" "\<forall>e \<in> set (events demo_sweep_db). 0 < v_id e"
  using demo_sweep_ok by (simp_all add: session_ok_def)


end
