(* ===== verification/Session_Recover.thy ===== *)
theory Session_Recover
  imports Session_Rescue
begin

text \<open>
  \<open>session recover\<close>, \<open>internal/session/recover.go\<close>: a damaged session log is copied to a temporary
  file, verified, and published in its place, with a marker that keeps servers out meanwhile.
  Every step on the directory may fail, and the process may die between any two steps; a later
  run finds out from the files how far the last one came.
\<close>

section \<open>The directory\<close>

text \<open>What a database file holds: its tables, and whether an integrity check accepts it.  A WAL file
  is the change it makes to what its database shows.\<close>

record image =
  im_db :: session_db
  im_ok :: bool

datatype rfile = DbFile image | WalFile "image \<Rightarrow> image" | PlainFile

type_synonym files = "(bytes \<times> rfile) list"

definition dbFileName :: bytes where "dbFileName = ''session.db''"
definition recoverTmpName :: bytes where "recoverTmpName = ''session.recover-tmp''"
definition recoverMarkerName :: bytes where "recoverMarkerName = ''session.recover-pending''"
definition bakPrefix :: bytes where "bakPrefix = dbFileName @ ''.bak-''"

definition wal_of :: "bytes \<Rightarrow> bytes" where "wal_of p = p @ ''-wal''"
definition shm_of :: "bytes \<Rightarrow> bytes" where "shm_of p = p @ ''-shm''"

lemmas file_names = dbFileName_def recoverTmpName_def recoverMarkerName_def bakPrefix_def wal_of_def shm_of_def

text \<open>What a connection to a path shows: the main file under its WAL.\<close>

definition view :: "files \<Rightarrow> bytes \<Rightarrow> image option" where
  "view fs p =
     (case map_of fs p of
        Some (DbFile m) \<Rightarrow>
          Some (case map_of fs (wal_of p) of Some (WalFile f) \<Rightarrow> f m | _ \<Rightarrow> m)
      | _ \<Rightarrow> None)"

section \<open>Steps\<close>

text \<open>The fate of a system call: it succeeds, it fails without effect, or the process dies before it.
  Past the end of the list calls succeed.  \<open>r_checks\<close> and \<open>r_reads\<close> are the outcomes of the integrity
  checks and of the queries of the rescue.\<close>

datatype sys_outcome = SysOk | SysErr go_error | SysKill

record rdir =
  r_files :: files
  r_sys :: "sys_outcome list"
  r_checks :: "go_error option list"
  r_reads :: "read_outcome list"

datatype 'a run = Ret 'a | Fail go_error | Killed

type_synonym 'a act = "rdir \<Rightarrow> rdir \<times> 'a run"

definition ret :: "'a \<Rightarrow> 'a act" where
  "ret x s = (s, Ret x)"

definition fail_with :: "go_error \<Rightarrow> 'a act" where
  "fail_with e s = (s, Fail e)"

definition and_then :: "'a act \<Rightarrow> ('a \<Rightarrow> 'b act) \<Rightarrow> 'b act" where
  "and_then m f s =
     (case m s of
        (s', Ret x) \<Rightarrow> f x s'
      | (s', Fail e) \<Rightarrow> (s', Fail e)
      | (s', Killed) \<Rightarrow> (s', Killed))"

text \<open>A call with an effect on the files, and one that only looks.\<close>

definition sys :: "(files \<Rightarrow> files) \<Rightarrow> unit act" where
  "sys f s =
     (case r_sys s of
        [] \<Rightarrow> (s\<lparr>r_files := f (r_files s)\<rparr>, Ret ())
      | SysOk # os \<Rightarrow> (s\<lparr>r_files := f (r_files s), r_sys := os\<rparr>, Ret ())
      | SysErr e # os \<Rightarrow> (s\<lparr>r_sys := os\<rparr>, Fail e)
      | SysKill # os \<Rightarrow> (s\<lparr>r_sys := os\<rparr>, Killed))"

definition ask :: "(files \<Rightarrow> 'a) \<Rightarrow> 'a act" where
  "ask f = and_then (sys (\<lambda>fs. fs)) (\<lambda>_ s. (s, Ret (f (r_files s))))"

definition fileExists :: "bytes \<Rightarrow> bool act" where
  "fileExists p = ask (\<lambda>fs. map_of fs p \<noteq> None)"

text \<open>\<open>os.Remove\<close> where a missing file is no error; \<open>os.Rename\<close>, which replaces its target.\<close>

definition remove_file :: "bytes \<Rightarrow> unit act" where
  "remove_file p = sys (AList.delete p)"

definition rename_file :: "bytes \<Rightarrow> bytes \<Rightarrow> unit act" where
  "rename_file a b s =
     (case map_of (r_files s) a of
        None \<Rightarrow> fail_with FsNotExist s
      | Some x \<Rightarrow> sys (\<lambda>fs. AList.update b x (AList.delete a fs)) s)"

definition syncDir :: "unit act" where
  "syncDir = sys (\<lambda>fs. fs)"

section \<open>Health\<close>

definition check_op :: "bool \<Rightarrow> go_error option list \<Rightarrow> go_error option list \<times> (go_error + bytes)" where
  "check_op healthy outs =
     (case pop outs of
        (Some e, rest) \<Rightarrow> (rest, Inl e)
      | (None, rest) \<Rightarrow> (rest, Inr (if healthy then ''ok'' else ''malformed'')))"

text \<open>The check of one path; a missing database cannot be opened.\<close>

definition check_view ::
  "((go_error option list \<Rightarrow> go_error option list \<times> (go_error + bytes)) \<Rightarrow> go_error option list \<Rightarrow>
      go_error option list \<times> go_error option) \<Rightarrow> bytes \<Rightarrow> go_error option act" where
  "check_view check p s =
     (case view (r_files s) p of
        None \<Rightarrow> (s, Ret (snd (check (\<lambda>outs. (outs, Inl SqliteCantOpen)) (r_checks s))))
      | Some m \<Rightarrow>
          (case check (check_op (im_ok m)) (r_checks s) of
             (outs, r) \<Rightarrow> (s\<lparr>r_checks := outs\<rparr>, Ret r)))"

definition probeCorrupt :: "bool act" where
  "probeCorrupt =
     and_then (fileExists dbFileName) (\<lambda>there.
       if \<not> there then ret False
       else and_then (check_view quickCheck dbFileName) (\<lambda>r.
         case r of
           None \<Rightarrow> ret False
         | Some e \<Rightarrow> if e = SessionCorrupt then ret True else fail_with e))"

definition probeHealthyStrict :: "bool act" where
  "probeHealthyStrict =
     and_then (check_view quickCheckStrict dbFileName) (\<lambda>r.
       case r of
         None \<Rightarrow> ret True
       | Some e \<Rightarrow> if e = SessionCorrupt then ret False else fail_with e)"

text \<open>\<open>checkRescuedHealth\<close>: the strict check, then the schema version.\<close>

definition checkRescuedHealth :: "bytes \<Rightarrow> unit act" where
  "checkRescuedHealth p =
     and_then (check_view quickCheckStrict p) (\<lambda>r.
       case r of
         Some e \<Rightarrow> fail_with e
       | None \<Rightarrow>
           and_then (ask (\<lambda>fs. map_option (\<lambda>m. user_version (im_db m)) (view fs p))) (\<lambda>v.
             if v = Some 1 then ret () else fail_with (ErrOther ''user_version'')))"

text \<open>A failed check is an answer here, a death is not.\<close>

definition succeeds :: "unit act \<Rightarrow> bool act" where
  "succeeds m s =
     (case m s of
        (s', Ret _) \<Rightarrow> (s', Ret True)
      | (s', Fail _) \<Rightarrow> (s', Ret False)
      | (s', Killed) \<Rightarrow> (s', Killed))"

definition tmpIsHealthy :: "bool act" where
  "tmpIsHealthy =
     and_then (fileExists recoverTmpName) (\<lambda>there.
       if \<not> there then ret False
       else and_then (fileExists (wal_of recoverTmpName)) (\<lambda>w.
         if w then ret False
         else and_then (fileExists (shm_of recoverTmpName)) (\<lambda>h.
           if h then ret False else succeeds (checkRescuedHealth recoverTmpName))))"

section \<open>Backups\<close>

definition is_sidecar :: "bytes \<Rightarrow> bool" where
  "is_sidecar n \<longleftrightarrow> suffix ''-wal'' n \<or> suffix ''-shm'' n"

definition is_backup_main :: "bytes \<Rightarrow> bool" where
  "is_backup_main n \<longleftrightarrow> prefix bakPrefix n \<and> \<not> is_sidecar n"

text \<open>The greatest name; names are compared bytewise.\<close>

definition latest_name :: "bytes list \<Rightarrow> bytes" where
  "latest_name names = fold (\<lambda>n latest. if latest < n then n else latest) names []"

text \<open>\<open>None\<close> stands for \<open>found = false\<close>.  The directory holds no subdirectory of such a name.\<close>

definition latestBackupMain :: "bytes option act" where
  "latestBackupMain =
     ask (\<lambda>fs. let l = latest_name (filter is_backup_main (map fst fs)) in if l = [] then None else Some l)"

fun for_each :: "'a list \<Rightarrow> ('a \<Rightarrow> unit act) \<Rightarrow> unit act" where
  "for_each [] f = ret ()"
| "for_each (x # xs) f = and_then (f x) (\<lambda>_. for_each xs f)"

definition move_if_there :: "bytes \<Rightarrow> bytes \<Rightarrow> unit act" where
  "move_if_there a b =
     and_then (fileExists a) (\<lambda>there. if there then rename_file a b else ret ())"

definition restoreLatestBackup :: "unit act" where
  "restoreLatestBackup =
     and_then latestBackupMain (\<lambda>found.
       case found of
         None \<Rightarrow> fail_with (ErrOther ''no copy and no backup'')
       | Some main \<Rightarrow>
           for_each [''-wal'', ''-shm'', []] (\<lambda>suffix. move_if_there (main @ suffix) (dbFileName @ suffix)))"

text \<open>\<open>ts\<close> is the time stamp of the backup.\<close>

definition backupOriginal :: "bytes \<Rightarrow> bytes act" where
  "backupOriginal ts =
     (let name = bakPrefix @ ts in
      and_then (for_each [''-shm'', ''-wal'', []] (\<lambda>suffix. move_if_there (dbFileName @ suffix) (name @ suffix)))
        (\<lambda>_. ret name))"

text \<open>A side file of a backup whose main file is not there is removed.\<close>

definition bak_stamp :: "bytes \<Rightarrow> bytes option" where
  "bak_stamp n =
     (if \<not> prefix bakPrefix n then None
      else if suffix ''-wal'' n then Some (trim_suffix ''-wal'' (trim_prefix bakPrefix n))
      else if suffix ''-shm'' n then Some (trim_suffix ''-shm'' (trim_prefix bakPrefix n))
      else None)"

definition orphan_sidecars :: "files \<Rightarrow> bytes list" where
  "orphan_sidecars fs =
     (let names = sort (map fst fs);
          mains = map (trim_prefix bakPrefix) (filter is_backup_main names)
      in filter (\<lambda>n. case bak_stamp n of None \<Rightarrow> False | Some ts \<Rightarrow> ts \<notin> set mains) names)"

definition sweepOrphanBackups :: "unit act" where
  "sweepOrphanBackups = and_then (ask orphan_sidecars) (\<lambda>names. for_each names remove_file)"

definition finishPublish :: "unit act" where
  "finishPublish =
     and_then (rename_file recoverTmpName dbFileName) (\<lambda>_.
     and_then sweepOrphanBackups (\<lambda>_. syncDir))"

definition publishRescued :: "bytes \<Rightarrow> bytes act" where
  "publishRescued ts =
     and_then (backupOriginal ts) (\<lambda>name. and_then finishPublish (\<lambda>_. ret name))"

section \<open>Rescue and verification\<close>

definition removeDBFamily :: "bytes \<Rightarrow> unit act" where
  "removeDBFamily p = for_each [p, wal_of p, shm_of p] remove_file"

text \<open>An open connection to the copy keeps its changes in the WAL; the last close folds them into the
  file.  \<open>write_tmp\<close> is the state while it is open.\<close>

definition put_files :: "(files \<Rightarrow> files) \<Rightarrow> unit act" where
  "put_files f s = (s\<lparr>r_files := f (r_files s)\<rparr>, Ret ())"

definition open_tmp :: "session_db \<Rightarrow> files \<Rightarrow> files" where
  "open_tmp d fs =
     AList.update (shm_of recoverTmpName) PlainFile
      (AList.update (wal_of recoverTmpName) (WalFile (\<lambda>_. \<lparr>im_db = d, im_ok = True\<rparr>))
        (AList.update recoverTmpName (DbFile \<lparr>im_db = fresh_session_db, im_ok = True\<rparr>) fs))"

definition closed_tmp :: "image \<Rightarrow> files \<Rightarrow> files" where
  "closed_tmp m fs =
     AList.delete (shm_of recoverTmpName) (AList.delete (wal_of recoverTmpName)
        (AList.update recoverTmpName (DbFile m) fs))"

text \<open>The deferred \<open>dst.Close()\<close>: its error is dropped, and then the side files stay.\<close>

definition close_tmp :: "session_db \<Rightarrow> 'a run \<Rightarrow> 'a act" where
  "close_tmp d r s =
     (case sys (closed_tmp \<lparr>im_db = d, im_ok = True\<rparr>) s of
        (s', Killed) \<Rightarrow> (s', Killed)
      | (s', _) \<Rightarrow> (s', r))"

text \<open>The begin, statements and commit of \<open>applyTmpSchema\<close> succeed together or leave an empty file.\<close>

definition applyTmpSchema :: "unit act" where
  "applyTmpSchema s =
     (case sys (open_tmp (fresh_session_db\<lparr>user_version := 1\<rparr>)) s of
        (s', Fail e) \<Rightarrow> close_tmp fresh_session_db (Fail e) s'
      | (s', r) \<Rightarrow> (s', r))"

definition run_rescue ::
  "(read_outcome list \<Rightarrow> session_db \<Rightarrow> session_db \<Rightarrow> read_outcome list \<times> session_db \<times> nat \<times> rescue_end) \<Rightarrow>
     session_db \<Rightarrow> session_db \<Rightarrow> (session_db \<times> nat) act" where
  "run_rescue rescue src dst s =
     (case rescue (r_reads s) src dst of
        (outs, d, n, fin) \<Rightarrow>
          let s' = s\<lparr>r_reads := outs, r_files := open_tmp d (r_files s)\<rparr> in
          (case fin of
             RescueDone \<Rightarrow> (s', Ret (d, n))
           | RescueFailed e \<Rightarrow> close_tmp d (Fail e) s'
           | RescueKilled \<Rightarrow> (s', Killed)))"

definition rescueAll :: "(nat \<times> nat) act" where
  "rescueAll =
     and_then (removeDBFamily recoverTmpName) (\<lambda>_.
     and_then applyTmpSchema (\<lambda>_ s.
       case view (r_files s) dbFileName of
         None \<Rightarrow> close_tmp (fresh_session_db\<lparr>user_version := 1\<rparr>) (Fail SqliteCantOpen) s
       | Some m \<Rightarrow>
           and_then (run_rescue rescueSessions (im_db m) (fresh_session_db\<lparr>user_version := 1\<rparr>)) (\<lambda>(d1, ns).
           and_then (run_rescue rescueSessionEvents (im_db m) d1) (\<lambda>(d2, ne).
             close_tmp d2 (Ret (ne, ns)))) s))"

text \<open>Verification opens the copy once more to fold in what its WAL may still hold.\<close>

definition checkpoint_tmp :: "files \<Rightarrow> files" where
  "checkpoint_tmp fs =
     (case view fs recoverTmpName of
        None \<Rightarrow> fs
      | Some m \<Rightarrow> closed_tmp m fs)"

definition verifyRescued :: "unit act" where
  "verifyRescued =
     and_then (sys checkpoint_tmp) (\<lambda>_.
     and_then (remove_file (wal_of recoverTmpName)) (\<lambda>_.
     and_then (remove_file (shm_of recoverTmpName)) (\<lambda>_.
     and_then (checkRescuedHealth recoverTmpName) (\<lambda>_. syncDir))))"

section \<open>The command\<close>

record recover_result =
  NoOp :: bool
  MarkerOnly :: bool
  RecoveredEvents :: nat
  RecoveredSessions :: nat
  BackupPrefix :: bytes

definition no_result :: recover_result where
  "no_result = \<lparr>NoOp = False, MarkerOnly = False, RecoveredEvents = 0, RecoveredSessions = 0, BackupPrefix = []\<rparr>"

text \<open>Creating the marker syncs the file and its directory.\<close>

definition createMarker :: "unit act" where
  "createMarker =
     and_then (sys (AList.update recoverMarkerName PlainFile)) (\<lambda>_.
     and_then (sys (\<lambda>fs. fs)) (\<lambda>_. syncDir))"

definition publishAlreadyComplete :: "bool act" where
  "publishAlreadyComplete =
     and_then (fileExists dbFileName) (\<lambda>there.
       if \<not> there then ret False
       else and_then probeHealthyStrict (\<lambda>healthy.
         if \<not> healthy then ret False
         else and_then latestBackupMain (\<lambda>found. ret (found \<noteq> None))))"

definition countTmpRows :: "(nat \<times> nat) act" where
  "countTmpRows =
     and_then (ask (\<lambda>fs. map_option (\<lambda>m. (length (events (im_db m)), length (sessions (im_db m))))
         (view fs recoverTmpName))) (\<lambda>r.
       case r of None \<Rightarrow> fail_with SqliteCantOpen | Some c \<Rightarrow> ret c)"

definition resumePublishFromTmp :: "bytes \<Rightarrow> (nat \<times> nat \<times> bytes) act" where
  "resumePublishFromTmp ts =
     and_then countTmpRows (\<lambda>(ne, ns).
     and_then (fileExists dbFileName) (\<lambda>there.
     and_then (if there then backupOriginal ts
               else and_then latestBackupMain (\<lambda>found. ret (case found of None \<Rightarrow> [] | Some n \<Rightarrow> n))) (\<lambda>name.
     and_then finishPublish (\<lambda>_. ret (ne, ns, name)))))"

text \<open>From the rescue on.\<close>

definition rescue_and_publish :: "bytes \<Rightarrow> recover_result act" where
  "rescue_and_publish ts =
     and_then rescueAll (\<lambda>(ne, ns).
     and_then verifyRescued (\<lambda>_.
     and_then (publishRescued ts) (\<lambda>name.
     and_then (remove_file recoverMarkerName) (\<lambda>_.
       ret (no_result\<lparr>RecoveredEvents := ne, RecoveredSessions := ns, BackupPrefix := name\<rparr>)))))"

text \<open>\<open>held\<close> tells that some process has the session lock, shared or exclusive.\<close>

definition Recover :: "bool \<Rightarrow> bytes \<Rightarrow> recover_result act" where
  "Recover held ts =
     (if held then fail_with SessionLeaseHeld
      else and_then (fileExists recoverMarkerName) (\<lambda>marked.
        if \<not> marked then
          and_then probeCorrupt (\<lambda>corrupt.
            if \<not> corrupt then ret (no_result\<lparr>NoOp := True\<rparr>)
            else and_then createMarker (\<lambda>_. rescue_and_publish ts))
        else
          and_then tmpIsHealthy (\<lambda>healthy.
            if healthy then
              and_then (resumePublishFromTmp ts) (\<lambda>(ne, ns, name).
              and_then (remove_file recoverMarkerName) (\<lambda>_.
                ret (no_result\<lparr>RecoveredEvents := ne, RecoveredSessions := ns, BackupPrefix := name\<rparr>)))
            else
              and_then publishAlreadyComplete (\<lambda>complete.
                if complete then
                  and_then (remove_file recoverMarkerName) (\<lambda>_. ret (no_result\<lparr>MarkerOnly := True\<rparr>))
                else
                  and_then (fileExists dbFileName) (\<lambda>there.
                  and_then (if \<not> there then restoreLatestBackup else ret ()) (\<lambda>_.
                    rescue_and_publish ts))))))"

text \<open>Used by the other commands to tell whether a recovery left traces.\<close>

definition HasRecoverArtifacts :: "bool act" where
  "HasRecoverArtifacts =
     and_then (fileExists recoverMarkerName) (\<lambda>m.
       if m then ret True
       else and_then (fileExists recoverTmpName) (\<lambda>t.
         if t then ret True
         else and_then latestBackupMain (\<lambda>found. ret (found \<noteq> None))))"

section \<open>Reasoning about steps\<close>

text \<open>From a directory with \<open>P\<close>, a result leaves \<open>Q\<close>, and a failure or a death leaves \<open>E\<close>.\<close>

definition triple ::
  "(files \<Rightarrow> bool) \<Rightarrow> 'a act \<Rightarrow> ('a \<Rightarrow> files \<Rightarrow> bool) \<Rightarrow> (files \<Rightarrow> bool) \<Rightarrow> bool" where
  "triple P m Q E \<longleftrightarrow>
     (\<forall>s s' r. P (r_files s) \<longrightarrow> m s = (s', r) \<longrightarrow>
        (case r of Ret x \<Rightarrow> Q x (r_files s') | _ \<Rightarrow> E (r_files s')))"

lemma triple_and_then:
  assumes "triple P m Q E" and "\<And>x. triple (Q x) (f x) R E"
  shows "triple P (and_then m f) R E"
  using assms unfolding triple_def and_then_def by (fastforce split: prod.splits run.splits)

lemma triple_ret: "(\<And>fs. P fs \<Longrightarrow> Q x fs) \<Longrightarrow> triple P (ret x) Q E"
  by (simp add: triple_def ret_def)

lemma triple_fail: "(\<And>fs. P fs \<Longrightarrow> E fs) \<Longrightarrow> triple P (fail_with e) Q E"
  by (simp add: triple_def fail_with_def)

lemma triple_sys:
  "(\<And>fs. P fs \<Longrightarrow> E fs) \<Longrightarrow> (\<And>fs. P fs \<Longrightarrow> Q () (f fs)) \<Longrightarrow> triple P (sys f) Q E"
  by (auto simp: triple_def sys_def split: list.splits sys_outcome.splits)

lemma triple_ask:
  "(\<And>fs. P fs \<Longrightarrow> E fs) \<Longrightarrow> (\<And>fs. P fs \<Longrightarrow> Q (f fs) fs) \<Longrightarrow> triple P (ask f) Q E"
  unfolding ask_def by (rule triple_and_then [OF triple_sys [of P E "\<lambda>_. P"]]) (auto simp: triple_def)

lemma triple_weaken:
  "triple P m Q E \<Longrightarrow> (\<And>fs. P' fs \<Longrightarrow> P fs) \<Longrightarrow> (\<And>x fs. Q x fs \<Longrightarrow> Q' x fs) \<Longrightarrow> (\<And>fs. E fs \<Longrightarrow> E' fs) \<Longrightarrow>
     triple P' m Q' E'"
  unfolding triple_def by (fastforce split: run.splits)

lemma triple_false: "(\<And>fs. \<not> P fs) \<Longrightarrow> triple P m Q E"
  by (simp add: triple_def)

lemma triple_exists:
  "(\<And>fs. P fs \<Longrightarrow> E fs) \<Longrightarrow> (\<And>fs. P fs \<Longrightarrow> Q (map_of fs p \<noteq> None) fs) \<Longrightarrow> triple P (fileExists p) Q E"
  unfolding fileExists_def by (rule triple_ask)

lemma triple_remove:
  "(\<And>fs. P fs \<Longrightarrow> E fs) \<Longrightarrow> (\<And>fs. P fs \<Longrightarrow> Q () (AList.delete p fs)) \<Longrightarrow> triple P (remove_file p) Q E"
  unfolding remove_file_def by (rule triple_sys)

lemma triple_sync: "(\<And>fs. P fs \<Longrightarrow> E fs) \<Longrightarrow> (\<And>fs. P fs \<Longrightarrow> Q () fs) \<Longrightarrow> triple P syncDir Q E"
  unfolding syncDir_def by (rule triple_sys)

lemma triple_rename:
  assumes "\<And>fs. P fs \<Longrightarrow> E fs"
    and "\<And>fs x. P fs \<Longrightarrow> map_of fs a = Some x \<Longrightarrow> Q () (AList.update b x (AList.delete a fs))"
  shows "triple P (rename_file a b) Q E"
  using assms unfolding triple_def rename_file_def sys_def fail_with_def
  by (fastforce split: option.splits list.splits sys_outcome.splits)

lemma triple_move:
  assumes "\<And>fs. P fs \<Longrightarrow> E fs" and "\<And>fs. P fs \<Longrightarrow> map_of fs a = None \<Longrightarrow> Q () fs"
    and "\<And>fs x. P fs \<Longrightarrow> map_of fs a = Some x \<Longrightarrow> Q () (AList.update b x (AList.delete a fs))"
  shows "triple P (move_if_there a b) Q E"
  unfolding move_if_there_def
  by (rule triple_and_then [OF triple_exists [where Q = "\<lambda>b fs. P fs \<and> b = (map_of fs a \<noteq> None)"]])
    (use assms in \<open>auto intro!: triple_ret triple_rename\<close>)

lemma triple_for_each:
  "(\<And>x. x \<in> set xs \<Longrightarrow> triple I (f x) (\<lambda>_. I) E) \<Longrightarrow> triple I (for_each xs f) (\<lambda>_. I) E"
proof (induction xs)
  case (Cons x xs)
  then show ?case by (auto intro!: triple_and_then)
qed (auto intro: triple_ret)

lemma triple_succeeds:
  "triple P m Q E \<Longrightarrow> triple P (succeeds m) (\<lambda>b fs. if b then Q () fs else E fs) E"
  unfolding triple_def succeeds_def by (fastforce split: prod.splits run.splits if_splits)

text \<open>The checks look and do not touch.\<close>

lemma triple_check_view:
  "(\<And>fs. P fs \<Longrightarrow> E fs) \<Longrightarrow> triple P (check_view check p) (\<lambda>_. P) E"
  unfolding triple_def check_view_def by (auto split: option.splits prod.splits)

lemma check_loop_ok: "snd (quick_check_loop (Some e) n (check_op h) outs) = None \<Longrightarrow> h"
  by (induction n arbitrary: outs)
     (auto simp: quick_check_loop.simps [of _ 0] quick_check_loop.simps [of _ "Suc _"] check_op_def
        split: prod.splits option.splits if_splits)

lemma check_loop_missing:
  "snd (quick_check_loop (Some e) n (\<lambda>outs. (outs, Inl SqliteCantOpen)) outs) \<noteq> None"
  by (induction n arbitrary: outs)
     (auto simp: quick_check_loop.simps [of _ 0] quick_check_loop.simps [of _ "Suc _"] isMalformed_def)

lemma check_strict_ok:
  "check_view quickCheckStrict p s = (s', Ret None) \<Longrightarrow> \<exists>m. view (r_files s) p = Some m \<and> im_ok m"
proof (cases "view (r_files s) p")
  case None
  moreover assume "check_view quickCheckStrict p s = (s', Ret None)"
  ultimately show ?thesis
    using check_loop_missing [of _ 2 "r_checks s"] by (simp add: check_view_def quickCheckStrict_def)
next
  case (Some m)
  assume "check_view quickCheckStrict p s = (s', Ret None)"
  with Some have "snd (quick_check_loop (Some SessionCorrupt) 2 (check_op (im_ok m)) (r_checks s)) = None"
    by (simp add: check_view_def quickCheckStrict_def split: prod.splits)
  with Some check_loop_ok show ?thesis by blast
qed

lemma check_view_files: "check_view check p s = (s', r) \<Longrightarrow> r_files s' = r_files s \<and> (\<exists>x. r = Ret x)"
  unfolding check_view_def by (auto split: option.splits prod.splits)

lemma triple_check_strict:
  "triple P (check_view quickCheckStrict p)
     (\<lambda>r fs. P fs \<and> (r = None \<longrightarrow> (\<exists>m. view fs p = Some m \<and> im_ok m))) E"
  unfolding triple_def using check_view_files check_strict_ok by (fastforce split: run.splits)

lemma triple_healthy:
  assumes "\<And>fs. P fs \<Longrightarrow> E fs"
  shows "triple P (checkRescuedHealth p)
    (\<lambda>_ fs. P fs \<and> (\<exists>m. view fs p = Some m \<and> im_ok m \<and> user_version (im_db m) = 1)) E"
  unfolding checkRescuedHealth_def
proof (rule triple_and_then [OF triple_check_strict], split option.split, intro conjI impI allI)
  show "triple (\<lambda>fs. P fs \<and> (r = None \<longrightarrow> (\<exists>m. view fs p = Some m \<and> im_ok m)))
      (and_then (ask (\<lambda>fs. map_option (\<lambda>m. user_version (im_db m)) (view fs p)))
        (\<lambda>v. if v = Some 1 then ret () else fail_with (ErrOther ''user_version'')))
      (\<lambda>_ fs. P fs \<and> (\<exists>m. view fs p = Some m \<and> im_ok m \<and> user_version (im_db m) = 1)) E"
    if "r = None" for r
    using that assms
    by (intro triple_and_then [OF triple_ask [where Q = "\<lambda>v fs. P fs \<and>
        (\<exists>m. view fs p = Some m \<and> im_ok m) \<and> v = map_option (\<lambda>m. user_version (im_db m)) (view fs p)"]])
       (auto intro!: triple_ret triple_fail)
qed (auto intro: triple_fail assms)

section \<open>No database file is lost\<close>

text \<open>\<open>x\<close> is the content of the main database file or of the main file of a backup.\<close>

definition is_main :: "bytes \<Rightarrow> bool" where
  "is_main n \<longleftrightarrow> n = dbFileName \<or> is_backup_main n"

definition kept :: "rfile \<Rightarrow> files \<Rightarrow> bool" where
  "kept x fs \<longleftrightarrow> (\<exists>q. is_main q \<and> map_of fs q = Some x)"

lemma sidecar_not_main: "is_sidecar n \<Longrightarrow> \<not> is_main n"
  by (auto simp: is_main_def is_backup_main_def is_sidecar_def file_names suffix_def)

lemma sidecar_append [simp]: "is_sidecar (n @ ''-wal'')" "is_sidecar (n @ ''-shm'')"
  by (simp_all add: is_sidecar_def suffix_def)

lemma not_main [simp]:
  "\<not> is_main recoverTmpName" "\<not> is_main (wal_of p)" "\<not> is_main (shm_of p)" "\<not> is_main recoverMarkerName"
  "\<not> is_main (p @ ''-wal'')" "\<not> is_main (p @ ''-shm'')"
  by (simp_all add: sidecar_not_main wal_of_def shm_of_def)
     (simp_all add: is_main_def is_backup_main_def file_names)

lemma is_main_simps [simp]: "is_main dbFileName" "is_backup_main n \<Longrightarrow> is_main n"
  by (simp_all add: is_main_def)

lemma kept_delete: "kept x fs \<Longrightarrow> \<not> is_main p \<Longrightarrow> kept x (AList.delete p fs)"
  unfolding kept_def by (metis delete_conv fun_upd_other)

lemma kept_update: "kept x fs \<Longrightarrow> \<not> is_main p \<Longrightarrow> kept x (AList.update p y fs)"
  unfolding kept_def by (metis update_conv fun_upd_other)

lemma kept_rename:
  assumes "kept x fs" and "map_of fs a = Some y" and "is_main a \<longrightarrow> is_main b"
    and "is_main b \<longrightarrow> map_of fs b = None"
  shows "kept x (AList.update b y (AList.delete a fs))"
proof -
  from assms(1) obtain q where q: "is_main q" "map_of fs q = Some x" by (auto simp: kept_def)
  have "q \<noteq> b" using q assms(4) by auto
  then have "map_of (AList.update b y (AList.delete a fs)) (if q = a then b else q) = Some x"
    using q assms(2) by (auto simp: update_conv delete_conv)
  moreover have "is_main (if q = a then b else q)" using q assms(3) by auto
  ultimately show ?thesis unfolding kept_def by blast
qed

lemmas kept_rules = kept_delete kept_update kept_rename

lemma backup_keeps:
  assumes "is_backup_main (bakPrefix @ ts)"
  shows "triple (\<lambda>fs. kept x fs \<and> map_of fs (bakPrefix @ ts) = None) (backupOriginal ts)
    (\<lambda>_ fs. kept x fs \<and> map_of fs dbFileName = None) (kept x)"
proof -
  let ?P = "\<lambda>fs. kept x fs \<and> map_of fs (bakPrefix @ ts) = None"
  have ne: "bakPrefix @ ts \<noteq> dbFileName" by (simp add: file_names)
  have side: "triple ?P (move_if_there (dbFileName @ suf) ((bakPrefix @ ts) @ suf)) (\<lambda>_. ?P) (kept x)"
    if "is_sidecar ((bakPrefix @ ts) @ suf)" "\<not> is_main (dbFileName @ suf)" "suf \<noteq> []" for suf
    using that sidecar_not_main [OF that(1)]
    by (intro triple_move) (auto simp: update_conv delete_conv intro!: kept_rename)
  have main: "triple ?P (move_if_there (dbFileName @ []) ((bakPrefix @ ts) @ []))
      (\<lambda>_ fs. kept x fs \<and> map_of fs dbFileName = None) (kept x)"
    using assms ne by (intro triple_move) (auto simp: update_conv delete_conv intro!: kept_rename)
  show ?thesis
    unfolding backupOriginal_def Let_def for_each.simps
    by (intro triple_and_then [OF side] triple_and_then [OF main] triple_ret
        triple_and_then [where Q = "\<lambda>_ fs. kept x fs \<and> map_of fs dbFileName = None"])
       (auto simp del: append_assoc)
qed

lemma triple_latest:
  "(\<And>fs. P fs \<Longrightarrow> E fs) \<Longrightarrow> triple P latestBackupMain (\<lambda>found fs. P fs \<and>
     found = (let l = latest_name (filter is_backup_main (map fst fs)) in if l = [] then None else Some l)) E"
  unfolding latestBackupMain_def by (rule triple_ask) auto

lemma latest_name_in: "latest_name ns = [] \<or> latest_name ns \<in> set ns"
proof -
  have "fold (\<lambda>n latest. if latest < n then n else latest) ns l = l
      \<or> fold (\<lambda>n latest. if latest < n then n else latest) ns l \<in> set ns" for l
  proof (induction ns arbitrary: l)
    case (Cons a ns)
    then show ?case using Cons [of a] Cons [of l] by auto
  qed simp
  then show ?thesis unfolding latest_name_def by blast
qed

lemma latest_is_backup:
  "Some n = (let l = latest_name (filter is_backup_main (map fst fs)) in if l = [] then None else Some l) \<Longrightarrow>
     is_backup_main n \<and> map_of fs n \<noteq> None"
  using latest_name_in [of "filter is_backup_main (map fst fs)"]
  by (auto simp: Let_def map_of_eq_None_iff split: if_splits)

lemma restore_keeps:
  "triple (\<lambda>fs. kept x fs \<and> map_of fs (bakPrefix @ ts) = None \<and> map_of fs dbFileName = None) restoreLatestBackup
     (\<lambda>_ fs. kept x fs \<and> map_of fs (bakPrefix @ ts) = None) (kept x)"
proof -
  let ?P = "\<lambda>fs. kept x fs \<and> map_of fs (bakPrefix @ ts) = None \<and> map_of fs dbFileName = None"
  let ?Q = "\<lambda>fs. kept x fs \<and> map_of fs (bakPrefix @ ts) = None"
  have ne: "bakPrefix @ ts \<noteq> dbFileName @ suf" if "suf \<in> {''-wal'', ''-shm'', []}" for suf
    using that by (auto simp: file_names)
  have side: "triple ?P (move_if_there (n @ suf) (dbFileName @ suf)) (\<lambda>_. ?P) (kept x)"
    if "is_sidecar (n @ suf)" "is_sidecar (dbFileName @ suf)" "suf \<in> {''-wal'', ''-shm''}" for n suf
    using that that(1,2) [THEN sidecar_not_main] ne [of suf]
    by (intro triple_move) (auto simp: update_conv delete_conv intro!: kept_rename)
  have main: "triple ?P (move_if_there (n @ []) (dbFileName @ [])) (\<lambda>_. ?Q) (kept x)" for n
    using ne [of "[]"] by (intro triple_move) (auto simp: update_conv delete_conv intro!: kept_rename)
  have all: "triple ?P (for_each [''-wal'', ''-shm'', []] (\<lambda>suffix. move_if_there (n @ suffix) (dbFileName @ suffix)))
      (\<lambda>_. ?Q) (kept x)" for n
    unfolding for_each.simps
    by (intro triple_and_then [OF side] triple_and_then [OF main] triple_ret) auto
  show ?thesis
    unfolding restoreLatestBackup_def
    by (rule triple_and_then [OF triple_weaken [OF triple_latest [of ?P "kept x"], of ?P "\<lambda>_. ?P"]])
       (auto split: option.split intro!: triple_fail all simp del: for_each.simps)
qed

lemma bak_stamp_sidecar: "bak_stamp n \<noteq> None \<Longrightarrow> is_sidecar n"
  by (auto simp: bak_stamp_def is_sidecar_def split: if_splits)

lemma orphans_are_sidecars: "n \<in> set (orphan_sidecars fs) \<Longrightarrow> is_sidecar n"
  using bak_stamp_sidecar by (auto simp: orphan_sidecars_def Let_def split: option.splits)

lemma finish_keeps:
  "triple (\<lambda>fs. kept x fs \<and> map_of fs dbFileName = None) finishPublish (\<lambda>_. kept x) (kept x)"
proof -
  have sweep: "triple (kept x) sweepOrphanBackups (\<lambda>_. kept x) (kept x)"
    unfolding sweepOrphanBackups_def
  proof (rule triple_and_then [OF triple_ask [where Q = "\<lambda>names fs. kept x fs \<and> (\<forall>n \<in> set names. is_sidecar n)"]])
    fix names
    show "triple (\<lambda>fs. kept x fs \<and> (\<forall>n \<in> set names. is_sidecar n)) (for_each names remove_file) (\<lambda>_. kept x) (kept x)"
    proof (cases "\<forall>n \<in> set names. is_sidecar n")
      case True
      with triple_for_each [of names "kept x" remove_file "kept x"] show ?thesis
        by (auto intro!: triple_remove kept_delete dest: sidecar_not_main)
    qed (auto intro: triple_false)
  qed (use orphans_are_sidecars in auto)
  show ?thesis
    unfolding finishPublish_def
    by (intro triple_and_then [OF triple_rename [where Q = "\<lambda>_. kept x"]] triple_and_then [OF sweep] triple_sync)
       (auto intro!: kept_rename)
qed

text \<open>The rescue touches the copy only.\<close>

definition tmp_family :: "bytes set" where
  "tmp_family = {recoverTmpName, wal_of recoverTmpName, shm_of recoverTmpName}"

definition ignores_tmp :: "(files \<Rightarrow> bool) \<Rightarrow> bool" where
  "ignores_tmp P \<longleftrightarrow> (\<forall>fs fs'. (\<forall>p. p \<notin> tmp_family \<longrightarrow> map_of fs' p = map_of fs p) \<longrightarrow> P fs \<longrightarrow> P fs')"

lemma ignores_tmpD: "ignores_tmp P \<Longrightarrow> P fs \<Longrightarrow> \<forall>p. p \<notin> tmp_family \<longrightarrow> map_of fs' p = map_of fs p \<Longrightarrow> P fs'"
  unfolding ignores_tmp_def by blast

lemma tmp_in_family [simp]:
  "recoverTmpName \<in> tmp_family" "wal_of recoverTmpName \<in> tmp_family" "shm_of recoverTmpName \<in> tmp_family"
  by (simp_all add: tmp_family_def)

lemma tmp_maps:
  assumes "p \<notin> tmp_family"
  shows "map_of (open_tmp d fs) p = map_of fs p" "map_of (closed_tmp m fs) p = map_of fs p"
    "map_of (checkpoint_tmp fs) p = map_of fs p"
    "q \<in> tmp_family \<Longrightarrow> map_of (AList.delete q fs) p = map_of fs p"
proof -
  have "p \<noteq> recoverTmpName" "p \<noteq> wal_of recoverTmpName" "p \<noteq> shm_of recoverTmpName"
    using assms by (auto simp: tmp_family_def)
  then show o: "map_of (open_tmp d fs) p = map_of fs p" and c: "map_of (closed_tmp m fs) p = map_of fs p" for m
    by (simp_all add: open_tmp_def closed_tmp_def update_conv delete_conv)
  show "map_of (checkpoint_tmp fs) p = map_of fs p"
    by (simp add: checkpoint_tmp_def c split: option.split)
  show "q \<in> tmp_family \<Longrightarrow> map_of (AList.delete q fs) p = map_of fs p"
    using assms by (auto simp: delete_conv)
qed

lemma tmp_steps:
  assumes "ignores_tmp P" and "P fs"
  shows "P (open_tmp d fs)" "P (closed_tmp m fs)" "P (checkpoint_tmp fs)"
    "p \<in> tmp_family \<Longrightarrow> P (AList.delete p fs)"
  by (rule ignores_tmpD [OF assms], simp add: tmp_maps)+

lemma kept_ignores_tmp: "ignores_tmp (kept x)"
proof -
  have "p \<notin> tmp_family" if "is_main p" for p
    using that by (auto simp: tmp_family_def)
  then show ?thesis unfolding ignores_tmp_def kept_def by metis
qed

text \<open>What a successful rescue has copied.\<close>

definition copies :: "session_db \<Rightarrow> nat \<Rightarrow> nat \<Rightarrow> session_db \<Rightarrow> bool" where
  "copies src ne ns d \<longleftrightarrow>
     ns \<le> length (sessions src) \<and> sessions d = take ns (sessions src)
     \<and> ne \<le> length (events src) \<and> events d = take ne (events src)
     \<and> ev_porter d = map ev_fts (events d) \<and> ev_trigram d = map ev_fts (events d) \<and> user_version d = 1"

definition row_order :: "session_db \<Rightarrow> bool" where
  "row_order src \<longleftrightarrow> sorted_wrt (<) (map v_id (events src)) \<and> (\<forall>e \<in> set (events src). 0 < v_id e)"

lemma rescue_copies:
  assumes "row_order src"
    and "rescueSessions souts src (fresh_session_db\<lparr>user_version := 1\<rparr>) = (souts', d1, ns, fs)"
    and "rescueSessionEvents eouts src d1 = (eouts', d2, ne, fe)"
  shows "copies src ne ns d2"
  using rescue_sessions_spec [OF assms(2)]
    rescue_events_spec [OF assms(1) [unfolded row_order_def, THEN conjunct1]
      assms(1) [unfolded row_order_def, THEN conjunct2] assms(3)]
  by (simp add: copies_def fresh_session_db_def)

lemma family_distinct [simp]:
  "wal_of p \<noteq> p" "shm_of p \<noteq> p" "p \<noteq> wal_of p" "p \<noteq> shm_of p" "wal_of p \<noteq> shm_of p" "shm_of p \<noteq> wal_of p"
  by (simp_all add: wal_of_def shm_of_def)

lemma view_tmp [simp]:
  "view (open_tmp d fs) recoverTmpName = Some \<lparr>im_db = d, im_ok = True\<rparr>"
  "view (closed_tmp m fs) recoverTmpName = Some m"
  by (simp_all add: view_def open_tmp_def closed_tmp_def update_conv delete_conv)

lemma db_not_tmp [simp]: "dbFileName \<notin> tmp_family" "wal_of dbFileName \<notin> tmp_family"
  by (simp_all add: tmp_family_def file_names)

lemma view_ignores_tmp: "ignores_tmp (\<lambda>fs. view fs dbFileName = v)"
  unfolding ignores_tmp_def
proof (intro allI impI)
  fix fs fs'
  assume eq: "\<forall>p. p \<notin> tmp_family \<longrightarrow> map_of fs' p = map_of fs p" and "view fs dbFileName = v"
  moreover from eq have "map_of fs' dbFileName = map_of fs dbFileName"
      "map_of fs' (wal_of dbFileName) = map_of fs (wal_of dbFileName)" by simp_all
  ultimately show "view fs' dbFileName = v" by (simp only: view_def)
qed

lemma ignores_conj: "ignores_tmp P \<Longrightarrow> ignores_tmp Q \<Longrightarrow> ignores_tmp (\<lambda>fs. P fs \<and> Q fs)"
  unfolding ignores_tmp_def by blast

lemma triple_close_tmp:
  assumes "ignores_tmp P"
  shows "triple (\<lambda>fs. P fs \<and> view fs recoverTmpName = Some \<lparr>im_db = d, im_ok = True\<rparr>) (close_tmp d r)
    (\<lambda>x fs. P fs \<and> r = Ret x \<and> view fs recoverTmpName = Some \<lparr>im_db = d, im_ok = True\<rparr>) P"
  using tmp_steps [OF assms]
  by (auto simp: triple_def close_tmp_def sys_def split: list.splits sys_outcome.splits run.splits)

lemma triple_fail_close: "ignores_tmp P \<Longrightarrow> triple P (close_tmp d (Fail e)) Q P"
  using tmp_steps
  by (auto simp: triple_def close_tmp_def sys_def split: list.splits sys_outcome.splits run.splits)

lemma triple_run_rescue:
  assumes "ignores_tmp P"
  shows "triple P (run_rescue rescue src dst)
    (\<lambda>(d, n) fs. P fs \<and> view fs recoverTmpName = Some \<lparr>im_db = d, im_ok = True\<rparr>
       \<and> (\<exists>outs outs'. rescue outs src dst = (outs', d, n, RescueDone))) P"
  unfolding triple_def
proof (intro allI impI)
  fix s s' r
  assume P: "P (r_files s)" and run: "run_rescue rescue src dst s = (s', r)"
  obtain outs d n fin where res: "rescue (r_reads s) src dst = (outs, d, n, fin)" by (metis prod_cases4)
  let ?s = "s\<lparr>r_reads := outs, r_files := open_tmp d (r_files s)\<rparr>"
  have P': "P (r_files ?s)" using tmp_steps(1) [OF assms P] by simp
  show "case r of Ret x \<Rightarrow> (case x of (d, n) \<Rightarrow> \<lambda>fs. P fs \<and> view fs recoverTmpName = Some \<lparr>im_db = d, im_ok = True\<rparr>
       \<and> (\<exists>outs outs'. rescue outs src dst = (outs', d, n, RescueDone))) (r_files s')
     | _ \<Rightarrow> P (r_files s')"
  proof (cases fin)
    case RescueDone
    with run res P' show ?thesis by (auto simp: run_rescue_def) blast
  next
    case (RescueFailed e)
    with run res have "close_tmp d (Fail e) ?s = (s', r)" by (simp add: run_rescue_def)
    with triple_fail_close [OF assms, of d e "\<lambda>_ _. False"] P' show ?thesis
      unfolding triple_def by (fastforce split: run.splits)
  next
    case RescueKilled
    with run res P' show ?thesis by (auto simp: run_rescue_def)
  qed
qed

lemma triple_case_view:
  assumes "triple (\<lambda>fs. P fs \<and> view fs p = None) A Q E"
    and "\<And>m. triple (\<lambda>fs. P fs \<and> view fs p = Some m) (B m) Q E"
  shows "triple P (\<lambda>s. case view (r_files s) p of None \<Rightarrow> A s | Some m \<Rightarrow> B m s) Q E"
  using assms unfolding triple_def by (fastforce split: option.splits)

lemma triple_schema:
  assumes "ignores_tmp P"
  shows "triple P applyTmpSchema (\<lambda>_. P) P"
  unfolding triple_def
proof (intro allI impI)
  fix s s' r
  assume P: "P (r_files s)" and run: "applyTmpSchema s = (s', r)"
  obtain s1 r1 where first: "sys (open_tmp (fresh_session_db\<lparr>user_version := 1\<rparr>)) s = (s1, r1)" by fastforce
  with P have P1: "P (r_files s1)"
    using tmp_steps(1) [OF assms P] by (auto simp: sys_def split: list.splits sys_outcome.splits)
  show "case r of Ret x \<Rightarrow> (\<lambda>_. P) x (r_files s') | _ \<Rightarrow> P (r_files s')"
  proof (cases r1)
    case (Fail e)
    with run first have "close_tmp fresh_session_db (Fail e) s1 = (s', r)" by (simp add: applyTmpSchema_def)
    with triple_fail_close [OF assms, of fresh_session_db e "\<lambda>_. P"] P1 show ?thesis
      unfolding triple_def by blast
  qed (use run first P1 in \<open>auto simp: applyTmpSchema_def\<close>)
qed

lemma triple_copy_tables:
  assumes "ignores_tmp P"
  shows "triple P
      (and_then (run_rescue rescueSessions src (fresh_session_db\<lparr>user_version := 1\<rparr>)) (\<lambda>(d1, ns).
       and_then (run_rescue rescueSessionEvents src d1) (\<lambda>(d2, ne).
         close_tmp d2 (Ret (ne, ns)))))
    (\<lambda>(ne, ns) fs. P fs \<and> (\<exists>d. view fs recoverTmpName = Some \<lparr>im_db = d, im_ok = True\<rparr>
       \<and> (row_order src \<longrightarrow> copies src ne ns d))) P" (is "triple P _ ?Q P")
proof (rule triple_and_then [OF triple_run_rescue [OF assms]], clarify)
  fix d1 ns
  let ?S = "\<exists>outs outs'. rescueSessions outs src (fresh_session_db\<lparr>user_version := 1\<rparr>) = (outs', d1, ns, RescueDone)"
  have PS: "ignores_tmp (\<lambda>fs. P fs \<and> ?S)" using assms unfolding ignores_tmp_def by blast
  have last: "triple (\<lambda>fs. (P fs \<and> ?S) \<and> view fs recoverTmpName = Some \<lparr>im_db = d2, im_ok = True\<rparr>
        \<and> (\<exists>outs outs'. rescueSessionEvents outs src d1 = (outs', d2, ne, RescueDone)))
      (close_tmp d2 (Ret (ne, ns))) ?Q P" for d2 ne
  proof (cases "?S \<and> (\<exists>outs outs'. rescueSessionEvents outs src d1 = (outs', d2, ne, RescueDone))")
    case True
    then have "row_order src \<longrightarrow> copies src ne ns d2" using rescue_copies by blast
    then show ?thesis
      by (intro triple_weaken [OF triple_close_tmp [OF assms, of d2 "Ret (ne, ns)"]]) auto
  next
    case False
    then show ?thesis by (intro triple_false) blast
  qed
  show "triple (\<lambda>fs. P fs \<and> view fs recoverTmpName = Some \<lparr>im_db = d1, im_ok = True\<rparr> \<and> ?S)
      (and_then (run_rescue rescueSessionEvents src d1) (\<lambda>(d2, ne). close_tmp d2 (Ret (ne, ns)))) ?Q P"
    by (rule triple_and_then [where Q = "\<lambda>(d2, ne) fs. (P fs \<and> ?S)
          \<and> view fs recoverTmpName = Some \<lparr>im_db = d2, im_ok = True\<rparr>
          \<and> (\<exists>outs outs'. rescueSessionEvents outs src d1 = (outs', d2, ne, RescueDone))"],
        rule triple_weaken [OF triple_run_rescue [OF PS]])
       (use last in auto)
qed

lemma triple_rescueAll:
  assumes "ignores_tmp P"
  shows "triple (\<lambda>fs. P fs \<and> view fs dbFileName = v) rescueAll
    (\<lambda>(ne, ns) fs. P fs \<and> (\<exists>d. view fs recoverTmpName = Some \<lparr>im_db = d, im_ok = True\<rparr>
       \<and> (\<forall>m. v = Some m \<longrightarrow> row_order (im_db m) \<longrightarrow> copies (im_db m) ne ns d))) P"
proof -
  let ?P = "\<lambda>fs. P fs \<and> view fs dbFileName = v"
  have P: "ignores_tmp ?P" by (rule ignores_conj [OF assms view_ignores_tmp])
  have remove: "triple ?P (removeDBFamily recoverTmpName) (\<lambda>_. ?P) P"
    unfolding removeDBFamily_def
  proof (rule triple_for_each)
    fix p
    assume "p \<in> set [recoverTmpName, wal_of recoverTmpName, shm_of recoverTmpName]"
    then have "p \<in> tmp_family" by (simp add: tmp_family_def)
    then show "triple ?P (remove_file p) (\<lambda>_. ?P) P"
      using tmp_steps(4) [OF P] by (intro triple_remove) blast+
  qed
  have schema: "triple ?P applyTmpSchema (\<lambda>_. ?P) P"
    by (rule triple_weaken [OF triple_schema [OF P]]) auto
  show ?thesis
    unfolding rescueAll_def
  proof (intro triple_and_then [OF remove] triple_and_then [OF schema] triple_case_view, goal_cases)
    case (1 u)
    show ?case by (rule triple_weaken [OF triple_fail_close [OF assms]]) auto
  next
    case (2 u u' m)
    show ?case
    proof (cases "v = Some m")
      case True
      then show ?thesis by (intro triple_weaken [OF triple_copy_tables [OF P, of "im_db m"]]) auto
    qed (auto intro: triple_false)
  qed
qed

definition lone_tmp :: "image \<Rightarrow> files \<Rightarrow> bool" where
  "lone_tmp im fs \<longleftrightarrow> map_of fs recoverTmpName = Some (DbFile im)
     \<and> map_of fs (wal_of recoverTmpName) = None \<and> map_of fs (shm_of recoverTmpName) = None"

lemma lone_tmp_closed: "lone_tmp im (closed_tmp im fs)"
  by (simp add: lone_tmp_def closed_tmp_def update_conv delete_conv)

lemma lone_tmp_view: "lone_tmp im fs \<Longrightarrow> view fs recoverTmpName = Some im"
  by (simp add: lone_tmp_def view_def)

lemma lone_tmp_delete:
  "lone_tmp im fs \<Longrightarrow> lone_tmp im (AList.delete (wal_of recoverTmpName) fs)"
  "lone_tmp im fs \<Longrightarrow> lone_tmp im (AList.delete (shm_of recoverTmpName) fs)"
  by (simp_all add: lone_tmp_def delete_conv)

lemma triple_verify:
  assumes "ignores_tmp P"
  shows "triple (\<lambda>fs. P fs \<and> view fs recoverTmpName = Some im) verifyRescued
    (\<lambda>_ fs. P fs \<and> lone_tmp im fs \<and> im_ok im \<and> user_version (im_db im) = 1) P"
proof -
  let ?R = "\<lambda>fs. P fs \<and> lone_tmp im fs"
  have checkpoint: "triple (\<lambda>fs. P fs \<and> view fs recoverTmpName = Some im) (sys checkpoint_tmp) (\<lambda>_. ?R) P"
    using tmp_steps(2) [OF assms] by (intro triple_sys) (auto simp: checkpoint_tmp_def lone_tmp_closed)
  have wal: "triple ?R (remove_file (wal_of recoverTmpName)) (\<lambda>_. ?R) P"
    and shm: "triple ?R (remove_file (shm_of recoverTmpName)) (\<lambda>_. ?R) P"
    by (intro triple_remove; simp add: lone_tmp_delete tmp_steps(4) [OF assms])+
  have health: "triple ?R (checkRescuedHealth recoverTmpName)
      (\<lambda>_ fs. ?R fs \<and> im_ok im \<and> user_version (im_db im) = 1) P"
    by (rule triple_weaken [OF triple_healthy [of ?R P]]) (auto simp: lone_tmp_view)
  show ?thesis
    unfolding verifyRescued_def
    by (intro triple_and_then [OF checkpoint] triple_and_then [OF wal] triple_and_then [OF shm]
        triple_and_then [OF health] triple_sync) auto
qed

text \<open>The steps that only look.\<close>

lemma triple_look:
  assumes "\<And>fs. P fs \<Longrightarrow> E fs"
  shows "triple P (fileExists p) (\<lambda>_. P) E" "triple P (check_view check p) (\<lambda>_. P) E"
    "triple P latestBackupMain (\<lambda>_. P) E" "triple P syncDir (\<lambda>_. P) E"
    "triple P (ask f) (\<lambda>_. P) E"
  using assms
  by (auto intro!: triple_exists triple_check_view triple_sync triple_ask
      triple_weaken [OF triple_latest [of P E], of P "\<lambda>_. P" E])

lemma triple_probes:
  assumes "\<And>fs. P fs \<Longrightarrow> E fs"
  shows "triple P probeCorrupt (\<lambda>_. P) E" and "triple P probeHealthyStrict (\<lambda>_. P) E"
    and "triple P publishAlreadyComplete (\<lambda>_. P) E"
proof -
  note look = triple_look [of P E, OF assms]
  show "triple P probeCorrupt (\<lambda>_. P) E"
    unfolding probeCorrupt_def
    by (rule triple_and_then [OF look(1)])
       (auto intro!: triple_ret triple_and_then [OF look(2)] triple_fail assms split: option.split)
  show strict: "triple P probeHealthyStrict (\<lambda>_. P) E"
    unfolding probeHealthyStrict_def
    by (rule triple_and_then [OF look(2)]) (auto intro!: triple_ret triple_fail assms split: option.split)
  show "triple P publishAlreadyComplete (\<lambda>_. P) E"
    unfolding publishAlreadyComplete_def
    by (rule triple_and_then [OF look(1)])
       (auto intro!: triple_ret triple_and_then [OF strict] triple_and_then [OF look(3)])
qed

lemma triple_if_there:
  assumes "\<And>fs. P fs \<Longrightarrow> E fs"
    and "triple (\<lambda>fs. P fs \<and> (\<exists>y. map_of fs p = Some y)) A Q E"
    and "triple (\<lambda>fs. P fs \<and> map_of fs p = None) B Q E"
  shows "triple P (and_then (fileExists p) (\<lambda>there. if there then A else B)) Q E"
    and "triple P (and_then (fileExists p) (\<lambda>there. if \<not> there then B else A)) Q E"
proof -
  have "triple (\<lambda>fs. P fs \<and> t = (map_of fs p \<noteq> None)) (if t then A else B) Q E" for t
    using assms(2,3) by (cases t) (simp_all add: not_None_eq [symmetric] del: not_None_eq)
  then show "triple P (and_then (fileExists p) (\<lambda>there. if there then A else B)) Q E"
    by (intro triple_and_then [OF triple_exists [where Q = "\<lambda>t fs. P fs \<and> t = (map_of fs p \<noteq> None)"]])
       (auto intro: assms(1))
  moreover have "(\<lambda>there. if \<not> there then B else A) = (\<lambda>there. if there then A else B)" by auto
  ultimately show "triple P (and_then (fileExists p) (\<lambda>there. if \<not> there then B else A)) Q E" by simp
qed

lemma triple_tmpIsHealthy:
  assumes PE: "\<And>fs. P fs \<Longrightarrow> E fs"
  shows "triple P tmpIsHealthy (\<lambda>b fs. P fs \<and>
     (b \<longrightarrow> (\<exists>im. lone_tmp im fs \<and> im_ok im \<and> user_version (im_db im) = 1))) E"
proof -
  let ?L = "\<lambda>fs. ((P fs \<and> (\<exists>y. map_of fs recoverTmpName = Some y)) \<and> map_of fs (wal_of recoverTmpName) = None)
    \<and> map_of fs (shm_of recoverTmpName) = None"
  let ?Q = "\<lambda>b fs. P fs \<and> (b \<longrightarrow> (\<exists>im. lone_tmp im fs \<and> im_ok im \<and> user_version (im_db im) = 1))"
  have lone: "\<exists>im. lone_tmp im fs \<and> im_ok im \<and> user_version (im_db im) = 1"
    if "?L fs" "view fs recoverTmpName = Some m" "im_ok m" "user_version (im_db m) = 1" for fs m
    using that by (auto simp: view_def lone_tmp_def split: option.splits rfile.splits)
  have health: "triple ?L (checkRescuedHealth recoverTmpName) (\<lambda>_. ?Q True) P"
    by (rule triple_weaken [OF triple_healthy [where P = ?L and E = P]]) (use lone in blast)+
  have last: "triple ?L (succeeds (checkRescuedHealth recoverTmpName)) ?Q E"
    by (rule triple_weaken [OF triple_succeeds [OF health]]) (auto split: if_splits intro: PE)
  show ?thesis
    unfolding tmpIsHealthy_def
    by (intro triple_if_there triple_ret last) (auto intro: PE)
qed

text \<open>A property of \<open>Recover\<close> is a property of its four ways on.\<close>

definition marked :: "files \<Rightarrow> bool" where
  "marked fs \<longleftrightarrow> map_of fs recoverMarkerName \<noteq> None"

definition finished :: "nat \<Rightarrow> nat \<Rightarrow> bytes \<Rightarrow> recover_result" where
  "finished ne ns name = no_result\<lparr>RecoveredEvents := ne, RecoveredSessions := ns, BackupPrefix := name\<rparr>"

lemma triple_Recover:
  assumes PE: "\<And>fs. P fs \<Longrightarrow> E fs"
    and noop: "\<And>fs. P fs \<Longrightarrow> \<not> marked fs \<Longrightarrow> Q (no_result\<lparr>NoOp := True\<rparr>) fs"
    and begin_new: "triple (\<lambda>fs. P fs \<and> \<not> marked fs)
      (and_then createMarker (\<lambda>_. rescue_and_publish ts)) Q E"
    and resume: "\<And>im. im_ok im \<Longrightarrow> user_version (im_db im) = 1 \<Longrightarrow> triple (\<lambda>fs. (P fs \<and> marked fs) \<and> lone_tmp im fs)
      (and_then (resumePublishFromTmp ts) (\<lambda>(ne, ns, name).
         and_then (remove_file recoverMarkerName) (\<lambda>_. ret (finished ne ns name)))) Q E"
    and marker: "triple (\<lambda>fs. P fs \<and> marked fs)
      (and_then (remove_file recoverMarkerName) (\<lambda>_. ret (no_result\<lparr>MarkerOnly := True\<rparr>))) Q E"
    and again: "triple (\<lambda>fs. P fs \<and> marked fs) (and_then (fileExists dbFileName) (\<lambda>there.
        and_then (if \<not> there then restoreLatestBackup else ret ()) (\<lambda>_. rescue_and_publish ts))) Q E"
  shows "triple P (Recover held ts) Q E"
proof -
  let ?M = "\<lambda>fs. P fs \<and> marked fs"
  let ?resume = "and_then (resumePublishFromTmp ts) (\<lambda>(ne, ns, name).
         and_then (remove_file recoverMarkerName) (\<lambda>_. ret (finished ne ns name)))"
  have looked: "triple (\<lambda>fs. ?M fs \<and> (\<exists>im. lone_tmp im fs \<and> im_ok im \<and> user_version (im_db im) = 1)) ?resume Q E"
    using resume unfolding triple_def by blast
  have unmarked: "triple (\<lambda>fs. P fs \<and> \<not> marked fs)
      (and_then probeCorrupt (\<lambda>corrupt. if \<not> corrupt then ret (no_result\<lparr>NoOp := True\<rparr>)
         else and_then createMarker (\<lambda>_. rescue_and_publish ts))) Q E"
    by (rule triple_and_then [OF triple_probes(1)])
       (auto intro: PE noop begin_new triple_ret)
  have rest: "triple ?M (and_then publishAlreadyComplete (\<lambda>complete.
      if complete then and_then (remove_file recoverMarkerName) (\<lambda>_. ret (no_result\<lparr>MarkerOnly := True\<rparr>))
      else and_then (fileExists dbFileName) (\<lambda>there.
        and_then (if \<not> there then restoreLatestBackup else ret ()) (\<lambda>_. rescue_and_publish ts)))) Q E"
    by (rule triple_and_then [OF triple_probes(3)]) (simp_all add: PE marker again)
  have healthy: "triple ?M (and_then tmpIsHealthy (\<lambda>healthy. if healthy then ?resume
      else and_then publishAlreadyComplete (\<lambda>complete.
        if complete then and_then (remove_file recoverMarkerName) (\<lambda>_. ret (no_result\<lparr>MarkerOnly := True\<rparr>))
        else and_then (fileExists dbFileName) (\<lambda>there.
          and_then (if \<not> there then restoreLatestBackup else ret ()) (\<lambda>_. rescue_and_publish ts))))) Q E"
    by (rule triple_and_then [OF triple_tmpIsHealthy]) (auto simp: PE looked [unfolded conj_assoc] rest)
  show ?thesis
  proof (cases held)
    case False
    show ?thesis
      unfolding Recover_def finished_def [symmetric] if_not_P [OF False]
      by (rule triple_if_there(2) [OF PE triple_weaken [OF healthy] triple_weaken [OF unmarked]])
         (auto simp: marked_def)
  qed (simp add: Recover_def triple_fail PE)
qed

lemma bak_name [simp]:
  "bakPrefix @ ts \<notin> tmp_family" "bakPrefix @ ts \<noteq> dbFileName" "bakPrefix @ ts \<noteq> recoverMarkerName"
  "dbFileName \<noteq> bakPrefix @ ts" "recoverMarkerName \<noteq> bakPrefix @ ts"
  by (simp_all add: tmp_family_def file_names)

lemma triple_ex: "(\<And>v. triple (P v) m Q E) \<Longrightarrow> triple (\<lambda>fs. \<exists>v. P v fs) m Q E"
  unfolding triple_def by blast

lemma triple_if_there_then:
  assumes "\<And>fs. P fs \<Longrightarrow> E fs"
    and "triple (\<lambda>fs. P fs \<and> (\<exists>y. map_of fs p = Some y)) A R E"
    and "triple (\<lambda>fs. P fs \<and> map_of fs p = None) B R E"
    and "\<And>x. triple (R x) (f x) Q E"
  shows "triple P (and_then (fileExists p) (\<lambda>there. and_then (if there then A else B) f)) Q E"
    and "triple P (and_then (fileExists p) (\<lambda>there. and_then (if \<not> there then B else A) f)) Q E"
proof -
  have eq: "(\<lambda>there. and_then (if there then A else B) f) = (\<lambda>there. if there then and_then A f else and_then B f)"
      "(\<lambda>there. and_then (if \<not> there then B else A) f) = (\<lambda>there. if there then and_then A f else and_then B f)"
    by auto
  have "triple P (and_then (fileExists p) (\<lambda>there. if there then and_then A f else and_then B f)) Q E"
    by (intro triple_if_there triple_and_then [OF assms(2)] triple_and_then [OF assms(3)] assms(1,4))
  then show "triple P (and_then (fileExists p) (\<lambda>there. and_then (if there then A else B) f)) Q E"
    and "triple P (and_then (fileExists p) (\<lambda>there. and_then (if \<not> there then B else A) f)) Q E"
    by (simp_all only: eq)
qed

lemma triple_rescue_verify:
  assumes "ignores_tmp P"
  shows "triple P rescueAll (\<lambda>_ fs. P fs \<and> (\<exists>im. view fs recoverTmpName = Some im)) P"
    and "triple (\<lambda>fs. P fs \<and> (\<exists>im. view fs recoverTmpName = Some im)) verifyRescued (\<lambda>_. P) P"
proof -
  have "triple (\<lambda>fs. P fs \<and> view fs dbFileName = v) rescueAll
      (\<lambda>_ fs. P fs \<and> (\<exists>im. view fs recoverTmpName = Some im)) P" for v
    by (rule triple_weaken [OF triple_rescueAll [OF assms]]) auto
  from triple_ex [where P = "\<lambda>v fs. P fs \<and> view fs dbFileName = v", OF this]
  show "triple P rescueAll (\<lambda>_ fs. P fs \<and> (\<exists>im. view fs recoverTmpName = Some im)) P"
    by simp
  have "triple (\<lambda>fs. P fs \<and> view fs recoverTmpName = Some im) verifyRescued (\<lambda>_. P) P" for im
    by (rule triple_weaken [OF triple_verify [OF assms]]) auto
  from triple_ex [where P = "\<lambda>im fs. P fs \<and> view fs recoverTmpName = Some im", OF this]
  show "triple (\<lambda>fs. P fs \<and> (\<exists>im. view fs recoverTmpName = Some im)) verifyRescued (\<lambda>_. P) P" by simp
qed

lemma publish_keeps:
  assumes ts: "is_backup_main (bakPrefix @ ts)"
  shows "triple (\<lambda>fs. kept x fs \<and> map_of fs (bakPrefix @ ts) = None) (publishRescued ts) (\<lambda>_. kept x) (kept x)"
    and "triple (\<lambda>fs. kept x fs \<and> map_of fs (bakPrefix @ ts) = None) (rescue_and_publish ts) (\<lambda>_. kept x) (kept x)"
    and "triple (\<lambda>fs. kept x fs \<and> map_of fs (bakPrefix @ ts) = None) (resumePublishFromTmp ts) (\<lambda>_. kept x) (kept x)"
proof -
  let ?P = "\<lambda>fs. kept x fs \<and> map_of fs (bakPrefix @ ts) = None"
  have P: "ignores_tmp ?P"
    by (rule ignores_conj [OF kept_ignores_tmp]) (simp add: ignores_tmp_def)
  show publish: "triple ?P (publishRescued ts) (\<lambda>_. kept x) (kept x)"
    unfolding publishRescued_def
    by (intro triple_and_then [OF backup_keeps [OF ts]] triple_and_then [OF finish_keeps] triple_ret)
  show "triple ?P (rescue_and_publish ts) (\<lambda>_. kept x) (kept x)"
    unfolding rescue_and_publish_def
    by (rule triple_and_then [OF triple_weaken [OF triple_rescue_verify(1) [OF P]]], assumption, assumption, blast,
        clarify, rule triple_and_then [OF triple_weaken [OF triple_rescue_verify(2) [OF P]]],
        assumption, assumption, blast)
       (intro triple_and_then [OF publish] triple_and_then [OF triple_remove [where Q = "\<lambda>_. kept x"]] triple_ret;
        simp add: kept_delete)
  show "triple ?P (resumePublishFromTmp ts) (\<lambda>_. kept x) (kept x)"
  proof -
    have count: "triple ?P countTmpRows (\<lambda>_. ?P) (kept x)"
      unfolding countTmpRows_def
      by (rule triple_and_then [OF triple_look(5) [of ?P "kept x"]])
         (auto intro!: triple_ret triple_fail split: option.split)
    let ?N = "\<lambda>fs. kept x fs \<and> map_of fs dbFileName = None"
    have look: "triple ?N (and_then latestBackupMain (\<lambda>found. ret (case found of None \<Rightarrow> [] | Some n \<Rightarrow> n)))
        (\<lambda>_. ?N) (kept x)"
      by (rule triple_and_then [OF triple_look(3) [of ?N "kept x"]]) (auto intro: triple_ret)
    have move: "triple ?P (and_then (fileExists dbFileName) (\<lambda>there.
        and_then (if there then backupOriginal ts
            else and_then latestBackupMain (\<lambda>found. ret (case found of None \<Rightarrow> [] | Some n \<Rightarrow> n)))
          (\<lambda>name. and_then finishPublish (\<lambda>_. ret (ne, ns, name))))) (\<lambda>_. kept x) (kept x)" for ne ns
      by (rule triple_if_there_then(1) [where R = "\<lambda>_. ?N"])
         (auto intro: triple_weaken [OF backup_keeps [OF ts]] triple_weaken [OF look]
            intro!: triple_and_then [OF finish_keeps] triple_ret)
    show ?thesis
      unfolding resumePublishFromTmp_def
      by (rule triple_and_then [OF count]) (use move in auto)
  qed
qed

lemma tripleD: "triple P m (\<lambda>_. I) I \<Longrightarrow> P (r_files s) \<Longrightarrow> m s = (s', r) \<Longrightarrow> I (r_files s')"
  unfolding triple_def by (cases r) force+

text \<open>Property C22.  Whatever fails and wherever the process dies, a recovery loses no database file: the
  content of the main file, and of every backup, is afterwards still in the main file or in a backup,
  provided no backup has the name the time stamp of this run gives.\<close>

theorem recover_keeps_originals:
  assumes "Recover held ts s = (s', r)" and "is_backup_main (bakPrefix @ ts)"
    and "map_of (r_files s) (bakPrefix @ ts) = None"
    and "is_main p" and "map_of (r_files s) p = Some x"
  shows "\<exists>q. is_main q \<and> map_of (r_files s') q = Some x"
proof -
  let ?P = "\<lambda>fs. kept x fs \<and> map_of fs (bakPrefix @ ts) = None"
  note keeps = publish_keeps [OF assms(2), of x]
  have unmark: "triple (kept x) (remove_file recoverMarkerName) (\<lambda>_. kept x) (kept x)"
    by (rule triple_remove) (simp_all add: kept_delete)
  have mark: "triple ?P createMarker (\<lambda>_. ?P) (kept x)"
    unfolding createMarker_def
    by (intro triple_and_then [OF triple_sys [where Q = "\<lambda>_. ?P"]] triple_sync) (simp_all add: kept_update update_conv)
  have "triple ?P (Recover held ts) (\<lambda>_. kept x) (kept x)"
  proof (rule triple_Recover)
    show "triple (\<lambda>fs. ?P fs \<and> \<not> marked fs)
        (and_then createMarker (\<lambda>_. rescue_and_publish ts)) (\<lambda>_. kept x) (kept x)"
      by (rule triple_weaken [OF triple_and_then [OF mark keeps(2)]]) auto
    show "triple (\<lambda>fs. (?P fs \<and> marked fs) \<and> lone_tmp im fs)
        (and_then (resumePublishFromTmp ts) (\<lambda>(ne, ns, name).
           and_then (remove_file recoverMarkerName) (\<lambda>_. ret (finished ne ns name)))) (\<lambda>_. kept x) (kept x)" for im
      by (rule triple_weaken [of ?P, OF triple_and_then [OF keeps(3)]])
         (auto intro!: triple_and_then [OF unmark] triple_ret)
    show "triple (\<lambda>fs. ?P fs \<and> marked fs) (and_then (remove_file recoverMarkerName) (\<lambda>_. ret (no_result\<lparr>MarkerOnly := True\<rparr>)))
        (\<lambda>_. kept x) (kept x)"
      by (rule triple_weaken [OF triple_and_then [OF unmark triple_ret]]) auto
    show "triple (\<lambda>fs. ?P fs \<and> marked fs) (and_then (fileExists dbFileName) (\<lambda>there.
        and_then (if \<not> there then restoreLatestBackup else ret ()) (\<lambda>_. rescue_and_publish ts)))
        (\<lambda>_. kept x) (kept x)"
      by (rule triple_weaken [where P = ?P], rule triple_if_there_then(2) [OF _ _ _ keeps(2)])
         (auto intro: triple_ret triple_weaken [OF restore_keeps])
  qed auto
  moreover have "?P (r_files s)" using assms unfolding kept_def by blast
  ultimately have "kept x (r_files s')" using assms(1) by (rule tripleD)
  then show ?thesis by (simp add: kept_def)
qed

definition demo_image :: image where
  "demo_image = \<lparr>im_db = demo_sweep_db, im_ok = False\<rparr>"

definition demo_recover :: rdir where
  "demo_recover = \<lparr>r_files = [(dbFileName, DbFile demo_image)], r_sys = [], r_checks = [], r_reads = []\<rparr>"

theorem recover_keeps_originals_witness:
  "\<exists>q. is_main q \<and> map_of (r_files (fst (Recover False ''t1'' demo_recover))) q = Some (DbFile demo_image)"
  by (rule recover_keeps_originals [OF prod.collapse [symmetric], of "''t1''" demo_recover dbFileName])
     (simp_all add: demo_recover_def is_main_def is_backup_main_def is_sidecar_def file_names suffix_def)

section \<open>What a failed run leaves behind\<close>

text \<open>The deferred close folds the rows copied so far into the copy, also when the rescue failed.  The next
  run takes that copy for a verified one and publishes it: five events were readable, one is left.\<close>

lemma partial_rescue_is_published:
  "(case Recover False ''t1'' (demo_recover\<lparr>r_reads :=
        [ReadAll, ReadAll, ReadSome 1 (ErrOther ''disk I/O''), ReadErr (ErrOther ''disk I/O'')]\<rparr>) of (s1, r1) \<Rightarrow>
      (case r1 of Fail e \<Rightarrow> e = ErrOther ''disk I/O'' | _ \<Rightarrow> False)
      \<and> snd (Recover False ''t2'' s1) = Ret (finished 1 3 (bakPrefix @ ''t2''))
      \<and> snd (Recover False ''t1'' demo_recover) = Ret (finished 5 3 (bakPrefix @ ''t1'')))"
  by code_simp

definition demo_wal :: "image \<Rightarrow> image" where
  "demo_wal m = (if events (im_db m) = [] then m else m\<lparr>im_db := demo_sweep_db, im_ok := False\<rparr>)"

definition demo_recover_wal :: rdir where
  "demo_recover_wal =
     \<lparr>r_files = [(dbFileName, DbFile (demo_image\<lparr>im_db := demo_sweep_db\<lparr>events := take 4 (events demo_sweep_db)\<rparr>\<rparr>)),
        (wal_of dbFileName, WalFile demo_wal)],
      r_sys = [], r_checks = [], r_reads = []\<rparr>"

text \<open>A death before the copy is renamed, an undecided check of the copy, a death between the two renames
  of the restored backup: the third run puts the copy beside the WAL of the original.\<close>

lemma recovered_file_meets_old_wal:
  "(case Recover False ''t1'' (demo_recover_wal\<lparr>r_sys := replicate 20 SysOk @ [SysKill]\<rparr>) of (s1, _) \<Rightarrow>
    (case Recover False ''t2'' (s1\<lparr>r_sys := replicate 11 SysOk @ [SysKill],
          r_checks := replicate 3 (Some SqliteBusy)\<rparr>) of (s2, _) \<Rightarrow>
      (case Recover False ''t3'' s2 of (s3, r3) \<Rightarrow>
         r3 = Ret (finished 5 3 (bakPrefix @ ''t1''))
         \<and> (case view (r_files s3) dbFileName of Some m \<Rightarrow> \<not> im_ok m | None \<Rightarrow> False))))"
  by code_simp

text \<open>A death between the two renames of the backup and an undecided check of the copy: the rows in the
  WAL of the original are in no file any more.\<close>

lemma wal_rows_are_lost:
  "(case Recover False ''t1'' (demo_recover_wal\<lparr>r_sys := replicate 19 SysOk @ [SysKill]\<rparr>) of (s1, _) \<Rightarrow>
    (case Recover False ''t2'' (s1\<lparr>r_checks := replicate 3 (Some SqliteBusy)\<rparr>) of (s2, r2) \<Rightarrow>
       r2 = Ret (finished 4 3 (bakPrefix @ ''t2''))
       \<and> map fst (r_files s2) = [bakPrefix @ ''t2'', dbFileName]))"
  by code_simp

end
