(* ===== verification/Session_Recovery.thy ===== *)
theory Session_Recovery
  imports Session_Recover
begin

text \<open>
  What a recovery of a damaged session log achieves: a run that succeeds has published a verified copy
  and kept the original with its WAL.
\<close>

section \<open>Backup and publication\<close>

definition empty_backup :: "bytes \<Rightarrow> files \<Rightarrow> bool" where
  "empty_backup ts fs \<longleftrightarrow> map_of fs (bakPrefix @ ts) = None \<and> map_of fs (wal_of (bakPrefix @ ts)) = None"

text \<open>The main file \<open>m0\<close> shows \<open>m\<close> under the WAL at \<open>w\<close>.\<close>

definition shows_with :: "image \<Rightarrow> rfile option \<Rightarrow> image \<Rightarrow> bool" where
  "shows_with m0 w m \<longleftrightarrow> m = (case w of Some (WalFile f) \<Rightarrow> f m0 | _ \<Rightarrow> m0)"

lemma view_shows: "view fs p = Some m \<longleftrightarrow> (\<exists>m0. map_of fs p = Some (DbFile m0) \<and> shows_with m0 (map_of fs (wal_of p)) m)"
  by (auto simp: view_def shows_with_def split: option.splits rfile.splits)

lemma lone_tmp_other:
  "p \<notin> tmp_family \<Longrightarrow> lone_tmp im (AList.update p y fs) = lone_tmp im fs"
  "p \<notin> tmp_family \<Longrightarrow> lone_tmp im (AList.delete p fs) = lone_tmp im fs"
  by (auto simp: lone_tmp_def tmp_family_def update_conv delete_conv)

lemma backup_names [simp]:
  "wal_of (bakPrefix @ ts) \<notin> tmp_family" "shm_of (bakPrefix @ ts) \<notin> tmp_family" "shm_of dbFileName \<notin> tmp_family"
  "wal_of (bakPrefix @ ts) \<noteq> dbFileName" "shm_of (bakPrefix @ ts) \<noteq> dbFileName"
  "wal_of (bakPrefix @ ts) \<noteq> wal_of dbFileName" "shm_of (bakPrefix @ ts) \<noteq> wal_of dbFileName"
  "wal_of (bakPrefix @ ts) \<noteq> shm_of dbFileName" "shm_of (bakPrefix @ ts) \<noteq> shm_of dbFileName"
  "bakPrefix @ ts \<noteq> wal_of dbFileName" "bakPrefix @ ts \<noteq> shm_of dbFileName"
  by (simp_all add: tmp_family_def file_names)

lemmas backup_names_sym [simp] = backup_names(4-) [symmetric]

lemma marker_names [simp]:
  "recoverMarkerName \<noteq> dbFileName" "recoverMarkerName \<noteq> wal_of p" "recoverMarkerName \<notin> tmp_family"
  "dbFileName \<noteq> recoverMarkerName" "wal_of p \<noteq> recoverMarkerName"
proof -
  show w: "recoverMarkerName \<noteq> wal_of p" for p
    using not_main by (auto simp: wal_of_def recoverMarkerName_def dest!: arg_cong [of _ _ rev])
  show "wal_of p \<noteq> recoverMarkerName" using w by metis
qed (simp_all add: tmp_family_def file_names)

lemma triple_backup:
  "triple (\<lambda>fs. lone_tmp im fs \<and> empty_backup ts fs \<and> view fs dbFileName = Some m) (backupOriginal ts)
    (\<lambda>name fs. name = bakPrefix @ ts \<and> lone_tmp im fs \<and> view fs (bakPrefix @ ts) = Some m
       \<and> map_of fs dbFileName = None \<and> map_of fs (wal_of dbFileName) = None) (\<lambda>_. True)"
proof -
  let ?A = "\<lambda>fs. lone_tmp im fs \<and> empty_backup ts fs \<and> view fs dbFileName = Some m"
  let ?B = "\<lambda>fs. lone_tmp im fs \<and> map_of fs (bakPrefix @ ts) = None \<and> map_of fs (wal_of dbFileName) = None
    \<and> (\<exists>m0. map_of fs dbFileName = Some (DbFile m0) \<and> shows_with m0 (map_of fs (wal_of (bakPrefix @ ts))) m)"
  let ?C = "\<lambda>fs. lone_tmp im fs \<and> view fs (bakPrefix @ ts) = Some m
    \<and> map_of fs dbFileName = None \<and> map_of fs (wal_of dbFileName) = None"
  have shm: "triple ?A (move_if_there (shm_of dbFileName) (shm_of (bakPrefix @ ts))) (\<lambda>_. ?A) (\<lambda>_. True)"
    by (rule triple_move)
       (auto simp: empty_backup_def view_shows lone_tmp_other update_conv delete_conv)
  have wal: "triple ?A (move_if_there (wal_of dbFileName) (wal_of (bakPrefix @ ts))) (\<lambda>_. ?B) (\<lambda>_. True)"
    by (rule triple_move)
       (auto simp: empty_backup_def view_shows lone_tmp_other update_conv delete_conv)
  have main: "triple ?B (move_if_there dbFileName (bakPrefix @ ts)) (\<lambda>_. ?C) (\<lambda>_. True)"
    by (rule triple_move)
       (auto simp: view_shows lone_tmp_other update_conv delete_conv)
  show ?thesis
    unfolding backupOriginal_def Let_def for_each.simps append_Nil2
      wal_of_def [symmetric] shm_of_def [symmetric]
    by (intro triple_and_then [OF shm] triple_and_then [OF wal] triple_and_then [OF main] triple_ret
        triple_and_then [where Q = "\<lambda>_. ?C"]) auto
qed

lemma backup_wal_is_no_orphan:
  assumes "is_backup_main (bakPrefix @ ts)" and "map_of fs (bakPrefix @ ts) \<noteq> None"
  shows "wal_of (bakPrefix @ ts) \<notin> set (orphan_sidecars fs)"
proof -
  have "bak_stamp (wal_of (bakPrefix @ ts)) = Some ts"
    by (simp add: bak_stamp_def wal_of_def suffix_def trim_suffix_def trim_prefix_def)
  moreover have "bakPrefix @ ts \<in> set (map fst fs)"
    using assms(2) by (simp add: map_of_eq_None_iff)
  then have "ts \<in> set (map (trim_prefix bakPrefix) (filter is_backup_main (sort (map fst fs))))"
    using assms(1) by (force simp: trim_prefix_def image_iff intro!: bexI [of _ "bakPrefix @ ts"])
  ultimately show ?thesis by (auto simp: orphan_sidecars_def Let_def)
qed

text \<open>The state after the publication.\<close>

definition published :: "image \<Rightarrow> bytes \<Rightarrow> image \<Rightarrow> files \<Rightarrow> bool" where
  "published im ts m fs \<longleftrightarrow>
     map_of fs dbFileName = Some (DbFile im) \<and> map_of fs (wal_of dbFileName) = None
     \<and> map_of fs recoverTmpName = None \<and> view fs (bakPrefix @ ts) = Some m"

lemma published_delete:
  assumes "published im ts m fs" and "p \<noteq> dbFileName" and "p \<noteq> bakPrefix @ ts" and "p \<noteq> wal_of (bakPrefix @ ts)"
  shows "published im ts m (AList.delete p fs)"
  using assms by (auto simp: published_def view_shows delete_conv)

lemma triple_finish:
  assumes "is_backup_main (bakPrefix @ ts)"
  shows "triple (\<lambda>fs. lone_tmp im fs \<and> view fs (bakPrefix @ ts) = Some m
       \<and> map_of fs dbFileName = None \<and> map_of fs (wal_of dbFileName) = None)
     finishPublish (\<lambda>_. published im ts m) (\<lambda>_. True)"
proof -
  have rename: "triple (\<lambda>fs. lone_tmp im fs \<and> view fs (bakPrefix @ ts) = Some m
       \<and> map_of fs dbFileName = None \<and> map_of fs (wal_of dbFileName) = None)
     (rename_file recoverTmpName dbFileName) (\<lambda>_. published im ts m) (\<lambda>_. True)"
    by (rule triple_rename)
       (auto simp: published_def view_shows lone_tmp_def update_conv delete_conv file_names)
  have each: "triple (published im ts m) (for_each names remove_file) (\<lambda>_. published im ts m) (\<lambda>_. True)"
    if "\<forall>n \<in> set names. is_sidecar n \<and> n \<noteq> wal_of (bakPrefix @ ts)" for names
  proof -
    have "\<not> is_sidecar dbFileName" "\<not> is_sidecar (bakPrefix @ ts)"
      using sidecar_not_main is_main_simps assms by blast+
    with that show ?thesis by (intro triple_for_each triple_remove published_delete) auto
  qed
  have sweep: "triple (published im ts m) sweepOrphanBackups (\<lambda>_. published im ts m) (\<lambda>_. True)"
    unfolding sweepOrphanBackups_def
  proof (rule triple_and_then [OF triple_ask [where Q = "\<lambda>names fs. published im ts m fs
      \<and> (\<forall>n \<in> set names. is_sidecar n \<and> n \<noteq> wal_of (bakPrefix @ ts))"]])
    fix names
    show "triple (\<lambda>fs. published im ts m fs \<and> (\<forall>n \<in> set names. is_sidecar n \<and> n \<noteq> wal_of (bakPrefix @ ts)))
        (for_each names remove_file) (\<lambda>_. published im ts m) (\<lambda>_. True)"
      by (cases "\<forall>n \<in> set names. is_sidecar n \<and> n \<noteq> wal_of (bakPrefix @ ts)")
         (auto intro!: triple_false each)
  next
    fix fs
    assume "published im ts m fs"
    then have "map_of fs (bakPrefix @ ts) \<noteq> None" by (auto simp: published_def view_shows)
    with backup_wal_is_no_orphan [OF assms] orphans_are_sidecars \<open>published im ts m fs\<close>
    show "published im ts m fs \<and> (\<forall>n \<in> set (orphan_sidecars fs). is_sidecar n \<and> n \<noteq> wal_of (bakPrefix @ ts))"
      by blast
  qed simp
  show ?thesis
    unfolding finishPublish_def
    by (intro triple_and_then [OF rename] triple_and_then [OF sweep] triple_sync) auto
qed

section \<open>A first run\<close>

lemma triple_first_run:
  assumes ts: "is_backup_main (bakPrefix @ ts)" and rows: "row_order (im_db m)"
  shows "triple (\<lambda>fs. empty_backup ts fs \<and> view fs dbFileName = Some m) (rescue_and_publish ts)
    (\<lambda>res fs. \<exists>ne ns d. res = finished ne ns (bakPrefix @ ts) \<and> copies (im_db m) ne ns d
       \<and> published \<lparr>im_db = d, im_ok = True\<rparr> ts m fs \<and> \<not> marked fs) (\<lambda>_. True)"
proof -
  let ?V = "\<lambda>fs. empty_backup ts fs \<and> view fs dbFileName = Some m"
  have V: "ignores_tmp ?V"
    by (rule ignores_conj [OF _ view_ignores_tmp]) (simp add: ignores_tmp_def empty_backup_def)
  let ?Q = "\<lambda>res fs. \<exists>ne ns d. res = finished ne ns (bakPrefix @ ts) \<and> copies (im_db m) ne ns d
       \<and> published \<lparr>im_db = d, im_ok = True\<rparr> ts m fs \<and> \<not> marked fs"
  have last: "triple (\<lambda>fs. ?V fs \<and> lone_tmp \<lparr>im_db = d, im_ok = True\<rparr> fs)
      (and_then (publishRescued ts) (\<lambda>name. and_then (remove_file recoverMarkerName) (\<lambda>_. ret (finished ne ns name))))
      ?Q (\<lambda>_. True)" if d: "copies (im_db m) ne ns d" for ne ns d
  proof -
    let ?im = "\<lparr>im_db = d, im_ok = True\<rparr>"
    have publish: "triple (\<lambda>fs. ?V fs \<and> lone_tmp ?im fs) (publishRescued ts)
        (\<lambda>name fs. name = bakPrefix @ ts \<and> published ?im ts m fs) (\<lambda>_. True)"
      unfolding publishRescued_def
    proof (rule triple_and_then)
      show "triple (\<lambda>fs. ?V fs \<and> lone_tmp ?im fs) (backupOriginal ts)
        (\<lambda>name fs. name = bakPrefix @ ts \<and> lone_tmp ?im fs \<and> view fs (bakPrefix @ ts) = Some m
           \<and> map_of fs dbFileName = None \<and> map_of fs (wal_of dbFileName) = None) (\<lambda>_. True)"
        by (rule triple_weaken [OF triple_backup]) auto
      show "triple (\<lambda>fs. name = bakPrefix @ ts \<and> lone_tmp ?im fs \<and> view fs (bakPrefix @ ts) = Some m
           \<and> map_of fs dbFileName = None \<and> map_of fs (wal_of dbFileName) = None)
          (and_then finishPublish (\<lambda>_. ret name))
          (\<lambda>name fs. name = bakPrefix @ ts \<and> published ?im ts m fs) (\<lambda>_. True)" for name
        by (cases "name = bakPrefix @ ts")
           (auto intro!: triple_false triple_and_then [OF triple_finish [OF ts]] triple_ret)
    qed
    have unmark: "triple (published ?im ts m) (remove_file recoverMarkerName)
        (\<lambda>_ fs. published ?im ts m fs \<and> \<not> marked fs) (\<lambda>_. True)"
      by (rule triple_remove)
         (auto intro!: published_delete simp: marked_def delete_conv)
    show ?thesis
    proof (rule triple_and_then [OF publish], goal_cases)
      case (1 name)
      show ?case
        using d by (cases "name = bakPrefix @ ts")
          (auto intro!: triple_false triple_and_then [OF unmark] triple_ret)
    qed
  qed
  have checked: "triple (\<lambda>fs. ?V fs \<and> view fs recoverTmpName = Some \<lparr>im_db = d, im_ok = True\<rparr>)
      (and_then verifyRescued (\<lambda>_. and_then (publishRescued ts)
        (\<lambda>name. and_then (remove_file recoverMarkerName) (\<lambda>_. ret (finished ne ns name))))) ?Q (\<lambda>_. True)"
    if d: "copies (im_db m) ne ns d" for ne ns d
    by (rule triple_and_then [where Q = "\<lambda>_ fs. ?V fs \<and> lone_tmp \<lparr>im_db = d, im_ok = True\<rparr> fs"],
        rule triple_weaken [OF triple_verify [OF V, of "\<lparr>im_db = d, im_ok = True\<rparr>"]])
       (use last [OF d] in auto)
  show ?thesis
    unfolding rescue_and_publish_def finished_def [symmetric]
  proof (rule triple_and_then)
    let ?R = "\<lambda>ne ns fs. \<exists>d. copies (im_db m) ne ns d \<and> ?V fs \<and> view fs recoverTmpName = Some \<lparr>im_db = d, im_ok = True\<rparr>"
    show "triple ?V rescueAll (\<lambda>(ne, ns). ?R ne ns) (\<lambda>_. True)"
      by (rule triple_weaken [OF triple_rescueAll [OF V, of "Some m"]]) (use rows in auto)
    have "triple (?R ne ns)
      (and_then verifyRescued (\<lambda>_. and_then (publishRescued ts)
        (\<lambda>name. and_then (remove_file recoverMarkerName) (\<lambda>_. ret (finished ne ns name))))) ?Q (\<lambda>_. True)" for ne ns
    proof (rule triple_ex)
      show "triple (\<lambda>fs. copies (im_db m) ne ns d \<and> ?V fs \<and> view fs recoverTmpName = Some \<lparr>im_db = d, im_ok = True\<rparr>)
        (and_then verifyRescued (\<lambda>_. and_then (publishRescued ts)
          (\<lambda>name. and_then (remove_file recoverMarkerName) (\<lambda>_. ret (finished ne ns name))))) ?Q (\<lambda>_. True)" for d
        using checked [of ne ns d] by (cases "copies (im_db m) ne ns d") (simp_all add: triple_false)
    qed
    then show "triple ((\<lambda>(ne, ns). ?R ne ns) x) ((\<lambda>(ne, ns). and_then verifyRescued (\<lambda>_. and_then (publishRescued ts)
        (\<lambda>name. and_then (remove_file recoverMarkerName) (\<lambda>_. ret (finished ne ns name))))) x) ?Q (\<lambda>_. True)" for x
      by (cases x) simp
  qed
qed


definition first_result :: recover_result where
  "first_result = finished 5 3 (bakPrefix @ ''t1'')"

lemma demo_recover_run: "snd (Recover False ''t1'' demo_recover_wal) = Ret first_result"
  by code_simp

lemma demo_recover_view:
  "view (r_files demo_recover_wal) dbFileName = Some demo_image"
  by (simp add: view_def demo_recover_wal_def demo_wal_def demo_image_def demo_sweep_db_def file_names Let_def)


section \<open>Runs without faults\<close>

definition quiet :: "rdir \<Rightarrow> bool" where
  "quiet s \<longleftrightarrow> r_sys s = [] \<and> r_checks s = [] \<and> r_reads s = []"

definition works :: "(files \<Rightarrow> bool) \<Rightarrow> 'a act \<Rightarrow> ('a \<Rightarrow> files \<Rightarrow> bool) \<Rightarrow> bool" where
  "works P m Q \<longleftrightarrow>
     (\<forall>s. quiet s \<longrightarrow> P (r_files s) \<longrightarrow> (\<exists>s' x. m s = (s', Ret x) \<and> quiet s' \<and> Q x (r_files s')))"

lemma works_and_then: "works P m Q \<Longrightarrow> (\<And>x. works (Q x) (f x) R) \<Longrightarrow> works P (and_then m f) R"
  unfolding works_def and_then_def by fastforce

lemma works_ret: "(\<And>fs. P fs \<Longrightarrow> Q x fs) \<Longrightarrow> works P (ret x) Q"
  by (simp add: works_def ret_def)

lemma works_sys: "(\<And>fs. P fs \<Longrightarrow> Q () (f fs)) \<Longrightarrow> works P (sys f) Q"
  by (auto simp: works_def sys_def quiet_def)

lemma works_ask: "(\<And>fs. P fs \<Longrightarrow> Q (f fs) fs) \<Longrightarrow> works P (ask f) Q"
  by (auto simp: works_def ask_def and_then_def sys_def quiet_def)

lemma works_weaken:
  "works P m Q \<Longrightarrow> (\<And>fs. P' fs \<Longrightarrow> P fs) \<Longrightarrow> (\<And>x fs. Q x fs \<Longrightarrow> Q' x fs) \<Longrightarrow> works P' m Q'"
  unfolding works_def by blast

lemma works_false: "(\<And>fs. \<not> P fs) \<Longrightarrow> works P m Q"
  by (simp add: works_def)

lemma works_ex: "(\<And>v. works (P v) m Q) \<Longrightarrow> works (\<lambda>fs. \<exists>v. P v fs) m Q"
  unfolding works_def by blast

lemma works_remove: "(\<And>fs. P fs \<Longrightarrow> Q () (AList.delete p fs)) \<Longrightarrow> works P (remove_file p) Q"
  unfolding remove_file_def by (rule works_sys)

lemma works_sync: "(\<And>fs. P fs \<Longrightarrow> Q () fs) \<Longrightarrow> works P syncDir Q"
  unfolding syncDir_def by (rule works_sys)

lemma works_exists: "(\<And>fs. P fs \<Longrightarrow> Q (map_of fs p \<noteq> None) fs) \<Longrightarrow> works P (fileExists p) Q"
  unfolding fileExists_def by (rule works_ask)

lemma works_rename:
  assumes "\<And>fs. P fs \<Longrightarrow> \<exists>x. map_of fs a = Some x \<and> Q () (AList.update b x (AList.delete a fs))"
  shows "works P (rename_file a b) Q"
  using assms by (fastforce simp: works_def rename_file_def sys_def quiet_def)

lemma works_if_there:
  assumes "works (\<lambda>fs. P fs \<and> (\<exists>y. map_of fs p = Some y)) A Q" and "works (\<lambda>fs. P fs \<and> map_of fs p = None) B Q"
  shows "works P (and_then (fileExists p) (\<lambda>there. if there then A else B)) Q"
    and "works P (and_then (fileExists p) (\<lambda>there. if \<not> there then B else A)) Q"
proof -
  have "works (\<lambda>fs. P fs \<and> t = (map_of fs p \<noteq> None)) (if t then A else B) Q" for t
    using assms by (cases t) (simp_all add: not_None_eq [symmetric] del: not_None_eq)
  then show "works P (and_then (fileExists p) (\<lambda>there. if there then A else B)) Q"
    by (intro works_and_then [OF works_exists [where Q = "\<lambda>t fs. P fs \<and> t = (map_of fs p \<noteq> None)"]]) auto
  moreover have "(\<lambda>there. if \<not> there then B else A) = (\<lambda>there. if there then A else B)" by auto
  ultimately show "works P (and_then (fileExists p) (\<lambda>there. if \<not> there then B else A)) Q" by simp
qed

lemma works_if_there_then:
  assumes "works (\<lambda>fs. P fs \<and> (\<exists>y. map_of fs p = Some y)) A R"
    and "works (\<lambda>fs. P fs \<and> map_of fs p = None) B R" and "\<And>x. works (R x) (f x) Q"
  shows "works P (and_then (fileExists p) (\<lambda>there. and_then (if there then A else B) f)) Q"
    and "works P (and_then (fileExists p) (\<lambda>there. and_then (if \<not> there then B else A) f)) Q"
proof -
  have eq: "(\<lambda>there. and_then (if there then A else B) f) = (\<lambda>there. if there then and_then A f else and_then B f)"
      "(\<lambda>there. and_then (if \<not> there then B else A) f) = (\<lambda>there. if there then and_then A f else and_then B f)"
    by auto
  have "works P (and_then (fileExists p) (\<lambda>there. if there then and_then A f else and_then B f)) Q"
    by (intro works_if_there works_and_then [OF assms(1)] works_and_then [OF assms(2)] assms(3))
  then show "works P (and_then (fileExists p) (\<lambda>there. and_then (if there then A else B) f)) Q"
    and "works P (and_then (fileExists p) (\<lambda>there. and_then (if \<not> there then B else A) f)) Q"
    by (simp_all only: eq)
qed

lemma works_move:
  assumes "\<And>fs. P fs \<Longrightarrow> map_of fs a = None \<Longrightarrow> Q () fs"
    and "\<And>fs x. P fs \<Longrightarrow> map_of fs a = Some x \<Longrightarrow> Q () (AList.update b x (AList.delete a fs))"
  shows "works P (move_if_there a b) Q"
  unfolding move_if_there_def
  by (rule works_if_there) (use assms in \<open>auto intro!: works_ret works_rename\<close>)

lemma works_for_each: "(\<And>x. x \<in> set xs \<Longrightarrow> works I (f x) (\<lambda>_. I)) \<Longrightarrow> works I (for_each xs f) (\<lambda>_. I)"
proof (induction xs)
  case (Cons x xs)
  then show ?case by (auto intro!: works_and_then)
qed (auto intro: works_ret)

text \<open>An undisturbed check says what is in the file.\<close>

lemma quiet_checks:
  "quickCheckStrict (check_op h) [] = ([], if h then None else Some SessionCorrupt)"
  "quickCheck (check_op h) [] = ([], if h then None else Some SessionCorrupt)"
  "snd (quickCheckStrict (\<lambda>outs. (outs, Inl SqliteCantOpen)) outs) = Some SessionCorrupt"
  "snd (quickCheck (\<lambda>outs. (outs, Inl SqliteCantOpen)) outs) = None"
  by (simp_all add: quickCheckStrict_def quickCheck_def numeral_2_eq_2 check_op_def pop_def isMalformed_def
      quick_check_loop.simps)

lemma works_check:
  "works P (check_view quickCheckStrict p) (\<lambda>r fs. P fs \<and> (r = None \<or> r = Some SessionCorrupt)
     \<and> (r = None \<longleftrightarrow> (\<exists>m. view fs p = Some m \<and> im_ok m)))"
  "works P (check_view quickCheck p) (\<lambda>r fs. P fs \<and> (r = None \<or> r = Some SessionCorrupt))"
  by (auto simp: works_def check_view_def quiet_def quiet_checks split: option.split)

lemma works_health:
  "works (\<lambda>fs. P fs \<and> (\<exists>m. view fs p = Some m \<and> im_ok m \<and> user_version (im_db m) = 1)) (checkRescuedHealth p) (\<lambda>_. P)"
  unfolding checkRescuedHealth_def
proof (rule works_and_then [OF works_check(1)], split option.split, intro conjI impI allI)
  let ?P = "\<lambda>fs. P fs \<and> (\<exists>m. view fs p = Some m \<and> im_ok m \<and> user_version (im_db m) = 1)"
  show "works (\<lambda>fs. ?P fs \<and> (r = None \<or> r = Some SessionCorrupt) \<and> (r = None \<longleftrightarrow> (\<exists>m. view fs p = Some m \<and> im_ok m)))
      (and_then (ask (\<lambda>fs. map_option (\<lambda>m. user_version (im_db m)) (view fs p)))
        (\<lambda>v. if v = Some 1 then ret () else fail_with (ErrOther ''user_version''))) (\<lambda>_. P)" for r
  proof (rule works_and_then [OF works_ask [where Q = "\<lambda>v fs. P fs \<and> v = Some 1"]])
    show "works (\<lambda>fs. P fs \<and> v = Some 1)
        (if v = Some 1 then ret () else fail_with (ErrOther ''user_version'')) (\<lambda>_. P)" for v
      by (cases "v = Some 1") (auto intro: works_ret works_false)
  qed auto
  show "works (\<lambda>fs. ?P fs \<and> (r = None \<or> r = Some SessionCorrupt) \<and> (r = None \<longleftrightarrow> (\<exists>m. view fs p = Some m \<and> im_ok m)))
      (fail_with e) (\<lambda>_. P)" if "r = Some e" for r e
    using that by (intro works_false) auto
qed

lemma works_looks:
  shows "works P probeCorrupt (\<lambda>c fs. P fs \<and> (c \<longrightarrow> (\<exists>y. map_of fs dbFileName = Some y)))" and "works P probeHealthyStrict (\<lambda>_. P)"
    and "works P latestBackupMain (\<lambda>found fs. P fs \<and>
       found = (let l = latest_name (filter is_backup_main (map fst fs)) in if l = [] then None else Some l))"
    and "works P publishAlreadyComplete (\<lambda>_. P)"
proof -
  have strict: "works (\<lambda>fs. P fs \<and> (r = None \<or> r = Some SessionCorrupt) \<and> X r fs)
      (case r of None \<Rightarrow> ret a | Some e \<Rightarrow> if e = SessionCorrupt then ret b else fail_with e) (\<lambda>_. P)"
    for P :: "files \<Rightarrow> bool" and r X a b
    by (cases "r = None \<or> r = Some SessionCorrupt") (auto intro!: works_ret intro: works_false)
  show "works P probeCorrupt (\<lambda>c fs. P fs \<and> (c \<longrightarrow> (\<exists>y. map_of fs dbFileName = Some y)))"
    unfolding probeCorrupt_def
    by (intro works_if_there works_ret works_and_then [OF works_check(2)];
        (rule works_weaken [OF strict [of "\<lambda>fs. P fs \<and> (\<exists>y. map_of fs dbFileName = Some y)" _ "\<lambda>_ _. True"]])?) auto
  show h: "works P probeHealthyStrict (\<lambda>_. P)"
    unfolding probeHealthyStrict_def by (rule works_and_then [OF works_check(1)], rule strict)
  show l: "works P latestBackupMain (\<lambda>found fs. P fs \<and>
       found = (let l = latest_name (filter is_backup_main (map fst fs)) in if l = [] then None else Some l))"
    unfolding latestBackupMain_def by (rule works_ask) auto
  have h': "works (\<lambda>fs. P fs \<and> (\<exists>y. map_of fs dbFileName = Some y)) probeHealthyStrict (\<lambda>_. P)"
    by (rule works_weaken [OF h]) auto
  have l': "works P latestBackupMain (\<lambda>_. P)" by (rule works_weaken [OF l]) auto
  show "works P publishAlreadyComplete (\<lambda>_. P)"
    unfolding publishAlreadyComplete_def
    by (intro works_if_there works_ret works_and_then [OF h'])
       (auto intro!: works_ret works_and_then [OF l'])
qed

section \<open>An undisturbed rescue\<close>

definition well_keyed :: "session_db \<Rightarrow> bool" where
  "well_keyed src \<longleftrightarrow> row_order src \<and> distinct (map v_event (events src)) \<and> distinct (map n_session (sessions src))"

lemma copy_rows_all:
  "insert_all ins rs dst = Inr d \<Longrightarrow>
     copy_rows rid ins rs cursor dst got = ((if rs = [] then cursor else rid (last rs)), d, got + length rs, None)"
  by (induction rs arbitrary: cursor dst got) (auto split: sum.splits)

lemma rescueTable_quiet:
  assumes "sorted_wrt (<) (map rid rows)" and "insert_all ins (rows_after rid rows cursor) dst = Inr d"
  shows "rescueTable rid ins rows [] cursor stall copied dst
    = ([], d, copied + length (rows_after rid rows cursor), RescueDone)"
  using assms
proof (induction rid ins rows "[] :: read_outcome list" cursor stall copied dst rule: rescueTable.induct)
  case (1 rid ins rows cursor stall copied dst)
  let ?R = "rows_after rid rows cursor"
  obtain d1 where ins: "insert_all ins (take rescueBatch ?R) dst = Inr d1"
      "insert_all ins (drop rescueBatch ?R) d1 = Inr d"
    using 1(4) insert_all_append [of ins "take rescueBatch ?R" "drop rescueBatch ?R" dst]
    by (auto split: sum.splits)
  let ?c = "if take rescueBatch ?R = [] then cursor else rid (last (take rescueBatch ?R))"
  let ?n = "length (take rescueBatch ?R)"
  have pass: "rescue_pass rid ins rows ReadAll cursor dst = (?c, d1, ?n, None)"
    by (simp add: rescue_pass_def rows_read_def batch_after_def copy_rows_all [OF ins(1)])
  show ?case
  proof (cases "?R = []")
    case True
    with 1(4) pass ins show ?thesis
      by (simp add: rescueTable.simps [of rid ins rows "[]"] Let_def)
  next
    case False
    then have pos: "?n \<noteq> 0" by (simp add: rescueBatch_def)
    from rescue_pass_spec [OF 1(3) pass] have after: "rows_after rid rows ?c = drop ?n ?R" by blast
    have "insert_all ins (rows_after rid rows ?c) d1 = Inr d"
    proof -
      have "drop ?n ?R = drop rescueBatch ?R" by (auto simp: min_def)
      with ins(2) show ?thesis unfolding after by simp
    qed
    then have "rescueTable rid ins rows [] ?c 0 (copied + ?n) d1
        = ([], d, copied + ?n + length (rows_after rid rows ?c), RescueDone)"
      by (intro 1(2) [OF _ _ _ pass [symmetric] refl refl pos 1(3)]) simp_all
    moreover have "?n + length (rows_after rid rows ?c) = length ?R"
      unfolding after by simp
    moreover have "rescueTable rid ins rows [] cursor stall copied dst = rescueTable rid ins rows [] ?c 0 (copied + ?n) d1"
      using pos by (subst rescueTable.simps) (simp add: pass Let_def del: length_take)
    ultimately show ?thesis by simp
  qed
qed

lemma insert_events_ok:
  assumes "distinct (map v_id es)" and "distinct (map v_event es)"
    and "\<forall>x \<in> set (events db). v_id x \<notin> v_id ` set es \<and> v_event x \<notin> v_event ` set es"
  shows "\<exists>d. insert_all copy_event es db = Inr d"
  using assms
proof (induction es arbitrary: db)
  case (Cons e es)
  from Cons.prems(3) have "copy_event e db = Inr (db\<lparr>events := events db @ [e], ev_porter := ev_porter db @ [ev_fts e],
      ev_trigram := ev_trigram db @ [ev_fts e]\<rparr>)" (is "_ = Inr ?d")
    by (auto simp: copy_event_def)
  moreover have "\<exists>d. insert_all copy_event es ?d = Inr d"
    using Cons.prems by (intro Cons.IH) auto
  ultimately show ?case by simp
qed simp

lemma insert_sessions_ok:
  assumes "distinct (map (n_session \<circ> snd) rs)" and "\<forall>x \<in> set (sessions db). n_session x \<notin> (n_session \<circ> snd) ` set rs"
  shows "\<exists>d. insert_all copy_session rs db = Inr d"
  using assms
proof (induction rs arbitrary: db)
  case (Cons r rs)
  from Cons.prems(2) have "copy_session r db = Inr (db\<lparr>sessions := sessions db @ [snd r]\<rparr>)" (is "_ = Inr ?d")
    by (auto simp: copy_session_def has_session_def)
  moreover have "\<exists>d. insert_all copy_session rs ?d = Inr d"
    using Cons.prems by (intro Cons.IH) auto
  ultimately show ?case by simp
qed simp

lemma sorted_distinct: "sorted_wrt (<) (xs :: int list) \<Longrightarrow> distinct xs"
  by (induction xs) auto

lemma rescue_quiet:
  assumes "well_keyed src"
  shows "\<exists>d1 ns. rescueSessions [] src (fresh_session_db\<lparr>user_version := 1\<rparr>) = ([], d1, ns, RescueDone)
     \<and> user_version d1 = 1 \<and> (\<exists>d2 ne. rescueSessionEvents [] src d1 = ([], d2, ne, RescueDone) \<and> user_version d2 = 1)"
proof -
  let ?F = "fresh_session_db\<lparr>user_version := 1\<rparr>" and ?rows = "numbered (sessions src)"
  have all: "filter (\<lambda>r. 0 < fst r) ?rows = ?rows" "filter (\<lambda>r. 0 < v_id r) (events src) = events src"
    using numbered_simps(3) assms by (simp_all add: filter_id_conv well_keyed_def row_order_def)
  have "distinct (map (n_session \<circ> snd) ?rows)"
    using assms by (simp add: well_keyed_def numbered_simps(1) flip: map_map)
  then obtain d1 where d1: "insert_all copy_session ?rows ?F = Inr d1"
    using insert_sessions_ok [where rs = ?rows and db = ?F] by (auto simp: fresh_session_db_def)
  have s: "rescueSessions [] src ?F = ([], d1, length ?rows, RescueDone)"
    unfolding rescueSessions_def
    using rescueTable_quiet [OF numbered_simps(2), where ins = copy_session and cursor = 0 and dst = ?F and d = d1] d1 by (simp add: all)
  have e1: "events d1 = []" "user_version d1 = 1"
    using insert_all_sessions [OF d1] by (simp_all add: fresh_session_db_def)
  obtain d2 where d2: "insert_all copy_event (events src) d1 = Inr d2"
    using insert_events_ok [where es = "events src" and db = d1] assms e1 sorted_distinct
    by (auto simp: well_keyed_def row_order_def)
  have "rescueSessionEvents [] src d1 = ([], d2, length (events src), RescueDone)"
    unfolding rescueSessionEvents_def
    using rescueTable_quiet [where rid = v_id and rows = "events src" and ins = copy_event and cursor = 0 and dst = d1 and d = d2] assms d2
    by (simp add: all well_keyed_def row_order_def)
  moreover have "user_version d2 = 1" using insert_all_events [OF d2] e1 by simp
  ultimately show ?thesis using s e1 by blast
qed

lemma works_run_rescue:
  assumes "rescue [] src dst = ([], d, n, RescueDone)"
  shows "works (\<lambda>_. True) (run_rescue rescue src dst)
     (\<lambda>r fs. r = (d, n) \<and> view fs recoverTmpName = Some \<lparr>im_db = d, im_ok = True\<rparr>)"
  using assms by (auto simp: works_def quiet_def run_rescue_def)

lemma works_schema: "works P applyTmpSchema (\<lambda>_ fs. \<exists>fs0. P fs0 \<and> fs = open_tmp (fresh_session_db\<lparr>user_version := 1\<rparr>) fs0)"
  by (auto simp: works_def applyTmpSchema_def sys_def quiet_def)

lemma works_close: "works (\<lambda>_. True) (close_tmp d (Ret x)) (\<lambda>_ fs. view fs recoverTmpName = Some \<lparr>im_db = d, im_ok = True\<rparr>)"
  by (auto simp: works_def close_tmp_def sys_def quiet_def)

lemma works_rescueAll:
  assumes "well_keyed (im_db m)"
  shows "works (\<lambda>fs. view fs dbFileName = Some m) rescueAll
    (\<lambda>_ fs. \<exists>im. view fs recoverTmpName = Some im \<and> im_ok im \<and> user_version (im_db im) = 1)"
proof -
  let ?F = "fresh_session_db\<lparr>user_version := 1\<rparr>"
  let ?Q = "\<lambda>_ fs. \<exists>im. view fs recoverTmpName = Some im \<and> im_ok im \<and> user_version (im_db im) = 1"
  let ?V = "\<lambda>fs. view fs dbFileName = Some m"
  from rescue_quiet [OF assms] obtain d1 ns d2 ne where
    s: "rescueSessions [] (im_db m) ?F = ([], d1, ns, RescueDone)"
    and e: "rescueSessionEvents [] (im_db m) d1 = ([], d2, ne, RescueDone)" and v: "user_version d2 = 1"
    by blast
  note V = tmp_steps [OF view_ignores_tmp [of "Some m"]]
  have remove: "works ?V (removeDBFamily recoverTmpName) (\<lambda>_. ?V)"
    unfolding removeDBFamily_def
  proof (rule works_for_each)
    fix p
    assume "p \<in> set [recoverTmpName, wal_of recoverTmpName, shm_of recoverTmpName]"
    then have "p \<in> tmp_family" by (simp add: tmp_family_def)
    then show "works ?V (remove_file p) (\<lambda>_. ?V)" using V(4) by (intro works_remove) blast
  qed
  have schema: "works ?V applyTmpSchema (\<lambda>_. ?V)"
    by (rule works_weaken [OF works_schema [of ?V]]) (use V(1) in auto)
  let ?copy = "and_then (run_rescue rescueSessions (im_db m) ?F) (\<lambda>(d1, ns).
       and_then (run_rescue rescueSessionEvents (im_db m) d1) (\<lambda>(d2, ne). close_tmp d2 (Ret (ne, ns))))"
  have close: "works (\<lambda>_. True) (close_tmp d2 (Ret (ne, ns))) ?Q"
    by (rule works_weaken [OF works_close]) (use v in auto)
  have evs: "works (\<lambda>_. True) (and_then (run_rescue rescueSessionEvents (im_db m) d1) (\<lambda>(d2, ne). close_tmp d2 (Ret (ne, ns)))) ?Q"
  proof (rule works_and_then [OF works_run_rescue [where rescue = rescueSessionEvents, OF e]])
    fix x
    show "works (\<lambda>fs. x = (d2, ne) \<and> view fs recoverTmpName = Some \<lparr>im_db = d2, im_ok = True\<rparr>)
        (case x of (d2, ne) \<Rightarrow> close_tmp d2 (Ret (ne, ns))) ?Q"
      by (cases "x = (d2, ne)") (auto intro: works_false works_weaken [OF close])
  qed
  have copy: "works ?V ?copy ?Q"
  proof (rule works_weaken [OF works_and_then [OF works_run_rescue [where rescue = rescueSessions, OF s]]])
    fix x
    show "works (\<lambda>fs. x = (d1, ns) \<and> view fs recoverTmpName = Some \<lparr>im_db = d1, im_ok = True\<rparr>)
        (case x of (d1, ns) \<Rightarrow> and_then (run_rescue rescueSessionEvents (im_db m) d1)
           (\<lambda>(d2, ne). close_tmp d2 (Ret (ne, ns)))) ?Q"
      by (cases "x = (d1, ns)") (auto intro: works_false works_weaken [OF evs])
  qed auto
  have tail: "works ?V (\<lambda>s. case view (r_files s) dbFileName of
         None \<Rightarrow> close_tmp ?F (Fail SqliteCantOpen) s
       | Some m \<Rightarrow> and_then (run_rescue rescueSessions (im_db m) ?F) (\<lambda>(d1, ns).
           and_then (run_rescue rescueSessionEvents (im_db m) d1) (\<lambda>(d2, ne). close_tmp d2 (Ret (ne, ns)))) s) ?Q"
    using copy unfolding works_def by simp
  show ?thesis
    unfolding rescueAll_def by (intro works_and_then [OF remove] works_and_then [OF schema] tail)
qed

section \<open>An undisturbed run finishes\<close>

definition has_tmp :: "files \<Rightarrow> bool" where
  "has_tmp fs \<longleftrightarrow> map_of fs recoverTmpName \<noteq> None"

lemma lone_has_tmp: "lone_tmp im fs \<Longrightarrow> has_tmp fs"
  by (simp add: lone_tmp_def has_tmp_def)

lemma works_verify:
  "works (\<lambda>fs. \<exists>im. view fs recoverTmpName = Some im \<and> im_ok im \<and> user_version (im_db im) = 1) verifyRescued
    (\<lambda>_. has_tmp)"
proof (rule works_ex)
  fix im
  let ?L = "\<lambda>fs. lone_tmp im fs \<and> im_ok im \<and> user_version (im_db im) = 1"
  have checkpoint: "works (\<lambda>fs. view fs recoverTmpName = Some im \<and> im_ok im \<and> user_version (im_db im) = 1)
      (sys checkpoint_tmp) (\<lambda>_. ?L)"
    by (rule works_sys) (simp add: checkpoint_tmp_def lone_tmp_closed)
  have wal: "works ?L (remove_file (wal_of recoverTmpName)) (\<lambda>_. ?L)"
    and shm: "works ?L (remove_file (shm_of recoverTmpName)) (\<lambda>_. ?L)"
    by (intro works_remove; simp add: lone_tmp_delete)+
  have health: "works ?L (checkRescuedHealth recoverTmpName) (\<lambda>_. ?L)"
    by (rule works_weaken [OF works_health [of ?L]]) (auto dest: lone_tmp_view)
  show "works (\<lambda>fs. view fs recoverTmpName = Some im \<and> im_ok im \<and> user_version (im_db im) = 1) verifyRescued
      (\<lambda>_. has_tmp)"
    unfolding verifyRescued_def
    by (intro works_and_then [OF checkpoint] works_and_then [OF wal] works_and_then [OF shm]
        works_and_then [OF health] works_sync) (auto dest: lone_has_tmp)
qed

lemma works_backup: "works has_tmp (backupOriginal ts) (\<lambda>_. has_tmp)"
proof -
  have "works has_tmp (for_each [''-shm'', ''-wal'', []]
      (\<lambda>suffix. move_if_there (dbFileName @ suffix) ((bakPrefix @ ts) @ suffix))) (\<lambda>_. has_tmp)"
    by (rule works_for_each, rule works_move)
       (auto simp: has_tmp_def update_conv delete_conv file_names)
  then show ?thesis
    unfolding backupOriginal_def Let_def by (rule works_and_then) (rule works_ret)
qed

lemma works_finish: "works has_tmp finishPublish (\<lambda>_ _. True)"
proof -
  have rename: "works has_tmp (rename_file recoverTmpName dbFileName) (\<lambda>_ _. True)"
    by (rule works_rename) (auto simp: has_tmp_def)
  have sweep: "works (\<lambda>_. True) sweepOrphanBackups (\<lambda>_ _. True)"
    unfolding sweepOrphanBackups_def
    by (rule works_and_then [OF works_ask [where Q = "\<lambda>_ _. True"]]) (auto intro!: works_for_each works_remove)
  show ?thesis
    unfolding finishPublish_def
    by (intro works_and_then [OF rename] works_and_then [OF sweep] works_sync)
qed

lemma works_unmark: "works P (and_then (remove_file recoverMarkerName) (\<lambda>_. ret x)) (\<lambda>_ fs. \<not> marked fs)"
  by (rule works_and_then [OF works_remove [where Q = "\<lambda>_ fs. \<not> marked fs"]])
     (auto intro: works_ret simp: marked_def delete_conv)

lemma works_rescue_and_publish:
  "works (\<lambda>fs. \<exists>m. view fs dbFileName = Some m \<and> well_keyed (im_db m)) (rescue_and_publish ts) (\<lambda>_ fs. \<not> marked fs)"
proof (rule works_ex)
  fix m
  have publish: "works has_tmp (publishRescued ts) (\<lambda>_ _. True)"
    unfolding publishRescued_def
    by (intro works_and_then [OF works_backup] works_and_then [OF works_finish] works_ret)
  show "works (\<lambda>fs. view fs dbFileName = Some m \<and> well_keyed (im_db m)) (rescue_and_publish ts) (\<lambda>_ fs. \<not> marked fs)"
  proof (cases "well_keyed (im_db m)")
    case True
    have "works (\<lambda>fs. view fs dbFileName = Some m) (rescue_and_publish ts) (\<lambda>_ fs. \<not> marked fs)"
      unfolding rescue_and_publish_def
    proof (rule works_and_then [OF works_rescueAll [OF True]], clarify)
      fix ne ns
      show "works (\<lambda>fs. \<exists>im. view fs recoverTmpName = Some im \<and> im_ok im \<and> user_version (im_db im) = 1)
          (and_then verifyRescued (\<lambda>_. and_then (publishRescued ts) (\<lambda>name. and_then (remove_file recoverMarkerName)
             (\<lambda>_. ret (no_result\<lparr>RecoveredEvents := ne, RecoveredSessions := ns, BackupPrefix := name\<rparr>)))))
          (\<lambda>_ fs. \<not> marked fs)"
        by (intro works_and_then [OF works_verify] works_and_then [OF publish] works_unmark)
    qed
    with True show ?thesis by simp
  qed (auto intro: works_false)
qed

text \<open>Every content that could come to be \<open>session.db\<close> is a database without conflicting rows, under
  its own WAL as under any other that lies there.\<close>

definition readable :: "files \<Rightarrow> bool" where
  "readable fs \<longleftrightarrow> (\<forall>p x. is_main p \<longrightarrow> map_of fs p = Some x \<longrightarrow>
     (\<exists>m. x = DbFile m \<and> well_keyed (im_db m)
        \<and> (\<forall>q f. map_of fs q = Some (WalFile f) \<longrightarrow> well_keyed (im_db (f m)))))"

lemma readable_rename:
  assumes "readable fs" and "map_of fs a = Some x" and "is_main b \<longrightarrow> is_main a"
  shows "readable (AList.update b x (AList.delete a fs))"
  unfolding readable_def
proof (intro allI impI)
  let ?fs = "AList.update b x (AList.delete a fs)"
  fix p y
  assume p: "is_main p" "map_of ?fs p = Some y"
  then obtain q where "is_main q" "map_of fs q = Some y"
    using assms by (cases "p = b"; cases "p = a") (auto simp: update_conv delete_conv split: if_splits)
  moreover have "\<exists>q. map_of fs q = Some z" if "map_of ?fs r = Some z" for r z
    using that assms(2) by (cases "r = b"; cases "r = a") (auto simp: update_conv delete_conv split: if_splits)
  ultimately show "\<exists>m. y = DbFile m \<and> well_keyed (im_db m)
      \<and> (\<forall>q f. map_of ?fs q = Some (WalFile f) \<longrightarrow> well_keyed (im_db (f m)))"
    using assms(1) unfolding readable_def by metis
qed

lemma readable_view:
  "readable fs \<Longrightarrow> map_of fs dbFileName = Some x \<Longrightarrow> \<exists>m. view fs dbFileName = Some m \<and> well_keyed (im_db m)"
  unfolding readable_def using is_main_simps(1)
  by (fastforce simp: view_def split: option.split rfile.split)

lemma latest_found:
  assumes "is_backup_main p" and "map_of fs p = Some x"
  shows "latest_name (filter is_backup_main (map fst fs)) \<noteq> []"
proof -
  have mono: "l \<le> fold (\<lambda>n latest. if latest < n then n else latest) ns l" for ns and l :: bytes
    by (induction ns arbitrary: l) (auto, meson less_le_trans order.strict_implies_order)
  have "n \<in> set ns \<Longrightarrow> n \<le> fold (\<lambda>n latest. if latest < n then n else latest) ns l" for n and ns and l :: bytes
    by (induction ns arbitrary: l) (auto intro: order_trans [OF _ mono])
  moreover have "p \<in> set (filter is_backup_main (map fst fs))"
    using assms by (auto simp: map_of_eq_None_iff dest: map_of_SomeD intro: rev_image_eqI)
  ultimately have "p \<le> latest_name (filter is_backup_main (map fst fs))"
    unfolding latest_name_def by blast
  moreover have "p \<noteq> []" using assms(1) by (auto simp: is_backup_main_def file_names)
  ultimately show ?thesis by auto
qed

lemma works_restore:
  "works (\<lambda>fs. readable fs \<and> (\<exists>p x. is_backup_main p \<and> map_of fs p = Some x)) restoreLatestBackup
    (\<lambda>_ fs. \<exists>m. view fs dbFileName = Some m \<and> well_keyed (im_db m))"
proof -
  let ?P = "\<lambda>n fs. readable fs \<and> is_backup_main n \<and> (\<exists>x. map_of fs n = Some x)"
  let ?Q = "\<lambda>fs. \<exists>m. view fs dbFileName = Some m \<and> well_keyed (im_db m)"
  have side: "works (?P n) (move_if_there (n @ suf) (dbFileName @ suf)) (\<lambda>_. ?P n)"
    if "suf \<in> {''-wal'', ''-shm''}" for n suf
  proof (rule works_move)
    fix fs x
    assume P: "?P n fs" and x: "map_of fs (n @ suf) = Some x"
    have "n \<noteq> dbFileName @ suf"
    proof
      assume "n = dbFileName @ suf"
      moreover have "\<not> is_main (dbFileName @ suf)" using that by auto
      ultimately show False using P is_main_simps(2) by blast
    qed
    moreover have "n \<noteq> n @ suf" using that by auto
    moreover have "readable (AList.update (dbFileName @ suf) x (AList.delete (n @ suf) fs))"
      using that P by (intro readable_rename [OF _ x]) auto
    ultimately show "?P n (AList.update (dbFileName @ suf) x (AList.delete (n @ suf) fs))"
      using P by (simp add: update_conv delete_conv)
  qed
  have main: "works (?P n) (move_if_there (n @ []) (dbFileName @ [])) (\<lambda>_. ?Q)" for n
  proof (rule works_move)
    fix fs x
    assume P: "?P n fs" and x: "map_of fs (n @ []) = Some x"
    let ?fs = "AList.update (dbFileName @ []) x (AList.delete (n @ []) fs)"
    have "readable ?fs" using P x by (intro readable_rename) auto
    moreover have "map_of ?fs dbFileName = Some x" by (simp add: update_conv)
    ultimately show "?Q ?fs" by (rule readable_view)
  qed auto
  have all: "works (?P n) (for_each [''-wal'', ''-shm'', []] (\<lambda>suffix. move_if_there (n @ suffix) (dbFileName @ suffix)))
      (\<lambda>_. ?Q)" for n
    unfolding for_each.simps
    by (intro works_and_then [OF side] works_and_then [OF main] works_ret) auto
  show ?thesis
    unfolding restoreLatestBackup_def
  proof (rule works_and_then)
    let ?F = "\<lambda>found fs. readable fs \<and> (\<exists>n. found = Some n \<and> is_backup_main n \<and> (\<exists>x. map_of fs n = Some x))"
    have found: "?F (let l = latest_name (filter is_backup_main (map fst fs)) in if l = [] then None else Some l) fs"
      if "readable fs" "is_backup_main p" "map_of fs p = Some x" for fs p x
    proof -
      let ?l = "latest_name (filter is_backup_main (map fst fs))"
      have "?l \<noteq> []" by (rule latest_found [OF that(2,3)])
      then have "is_backup_main ?l \<and> map_of fs ?l \<noteq> None"
        by (intro latest_is_backup) simp
      with that(1) \<open>?l \<noteq> []\<close> show ?thesis by simp
    qed
    show "works (\<lambda>fs. readable fs \<and> (\<exists>p x. is_backup_main p \<and> map_of fs p = Some x)) latestBackupMain ?F"
      by (rule works_weaken [OF works_looks(3)], assumption) (use found in blast)
    show "works (?F found) (case found of None \<Rightarrow> fail_with (ErrOther ''no copy and no backup'')
         | Some main \<Rightarrow> for_each [''-wal'', ''-shm'', []]
             (\<lambda>suffix. move_if_there (main @ suffix) (dbFileName @ suffix))) (\<lambda>_. ?Q)" for found
      by (cases found) (auto simp del: for_each.simps intro: works_false works_weaken [OF all])
  qed
qed

lemma works_tmpIsHealthy:
  "works P tmpIsHealthy (\<lambda>b fs. P fs \<and> (b \<longrightarrow> (\<exists>im. lone_tmp im fs)))"
proof -
  let ?L = "\<lambda>fs. ((P fs \<and> (\<exists>y. map_of fs recoverTmpName = Some y)) \<and> map_of fs (wal_of recoverTmpName) = None)
    \<and> map_of fs (shm_of recoverTmpName) = None"
  have lone: "\<exists>im. lone_tmp im fs" if "?L fs" "view fs recoverTmpName = Some m" for fs m
    using that by (auto simp: view_def lone_tmp_def split: option.splits rfile.splits)
  have "works ?L (succeeds (checkRescuedHealth recoverTmpName)) (\<lambda>b fs. P fs \<and> (b \<longrightarrow> (\<exists>im. lone_tmp im fs)))"
    unfolding works_def
  proof (intro allI impI)
    fix s
    assume q: "quiet s" and L: "?L (r_files s)"
    obtain r where check: "check_view quickCheckStrict recoverTmpName s = (s, Ret r)"
        "r = None \<longrightarrow> (\<exists>m. view (r_files s) recoverTmpName = Some m)"
    proof -
      have "s\<lparr>r_checks := []\<rparr> = s" using q by (cases s) (simp add: quiet_def)
      then show thesis
        using q that by (cases "view (r_files s) recoverTmpName") (auto simp: check_view_def quiet_def quiet_checks)
    qed
    then show "\<exists>s' x. succeeds (checkRescuedHealth recoverTmpName) s = (s', Ret x) \<and> quiet s' \<and>
        P (r_files s') \<and> (x \<longrightarrow> (\<exists>im. lone_tmp im (r_files s')))"
      using q L lone by (cases r)
        (auto simp: succeeds_def checkRescuedHealth_def and_then_def fail_with_def ask_def sys_def ret_def quiet_def)
  qed
  then show ?thesis
    unfolding tmpIsHealthy_def by (intro works_if_there works_ret) auto
qed


definition demo_crashed :: rdir where
  "demo_crashed =
     \<lparr>r_files = [(recoverMarkerName, PlainFile), (bakPrefix @ ''t1'', DbFile demo_image),
        (wal_of (bakPrefix @ ''t1''), WalFile demo_wal)],
      r_sys = [], r_checks = [], r_reads = []\<rparr>"

lemma demo_well_keyed: "well_keyed demo_sweep_db"
  using demo_sweep_ok by (simp add: well_keyed_def row_order_def session_ok_def)


section \<open>What every successful run leaves\<close>

definition fresh_file :: "image \<Rightarrow> files \<Rightarrow> bool" where
  "fresh_file im fs \<longleftrightarrow> map_of fs dbFileName = Some (DbFile im) \<and> map_of fs recoverTmpName = None"

lemma triple_publish_file:
  shows "triple (lone_tmp im) (backupOriginal ts) (\<lambda>_. lone_tmp im) (\<lambda>_. True)"
    and "triple (lone_tmp im) finishPublish (\<lambda>_. fresh_file im) (\<lambda>_. True)"
    and "triple (fresh_file im) (and_then (remove_file recoverMarkerName) (\<lambda>_. ret x))
      (\<lambda>r fs. r = x \<and> fresh_file im fs \<and> \<not> marked fs) (\<lambda>_. True)"
proof -
  have "triple (lone_tmp im) (for_each [''-shm'', ''-wal'', []]
      (\<lambda>suffix. move_if_there (dbFileName @ suffix) ((bakPrefix @ ts) @ suffix))) (\<lambda>_. lone_tmp im) (\<lambda>_. True)"
    by (rule triple_for_each, rule triple_move)
       (auto simp: lone_tmp_def update_conv delete_conv file_names)
  then show "triple (lone_tmp im) (backupOriginal ts) (\<lambda>_. lone_tmp im) (\<lambda>_. True)"
    unfolding backupOriginal_def Let_def by (rule triple_and_then) (rule triple_ret)
  have rename: "triple (lone_tmp im) (rename_file recoverTmpName dbFileName) (\<lambda>_. fresh_file im) (\<lambda>_. True)"
    by (rule triple_rename) (auto simp: fresh_file_def lone_tmp_def update_conv delete_conv file_names)
  have keep: "triple (fresh_file im) (remove_file n) (\<lambda>_. fresh_file im) (\<lambda>_. True)" if "n \<noteq> dbFileName" for n
    using that by (intro triple_remove) (auto simp: fresh_file_def delete_conv)
  have sweep: "triple (fresh_file im) sweepOrphanBackups (\<lambda>_. fresh_file im) (\<lambda>_. True)"
    unfolding sweepOrphanBackups_def
  proof (rule triple_and_then [OF triple_ask [where Q = "\<lambda>names fs. fresh_file im fs \<and> (\<forall>n \<in> set names. is_sidecar n)"]])
    fix names
    show "triple (\<lambda>fs. fresh_file im fs \<and> (\<forall>n \<in> set names. is_sidecar n)) (for_each names remove_file)
        (\<lambda>_. fresh_file im) (\<lambda>_. True)"
    proof (cases "\<forall>n \<in> set names. is_sidecar n")
      case True
      then have "\<forall>n \<in> set names. n \<noteq> dbFileName"
        using sidecar_not_main is_main_simps(1) by blast
      then have "triple (fresh_file im) (for_each names remove_file) (\<lambda>_. fresh_file im) (\<lambda>_. True)"
        by (auto intro!: triple_for_each keep)
      then show ?thesis using True by simp
    qed (auto intro: triple_false)
  qed (use orphans_are_sidecars in auto)
  show "triple (lone_tmp im) finishPublish (\<lambda>_. fresh_file im) (\<lambda>_. True)"
    unfolding finishPublish_def
    by (intro triple_and_then [OF rename] triple_and_then [OF sweep] triple_sync) auto
  show "triple (fresh_file im) (and_then (remove_file recoverMarkerName) (\<lambda>_. ret x))
      (\<lambda>r fs. r = x \<and> fresh_file im fs \<and> \<not> marked fs) (\<lambda>_. True)"
    by (rule triple_and_then [OF triple_remove [where Q = "\<lambda>_ fs. fresh_file im fs \<and> \<not> marked fs"]])
       (auto intro!: triple_ret simp: fresh_file_def marked_def delete_conv)
qed

text \<open>A run that reports success leaves no marker; unless there was nothing to do, it leaves
  a main file that passed the integrity check with the current schema version, and no temporary copy.\<close>

lemma recover_success_is_clean:
  assumes "Recover held ts s = (s', Ret res)"
  shows "map_of (r_files s') recoverMarkerName = None
    \<and> (\<not> NoOp res \<and> \<not> MarkerOnly res \<longrightarrow>
        (\<exists>im. map_of (r_files s') dbFileName = Some (DbFile im) \<and> im_ok im \<and> user_version (im_db im) = 1
          \<and> map_of (r_files s') recoverTmpName = None))"
proof -
  let ?G = "\<lambda>im. im_ok im \<and> user_version (im_db im) = 1"
  let ?Q = "\<lambda>res fs. \<not> marked fs \<and> (\<not> NoOp res \<and> \<not> MarkerOnly res \<longrightarrow> (\<exists>im. ?G im \<and> fresh_file im fs))"
  have unmark: "triple (fresh_file im) (and_then (remove_file recoverMarkerName) (\<lambda>_. ret x)) ?Q (\<lambda>_. True)"
    if "?G im" for im x
    by (rule triple_weaken [OF triple_publish_file(3)]) (use that in auto)
  have publish: "triple (\<lambda>_. True) (rescue_and_publish ts) ?Q (\<lambda>_. True)"
    unfolding rescue_and_publish_def
  proof (rule triple_and_then [OF triple_rescue_verify(1)], goal_cases)
    case 1 show ?case by (simp add: ignores_tmp_def)
  next
    case (2 x)
    obtain ne ns where x: "x = (ne, ns)" by fastforce
    have "triple (\<lambda>fs. \<exists>im. True \<and> view fs recoverTmpName = Some im) verifyRescued (\<lambda>_ fs. \<exists>im. ?G im \<and> lone_tmp im fs) (\<lambda>_. True)"
    proof (rule triple_ex)
      show "triple (\<lambda>fs. True \<and> view fs recoverTmpName = Some im) verifyRescued (\<lambda>_ fs. \<exists>im. ?G im \<and> lone_tmp im fs) (\<lambda>_. True)" for im
        by (rule triple_weaken [OF triple_verify [of "\<lambda>_. True"]]) (auto simp: ignores_tmp_def)
    qed
    then have verify: "triple (\<lambda>fs. True \<and> (\<exists>im. view fs recoverTmpName = Some im)) verifyRescued
        (\<lambda>_ fs. \<exists>im. ?G im \<and> lone_tmp im fs) (\<lambda>_. True)" by simp
    have "triple (\<lambda>fs. \<exists>im. ?G im \<and> lone_tmp im fs) (and_then (publishRescued ts) (\<lambda>name.
        and_then (remove_file recoverMarkerName) (\<lambda>_.
          ret (no_result\<lparr>RecoveredEvents := ne, RecoveredSessions := ns, BackupPrefix := name\<rparr>)))) ?Q (\<lambda>_. True)"
    proof (rule triple_ex)
      fix im
      have f: "triple (lone_tmp im) (publishRescued ts) (\<lambda>_. fresh_file im) (\<lambda>_. True)"
        unfolding publishRescued_def
        by (intro triple_and_then [OF triple_publish_file(1)] triple_and_then [OF triple_publish_file(2)] triple_ret)
      show "triple (\<lambda>fs. ?G im \<and> lone_tmp im fs) (and_then (publishRescued ts) (\<lambda>name.
          and_then (remove_file recoverMarkerName) (\<lambda>_.
            ret (no_result\<lparr>RecoveredEvents := ne, RecoveredSessions := ns, BackupPrefix := name\<rparr>)))) ?Q (\<lambda>_. True)"
      proof (cases "?G im")
        case True
        with triple_and_then [OF f unmark [OF True]] show ?thesis by simp
      qed (rule triple_false, blast)
    qed
    with verify show ?case unfolding x by (auto intro: triple_and_then)
  qed
  have resume: "triple (lone_tmp im) (and_then (resumePublishFromTmp ts) (\<lambda>(ne, ns, name).
         and_then (remove_file recoverMarkerName) (\<lambda>_. ret (finished ne ns name)))) ?Q (\<lambda>_. True)" if "?G im" for im
  proof (rule triple_and_then)
    have count: "triple (lone_tmp im) countTmpRows (\<lambda>_. lone_tmp im) (\<lambda>_. True)"
      unfolding countTmpRows_def
      by (rule triple_and_then [OF triple_look(5)]) (auto intro!: triple_ret triple_fail split: option.split)
    have look: "triple (lone_tmp im) (and_then latestBackupMain (\<lambda>found. ret (case found of None \<Rightarrow> [] | Some n \<Rightarrow> n)))
        (\<lambda>_. lone_tmp im) (\<lambda>_. True)"
      by (rule triple_and_then [OF triple_look(3)]) (auto intro: triple_ret)
    show "triple (lone_tmp im) (resumePublishFromTmp ts) (\<lambda>_. fresh_file im) (\<lambda>_. True)"
      unfolding resumePublishFromTmp_def
    proof (rule triple_and_then [OF count], clarify)
      fix ne ns
      show "triple (lone_tmp im) (and_then (fileExists dbFileName) (\<lambda>there.
          and_then (if there then backupOriginal ts
              else and_then latestBackupMain (\<lambda>found. ret (case found of None \<Rightarrow> [] | Some n \<Rightarrow> n)))
            (\<lambda>name. and_then finishPublish (\<lambda>_. ret (ne, ns, name))))) (\<lambda>_. fresh_file im) (\<lambda>_. True)"
        by (rule triple_if_there_then(1) [where R = "\<lambda>_. lone_tmp im"])
           (auto intro: triple_weaken [OF triple_publish_file(1)] triple_weaken [OF look]
              intro!: triple_and_then [OF triple_publish_file(2)] triple_ret)
    qed
  qed (clarify, rule unmark [OF that])
  have "triple (\<lambda>_. True) (Recover held ts) ?Q (\<lambda>_. True)"
  proof (rule triple_Recover)
    show "triple (\<lambda>fs. True \<and> \<not> marked fs) (and_then createMarker (\<lambda>_. rescue_and_publish ts)) ?Q (\<lambda>_. True)"
      by (rule triple_and_then [OF _ publish])
         (simp add: triple_def split: run.split)
    show "triple (\<lambda>fs. (True \<and> marked fs) \<and> lone_tmp im fs) (and_then (resumePublishFromTmp ts) (\<lambda>(ne, ns, name).
         and_then (remove_file recoverMarkerName) (\<lambda>_. ret (finished ne ns name)))) ?Q (\<lambda>_. True)"
      if "im_ok im" "user_version (im_db im) = 1" for im
      by (rule triple_weaken [OF resume [of im]]) (use that in auto)
    show "triple (\<lambda>fs. True \<and> marked fs) (and_then (remove_file recoverMarkerName) (\<lambda>_. ret (no_result\<lparr>MarkerOnly := True\<rparr>)))
        ?Q (\<lambda>_. True)"
      by (rule triple_and_then [OF triple_remove [where Q = "\<lambda>_ fs. \<not> marked fs"]])
         (auto intro!: triple_ret simp: marked_def delete_conv)
    show "triple (\<lambda>fs. True \<and> marked fs) (and_then (fileExists dbFileName) (\<lambda>there.
        and_then (if \<not> there then restoreLatestBackup else ret ()) (\<lambda>_. rescue_and_publish ts))) ?Q (\<lambda>_. True)"
      by (rule triple_if_there_then(2) [OF _ _ _ publish]) (simp_all add: triple_def split: run.split)
  qed (auto simp: no_result_def)
  with assms have "?Q res (r_files s')" unfolding triple_def by fastforce
  then show ?thesis by (auto simp: marked_def fresh_file_def)
qed

lemma recover_success_is_clean_witness:
  "\<exists>s'. Recover False ''t1'' demo_recover_wal = (s', Ret first_result) \<and> map_of (r_files s') recoverMarkerName = None"
proof -
  obtain s' where run: "Recover False ''t1'' demo_recover_wal = (s', Ret first_result)"
    using demo_recover_run by (metis prod.collapse)
  from recover_success_is_clean [OF this] have "map_of (r_files s') recoverMarkerName = None" by (rule conjunct1)
  with run show ?thesis by blast
qed

end
