(* ===== verification/Json_Value.thy ===== *)
theory Json_Value
  imports Json
begin

text \<open>
  JSON texts as \<open>encoding/json\<close> reads them: values, the raw text of a member, and the fields of a
  struct, which are found whatever the case of a key.
\<close>

section \<open>Values\<close>

text \<open>A member of an object has its key, its raw text and its value.\<close>

datatype json =
    JNull | JBool bool | JNum bytes | JStr bytes | JArr "json list" | JObj "(bytes \<times> bytes \<times> json) list"

definition take_digits :: "bytes \<Rightarrow> bytes \<times> bytes" where
  "take_digits s = (takeWhile is_digit s, dropWhile is_digit s)"

text \<open>A number keeps its text.  Each part takes what it can and gives the rest.\<close>

definition num_int :: "bytes \<Rightarrow> (bytes \<times> bytes) option" where
  "num_int s =
     (case s of
        [] \<Rightarrow> None
      | c # t \<Rightarrow>
          if c = CHR ''0'' then Some ([c], t)
          else if is_digit c then Some (take_digits s)
          else None)"

definition num_frac :: "bytes \<Rightarrow> (bytes \<times> bytes) option" where
  "num_frac s =
     (case s of
        c # t \<Rightarrow>
          if c = CHR ''.'' then
            (let (ds, r) = take_digits t in if ds = [] then None else Some (c # ds, r))
          else Some ([], s)
      | [] \<Rightarrow> Some ([], []))"

definition num_exp :: "bytes \<Rightarrow> (bytes \<times> bytes) option" where
  "num_exp s =
     (case s of
        c # t \<Rightarrow>
          if c = CHR ''e'' \<or> c = CHR ''E'' then
            (let sg = (case t of x # _ \<Rightarrow> if x = CHR ''+'' \<or> x = CHR ''-'' then [x] else [] | [] \<Rightarrow> []);
                 (ds, r) = take_digits (drop (length sg) t)
             in if ds = [] then None else Some (c # sg @ ds, r))
          else Some ([], s)
      | [] \<Rightarrow> Some ([], []))"

definition read_number :: "bytes \<Rightarrow> (bytes \<times> bytes) option" where
  "read_number s =
     (let (sign, s0) = (if prefix ''-'' s then (''-'', tl s) else ([], s)) in
      (case num_int s0 of
         None \<Rightarrow> None
       | Some (a, s1) \<Rightarrow>
           (case num_frac s1 of
              None \<Rightarrow> None
            | Some (b, s2) \<Rightarrow>
                (case num_exp s2 of
                   None \<Rightarrow> None
                 | Some (c, s3) \<Rightarrow> Some (sign @ a @ b @ c, s3)))))"

definition maxNestingDepth :: nat where "maxNestingDepth = 10000"

definition read_key :: "bytes \<Rightarrow> (bytes \<times> bytes) option" where
  "read_key s = (case s of c # t \<Rightarrow> if c = CHR 0x22 then read_chars t else None | [] \<Rightarrow> None)"

text \<open>\<open>d\<close> levels of nesting are left; the first argument is fuel.\<close>

fun read_value :: "nat \<Rightarrow> nat \<Rightarrow> bytes \<Rightarrow> (json \<times> bytes) option"
  and read_items :: "nat \<Rightarrow> nat \<Rightarrow> bytes \<Rightarrow> (json list \<times> bytes) option"
  and read_members :: "nat \<Rightarrow> nat \<Rightarrow> bytes \<Rightarrow> ((bytes \<times> bytes \<times> json) list \<times> bytes) option" where
  "read_value 0 d s = None"
| "read_value (Suc n) d s =
     (case s of
        [] \<Rightarrow> None
      | c # t \<Rightarrow>
          if c = CHR 0x22 then map_option (\<lambda>(x, r). (JStr x, r)) (read_chars t)
          else if c = CHR 0x7B then
            (if d = 0 then None
             else let u = skip_ws t in
               if prefix ''}'' u then Some (JObj [], tl u)
               else map_option (\<lambda>(ms, r). (JObj ms, r)) (read_members n (d - 1) u))
          else if c = CHR ''['' then
            (if d = 0 then None
             else let u = skip_ws t in
               if prefix '']'' u then Some (JArr [], tl u)
               else map_option (\<lambda>(vs, r). (JArr vs, r)) (read_items n (d - 1) u))
          else if prefix ''true'' s then Some (JBool True, drop 4 s)
          else if prefix ''false'' s then Some (JBool False, drop 5 s)
          else if prefix ''null'' s then Some (JNull, drop 4 s)
          else map_option (\<lambda>(x, r). (JNum x, r)) (read_number s))"
| "read_items 0 d s = None"
| "read_items (Suc n) d s =
     (case read_value n d s of
        None \<Rightarrow> None
      | Some (v, r) \<Rightarrow>
          (case skip_ws r of
             c # t \<Rightarrow>
               if c = CHR '']'' then Some ([v], t)
               else if c = CHR '','' then map_option (\<lambda>(vs, r'). (v # vs, r')) (read_items n d (skip_ws t))
               else None
           | [] \<Rightarrow> None))"
| "read_members 0 d s = None"
| "read_members (Suc n) d s =
     (case read_key s of
        None \<Rightarrow> None
      | Some (k, r) \<Rightarrow>
          (case skip_ws r of
             c # t \<Rightarrow>
               if c \<noteq> CHR '':'' then None
               else (let u = skip_ws t in
                 (case read_value n d u of
                    None \<Rightarrow> None
                  | Some (v, r') \<Rightarrow>
                      let m = (k, take (length u - length r') u, v) in
                      (case skip_ws r' of
                         e # w \<Rightarrow>
                           if e = CHR 0x7D then Some ([m], w)
                           else if e = CHR '','' then
                             map_option (\<lambda>(ms, r''). (m # ms, r'')) (read_members n d (skip_ws w))
                           else None
                       | [] \<Rightarrow> None)))
           | [] \<Rightarrow> None))"

declare read_value.simps(2) [simp del] read_items.simps(2) [simp del] read_members.simps(2) [simp del]

definition json_fuel :: "bytes \<Rightarrow> nat" where
  "json_fuel s = 2 * length s + 2"

text \<open>\<open>json.Unmarshal\<close> wants the whole text, \<open>Decoder.Decode\<close> only its first value.\<close>

definition decode_first :: "bytes \<Rightarrow> json option" where
  "decode_first s = (let t = skip_ws s in map_option fst (read_value (json_fuel t) maxNestingDepth t))"

definition parse_json :: "bytes \<Rightarrow> json option" where
  "parse_json s =
     (let t = skip_ws s in
      (case read_value (json_fuel t) maxNestingDepth t of
         Some (v, r) \<Rightarrow> if skip_ws r = [] then Some v else None
       | None \<Rightarrow> None))"

section \<open>The fuel is enough\<close>

lemma take_digits_le: "length (snd (take_digits s)) \<le> length s"
  by (simp add: take_digits_def length_dropWhile_le)

lemma num_shorter:
  "num_int s = Some (a, r) \<Longrightarrow> length r < length s"
  "num_frac s = Some (a, r) \<Longrightarrow> length r \<le> length s"
  "num_exp s = Some (a, r) \<Longrightarrow> length r \<le> length s"
proof -
  show "num_int s = Some (a, r) \<Longrightarrow> length r < length s"
    by (cases s) (auto simp: num_int_def take_digits_def less_Suc_eq_le length_dropWhile_le split: if_splits)
  show "num_frac s = Some (a, r) \<Longrightarrow> length r \<le> length s"
    by (cases s) (auto simp: num_frac_def take_digits_def le_SucI length_dropWhile_le split: if_splits)
  show "num_exp s = Some (a, r) \<Longrightarrow> length r \<le> length s"
  proof (cases s)
    case (Cons c t)
    assume "num_exp s = Some (a, r)"
    with Cons obtain k where "r = s \<or> r = dropWhile is_digit (drop k t)"
      by (auto simp: num_exp_def take_digits_def Let_def split: if_splits)
    moreover have "length (dropWhile is_digit (drop k t)) \<le> length t"
      using length_dropWhile_le [of is_digit "drop k t"] by simp
    ultimately show ?thesis using Cons by auto
  qed (simp add: num_exp_def)
qed

lemma read_number_shorter: "read_number s = Some (x, r) \<Longrightarrow> length r < length s"
proof -
  assume run: "read_number s = Some (x, r)"
  obtain sign s0 where s0: "(if prefix ''-'' s then (''-'', tl s) else ([], s)) = (sign, s0)" by fastforce
  have "length s0 \<le> length s" using s0 by (auto split: if_splits)
  moreover from run s0 obtain a b c s1 s2 where "num_int s0 = Some (a, s1)" "num_frac s1 = Some (b, s2)"
      "num_exp s2 = Some (c, r)"
    by (auto simp: read_number_def split: option.splits)
  ultimately show ?thesis using num_shorter by (meson le_less_trans less_le_trans order_trans)
qed

lemma read_key_shorter: "read_key s = Some (k, r) \<Longrightarrow> length r < length s"
  by (cases s) (auto simp: read_key_def split: if_splits dest: read_chars_shorter)

lemma skip_ws_le: "length (skip_ws s) \<le> length s"
  by (rule length_skip_ws)

lemma skip_ws_cons: "skip_ws r = c # t \<Longrightarrow> length t < length r"
  using skip_ws_le [of r] by simp

lemma read_shorter:
  "read_value n d s = Some (v, r) \<Longrightarrow> length r < length s"
  "read_items n d s = Some (vs, r) \<Longrightarrow> length r < length s"
  "read_members n d s = Some (ms, r) \<Longrightarrow> length r < length s"
proof (induction n d s and n d s and n d s arbitrary: v r and vs r and ms r
    rule: read_value_read_items_read_members.induct)
  case (2 n d s)
  show ?case
  proof (cases s)
    case (Cons c t)
    have ws: "length (skip_ws t) \<le> length t" by (rule skip_ws_le)
    have ih: "length r < length (skip_ws t)" if "read_members n (d - 1) (skip_ws t) = Some (ms, r)"
        "c = CHR 0x7B" "d \<noteq> 0" "\<not> prefix ''}'' (skip_ws t)" for ms
      using 2(1) [of c t] Cons that by auto
    have ih': "length r < length (skip_ws t)" if "read_items n (d - 1) (skip_ws t) = Some (vs, r)"
        "c = CHR ''[''" "d \<noteq> 0" "\<not> prefix '']'' (skip_ws t)" for vs
      using 2(2) [of c t] Cons that by auto
    note run = 2(3) [unfolded read_value.simps(2) Cons, simplified list.case]
    consider "c = CHR 0x22" | "c = CHR 0x7B" | "c = CHR ''[''"
      | "c \<noteq> CHR 0x22" "c \<noteq> CHR 0x7B" "c \<noteq> CHR ''[''" by blast
    then show ?thesis
    proof cases
      case 1
      with run obtain x where "read_chars t = Some (x, r)" by auto
      from read_chars_shorter [OF this] show ?thesis by (simp add: Cons)
    next
      case 2
      show ?thesis
      proof (cases "prefix ''}'' (skip_ws t)")
        case True
        with run 2 have "r = tl (skip_ws t)" by (simp split: if_splits)
        with ws show ?thesis by (simp add: Cons)
      next
        case False
        with run 2 obtain ms where "read_members n (d - 1) (skip_ws t) = Some (ms, r)" "d \<noteq> 0"
          by (auto split: if_splits)
        with ih 2 False ws show ?thesis by (fastforce simp: Cons)
      qed
    next
      case 3
      show ?thesis
      proof (cases "prefix '']'' (skip_ws t)")
        case True
        with run 3 have "r = tl (skip_ws t)" by (simp split: if_splits)
        with ws show ?thesis by (simp add: Cons)
      next
        case False
        with run 3 obtain vs where "read_items n (d - 1) (skip_ws t) = Some (vs, r)" "d \<noteq> 0"
          by (auto split: if_splits)
        with ih' 3 False ws show ?thesis by (fastforce simp: Cons)
      qed
    next
      case 4
      with run have "r = drop 4 (c # t) \<and> prefix ''true'' (c # t) \<or> r = drop 5 (c # t) \<and> prefix ''false'' (c # t)
          \<or> r = drop 4 (c # t) \<and> prefix ''null'' (c # t) \<or> (\<exists>x. read_number (c # t) = Some (x, r))"
        by (auto split: if_split_asm)
      then show ?thesis using read_number_shorter [of "c # t" _ r] by (auto simp: Cons)
    qed
  qed (use 2(3) in \<open>simp add: read_value.simps(2)\<close>)
next
  case (4 n d s)
  from 4(3) obtain v0 r0 c t where v0: "read_value n d s = Some (v0, r0)" and c: "skip_ws r0 = c # t"
    by (auto simp: read_items.simps(2) split: option.splits list.splits)
  have lt: "length t < length s" using 4(1) [OF v0] skip_ws_cons [OF c] by simp
  show ?case
  proof (cases "c = CHR '']''")
    case True
    with 4(3) v0 c lt show ?thesis by (simp add: read_items.simps(2))
  next
    case False
    with 4(3) v0 c obtain vs' where "c = CHR '',''" "read_items n d (skip_ws t) = Some (vs', r)"
      by (auto simp: read_items.simps(2) split: if_splits)
    with 4(2) [OF v0 refl c False] have "length r < length (skip_ws t)" by blast
    with lt skip_ws_le [of t] show ?thesis by simp
  qed
next
  case (6 n d s)
  from 6(3) obtain k r0 c t where k: "read_key s = Some (k, r0)" and c: "skip_ws r0 = c # t" "c = CHR '':''"
    by (auto simp: read_members.simps(2) split: option.splits list.splits if_splits)
  have lt: "length (skip_ws t) < length s"
    using read_key_shorter [OF k] skip_ws_cons [OF c(1)] skip_ws_le [of t] by simp
  from 6(3) k c obtain v0 r1 e w where v0: "read_value n d (skip_ws t) = Some (v0, r1)" and e: "skip_ws r1 = e # w"
    by (auto simp: read_members.simps(2) Let_def split: option.splits list.splits)
  have lw: "length w < length s" using 6(1) [OF k refl c(1) _ refl v0] c(2) skip_ws_cons [OF e] lt by simp
  show ?case
  proof (cases "e = CHR 0x7D")
    case True
    with 6(3) k c v0 e lw show ?thesis by (simp add: read_members.simps(2) Let_def)
  next
    case False
    with 6(3) k c v0 e obtain ms' where "e = CHR '',''" "read_members n d (skip_ws w) = Some (ms', r)"
      by (auto simp: read_members.simps(2) Let_def split: if_splits)
    with 6(2) [OF k refl c(1) _ refl v0 refl refl e False] c(2) have "length r < length (skip_ws w)" by simp
    with lw skip_ws_le [of w] show ?thesis by simp
  qed
qed simp_all

text \<open>Every call takes at most two units of fuel before the text gets shorter.\<close>

lemma read_fuel:
  "(2 * length s + 2 \<le> n \<longrightarrow> 2 * length s + 2 \<le> n' \<longrightarrow> read_value n d s = read_value n' d s)
   \<and> (2 * length s + 3 \<le> n \<longrightarrow> 2 * length s + 3 \<le> n' \<longrightarrow>
        read_items n d s = read_items n' d s \<and> read_members n d s = read_members n' d s)"
proof (induction "length s" arbitrary: n n' d s rule: less_induct)
  case less
  have ih_value: "read_value n d u = read_value n' d u"
    if "length u < length s" "2 * length s \<le> n" "2 * length s \<le> n'" for u n n' d
    using less [of u n n' d] that by simp
  have ih: "read_items n d u = read_items n' d u" "read_members n d u = read_members n' d u"
    if "length u < length s" "2 * length s + 1 \<le> n" "2 * length s + 1 \<le> n'" for u n n' d
    using less [of u n n' d] that by simp_all
  have val: "read_value n d s = read_value n' d s"
    if n: "2 * length s + 2 \<le> n" "2 * length s + 2 \<le> n'" for n n' d
  proof -
    obtain m m' where m: "n = Suc m" "n' = Suc m'" "2 * length s + 1 \<le> m" "2 * length s + 1 \<le> m'"
      using n by (cases n; cases n') auto
    show ?thesis
    proof (cases s)
      case (Cons c t)
      have u: "length (skip_ws t) < length s" using skip_ws_le [of t] Cons by simp
      note eq = ih [OF u m(3,4)]
      show ?thesis
        unfolding m(1,2) read_value.simps(2) by (simp only: Cons list.case Let_def eq)
    qed (simp add: m read_value.simps(2))
  qed
  have tail: "length (skip_ws t) < length s" if "skip_ws r = c # t" "length r \<le> length s" for r c t
    using skip_ws_cons [OF that(1)] skip_ws_le [of t] that(2) by simp
  have items: "read_items n d s = read_items n' d s" and members: "read_members n d s = read_members n' d s"
    if n: "2 * length s + 3 \<le> n" "2 * length s + 3 \<le> n'" for n n' d
  proof -
    obtain m m' where m: "n = Suc m" "n' = Suc m'" "2 * length s + 2 \<le> m" "2 * length s + 2 \<le> m'"
      using n by (cases n; cases n') auto
    note eq = val [OF m(3,4), of d]
    have rec: "read_items m d (skip_ws t) = read_items m' d (skip_ws t)"
        "read_members m d (skip_ws t) = read_members m' d (skip_ws t)"
      if "skip_ws r = c # t" "length r \<le> length s" for r c t
      using ih [OF tail [OF that]] m by simp_all
    show "read_items n d s = read_items n' d s"
      unfolding m(1,2) read_items.simps(2) eq
      using read_shorter(1) [of m' d s] rec(1)
      by (auto split: option.split list.split simp: less_imp_le)
    show "read_members n d s = read_members n' d s"
    proof (cases "read_key s")
      case (Some kr)
      obtain k r0 where kr: "kr = (k, r0)" by fastforce
      have r0: "length r0 < length s" using read_key_shorter Some kr by blast
      show ?thesis
      proof (cases "skip_ws r0")
        case c: (Cons c t)
        have u: "length (skip_ws t) < length s" using tail [OF c] r0 by simp
        have eqv: "read_value m d (skip_ws t) = read_value m' d (skip_ws t)"
          using ih_value [OF u] m by simp
        have short: "length r1 \<le> length s" if "read_value m' d (skip_ws t) = Some (v, r1)" for v r1
          using read_shorter(1) [OF that] u by simp
        show ?thesis
          unfolding m(1,2) read_members.simps(2)
          using rec(2) short
          by (simp add: Some kr c eqv Let_def split: option.split list.split)
      qed (simp add: m read_members.simps(2) Some kr)
    qed (simp add: m read_members.simps(2))
  qed
  show ?case using val items members by blast
qed

text \<open>So more fuel gives nothing more.\<close>

lemma json_fuel_enough: "json_fuel s \<le> n \<Longrightarrow> read_value n d s = read_value (json_fuel s) d s"
  using read_fuel [of s n "json_fuel s" d] by (simp add: json_fuel_def)

section \<open>Structs\<close>

text \<open>A key names a field if they agree under simple case folding; for the names used here that is ASCII
  case, the Kelvin sign for \<open>k\<close> and the long s for \<open>s\<close>.\<close>

fun fold_key :: "bytes \<Rightarrow> bytes" where
  "fold_key (c # d # e # s) =
     (if c = CHR 0xE2 \<and> d = CHR 0x84 \<and> e = CHR 0xAA then CHR ''k'' # fold_key s
      else if c = CHR 0xC5 \<and> d = CHR 0xBF then CHR ''s'' # fold_key (e # s)
      else ascii_lower [c] @ fold_key (d # e # s))"
| "fold_key [c, d] = (if c = CHR 0xC5 \<and> d = CHR 0xBF then ''s'' else ascii_lower [c, d])"
| "fold_key s = ascii_lower s"

definition key_is :: "bytes \<Rightarrow> bytes \<times> bytes \<times> json \<Rightarrow> bool" where
  "key_is name m \<longleftrightarrow> fold_key (fst m) = fold_key name"

text \<open>The members of the struct's object, and whether the value is of the wrong type; \<open>null\<close> leaves a
  struct as it is.\<close>

definition struct_members :: "json \<Rightarrow> (bytes \<times> bytes \<times> json) list \<times> bool" where
  "struct_members v = (case v of JObj ms \<Rightarrow> (ms, False) | JNull \<Rightarrow> ([], False) | _ \<Rightarrow> ([], True))"

text \<open>The last member of a name wins; a value of the wrong type leaves the field and makes the whole
  decoding an error, \<open>null\<close> leaves the field.\<close>

definition decode_field ::
  "(json \<Rightarrow> 'a \<Rightarrow> 'a option) \<Rightarrow> bytes \<Rightarrow> (bytes \<times> bytes \<times> json) list \<Rightarrow> 'a \<Rightarrow> 'a \<times> bool" where
  "decode_field put name ms init =
     fold (\<lambda>m (x, bad). if key_is name m then (case put (snd (snd m)) x of Some y \<Rightarrow> (y, bad) | None \<Rightarrow> (x, True)) else (x, bad))
       ms (init, False)"

definition set_string :: "json \<Rightarrow> bytes \<Rightarrow> bytes option" where
  "set_string v x = (case v of JStr s \<Rightarrow> Some s | JNull \<Rightarrow> Some x | _ \<Rightarrow> None)"

definition set_bool :: "json \<Rightarrow> bool \<Rightarrow> bool option" where
  "set_bool v x = (case v of JBool b \<Rightarrow> Some b | JNull \<Rightarrow> Some x | _ \<Rightarrow> None)"

text \<open>A pointer to an \<open>int64\<close>: \<open>null\<close> clears it.\<close>

definition set_int_ptr :: "json \<Rightarrow> int option \<Rightarrow> int option option" where
  "set_int_ptr v x = (case v of JNum t \<Rightarrow> map_option Some (parse_int64 t) | JNull \<Rightarrow> Some None | _ \<Rightarrow> None)"

text \<open>\<open>json.RawMessage\<close> takes the text of any value.\<close>

definition raw_field :: "bytes \<Rightarrow> (bytes \<times> bytes \<times> json) list \<Rightarrow> bytes" where
  "raw_field name ms = fold (\<lambda>m x. if key_is name m then fst (snd m) else x) ms []"

definition string_field :: "bytes \<Rightarrow> (bytes \<times> bytes \<times> json) list \<Rightarrow> bytes \<times> bool" where
  "string_field name ms = decode_field set_string name ms []"

text \<open>\<open>json.Unmarshal\<close> into a string; the error is dropped, and a failed text leaves the empty string.\<close>

definition unmarshal_string :: "bytes \<Rightarrow> bytes" where
  "unmarshal_string s = (case parse_json s of Some (JStr x) \<Rightarrow> x | _ \<Rightarrow> [])"

end
