(* ===== verification/Hook.thy ===== *)
theory Hook
  imports Json_Value Session_Open Store_Purge Ingest
begin

text \<open>
  The hook of the coding agents, \<open>internal/hook/hook.go\<close> and \<open>shadow.go\<close>: one JSON message in, events in
  the session log, large tool outputs in the content store, and at most one answer on standard
  output.  It never fails: what goes wrong is a line in \<open>session.drops.log\<close>.
\<close>

section \<open>Input\<close>

record hook_input =
  h_event :: bytes
  h_session :: bytes
  h_cwd :: bytes
  h_source :: bytes
  h_tool :: bytes
  h_tool_input :: bytes
  h_tool_response :: bytes
  h_error :: bytes
  h_interrupt :: bool
  h_agent_id :: bytes
  h_agent_type :: bytes

text \<open>\<open>None\<close>: the text is no JSON or a field has the wrong type.\<close>

definition decode_hook_input :: "bytes \<Rightarrow> hook_input option" where
  "decode_hook_input data =
     (case parse_json data of
        None \<Rightarrow> None
      | Some v \<Rightarrow>
          let (ms, bad) = struct_members v;
              str = (\<lambda>n. string_field n ms);
              intr = decode_field set_bool ''is_interrupt'' ms False
          in if bad \<or> snd (str ''hook_event_name'') \<or> snd (str ''session_id'') \<or> snd (str ''cwd'')
               \<or> snd (str ''source'') \<or> snd (str ''tool_name'') \<or> snd (str ''error'') \<or> snd intr
             then None
             else Some \<lparr>h_event = fst (str ''hook_event_name''), h_session = fst (str ''session_id''),
               h_cwd = fst (str ''cwd''), h_source = fst (str ''source''), h_tool = fst (str ''tool_name''),
               h_tool_input = raw_field ''tool_input'' ms, h_tool_response = raw_field ''tool_response'' ms,
               h_error = fst (str ''error''), h_interrupt = fst intr,
               h_agent_id = raw_field ''agent_id'' ms, h_agent_type = raw_field ''agent_type'' ms\<rparr>)"

definition is_hex :: "char \<Rightarrow> bool" where
  "is_hex c \<longleftrightarrow> unhex1 c \<noteq> None"

definition canonicalUUID :: "bytes \<Rightarrow> bool" where
  "canonicalUUID s \<longleftrightarrow> length s = 36 \<and>
     (\<forall>i \<in> set [0..<36]. if i \<in> {8, 13, 18, 23} then s ! i = CHR ''-'' else is_hex (s ! i))"

datatype host = HostClaude | HostCodex

definition host_name :: "host \<Rightarrow> bytes" where
  "host_name h = (case h of HostClaude \<Rightarrow> ''cc'' | HostCodex \<Rightarrow> ''cx'')"

text \<open>The members a tool's input has, as \<open>Unmarshal\<close> with a dropped error leaves them.\<close>

definition input_members :: "bytes \<Rightarrow> (bytes \<times> bytes \<times> json) list" where
  "input_members raw = (case parse_json raw of Some v \<Rightarrow> fst (struct_members v) | None \<Rightarrow> [])"

definition input_string :: "bytes \<Rightarrow> bytes \<Rightarrow> bytes" where
  "input_string name raw = fst (string_field name (input_members raw))"

text \<open>The same where the error counts.\<close>

definition strict_command :: "bytes \<Rightarrow> bytes option" where
  "strict_command raw =
     (case parse_json raw of
        None \<Rightarrow> None
      | Some v \<Rightarrow>
          let (ms, bad) = struct_members v; (c, wrong) = string_field ''command'' ms in
          if bad \<or> wrong then None else Some c)"

section \<open>Surroundings\<close>

definition truncateUTF8 :: "bytes \<Rightarrow> nat \<Rightarrow> bytes" where
  "truncateUTF8 s n = (if length s \<le> n then s else take (rune_back s n) s)"

definition defaultDeadlineMS :: int where "defaultDeadlineMS = 2000"
definition defaultRetentionSec :: int where "defaultRetentionSec = 2592000"
definition maxStdinBytes :: nat where "maxStdinBytes = 8388608"
definition maxSourceBytes :: nat where "maxSourceBytes = 64"
definition defaultGuardReadMax :: int where "defaultGuardReadMax = 262144"
definition defaultShadowMinBytes :: int where "defaultShadowMinBytes = 16384"
definition defaultShadowMaxBytes :: int where "defaultShadowMaxBytes = 1048576"
definition maxAgentFieldBytes :: nat where "maxAgentFieldBytes = 256"

definition positive_env :: "bytes \<Rightarrow> int \<Rightarrow> int" where
  "positive_env v def = (case parse_int64 v of Some n \<Rightarrow> if 0 < n then n else def | None \<Rightarrow> def)"

definition retentionSec :: "(bytes \<Rightarrow> bytes) \<Rightarrow> int" where
  "retentionSec env =
     (case parse_int64 (env ''CTR_HOOK_RETENTION_SEC'') of
        Some n \<Rightarrow> if 0 \<le> n then n else defaultRetentionSec | None \<Rightarrow> defaultRetentionSec)"

definition guardReadMax :: "(bytes \<Rightarrow> bytes) \<Rightarrow> int" where
  "guardReadMax env = positive_env (env ''CTR_GUARD_READ_MAX'') defaultGuardReadMax"

definition shadowLimit :: "(bytes \<Rightarrow> bytes) \<Rightarrow> bytes \<Rightarrow> int \<Rightarrow> int" where
  "shadowLimit env key def = positive_env (env key) def"

text \<open>A line of the drop log, without its time: directory, reason, session, event, tool.\<close>

type_synonym drop_line = "bytes \<times> bytes \<times> bytes \<times> bytes \<times> bytes"

definition san_drop :: "bytes \<Rightarrow> bytes" where
  "san_drop s = (if s = [] then ''-'' else take 64 (map (\<lambda>c. if c \<in> {CHR 0x09, CHR 0x0A, CHR 0x0D} then CHR '' '' else c) s))"

definition drop_entry :: "bytes \<Rightarrow> bytes \<Rightarrow> bytes \<Rightarrow> bytes \<Rightarrow> bytes \<Rightarrow> drop_line" where
  "drop_entry dir reason sid event tool =
     (dir, san_drop reason, san_drop (if sid = [] then ''-'' else take 8 sid), san_drop event, san_drop tool)"

text \<open>What a run works on: the session directory, the content store, the drop log, standard
  output, the ledger.\<close>

record hook_world =
  k_dir :: session_dir
  k_store :: world
  k_drops :: "drop_line list"
  k_out :: "bytes list"
  k_ledger :: "(bytes \<times> int) list"

text \<open>What it meets: outcomes of calls, the environment, files, and the ingestion of one file.\<close>

record hook_io =
  o_tries :: nat                      \<comment> \<open>tries for the init lock before the deadline\<close>
  o_open :: open_io
  o_ensure :: session_io
  o_exists :: "go_error option"
  o_append :: "nat \<Rightarrow> session_io"     \<comment> \<open>the first, second and third append\<close>
  o_store :: "go_error option"        \<comment> \<open>\<open>store.OpenContext\<close>\<close>
  o_content_db :: bool                \<comment> \<open>\<open>content.db\<close> is there\<close>
  o_owned :: "go_error option"
  o_stat :: "bytes \<Rightarrow> (bool \<times> int) option"
  o_reg :: reg_io
  o_ctx :: "go_error option"          \<comment> \<open>the context when the shadow copy is ingested\<close>
  o_ledger :: bool                    \<comment> \<open>the ledger takes the row\<close>
  o_env :: "bytes \<Rightarrow> bytes"
  o_goos :: goos
  o_lower :: "rune \<Rightarrow> rune"
  o_ingest :: "request \<Rightarrow> world \<Rightarrow> world \<times> (go_error + report)"

definition appendDrop :: "bytes \<Rightarrow> bytes \<Rightarrow> bytes \<Rightarrow> hook_input \<Rightarrow> hook_world \<Rightarrow> hook_world" where
  "appendDrop dir reason sid inp w =
     w\<lparr>k_drops := k_drops w @ [drop_entry dir reason sid (h_event inp) (h_tool inp)]\<rparr>"

section \<open>Classification\<close>

definition sep_start :: regex where
  "sep_start = ralt [RBol, rcat [rset [CHR '';'', CHR ''&'', CHR ''|'', CHR 0x0A], RStar True rblank]]"

definition build_re :: regex where
  "build_re = rcat [sep_start, ralt [rlit ''go build'', rlit ''dotnet build'', rlit ''npm run build'',
     rlit ''msbuild'', rcat [rlit ''make'', ralt [rblank, REol]]]]"

definition test_re :: regex where
  "test_re = rcat [sep_start, ralt [rlit ''go test'', rlit ''dotnet test'', rlit ''pytest'', rlit ''vitest'', rlit ''npm test'']]"

text \<open>The first classifier is anchored at the start of the text, not of a line.\<close>

definition git_command :: "bytes \<Rightarrow> bool" where
  "git_command s \<longleftrightarrow> list_ex (\<lambda>v. prefix (''git '' @ v) s) [''diff'', ''commit'', ''merge'', ''rebase'', ''log'', ''status'']"

definition bash_type :: "bytes \<Rightarrow> bytes" where
  "bash_type cmd =
     (if git_command cmd then ''git_diff''
      else if re_match build_re cmd then ''build_run''
      else if re_match test_re cmd then ''test_run''
      else ''tool_call'')"

definition bashFirstToken :: "bytes \<Rightarrow> bytes" where
  "bashFirstToken cmd =
     (case Go_Strings.fields cmd of
        [] \<Rightarrow> ''<arg>''
      | f # _ \<Rightarrow> if \<forall>c \<in> set f. is_lower c \<or> is_upper c \<or> is_digit c \<or> c \<in> set ''_./-'' then f else ''<arg>'')"

definition errCodeRe :: regex where
  "errCodeRe = rcat [ralt [rfold ''status code'', rfold ''exit code'', rfold ''code''], rplus rblank,
     RGrp (rplus (ranges [(48, 57)] []))]"

text \<open>The values an event's attributes take.\<close>

datatype attr = AStr bytes | ABool bool | AInt int

type_synonym attrs = "(bytes \<times> attr) list"

definition marshal_attr :: "attr \<Rightarrow> bytes" where
  "marshal_attr a = (case a of AStr s \<Rightarrow> json_string s | ABool b \<Rightarrow> if b then ''true'' else ''false'' | AInt i \<Rightarrow> itoa i)"

text \<open>\<open>json.Marshal\<close> of a map writes the keys in order.\<close>

definition marshal_attrs :: "attrs \<Rightarrow> bytes" where
  "marshal_attrs as =
     CHR 0x7B # join '','' (map (\<lambda>(k, v). json_string k @ '':'' @ marshal_attr v) (sort_key fst as)) @ ''}''"

text \<open>\<open>Atoi\<close> of a number that is too large gives the largest one; the error is dropped.\<close>

definition atoi_digits :: "bytes \<Rightarrow> int" where
  "atoi_digits ds = (case parse_int64 ds of Some n \<Rightarrow> n | None \<Rightarrow> int64_max)"

definition classifyError :: "bytes \<Rightarrow> bool \<Rightarrow> bytes \<times> attrs" where
  "classifyError err interrupted =
     (if interrupted then (''interrupted'', [(''is_interrupt'', ABool True)])
      else (case find_first errCodeRe err 0 of
          Some (_, _, Some (a, b)) \<Rightarrow>
            let ds = take (b - a) (drop a err) in (''exit '' @ ds, [(''exit_code'', AInt (atoi_digits ds))])
        | _ \<Rightarrow> (''failed'', [])))"

definition workspaceRel :: "bytes \<Rightarrow> bytes \<Rightarrow> bytes" where
  "workspaceRel base path = (if path = [] then [] else case Rel base path of Some r \<Rightarrow> r | None \<Rightarrow> Base path)"

definition summaryLine :: "bytes \<Rightarrow> bytes \<Rightarrow> bytes" where
  "summaryLine tool element = (if tool = [] then element else if element = [] then tool else tool @ '': '' @ element)"

definition agentStrings :: "hook_input \<Rightarrow> bytes \<times> bytes" where
  "agentStrings inp =
     (let f = (\<lambda>raw. let s = unmarshal_string raw in if maxAgentFieldBytes < length s then [] else s)
      in (f (h_agent_id inp), f (h_agent_type inp)))"

definition edited_path :: "hook_input \<Rightarrow> bytes" where
  "edited_path inp =
     (let p = input_string ''file_path'' (h_tool_input inp) in
      if p = [] then input_string ''notebook_path'' (h_tool_input inp) else p)"

definition classify :: "hook_input \<Rightarrow> bytes \<times> bytes \<times> attrs" where
  "classify inp =
     (if h_event inp = ''SubagentStart'' \<or> h_event inp = ''SubagentStop'' then
        let (et, verb) = (if h_event inp = ''SubagentStop'' then (''subagent_stop'', ''stopped'') else (''subagent_start'', ''started''));
            (aid, ty) = agentStrings inp
        in (et, ''subagent '' @ verb @ (if ty = [] then [] else '': '' @ ty), [(''agent_id'', AStr aid), (''agent_type'', AStr ty)])
      else if h_event inp = ''PostToolUseFailure'' then
        let (element, as) = classifyError (h_error inp) (h_interrupt inp) in (''error'', summaryLine (h_tool inp) element, as)
      else if h_tool inp = ''Bash'' then
        let cmd = input_string ''command'' (h_tool_input inp); et = bash_type cmd in
        (et, summaryLine ''Bash'' (bashFirstToken cmd), if et = ''tool_call'' then [] else [(''matched_pattern'', AStr et)])
      else if h_tool inp = ''Write'' \<or> h_tool inp = ''Edit'' \<or> h_tool inp = ''NotebookEdit'' then
        (''file_edit'', summaryLine (h_tool inp) (workspaceRel (h_cwd inp) (edited_path inp)), [])
      else (''tool_call'', summaryLine (h_tool inp) [], []))"

definition hook_event :: "bytes \<Rightarrow> bytes \<Rightarrow> event" where
  "hook_event ty summary = \<lparr>ev_type = ty, ev_summary = summary, ev_attributes = [], ev_refs = [], ev_related = [],
     ev_supersedes = [], ev_redaction = []\<rparr>"

definition redacted :: "bytes \<Rightarrow> bytes \<times> bool" where
  "redacted s = (let (r, n) = Redact s in if 0 < n then (r, True) else (s, False))"

definition buildEvent :: "hook_input \<Rightarrow> event option" where
  "buildEvent inp =
     (let (ty, summary, as) = classify inp; (aid, aty) = agentStrings inp;
          as1 = (if aid = [] then as else AList.update ''agent_type'' (AStr aty) (AList.update ''agent_id'' (AStr aid) as));
          (red, spans) = redacted summary; short = truncateUTF8 red MaxSummaryBytes
      in if short = [] then None
         else Some ((hook_event ty short)\<lparr>ev_attributes := (if as1 = [] then [] else marshal_attrs as1),
           ev_redaction := (if spans then ''spans'' else ''none'')\<rparr>))"

section \<open>Answers\<close>

definition denyReasonIndexed :: bytes where
  "denyReasonIndexed =
     [CHR 0xEC, CHR 0x9D, CHR 0xB4, CHR 0xEB, CHR 0xAF, CHR 0xB8] @ '' '' @ [CHR 0xEC, CHR 0x9D, CHR 0xB8,
     CHR 0xEB, CHR 0x8D, CHR 0xB1, CHR 0xEC, CHR 0x8A, CHR 0xA4, CHR 0xEB, CHR 0x90, CHR 0xA8] @ '' '' @
     [CHR 0xE2, CHR 0x80, CHR 0x94] @ '' ctr_search'' @ [CHR 0xEB, CHR 0xA1, CHR 0x9C] @ '' '' @ [CHR 0xEA,
     CHR 0xB2, CHR 0x80, CHR 0xEC, CHR 0x83, CHR 0x89] @ '', ctr_fetch'' @ [CHR 0xEB, CHR 0xA1, CHR 0x9C] @
     '' '' @ [CHR 0xEB, CHR 0xB0, CHR 0x94, CHR 0xEC, CHR 0x9D, CHR 0xB4, CHR 0xED, CHR 0x8A, CHR 0xB8] @ ''
     '' @ [CHR 0xEC, CHR 0xA0, CHR 0x95, CHR 0xED, CHR 0x99, CHR 0x95] @ '' '' @ [CHR 0xEC, CHR 0xA1, CHR
     0xB0, CHR 0xED, CHR 0x9A, CHR 0x8C]"

definition denyReasonGrep :: bytes where
  "denyReasonGrep =
     [CHR 0xEB, CHR 0xAC, CHR 0xB4, CHR 0xEC, CHR 0xA0, CHR 0x9C, CHR 0xED, CHR 0x95, CHR 0x9C] @ '' content
     '' @ [CHR 0xEA, CHR 0xB2, CHR 0x80, CHR 0xEC, CHR 0x83, CHR 0x89] @ '' '' @ [CHR 0xE2, CHR 0x80, CHR
     0x94] @ '' head_limit'' @ [CHR 0xEC, CHR 0x9D, CHR 0x84] @ '' '' @ [CHR 0xEC, CHR 0xA7, CHR 0x80, CHR
     0xEC, CHR 0xA0, CHR 0x95, CHR 0xED, CHR 0x95, CHR 0x98, CHR 0xEA, CHR 0xB1, CHR 0xB0, CHR 0xEB, CHR
     0x82, CHR 0x98] @ '' ctr_search'' @ [CHR 0xEB, CHR 0xA1, CHR 0x9C] @ '' '' @ [CHR 0xEA, CHR 0xB2, CHR
     0x80, CHR 0xEC, CHR 0x83, CHR 0x89]"

definition recallHint :: bytes where
  "recallHint =
     ''context-router: '' @ [CHR 0xEC, CHR 0x9D, CHR 0xB4] @ '' '' @ [CHR 0xED, CHR 0x94, CHR 0x84, CHR
     0xEB, CHR 0xA1, CHR 0x9C, CHR 0xEC, CHR 0xA0, CHR 0x9D, CHR 0xED, CHR 0x8A, CHR 0xB8, CHR 0xEC, CHR
     0x97, CHR 0x90] @ '' '' @ [CHR 0xEB, CHR 0xB3, CHR 0xB4, CHR 0xEA, CHR 0xB4, CHR 0x80, CHR 0xEB, CHR
     0x90, CHR 0x9C] @ '' '' @ [CHR 0xEB, CHR 0x8F, CHR 0x84, CHR 0xEA, CHR 0xB5, CHR 0xAC] @ '' '' @ [CHR
     0xEC, CHR 0xB6, CHR 0x9C, CHR 0xEB, CHR 0xA0, CHR 0xA5] @ '' '' @ [CHR 0xE2, CHR 0x80, CHR 0x94] @ ''
     ctr_search'' @ [CHR 0xEB, CHR 0xA1, CHR 0x9C] @ '' '' @ [CHR 0xEA, CHR 0xB2, CHR 0x80, CHR 0xEC, CHR
     0x83, CHR 0x89] @ '', ctr_fetch'' @ [CHR 0xEB, CHR 0xA1, CHR 0x9C] @ '' '' @ [CHR 0xEB, CHR 0xB0, CHR
     0x94, CHR 0xEC, CHR 0x9D, CHR 0xB4, CHR 0xED, CHR 0x8A, CHR 0xB8] @ '' '' @ [CHR 0xEC, CHR 0xA0, CHR
     0x95, CHR 0xED, CHR 0x99, CHR 0x95] @ '' '' @ [CHR 0xEC, CHR 0xA1, CHR 0xB0, CHR 0xED, CHR 0x9A, CHR
     0x8C]"

definition answer :: "attrs \<Rightarrow> bytes" where
  "answer as = CHR 0x7B # json_string ''hookSpecificOutput'' @ '':'' @ marshal_attrs as @ ''}''"

definition deny_answer :: "bytes \<Rightarrow> bytes" where
  "deny_answer reason =
     answer [(''hookEventName'', AStr ''PreToolUse''), (''permissionDecision'', AStr ''deny''),
       (''permissionDecisionReason'', AStr reason)]"

definition hint_answer :: bytes where
  "hint_answer = answer [(''hookEventName'', AStr ''SessionStart''), (''additionalContext'', AStr recallHint)]"

definition write_out :: "bytes \<Rightarrow> hook_world \<Rightarrow> hook_world" where
  "write_out b w = w\<lparr>k_out := k_out w @ [b]\<rparr>"

text \<open>\<open>ad.Append\<close> on the open log; the error is what \<open>Append\<close> returns.\<close>

definition append_to ::
  "session_io \<Rightarrow> append_handle \<Rightarrow> event \<Rightarrow> hook_world \<Rightarrow> hook_world \<times> go_error option" where
  "append_to io ad ev w =
     (case AppendDB_Append io (ad_session ad) ev (d_world (k_dir w)) of
        (dw, r) \<Rightarrow> (w\<lparr>k_dir := (k_dir w)\<lparr>d_world := dw\<rparr>\<rparr>, case r of Inl e \<Rightarrow> Some e | Inr _ \<Rightarrow> None))"

definition append_or_drop ::
  "session_io \<Rightarrow> append_handle \<Rightarrow> bytes \<Rightarrow> bytes \<Rightarrow> bytes \<Rightarrow> hook_input \<Rightarrow> event \<Rightarrow> hook_world \<Rightarrow> hook_world" where
  "append_or_drop io ad dir reason sid inp ev w =
     (case append_to io ad ev w of
        (w', None) \<Rightarrow> w' | (w', Some e) \<Rightarrow> appendDrop dir reason sid inp w')"

definition denyTool ::
  "session_io \<Rightarrow> append_handle \<Rightarrow> bytes \<Rightarrow> hook_input \<Rightarrow> bytes \<Rightarrow> bytes \<Rightarrow> bytes \<Rightarrow> hook_world \<Rightarrow> hook_world" where
  "denyTool io ad dir inp tool detail reason w =
     append_or_drop io ad dir ''guard-append'' [] inp
       (hook_event ''warning'' (truncateUTF8 (fst (redacted (summaryLine tool detail))) MaxSummaryBytes))
       (write_out (deny_answer reason) w)"

section \<open>Guards\<close>

definition printable :: "bytes \<Rightarrow> bool" where
  "printable s \<longleftrightarrow> (\<forall>c \<in> set s. 32 \<le> (byte c :: nat) \<and> (byte c :: nat) \<le> 126)"

definition bash_special :: bytes where
  "bash_special = ''|&;<>$(){}*?[]~#'' @ [CHR 0x60, CHR 0x27, CHR 0x22, CHR 0x5C]"

definition ps_special :: bytes where
  "ps_special = ''|&;<>$(){}*?[]~#@,'' @ [CHR 0x60, CHR 0x27, CHR 0x22]"

text \<open>The one argument of a command that dumps a file, or nothing.\<close>

definition bashDumpArg :: "bytes \<Rightarrow> bytes" where
  "bashDumpArg cmd =
     (if \<not> printable cmd \<or> (\<exists>c \<in> set cmd. c \<in> set bash_special) then []
      else (case Go_Strings.fields cmd of
          [f, a] \<Rightarrow> if f \<noteq> ''cat'' \<or> prefix ''-'' a then [] else a
        | _ \<Rightarrow> []))"

definition psDumpArg :: "bytes \<Rightarrow> bytes" where
  "psDumpArg cmd =
     (if \<not> printable cmd \<or> (\<exists>c \<in> set cmd. c \<in> set ps_special) then []
      else (case Go_Strings.fields cmd of
          [f, a] \<Rightarrow>
            if prefix ''-'' a then []
            else if ascii_lower f \<in> {''get-content'', ''gc'', ''cat'', ''type''} then a else []
        | _ \<Rightarrow> []))"

definition is_letter :: "char \<Rightarrow> bool" where
  "is_letter c \<longleftrightarrow> is_lower c \<or> is_upper c"

definition drive_path :: "bytes \<Rightarrow> bytes" where
  "drive_path a = (case a of l # c # s # _ \<Rightarrow> if is_letter l \<and> c = CHR '':'' \<and> s = CHR ''/'' then a else [] | _ \<Rightarrow> [])"

definition dumpAbsPath :: "goos \<Rightarrow> bytes \<Rightarrow> bytes" where
  "dumpAbsPath os arg =
     (if os = Windows then
        drive_path (case arg of
          s # l # s' # r \<Rightarrow> if s = CHR ''/'' \<and> s' = CHR ''/'' \<and> is_letter l then l # CHR '':'' # s' # r else arg
        | _ \<Rightarrow> arg)
      else if prefix ''/'' arg then arg else [])"

definition psAbsPath :: "goos \<Rightarrow> bytes \<Rightarrow> bytes" where
  "psAbsPath os arg =
     (if os = Windows then drive_path (replace_char (CHR 0x5C) ''/'' arg)
      else if prefix ''/'' arg then arg else [])"

definition guardDumpPath :: "host \<Rightarrow> goos \<Rightarrow> bytes \<Rightarrow> bytes" where
  "guardDumpPath h os cmd =
     (if h = HostCodex \<and> os = Windows then psAbsPath os (psDumpArg cmd) else dumpAbsPath os (bashDumpArg cmd))"

definition file_request :: "bytes \<Rightarrow> request" where
  "file_request path = \<lparr>q_path = path, q_content = [], q_title = [], q_include = [], q_exclude = [], q_maxbytes = 0, q_kind = []\<rparr>"

text \<open>What the three guards on files do once they know the path: index it if it is large, and deny the
  tool if that stored it.\<close>

definition em_dash :: bytes where "em_dash = [CHR 0xE2, CHR 0x80, CHR 0x94]"

definition guard_file ::
  "hook_io \<Rightarrow> append_handle \<Rightarrow> bytes \<Rightarrow> hook_input \<Rightarrow> bytes \<Rightarrow> bytes \<Rightarrow> (int \<Rightarrow> bytes) \<Rightarrow> hook_world \<Rightarrow> hook_world" where
  "guard_file io ad dir inp path tool detail w =
     (case o_stat io path of
        None \<Rightarrow> w
      | Some (isdir, sz) \<Rightarrow>
          if isdir \<or> sz \<le> guardReadMax (o_env io) then w
          else (case o_store io of
              Some e \<Rightarrow> appendDrop dir ''guard-store'' [] inp w
            | None \<Rightarrow>
                (case o_ingest io (file_request path) (k_store w) of
                   (st, r) \<Rightarrow>
                     let w' = w\<lparr>k_store := st\<rparr> in
                     (case r of
                        Inl e \<Rightarrow> w'
                      | Inr rep \<Rightarrow>
                          if rep_indexed rep \<noteq> 1 then w'
                          else denyTool (o_append io 0) ad dir inp tool (detail sz) denyReasonIndexed w'))))"

text \<open>A member of the input that is missing or null, an error, or a value.\<close>

definition guardRead :: "hook_io \<Rightarrow> append_handle \<Rightarrow> bytes \<Rightarrow> hook_input \<Rightarrow> hook_world \<Rightarrow> hook_world" where
  "guardRead io ad dir inp w =
     (case parse_json (h_tool_input inp) of
        None \<Rightarrow> w
      | Some v \<Rightarrow>
          let (ms, bad) = struct_members v; (path, e1) = string_field ''file_path'' ms;
              (off, e2) = decode_field set_int_ptr ''offset'' ms None;
              (lim, e3) = decode_field set_int_ptr ''limit'' ms None
          in if bad \<or> e1 \<or> e2 \<or> e3 \<or> path = [] \<or> off \<noteq> None \<or> lim \<noteq> None then w
             else guard_file io ad dir inp path ''Read''
               (\<lambda>sz. workspaceRel (h_cwd inp) path @ '' '' @ itoa sz @ ''B'') w)"

definition guardGrep :: "hook_io \<Rightarrow> append_handle \<Rightarrow> bytes \<Rightarrow> hook_input \<Rightarrow> hook_world \<Rightarrow> hook_world" where
  "guardGrep io ad dir inp w =
     (case parse_json (h_tool_input inp) of
        None \<Rightarrow> w
      | Some v \<Rightarrow>
          let (ms, bad) = struct_members v; (mode, e1) = string_field ''output_mode'' ms;
              (lim, e2) = decode_field set_int_ptr ''head_limit'' ms None
          in if bad \<or> e1 \<or> e2 \<or> mode \<noteq> ''content'' \<or> lim \<noteq> Some 0 then w
             else denyTool (o_append io 0) ad dir inp ''Grep'' ''head_limit=0 content'' denyReasonGrep w)"

definition dump_detail :: "hook_input \<Rightarrow> bytes \<Rightarrow> bytes \<Rightarrow> int \<Rightarrow> bytes" where
  "dump_detail inp token path sz =
     token @ '' '' @ workspaceRel (h_cwd inp) path @ '' '' @ itoa sz @ ''B '' @ em_dash @ '' ctr_search/ctr_fetch''"

definition guardBash :: "hook_io \<Rightarrow> append_handle \<Rightarrow> bytes \<Rightarrow> host \<Rightarrow> hook_input \<Rightarrow> hook_world \<Rightarrow> hook_world" where
  "guardBash io ad dir h inp w =
     (case strict_command (h_tool_input inp) of
        None \<Rightarrow> w
      | Some cmd \<Rightarrow>
          let path = guardDumpPath h (o_goos io) cmd;
              token = (if h = HostCodex \<and> o_goos io = Windows then hd (Go_Strings.fields cmd) else ''cat'')
          in if path = [] then w
             else guard_file io ad dir inp path ''Bash'' (dump_detail inp token path) w)"

definition guardPowerShell :: "hook_io \<Rightarrow> append_handle \<Rightarrow> bytes \<Rightarrow> hook_input \<Rightarrow> hook_world \<Rightarrow> hook_world" where
  "guardPowerShell io ad dir inp w =
     (case strict_command (h_tool_input inp) of
        None \<Rightarrow> w
      | Some cmd \<Rightarrow>
          let path = psAbsPath (o_goos io) (psDumpArg cmd)
          in if path = [] then w
             else guard_file io ad dir inp path ''PowerShell'' (dump_detail inp (hd (Go_Strings.fields cmd)) path) w)"

section \<open>Shadow copies\<close>

definition shadowInputDenied :: "bytes \<Rightarrow> bool" where
  "shadowInputDenied raw =
     (let p = input_string ''file_path'' raw; q = (if p = [] then input_string ''notebook_path'' raw else p)
      in q \<noteq> [] \<and> DeniedFilename q)"

definition commandDumpPath :: "hook_input \<Rightarrow> bytes" where
  "commandDumpPath inp =
     (let cmd = input_string ''command'' (h_tool_input inp);
          p = (if h_tool inp = ''Bash'' then bashDumpArg cmd else if h_tool inp = ''PowerShell'' then psDumpArg cmd else [])
      in if p = [] then [] else Clean p)"

text \<open>The strings in a decoded value; of members with the same key the last one counts.\<close>

fun last_members :: "(bytes \<times> bytes \<times> json) list \<Rightarrow> (bytes \<times> bytes \<times> json) list" where
  "last_members [] = []"
| "last_members (m # ms) = (if fst m \<in> fst ` set ms then last_members ms else m # last_members ms)"

lemma last_members_subset: "set (last_members ms) \<subseteq> set ms"
  by (induction ms) auto

function stringLeaves :: "json \<Rightarrow> bytes list" where
  "stringLeaves (JStr s) = [s]"
| "stringLeaves (JArr vs) = concat (map stringLeaves vs)"
| "stringLeaves (JObj ms) = concat (map (\<lambda>m. stringLeaves (snd (snd m))) (last_members ms))"
| "stringLeaves JNull = []"
| "stringLeaves (JBool b) = []"
| "stringLeaves (JNum n) = []"
  by pat_completeness auto
termination
proof (relation "measure size")
  fix ms and m :: "bytes \<times> bytes \<times> json"
  assume "m \<in> set (last_members ms)"
  then have "m \<in> set ms" using last_members_subset by blast
  then have "size (snd (snd m)) < size (JObj ms)"
    by (induction ms) auto
  then show "(snd (snd m), JObj ms) \<in> measure size" by simp
qed (auto simp: less_Suc_eq_le size_list_estimation')

definition shadow_request :: "hook_input \<Rightarrow> request" where
  "shadow_request inp = \<lparr>q_path = [], q_content = h_tool_response inp, q_title = h_tool inp, q_include = [],
     q_exclude = [], q_maxbytes = 0, q_kind = ''hook''\<rparr>"

definition artifact_ref :: "bytes \<Rightarrow> bytes \<Rightarrow> bytes" where
  "artifact_ref external hash = ''artifact://'' @ external @ ''/sha256-'' @ hash"

text \<open>Whether a response is to be kept, or the reason for the drop log (empty for silence).\<close>

definition shadow_refusal :: "hook_io \<Rightarrow> hook_input \<Rightarrow> bytes option" where
  "shadow_refusal io inp =
     (let body = h_tool_response inp; sz = int (length body) in
      if o_env io ''CTR_SHADOW_OFF'' = ''1'' then Some []
      else if sz \<le> shadowLimit (o_env io) ''CTR_SHADOW_MIN'' defaultShadowMinBytes then Some []
      else if shadowLimit (o_env io) ''CTR_SHADOW_MAX'' defaultShadowMaxBytes < sz then Some ''shadow-oversize''
      else if (h_tool inp = ''Read'' \<or> h_tool inp = ''NotebookRead'') \<and> shadowInputDenied (h_tool_input inp)
        then Some ''shadow-denylist''
      else if commandDumpPath inp \<noteq> [] \<and> DeniedFilename (commandDumpPath inp) then Some ''shadow-denylist''
      else (case decode_first body of
          None \<Rightarrow> Some []
        | Some v \<Rightarrow>
            if list_ex (\<lambda>leaf. CHR 0x00 \<in> set leaf \<or> IsBinary leaf) (stringLeaves v) then Some [] else None))"

definition shadow_ingest :: "hook_io \<Rightarrow> hook_input \<Rightarrow> world \<Rightarrow> world \<times> (go_error + report)" where
  "shadow_ingest io inp st =
     (case o_ctx io of
        Some e \<Rightarrow> (st, Inl e)
      | None \<Rightarrow> runInline (o_lower io) (o_reg io) (shadow_request inp) st)"

definition shadow_events :: "bytes \<Rightarrow> hook_input \<Rightarrow> bytes \<Rightarrow> event list" where
  "shadow_events external inp hash =
     [(hook_event ''artifact_created'' (summaryLine (h_tool inp) ''shadow artifact''))\<lparr>ev_refs := [artifact_ref external hash]\<rparr>,
      (hook_event ''tool_result_summary''
         (summaryLine (h_tool inp) (itoa (int (length (h_tool_response inp))) @ ''B'')))\<lparr>ev_refs := [artifact_ref external hash]\<rparr>]"

definition shadowCapture ::
  "hook_io \<Rightarrow> append_handle \<Rightarrow> bytes \<Rightarrow> bytes \<Rightarrow> hook_input \<Rightarrow> hook_world \<Rightarrow> hook_world" where
  "shadowCapture io ad dir external inp w =
     (case shadow_refusal io inp of
        Some reason \<Rightarrow> if reason = [] then w else appendDrop dir reason external inp w
      | None \<Rightarrow>
          (case o_store io of
             Some e \<Rightarrow> appendDrop dir ''shadow-store'' external inp w
           | None \<Rightarrow>
               (case shadow_ingest io inp (k_store w) of
                  (st, Inl e) \<Rightarrow> appendDrop dir ''shadow-ingest'' external inp (w\<lparr>k_store := st\<rparr>)
                | (st, Inr rep) \<Rightarrow>
                    let w1 = w\<lparr>k_store := st\<rparr> in
                    if rep_indexed rep = 0 \<or> rep_hash rep = [] then appendDrop dir ''shadow-ingest'' external inp w1
                    else
                      let es = shadow_events external inp (rep_hash rep);
                          w2 = append_or_drop (o_append io 1) ad dir ''shadow-append'' external inp (es ! 0) w1;
                          w3 = append_or_drop (o_append io 2) ad dir ''shadow-append'' external inp (es ! 1) w2
                      in if o_ledger io then w3\<lparr>k_ledger := k_ledger w3 @ [(''hook:shadow'', int (length (h_tool_response inp)))]\<rparr>
                         else w3)))"

section \<open>Dispatch\<close>

definition injectRecallHint :: "hook_io \<Rightarrow> bytes \<Rightarrow> host \<Rightarrow> bytes \<Rightarrow> hook_input \<Rightarrow> hook_world \<Rightarrow> hook_world" where
  "injectRecallHint io dir h source inp w =
     (let quiet = inp\<lparr>h_tool := []\<rparr> in
      if source \<noteq> ''compact'' \<or> h \<noteq> HostClaude then w
      else if \<not> o_content_db io then appendDrop dir ''hint-empty'' [] quiet w
      else if o_store io \<noteq> None then appendDrop dir ''hint-unavailable'' [] quiet w
      else if o_owned io \<noteq> None then appendDrop dir ''hint-unavailable'' [] quiet w
      else if \<not> ShadowOwnedExists (snd (k_store w)) then appendDrop dir ''hint-empty'' [] quiet w
      else appendDrop dir ''hint-ok'' [] quiet (write_out hint_answer w))"

definition ensure_session ::
  "hook_io \<Rightarrow> append_handle \<Rightarrow> bytes \<Rightarrow> bytes \<Rightarrow> hook_world \<Rightarrow> hook_world \<times> go_error option" where
  "ensure_session io ad source root w =
     (case EnsureSession (o_ensure io) ad source root (d_world (k_dir w)) of
        (dw, r) \<Rightarrow> (w\<lparr>k_dir := (k_dir w)\<lparr>d_world := dw\<rparr>\<rparr>, case r of Inl e \<Rightarrow> Some e | Inr _ \<Rightarrow> None))"

definition append_built :: "hook_io \<Rightarrow> append_handle \<Rightarrow> bytes \<Rightarrow> bytes \<Rightarrow> hook_input \<Rightarrow> hook_world \<Rightarrow> hook_world" where
  "append_built io ad dir external inp w =
     (case buildEvent inp of
        None \<Rightarrow> w
      | Some ev \<Rightarrow> append_or_drop (o_append io 0) ad dir ''append-failed'' external inp ev w)"

text \<open>What follows the session check.\<close>

definition handle_event ::
  "hook_io \<Rightarrow> append_handle \<Rightarrow> bytes \<Rightarrow> bytes \<Rightarrow> host \<Rightarrow> hook_input \<Rightarrow> hook_world \<Rightarrow> hook_world" where
  "handle_event io ad dir external h inp w =
     (if h_event inp = ''PreToolUse'' then
        (if h_tool inp = ''Read'' then guardRead io ad dir inp w
         else if h_tool inp = ''Bash'' then guardBash io ad dir h inp w
         else if h_tool inp = ''PowerShell'' then guardPowerShell io ad dir inp w
         else if h_tool inp = ''Grep'' then guardGrep io ad dir inp w
         else w)
      else if h_event inp = ''SubagentStart'' \<or> h_event inp = ''SubagentStop'' then append_built io ad dir external inp w
      else if h_event inp = ''PostToolUse'' then shadowCapture io ad dir external inp (append_built io ad dir external inp w)
      else if h_event inp = ''PostToolUseFailure'' then append_built io ad dir external inp w
      else w)"

definition openErrReason :: "go_error \<Rightarrow> bytes" where
  "openErrReason e =
     (if e = SessionLeaseHeld then ''lease-held'' else if e = SessionRecoverPending then ''recover-pending''
      else ''open-failed'')"

definition with_log ::
  "hook_io \<Rightarrow> append_handle \<Rightarrow> bytes \<Rightarrow> bytes \<Rightarrow> bytes \<Rightarrow> host \<Rightarrow> hook_input \<Rightarrow> hook_world \<Rightarrow> hook_world" where
  "with_log io ad dir root external h inp w =
     (if h_event inp = ''SessionStart'' then
        (let src = truncateUTF8 (h_source inp) maxSourceBytes in
         (case ensure_session io ad src root w of
            (w1, r) \<Rightarrow> injectRecallHint io dir h src inp
               (if r = None then w1 else appendDrop dir ''ensure-failed'' external inp w1)))
      else (case SessionExists (o_exists io) ad (snd (d_world (k_dir w))) of
          Inl e \<Rightarrow> appendDrop dir ''session-check-failed'' external inp w
        | Inr True \<Rightarrow> handle_event io ad dir external h inp w
        | Inr False \<Rightarrow>
            (case ensure_session io ad ''first-event'' root w of
               (w1, Some e) \<Rightarrow> appendDrop dir ''ensure-failed'' external inp w1
             | (w1, None) \<Rightarrow> handle_event io ad dir external h inp w1)))"

definition dispatch ::
  "hook_io \<Rightarrow> bytes \<Rightarrow> bytes \<Rightarrow> bytes \<Rightarrow> host \<Rightarrow> hook_input \<Rightarrow> hook_world \<Rightarrow> hook_world" where
  "dispatch io version dir root h inp w =
     (let external = host_name h @ '':'' @ h_session inp;
          opts = \<lparr>ad_session = external, ad_producer = ''context-router/'' @ version, ad_retention = retentionSec (o_env io)\<rparr>
      in (case OpenAppend (o_tries io) (o_open io) opts (k_dir w) of
            (d, Inl e) \<Rightarrow> appendDrop dir (openErrReason e) external inp (w\<lparr>k_dir := d\<rparr>)
          | (d, Inr ad) \<Rightarrow>
              (let w' = with_log io ad dir root external h inp (w\<lparr>k_dir := d\<rparr>)
               in w'\<lparr>k_dir := Close (k_dir w')\<rparr>)))"

text \<open>The text from standard input, or a failed read; \<open>host\<close> is the flag as given.  The result is the
  exit code and the world.\<close>

definition host_of :: "bytes \<Rightarrow> host option" where
  "host_of s = (if s = ''cc'' then Some HostClaude else if s = ''cx'' then Some HostCodex else None)"

definition no_input :: hook_input where
  "no_input = \<lparr>h_event = [], h_session = [], h_cwd = [], h_source = [], h_tool = [], h_tool_input = [],
     h_tool_response = [], h_error = [], h_interrupt = False, h_agent_id = [], h_agent_type = []\<rparr>"

definition hook_Run ::
  "hook_io \<Rightarrow> path_fs \<Rightarrow> bytes \<Rightarrow> bytes \<Rightarrow> bytes \<Rightarrow> bytes option \<Rightarrow> hook_world \<Rightarrow>
     int \<times> hook_world" where
  "hook_Run io fs storeRoot version hostArg stdin w =
     (if o_env io ''CTR_HOOKS_OFF'' = ''1'' then (0, w)
      else (case host_of hostArg of
          None \<Rightarrow> (0, appendDrop storeRoot ''bad-host'' [] no_input w)
        | Some h \<Rightarrow>
            (case stdin of
               None \<Rightarrow> (0, appendDrop storeRoot ''bad-input'' [] no_input w)
             | Some data \<Rightarrow>
                 if maxStdinBytes < length data then (0, appendDrop storeRoot ''stdin-oversize'' [] no_input w)
                 else (case decode_hook_input data of
                     None \<Rightarrow> (0, appendDrop storeRoot ''bad-input'' [] no_input w)
                   | Some inp \<Rightarrow>
                       if \<not> canonicalUUID (h_session inp) then (0, appendDrop storeRoot ''bad-session-id'' [] inp w)
                       else (case Canonicalize fs (o_goos io) (o_lower io) (h_cwd inp) of
                           Some (Inr c) \<Rightarrow>
                             (0, dispatch io version
                                   (Join [storeRoot, ''projects'', project_id c, ''worktrees'', worktree_id c])
                                   (worktree_root c) h inp w)
                         | _ \<Rightarrow> (0, appendDrop storeRoot ''bad-cwd'' [] inp w))))))"

end
