(* ===== verification/Hook_Effects.thy ===== *)
theory Hook_Effects
  imports Hook Session_Query
begin

text \<open>What a run of the hook may change, and what its answers rest on.\<close>

section \<open>Containment\<close>

text \<open>The ingestion a guard starts is a run of the model of \<open>ingest.Run\<close>, on whatever file system and with
  whatever allowed paths.\<close>

definition ingest_is_run :: "hook_io \<Rightarrow> bool" where
  "ingest_is_run io \<longleftrightarrow>
     (\<forall>path st. \<exists>fs procs ctx base allow rep err.
        Run fs (o_goos io) (o_lower io) procs ctx base allow (file_request path) st
          (fst (o_ingest io (file_request path) st)) rep err
        \<and> snd (o_ingest io (file_request path) st) = (case err of None \<Rightarrow> Inr rep | Some e \<Rightarrow> Inl e))"

abbreviation hook_log :: "hook_world \<Rightarrow> session_db" where
  "hook_log w \<equiv> snd (d_world (k_dir w))"

text \<open>A line of the drop log shows no more than eight bytes of the session and is one line.\<close>

definition drop_fields :: "drop_line \<Rightarrow> bytes list" where
  "drop_fields d = (case d of (dir, reason, sid, event, tool) \<Rightarrow> [reason, sid, event, tool])"

definition clean_drop :: "drop_line \<Rightarrow> bool" where
  "clean_drop d \<longleftrightarrow> length (fst (snd (snd d))) \<le> 8 \<and>
     (\<forall>f \<in> set (drop_fields d). f \<noteq> [] \<and> length f \<le> 64 \<and> (\<forall>c \<in> set f. c \<notin> {CHR 0x09, CHR 0x0A, CHR 0x0D}))"

text \<open>What a part of the hook may do: steps of the session log, a store that stays well formed, clean lines
  in the drop log, and the answers \<open>as\<close>; no lock or connection is taken or given up.\<close>

definition contained :: "bytes list \<Rightarrow> hook_world \<Rightarrow> hook_world \<Rightarrow> bool" where
  "contained as w w' \<longleftrightarrow> session_step\<^sup>*\<^sup>* (hook_log w) (hook_log w')
     \<and> same_locks (k_dir w) (k_dir w')
     \<and> (store_ok (snd (k_store w)) \<longrightarrow> store_ok (snd (k_store w')))
     \<and> (\<exists>ds. k_drops w' = k_drops w @ ds \<and> list_all clean_drop ds)
     \<and> k_out w' = k_out w @ as"

lemma contained_refl [intro, simp]: "contained [] w w"
  by (simp add: contained_def same_locks_def)

lemma contained_trans: "contained as w w1 \<Longrightarrow> contained bs w1 w2 \<Longrightarrow> contained (as @ bs) w w2"
  unfolding contained_def same_locks_def by (auto intro: rtranclp_trans)

lemma contained_after: "contained [] w w1 \<Longrightarrow> contained as w1 w2 \<Longrightarrow> contained as w w2"
  using contained_trans [of "[]"] by simp

lemma contained_then: "contained as w w1 \<Longrightarrow> contained [] w1 w2 \<Longrightarrow> contained as w w2"
  using contained_trans [of as w w1 "[]"] by simp

lemma san_drop_clean:
  "san_drop s \<noteq> [] \<and> length (san_drop s) \<le> 64 \<and> (\<forall>c \<in> set (san_drop s). c \<notin> {CHR 0x09, CHR 0x0A, CHR 0x0D})"
proof (cases "s = []")
  case False
  define f :: "char \<Rightarrow> char" where "f = (\<lambda>c. if c \<in> {CHR 0x09, CHR 0x0A, CHR 0x0D} then CHR '' '' else c)"
  have f: "f c \<notin> {CHR 0x09, CHR 0x0A, CHR 0x0D}" for c unfolding f_def by (cases "c \<in> {CHR 0x09, CHR 0x0A, CHR 0x0D}") simp_all
  have eq: "san_drop s = take 64 (map f s)" using False by (simp add: san_drop_def f_def)
  have "c \<notin> {CHR 0x09, CHR 0x0A, CHR 0x0D}" if "c \<in> set (take 64 (map f s))" for c
    using in_set_takeD [OF that] f by (metis (no_types, lifting) imageE list.set_map)
  moreover have "take 64 (map f s) \<noteq> []" "length (take 64 (map f s)) \<le> 64" using False by simp_all
  ultimately show ?thesis unfolding eq by blast
qed (simp add: san_drop_def)

lemma drop_entry_clean: "clean_drop (drop_entry dir reason sid event tool)"
proof -
  have "length (san_drop (if sid = [] then ''-'' else take 8 sid)) \<le> 8"
    by (simp add: san_drop_def)
  then show ?thesis using san_drop_clean by (simp add: clean_drop_def drop_entry_def drop_fields_def)
qed

lemma appendDrop_contained: "contained [] w (appendDrop dir reason sid inp w)"
  by (simp add: contained_def appendDrop_def same_locks_def drop_entry_clean)

lemma write_out_contained: "contained [b] w (write_out b w)"
  by (simp add: contained_def write_out_def same_locks_def)

lemma store_contained:
  "(store_ok (snd (k_store w)) \<longrightarrow> store_ok (snd st)) \<Longrightarrow> contained [] w (w\<lparr>k_store := st\<rparr>)"
  by (simp add: contained_def same_locks_def)

lemma ledger_contained: "contained [] w (w\<lparr>k_ledger := l\<rparr>)"
  by (simp add: contained_def same_locks_def)

lemma log_contained:
  "session_step\<^sup>*\<^sup>* (hook_log w) (snd dw) \<Longrightarrow> contained [] w (w\<lparr>k_dir := (k_dir w)\<lparr>d_world := dw\<rparr>\<rparr>)"
  by (simp add: contained_def same_locks_def)

lemma append_to_contained: "append_to io ad ev w = (w', r) \<Longrightarrow> contained [] w w'"
proof -
  assume run: "append_to io ad ev w = (w', r)"
  obtain dw res where 1: "AppendDB_Append io (ad_session ad) ev (d_world (k_dir w)) = (dw, res)" by fastforce
  have "session_step\<^sup>*\<^sup>* (hook_log w) (snd dw)"
  proof (cases "ValidateEvent ev")
    case None
    obtain v db where d: "d_world (k_dir w) = (v, db)" by fastforce
    with 1 None have "appendEvent io (ad_session ad) ev (v, db) = (dw, res)" by (simp add: AppendDB_Append_def)
    then have "session_step db (snd dw)" by (rule append_step)
    then show ?thesis using d by auto
  next
    case (Some e)
    with 1 show ?thesis by (simp add: AppendDB_Append_def)
  qed
  with log_contained [OF this] run 1 show ?thesis by (auto simp: append_to_def)
qed

lemma append_or_drop_contained: "contained [] w (append_or_drop io ad dir reason sid inp ev w)"
proof -
  obtain w1 r where "append_to io ad ev w = (w1, r)" by fastforce
  with append_to_contained [OF this] show ?thesis
    by (cases r) (auto simp: append_or_drop_def intro: contained_after appendDrop_contained)
qed

lemma denyTool_contained: "contained [deny_answer reason] w (denyTool io ad dir inp tool detail reason w)"
  unfolding denyTool_def by (rule contained_then [OF write_out_contained append_or_drop_contained])

lemma append_built_contained: "contained [] w (append_built io ad dir external inp w)"
  by (simp add: append_built_def append_or_drop_contained split: option.split)

lemma ensure_session_contained: "ensure_session io ad source base w = (w', r) \<Longrightarrow> contained [] w w'"
proof -
  assume run: "ensure_session io ad source base w = (w', r)"
  obtain dw res where 1: "EnsureSession (o_ensure io) ad source base (d_world (k_dir w)) = (dw, res)" by fastforce
  obtain v db where "d_world (k_dir w) = (v, db)" by fastforce
  with 1 have "session_step (hook_log w) (snd dw)" using ensure_step by auto
  with log_contained [OF r_into_rtranclp [of session_step, OF this]] run 1 show ?thesis
    by (auto simp: ensure_session_def)
qed

text \<open>The answers there are.\<close>

definition hook_answers :: "bytes list set" where
  "hook_answers = {[], [deny_answer denyReasonIndexed], [deny_answer denyReasonGrep], [hint_answer]}"

definition answering :: "hook_world \<Rightarrow> hook_world \<Rightarrow> bool" where
  "answering w w' \<longleftrightarrow> (\<exists>as \<in> hook_answers. contained as w w')"

lemma quiet_answering: "contained [] w w' \<Longrightarrow> answering w w'"
  by (auto simp: answering_def hook_answers_def)

lemma answering_after: "contained [] w w1 \<Longrightarrow> answering w1 w2 \<Longrightarrow> answering w w2"
  using contained_after by (fastforce simp: answering_def)

lemma answering_then: "answering w w1 \<Longrightarrow> contained [] w1 w2 \<Longrightarrow> answering w w2"
  using contained_then by (fastforce simp: answering_def)

lemma denyTool_answering:
  "reason \<in> {denyReasonIndexed, denyReasonGrep} \<Longrightarrow> answering w (denyTool io ad dir inp tool detail reason w)"
  using denyTool_contained [of reason w io ad dir inp tool detail] by (auto simp: answering_def hook_answers_def)

lemma Run_store_ok:
  assumes "Run fs os lower procs ctx base allow req st st' rep err" and "store_ok (snd st)"
  shows "store_ok (snd st')"
  using assms(1)
proof cases
  case (inline io r)
  obtain v s v' s' where "st = (v, s)" "st' = (v', s')" by fastforce
  with inline assms(2) show ?thesis
    by (auto simp: runInline_def Let_def split: prod.splits sum.splits dest: Register_ok)
next
  case (pool items)
  from pool(2) show ?thesis
  proof cases
    case (1 s)
    with pool_steps_inv [OF 1(4) pool_init_inv [OF assms(2)]] show ?thesis by (simp add: pool_inv_def)
  qed
qed (use assms(2) in simp)

lemma ingest_store_ok:
  assumes "ingest_is_run io" and "o_ingest io (file_request path) st = (st', r)" and "store_ok (snd st)"
  shows "store_ok (snd st')"
  using assms Run_store_ok unfolding ingest_is_run_def by (metis fst_conv)

lemma guard_file_answering:
  assumes "ingest_is_run io"
  shows "answering w (guard_file io ad dir inp path tool detail w)"
proof -
  obtain st r where run: "o_ingest io (file_request path) (k_store w) = (st, r)" by fastforce
  have st: "contained [] w (w\<lparr>k_store := st\<rparr>)"
    using ingest_store_ok [OF assms run] by (intro store_contained) blast
  show ?thesis
    using answering_after [OF st denyTool_answering [of denyReasonIndexed]] quiet_answering [OF st] run
    by (auto simp: guard_file_def Let_def intro!: quiet_answering appendDrop_contained split: option.split sum.split)
qed

lemma guards_answering:
  assumes "ingest_is_run io"
  shows "answering w (guardRead io ad dir inp w)" "answering w (guardGrep io ad dir inp w)"
    "answering w (guardBash io ad dir h inp w)" "answering w (guardPowerShell io ad dir inp w)"
  using guard_file_answering [OF assms] denyTool_answering quiet_answering [OF contained_refl]
  by (auto simp: guardRead_def guardGrep_def guardBash_def guardPowerShell_def Let_def
      split: option.split prod.split)

lemma shadow_ingest_store_ok:
  assumes "shadow_ingest io inp st = (st', r)" and "store_ok (snd st)"
  shows "store_ok (snd st')"
proof -
  obtain v s v' s' where "st = (v, s)" "st' = (v', s')" by fastforce
  with assms show ?thesis
    by (auto simp: shadow_ingest_def runInline_def Let_def split: option.splits prod.splits sum.splits dest: Register_ok)
qed

lemma shadowCapture_contained: "contained [] w (shadowCapture io ad dir external inp w)"
proof (cases "shadow_refusal io inp")
  case None
  show ?thesis
  proof (cases "o_store io")
    case open_ok: None
    obtain st r where run: "shadow_ingest io inp (k_store w) = (st, r)" by fastforce
    let ?w1 = "w\<lparr>k_store := st\<rparr>"
    have st: "contained [] w ?w1"
      using shadow_ingest_store_ok [OF run] by (intro store_contained) blast
    show ?thesis
    proof (cases r)
      case (Inl e)
      with None open_ok run contained_after [OF st appendDrop_contained] show ?thesis by (simp add: shadowCapture_def)
    next
      case (Inr rep)
      let ?es = "shadow_events external inp (rep_hash rep)"
      let ?w2 = "append_or_drop (o_append io 1) ad dir ''shadow-append'' external inp (?es ! 0) ?w1"
      let ?w3 = "append_or_drop (o_append io 2) ad dir ''shadow-append'' external inp (?es ! 1) ?w2"
      have "contained [] w ?w2" by (rule contained_after [OF st append_or_drop_contained])
      then have "contained [] w ?w3" by (rule contained_after) (rule append_or_drop_contained)
      then show ?thesis
        using None open_ok run Inr contained_after [OF st appendDrop_contained] contained_after [OF _ ledger_contained]
        by (simp add: shadowCapture_def Let_def)
    qed
  qed (simp add: shadowCapture_def None appendDrop_contained)
qed (simp add: shadowCapture_def appendDrop_contained)

lemma handle_event_answering:
  assumes "ingest_is_run io"
  shows "answering w (handle_event io ad dir external h inp w)"
  using guards_answering [OF assms] quiet_answering [OF contained_refl] quiet_answering [OF append_built_contained]
    quiet_answering [OF contained_after [OF append_built_contained shadowCapture_contained]]
  by (simp add: handle_event_def)

lemma injectRecallHint_answering: "answering w (injectRecallHint io dir h source inp w)"
proof -
  have "contained [hint_answer] w (appendDrop dir ''hint-ok'' [] i (write_out hint_answer w))" for i
    by (rule contained_then [OF write_out_contained appendDrop_contained])
  then have "answering w (appendDrop dir ''hint-ok'' [] i (write_out hint_answer w))" for i
    by (auto simp: answering_def hook_answers_def)
  then show ?thesis
    using quiet_answering [OF contained_refl] quiet_answering [OF appendDrop_contained]
    by (simp add: injectRecallHint_def Let_def)
qed

lemma with_log_answering:
  assumes "ingest_is_run io"
  shows "answering w (with_log io ad dir base external h inp w)"
proof -
  note handle = handle_event_answering [OF assms]
  have ensure: "answering w (case ensure_session io ad source base w of (w1, r) \<Rightarrow> k w1 r)"
    if "\<And>w1 r. answering w1 (k w1 r)" for k source
    using that ensure_session_contained answering_after by (metis (mono_tags, lifting) case_prod_conv surj_pair)
  have start: "answering w1 (injectRecallHint io dir h src inp (if r = None then w1 else appendDrop dir reason external inp w1))"
    for w1 r src reason
    using answering_after [OF appendDrop_contained injectRecallHint_answering] injectRecallHint_answering by simp
  have late: "answering w1 (case r of None \<Rightarrow> handle_event io ad dir external h inp w1 | Some e \<Rightarrow> appendDrop dir reason external inp w1)"
    for w1 r reason
    using handle quiet_answering [OF appendDrop_contained] by (simp split: option.split)
  show ?thesis
  proof (cases "h_event inp = ''SessionStart''")
    case True
    then show ?thesis using ensure [OF start] by (simp add: with_log_def Let_def)
  next
    case False
    have "with_log io ad dir base external h inp w =
        (case SessionExists (o_exists io) ad (hook_log w) of
          Inl e \<Rightarrow> appendDrop dir ''session-check-failed'' external inp w
        | Inr True \<Rightarrow> handle_event io ad dir external h inp w
        | Inr False \<Rightarrow> (case ensure_session io ad ''first-event'' base w of (w1, r) \<Rightarrow>
            (case r of None \<Rightarrow> handle_event io ad dir external h inp w1
             | Some e \<Rightarrow> appendDrop dir ''ensure-failed'' external inp w1)))"
      using False by (auto simp: with_log_def split: sum.split bool.split prod.split option.split)
    then show ?thesis
      using handle quiet_answering [OF appendDrop_contained] ensure [OF late]
      by (auto split: sum.split bool.split)
  qed
qed

lemma dispatch_answering:
  assumes "ingest_is_run io"
  shows "answering w (dispatch io version dir base h inp w)"
proof -
  define opts where "opts = \<lparr>ad_session = host_name h @ '':'' @ h_session inp,
      ad_producer = ''context-router/'' @ version, ad_retention = retentionSec (o_env io)\<rparr>"
  note dispatch = dispatch_def [of io version dir base h inp w, unfolded Let_def, folded opts_def]
  obtain d r where run: "OpenAppend (o_tries io) (o_open io) opts (k_dir w) = (d, r)" by fastforce
  have step: "session_step (hook_log w) (snd (d_world d))" by (rule open_append_step [OF run])
  obtain d1 e1 where 1: "open_prefix (acquireInitLockCtx (o_tries io) (p_tries (o_open io))) (o_open io) (k_dir w) = (d1, e1)"
    by fastforce
  note locks = open_prefix_cases [OF 1]
  show ?thesis
  proof (cases r)
    case (Inl e)
    with run 1 locks have "same_locks (k_dir w) d" by (cases e1) (auto simp: OpenAppend_def)
    with step have "contained [] w (w\<lparr>k_dir := d\<rparr>)" by (simp add: contained_def)
    then show ?thesis using run Inl
      by (simp add: dispatch quiet_answering contained_after [OF _ appendDrop_contained])
  next
    case (Inr ad)
    with run 1 locks have more: "one_handle_more (k_dir w) d" by (cases e1) (auto simp: OpenAppend_def)
    let ?w1 = "w\<lparr>k_dir := d\<rparr>"
    let ?w2 = "with_log io ad dir base (host_name h @ '':'' @ h_session inp) h inp ?w1"
    obtain as where as: "as \<in> hook_answers" "contained as ?w1 ?w2"
      using with_log_answering [OF assms] unfolding answering_def by blast
    have "session_step\<^sup>*\<^sup>* (hook_log w) (hook_log ?w2)"
      using step as(2) by (auto simp: contained_def intro: converse_rtranclp_into_rtranclp)
    moreover have "d_world (Close (k_dir ?w2)) = d_world (k_dir ?w2)"
      by (simp add: Close_def abort_open_def release_lease_def close_conns_def)
    moreover have "same_locks (k_dir w) (Close (k_dir ?w2))"
      using more as(2) by (simp add: contained_def one_handle_more_def same_locks_def Close_def abort_open_def
          release_lease_def close_conns_def)
    ultimately have "contained as w (?w2\<lparr>k_dir := Close (k_dir ?w2)\<rparr>)"
      using as(2) by (simp add: contained_def)
    with as(1) show ?thesis using run Inr
      by (auto simp: dispatch answering_def)
  qed
qed


lemma append_or_drop_store [simp]: "k_store (append_or_drop io ad dir reason sid inp ev w) = k_store w"
  by (simp add: append_or_drop_def append_to_def appendDrop_def split: prod.split option.split)

lemma denyTool_store [simp]: "k_store (denyTool io ad dir inp tool detail reason w) = k_store w"
  by (simp add: denyTool_def write_out_def)

section \<open>The run of the hook\<close>

lemma session_steps_log:
  "session_step\<^sup>*\<^sup>* db db' \<Longrightarrow> session_ok db \<Longrightarrow> session_ok db' \<and> log_step\<^sup>*\<^sup>* (events db) (events db')"
proof (induction rule: rtranclp_induct)
  case (step y z)
  then show ?case using session_step_log [of y z] by (auto intro: rtranclp.rtrancl_into_rtrancl)
qed simp

lemma hook_Run_answering:
  assumes "hook_Run io fs storeRoot version hostArg stdin w = (code, w')" and "ingest_is_run io"
  shows "code = 0 \<and> answering w w'"
proof -
  have drop: "answering w (appendDrop dir reason sid inp w)" for dir reason sid inp
    using quiet_answering [OF appendDrop_contained] .
  have same: "answering w w" using quiet_answering [OF contained_refl] .
  show ?thesis
    using assms(1) drop same dispatch_answering [OF assms(2)]
    by (auto simp: hook_Run_def Let_def split: if_splits option.splits sum.splits)
qed


section \<open>What a denial rests on\<close>

lemma single_pool:
  assumes "(pool_step os lower n)\<^sup>*\<^sup>* (pool_init [item] wd) s" and "store_ok (snd wd)"
  shows "pl_log s = [] \<and> pl_world s = wd
    \<or> (\<exists>fs io out. ingestOne fs os lower io item wd = (pl_world s, out) \<and> pl_log s = [(item, out)])"
  using assms(1)
proof (induction rule: rtranclp_induct)
  case base
  show ?case by (simp add: pool_init_def)
next
  case (step s1 s2)
  have inv: "pool_inv [item] s1" using pool_steps_inv [OF step(1) pool_init_inv [OF assms(2)]] .
  from step(2) show ?case
  proof cases
    case (work us w vs fs io wd1 out)
    have "mset [item] = mset (pl_queue s1) + mset us + mset vs + {#w#} + mset (pl_left s1) + mset (map fst (pl_log s1))"
      using inv work(2) by (simp add: pool_inv_def)
    then have "{#item#} = {#w#} + (mset (pl_queue s1) + mset us + mset vs + mset (pl_left s1) + mset (map fst (pl_log s1)))"
      by simp
    then have "w = item" "mset (map fst (pl_log s1)) = {#}" by (auto simp: single_is_union)
    with step(3) work show ?thesis by auto
  qed (use step(3) in auto)
qed

lemma guard_file_denies:
  assumes "guard_file io ad dir inp path tool detail w = w'" and "k_out w' \<noteq> k_out w"
    and "o_ingest io (file_request path) (k_store w) = (st, r)"
  shows "\<exists>sz rep. o_stat io path = Some (False, sz) \<and> guardReadMax (o_env io) < sz \<and> r = Inr rep \<and> rep_indexed rep = 1
    \<and> w' = denyTool (o_append io 0) ad dir inp tool (detail sz) denyReasonIndexed (w\<lparr>k_store := st\<rparr>)"
proof (cases "o_stat io path")
  case (Some p)
  obtain isdir sz where p: "p = (isdir, sz)" by fastforce
  show ?thesis
  proof (cases "isdir \<or> sz \<le> guardReadMax (o_env io) \<or> o_store io \<noteq> None")
    case True
    with assms(1,2) Some p show ?thesis by (auto simp: guard_file_def appendDrop_def split: if_splits)
  next
    case False
    with assms Some p show ?thesis
      by (cases r; cases "rep_indexed (projr r) = 1") (auto simp: guard_file_def Let_def)
  qed
qed (use assms(1,2) in \<open>simp add: guard_file_def\<close>)

lemma Run_single:
  assumes "Run fs os lower procs ctx base allow req wd wd' rep None" and "q_content req = []"
    and "canonicalPath fs (q_path req) = Some canon" and "d_info fs canon = Some (False, len, mtime)"
  shows "withinAny os lower (folded_roots os lower base allow) canon
    \<and> runPool os lower procs [single_item base canon len mtime (max_file_bytes req)] wd wd' rep None"
proof -
  from assms(1) obtain items where plan: "run_plan fs os lower ctx base allow req = Items items"
    and pool: "runPool os lower procs items wd wd' rep None"
    using assms(2,3,4) by cases (auto simp: run_plan_def split: option.splits if_splits)
  have "ctx = None" "withinAny os lower (folded_roots os lower base allow) canon"
    using plan assms(2,3) by (auto simp: run_plan_def split: option.splits if_splits)
  with plan pool assms(2,3,4) show ?thesis by (simp add: run_plan_def)
qed

lemma single_item_stored:
  assumes "ingestOne fs os lower io (single_item base canon len mtime m) wd = (wd', Stored n)"
  shows "wi_abs (single_item base canon len mtime m) = canon \<and> \<not> DeniedFilename canon"
  using assms
proof (cases rule: ingestOne_cases)
  case (reg raw sz r)
  from reg(1) show ?thesis by (simp add: single_item_def skip_item_def Let_def split: if_splits)
qed simp

text \<open>A guard that turns a tool away because a file is large has stored that file first: it is a
  regular file above the limit, in the workspace, with no secret name and not binary, and the redacted
  content is in the store under the source of the file, so what the agent is told to search is
  there.\<close>

lemma denied_file_is_stored:
  assumes "Run fs (o_goos io) (o_lower io) procs ctx base allow (file_request path) (k_store w) st rep err"
    and "o_ingest io (file_request path) (k_store w) = (st, case err of None \<Rightarrow> Inr rep | Some e \<Rightarrow> Inl e)"
    and "canonicalPath fs path = Some canon" and "d_info fs canon = Some (False, len, mtime)"
    and "store_ok (snd (k_store w))"
    and "guard_file io ad dir inp path tool detail w = w'" and "k_out w' \<noteq> k_out w"
  shows "\<exists>sz raw art. o_stat io path = Some (False, sz) \<and> guardReadMax (o_env io) < sz
    \<and> k_out w' = k_out w @ [deny_answer denyReasonIndexed]
    \<and> withinAny (o_goos io) (o_lower io) (folded_roots (o_goos io) (o_lower io) base allow) canon
    \<and> \<not> DeniedFilename canon \<and> \<not> IsBinary raw
    \<and> (\<exists>s \<in> set (sources (snd (k_store w'))).
         s_uri s = Fold (o_goos io) (o_lower io) canon \<and> s_artifact s = art \<and> s_hash s = sha256_hex raw)
    \<and> ArtifactText (snd (k_store w')) art 0 = Inr (fst (Redact raw))"
proof -
  from guard_file_denies [OF assms(6,7,2)] obtain sz rep' where
    sz: "o_stat io path = Some (False, sz)" "guardReadMax (o_env io) < sz" and rep': "rep_indexed rep' = 1"
      "(case err of None \<Rightarrow> Inr rep | Some e \<Rightarrow> Inl e) = Inr rep'"
    and w': "w' = denyTool (o_append io 0) ad dir inp tool (detail sz) denyReasonIndexed (w\<lparr>k_store := st\<rparr>)" by blast
  from rep' have rep: "err = None" "rep_indexed rep = 1" by (cases err, simp_all)+
  have out: "k_out w' = k_out w @ [deny_answer denyReasonIndexed]" "k_store w' = st"
    using denyTool_contained [of denyReasonIndexed "w\<lparr>k_store := st\<rparr>"]
    unfolding w' contained_def by simp_all
  let ?item = "single_item base canon len mtime (max_file_bytes (file_request path))"
  have within: "withinAny (o_goos io) (o_lower io) (folded_roots (o_goos io) (o_lower io) base allow) canon"
    and pool: "runPool (o_goos io) (o_lower io) procs [?item] (k_store w) st rep None"
    using Run_single [OF assms(1) [unfolded rep(1)]] assms(3,4) by (simp_all add: file_request_def)
  from pool show ?thesis
  proof cases
    case (1 s)
    have "rep = log_report (pl_log s)"
      using pool_steps_inv [OF 1(4) pool_init_inv [OF assms(5)]] 1(2) by (simp add: pool_inv_def)
    with rep(2) have indexed: "rep_indexed (log_report (pl_log s)) = 1" by simp
    then have "pl_log s \<noteq> []" using log_report_Cons(3) by force
    with single_pool [OF 1(4) assms(5)] obtain fs' rio out where
      one: "ingestOne fs' (o_goos io) (o_lower io) rio ?item (k_store w) = (pl_world s, out)" "pl_log s = [(?item, out)]"
      by blast
    from indexed obtain n where "out = Stored n"
      unfolding one(2) by (cases out) (simp_all add: log_report_Cons)
    with one(1) 1(1) have stored: "ingestOne fs' (o_goos io) (o_lower io) rio ?item (k_store w) = (st, Stored n)" by simp
    obtain v u v' u' where uv: "k_store w = (v, u)" "st = (v', u')" by fastforce
    have ok: "store_ok u" using assms(5) uv(1) by simp
    from ingested_file_stored [OF ok stored [unfolded uv]] single_item_stored [OF stored] show ?thesis
      using sz out within uv(2) by auto
  qed
qed

section \<open>What a shadow copy holds\<close>

lemma shadow_ingest_Inr:
  assumes "shadow_ingest io inp (v, st) = ((v', st'), Inr rep)" and "store_ok st"
  shows "\<exists>s \<in> set (sources st'). s_kind s = ''hook''
    \<and> s_uri s = ''shadow:'' @ h_tool inp @ '':'' @ sha256_hex (fst (Redact (h_tool_response inp)))
    \<and> ArtifactText st' (s_artifact s) 0 = Inr (fst (Redact (h_tool_response inp)))"
proof -
  let ?body = "h_tool_response inp"
  define reg where "reg = \<lparr>r_bytes = fst (Redact ?body), r_media = text_media (isMarkdownExt (o_lower io) []),
     r_redaction = redaction_label (snd (Redact ?body)),
     r_source = \<lparr>m_uri = ''shadow:'' @ h_tool inp @ '':'' @ sha256_hex (fst (Redact ?body)), m_kind = ''hook'',
       m_size = int (length ?body), m_mtime = 0, m_hash = sha256_hex ?body, m_extraction = []\<rparr>,
     r_chunks = ChunkText (fst (Redact ?body)) (isMarkdownExt (o_lower io) []), r_expected = [], r_raw = None\<rparr>"
  have "shadow_ingest io inp (v, st) = (case o_ctx io of Some e \<Rightarrow> ((v, st), Inl e) | None \<Rightarrow>
      (case Register (o_reg io) reg (v, st) of (w1, Inl e) \<Rightarrow> (w1, Inl e) | (w1, Inr art) \<Rightarrow>
         (w1, Inr \<lparr>rep_indexed = 1, rep_bytes = int (length (fst (Redact ?body))), rep_skipped = [],
            rep_hash = sha256_hex (fst (Redact ?body))\<rparr>)))"
    by (simp add: shadow_ingest_def runInline_def shadow_request_def split_beta Let_def reg_def
        split: option.split sum.split)
  with assms(1) obtain art where run: "Register (o_reg io) reg (v, st) = ((v', st'), Inr art)"
    by (auto split: option.splits sum.splits prod.splits)
  have reg: "r_bytes reg = fst (Redact ?body)" "r_raw reg = None" "m_kind (r_source reg) = ''hook''"
      "m_uri (r_source reg) = ''shadow:'' @ h_tool inp @ '':'' @ sha256_hex (fst (Redact ?body))"
    by (simp_all add: reg_def)
  from Register_readable [OF assms(2) run] reg show ?thesis
    by (force simp: source_row_of_def)
qed

lemma shadow_ingest_Inl:
  assumes "shadow_ingest io inp (v, st) = ((v', st'), Inl e)"
  shows "same_tables st st'"
  using assms Register_error
  by (fastforce simp: shadow_ingest_def runInline_def Let_def same_tables_def split: option.splits prod.splits sum.splits)


section \<open>Concrete runs\<close>

definition demo_disk :: disk_view where
  "demo_disk = \<lparr>d_abs = (\<lambda>p. None), d_real = Some, d_stat = (\<lambda>p. None), d_read = (\<lambda>p. None),
     d_info = (\<lambda>p. None), d_walk = (\<lambda>p. []), d_open = (\<lambda>p. None)\<rparr>"

definition demo_hook_io :: hook_io where
  "demo_hook_io = \<lparr>o_tries = 1, o_open = Session_Open.demo_io, o_ensure = \<lparr>q_uuid = Inr ''e1'', q_now = 5\<rparr>, o_exists = None,
     o_append = (\<lambda>k. \<lparr>q_uuid = Inr ''e2'', q_now = 6\<rparr>), o_store = None, o_content_db = True, o_owned = None,
     o_stat = (\<lambda>p. Some (False, 300000)), o_reg = Store_Register.demo_io, o_ctx = None, o_ledger = True,
     o_env = (\<lambda>k. if k = ''CTR_SHADOW_MIN'' then ''1'' else []), o_goos = OtherOS, o_lower = (\<lambda>r. r),
     o_ingest = (\<lambda>req st. (st, Inl (ErrOther ''canonicalize'')))\<rparr>"

definition demo_world :: hook_world where
  "demo_world = \<lparr>k_dir = Session_Open.demo_dir, k_store = (demo_env, empty_store), k_drops = [], k_out = [], k_ledger = []\<rparr>"

definition demo_message :: bytes where
  "demo_message = ''{\"hook_event_name\":\"SessionStart\",\"session_id\":\"01234567-89ab-cdef-0123-456789abcdef\",\"cwd\":\"/r\",\"source\":\"compact\"}''"

lemma demo_ingest_is_run: "ingest_is_run demo_hook_io"
proof -
  have "Run demo_disk OtherOS (\<lambda>r. r) 1 None [] [] (file_request path) st st empty_report (Some (ErrOther ''canonicalize''))"
    for path st
    by (rule Run.refuse) (simp add: run_plan_def file_request_def canonicalPath_def demo_disk_def)
  then show ?thesis by (fastforce simp: ingest_is_run_def demo_hook_io_def)
qed

lemma demo_world_ok: "session_ok (hook_log demo_world)" "store_ok (snd (k_store demo_world))"
  using demo_sweep_ok store_ok_empty by (simp_all add: demo_world_def Session_Open.demo_dir_def)


lemma demo_single_item:
  assumes "\<not> m < 0"
  shows "single_item ''/r'' ''/r/a'' 0 5 m = demo_item\<lparr>wi_max := m\<rparr>"
proof -
  have rel: "relDisplay ''/r'' ''/r/a'' = ''a''" by code_simp
  have denied: "DeniedFilename ''a'' = False" "DeniedFilename ''/r/a'' = False" by code_simp+
  have base: "Base ''/r/a'' = ''a''" by code_simp
  show ?thesis
    unfolding single_item_def Let_def rel denied base demo_item_def using assms by simp
qed

lemma ingestOne_max:
  assumes "0 \<le> m"
  shows "ingestOne demo_view os lower io (demo_item\<lparr>wi_max := m\<rparr>) wd = ingestOne demo_view os lower io demo_item wd"
proof -
  have "file_registration os lower (demo_item\<lparr>wi_max := m\<rparr>) [] = file_registration os lower demo_item []"
    by (simp add: file_registration_def demo_item_def)
  then show ?thesis
    using assms by (simp add: ingestOne_def demo_view_def demo_item_def canonicalUnchanged_def canonicalPath_def)
qed

definition demo_pool_item :: work_item where
  "demo_pool_item = demo_item\<lparr>wi_max := 5242880\<rparr>"

lemma demo_plan:
  "run_plan demo_view OtherOS (\<lambda>r. r) None ''/r'' [] (file_request ''/r/a'') = Items [demo_pool_item]"
proof -
  have within: "withinRoot OtherOS (\<lambda>r. r) ''/r'' ''/r/a''"
    using withinRoot_prefix [of "[''r'']" "[''r'', ''a'']" OtherOS "\<lambda>r. r" "''/r/a''"]
    by (simp add: normal_comp_def Fold_def abs_path_def)
  have m: "max_file_bytes (file_request ''/r/a'') = 5242880"
    by (simp add: max_file_bytes_def file_request_def defaultMaxFileBytes_def)
  have item: "single_item ''/r'' ''/r/a'' 0 5 5242880 = demo_pool_item"
    unfolding demo_pool_item_def by (rule demo_single_item) simp
  have req: "q_content (file_request ''/r/a'') = []" "q_path (file_request ''/r/a'') = ''/r/a''"
    by (simp_all add: file_request_def)
  have fs: "canonicalPath demo_view ''/r/a'' = Some ''/r/a''" "d_info demo_view ''/r/a'' = Some (False, 0, 5)"
    by (simp_all add: canonicalPath_def demo_view_def)
  have "withinAny OtherOS (\<lambda>r. r) (folded_roots OtherOS (\<lambda>r. r) ''/r'' []) ''/r/a''"
    using within by (simp add: folded_roots_def withinAny_def Fold_def)
  then show ?thesis unfolding run_plan_def req fs m by (simp add: fs m item)
qed

lemma demo_pool:
  assumes "ingestOne fs os lower io item wd = (st, Stored 0)"
  shows "runPool os lower procs [item] wd st \<lparr>rep_indexed = 1, rep_bytes = 0, rep_skipped = [], rep_hash = []\<rparr> None"
proof -
  let ?s0 = "pool_init [item] wd"
  let ?s1 = "?s0\<lparr>pl_queue := [], pl_active := pl_active ?s0 @ [item]\<rparr>"
  let ?s2 = "?s1\<lparr>pl_active := [] @ [], pl_world := st, pl_report := tally item (Stored 0) (pl_report ?s1),
      pl_err := first_err (pl_err ?s1) (Stored 0), pl_log := pl_log ?s1 @ [(item, Stored 0)]\<rparr>"
  have n: "0 < pool_size procs" by (simp add: pool_size_def Let_def)
  have 1: "pool_step os lower (pool_size procs) ?s0 ?s1"
    by (rule pool_step.feed) (use n in \<open>simp_all add: pool_init_def\<close>)
  have 2: "pool_step os lower (pool_size procs) ?s1 ?s2"
    by (rule pool_step.work [where fs = fs and io = io]) (use assms in \<open>simp_all add: pool_init_def\<close>)
  have steps: "(pool_step os lower (pool_size procs))\<^sup>*\<^sup>* ?s0 ?s2"
    by (rule converse_rtranclp_into_rtranclp [OF 1 r_into_rtranclp [of "pool_step os lower (pool_size procs)", OF 2]])
  have "pool_done ?s2" by (simp add: pool_done_def pool_init_def)
  from runPool.intros [OF steps this] show ?thesis
    by (simp add: pool_init_def tally_def empty_report_def first_err_def pool_error_def)
qed

lemma demo_run:
  "\<exists>st. Run demo_view OtherOS (\<lambda>r. r) 1 None ''/r'' [] (file_request ''/r/a'') (demo_env, empty_store) st
     \<lparr>rep_indexed = 1, rep_bytes = 0, rep_skipped = [], rep_hash = []\<rparr> None"
proof -
  obtain st where "ingestOne demo_view OtherOS (\<lambda>r. r) Store_Register.demo_io demo_pool_item (demo_env, empty_store) = (st, Stored 0)"
    using demo_ingest ingestOne_max [of 5242880] unfolding demo_pool_item_def by auto
  from Run.pool [OF demo_plan demo_pool [OF this]] show ?thesis by blast
qed

lemma denied_file_is_stored_witness:
  "\<exists>io w' raw art. guard_file io \<lparr>ad_session = ''s'', ad_producer = ''p'', ad_retention = 0\<rparr> ''/d'' no_input ''/r/a'' ''Read''
       (\<lambda>sz. ''a'') demo_world = w'
     \<and> k_out w' = [deny_answer denyReasonIndexed] \<and> ArtifactText (snd (k_store w')) art 0 = Inr (fst (Redact raw))"
proof -
  let ?ad = "\<lparr>ad_session = ''s'', ad_producer = ''p'', ad_retention = 0\<rparr>"
  let ?rep = "\<lparr>rep_indexed = 1, rep_bytes = 0, rep_skipped = [], rep_hash = []\<rparr>"
  obtain st where run: "Run demo_view OtherOS (\<lambda>r. r) 1 None ''/r'' [] (file_request ''/r/a'') (k_store demo_world) st ?rep None"
    using demo_run by (auto simp: demo_world_def)
  define io where "io = demo_hook_io\<lparr>o_ingest := (\<lambda>req wd. (st, Inr ?rep))\<rparr>"
  have sel: "o_goos io = OtherOS" "o_lower io = (\<lambda>r. r)" "o_stat io ''/r/a'' = Some (False, 300000)"
    "o_ingest io (file_request ''/r/a'') (k_store demo_world) = (st, Inr ?rep)" "o_store io = None"
    "guardReadMax (o_env io) = 262144"
    by (simp_all add: io_def demo_hook_io_def guardReadMax_def positive_env_def parse_int64_def defaultGuardReadMax_def)
  let ?w = "guard_file io ?ad ''/d'' no_input ''/r/a'' ''Read'' (\<lambda>sz. ''a'') demo_world"
  have "?w = denyTool (o_append io 0) ?ad ''/d'' no_input ''Read'' ''a'' denyReasonIndexed (demo_world\<lparr>k_store := st\<rparr>)"
    using sel by (simp add: guard_file_def)
  then have out: "k_out ?w = [deny_answer denyReasonIndexed]"
    using denyTool_contained [of denyReasonIndexed "demo_world\<lparr>k_store := st\<rparr>" "o_append io 0" ?ad]
    by (simp add: contained_def demo_world_def)
  then have ne: "k_out ?w \<noteq> k_out demo_world" by (simp add: demo_world_def)
  have "canonicalPath demo_view ''/r/a'' = Some ''/r/a''" "d_info demo_view ''/r/a'' = Some (False, 0, 5)"
    by (simp_all add: canonicalPath_def demo_view_def)
  from denied_file_is_stored [of demo_view io 1 None "''/r''" "[]" "''/r/a''" demo_world st ?rep None,
      unfolded sel(1,2), OF run _ this demo_world_ok(2) refl ne] sel(4) out
  show ?thesis by auto
qed

definition demo_shadow :: hook_input where
  "demo_shadow = no_input\<lparr>h_event := ''PostToolUse'', h_tool := ''X'', h_tool_response := ''12''\<rparr>"

lemma demo_shadow_refusal: "shadow_refusal demo_hook_io demo_shadow = None"
  by code_simp

lemma demo_shadow_ingest:
  "\<exists>v' st' rep. shadow_ingest demo_hook_io demo_shadow (demo_env, empty_store) = ((v', st'), Inr rep)
     \<and> rep_indexed rep \<noteq> 0 \<and> rep_hash rep \<noteq> []"
proof -
  have r: "Redact ''12'' = (''12'', 0)" by code_simp
  have c: "ChunkText ''12'' (isMarkdownExt (\<lambda>r. r) []) = [\<lparr>k_ordinal = 0, k_bstart = 0, k_bend = 2, k_lstart = 1,
      k_lend = 1, k_title = [], k_text = ''12''\<rparr>]" by code_simp
  have h: "sha256_hex ''12'' \<noteq> []" by (metis length_sha256_hex list.size(3) zero_neq_numeral)
  show ?thesis
    by (simp add: c h insert_chunk_def shadow_ingest_def demo_hook_io_def demo_shadow_def no_input_def runInline_def shadow_request_def r
        Register_def demo_defs writeBlob_def txRetry_def txRetry_loop.simps [of 3] runTx_def pop_def
        register_tx_def select_or_insert_def find_artifact_def isBusy_def nextArtifactID_def upsert_source_def Let_def
        insert_artifact_def bump_watermark_def source_row_of_def)
qed


end
