(* ===== verification/Mcp.thy ===== *)
theory Mcp
  imports Session_Query Netfetch Ingest Store_Purge "HOL-Library.Product_Lexorder"
begin

text \<open>
  The content tools of the server, \<open>internal/mcp/mcp.go\<close>: the handlers of \<open>ctr_search\<close>, \<open>ctr_fetch\<close>,
  \<open>ctr_index\<close>, \<open>ctr_fetch_and_index\<close> and \<open>ctr_global_search\<close> on the models of the packages they
  call.  The protocol library that carries requests and answers is not modelled; the length of an encoded
  answer is a parameter, and so are the outcomes of the ledger's statements.
\<close>

section \<open>Errors\<close>

datatype tool_code =
    InvalidArgument | NotFound | WorkspaceViolation | UnsupportedFile | StorageUnavailable
  | BudgetExceeded | OutputLimitExceeded | NetworkDenied | Internal

text \<open>A tool error has a code and a fixed message, of which only the part that varies is kept; an end of the
  context is passed on as it is.\<close>

datatype tool_error = ToolErr tool_code bytes | Passed go_error

abbreviation toolErr :: "tool_code \<Rightarrow> tool_error" where
  "toolErr code \<equiv> ToolErr code []"

definition toToolError :: "go_error \<Rightarrow> tool_error" where
  "toToolError e =
     (case e of
        CtxCanceled \<Rightarrow> Passed e
      | CtxDeadline \<Rightarrow> Passed e
      | StoreNotFound \<Rightarrow> toolErr NotFound
      | StoreInvalidSelector \<Rightarrow> toolErr InvalidArgument
      | StoreUnavailable \<Rightarrow> toolErr StorageUnavailable
      | SessionLeaseHeld \<Rightarrow> toolErr StorageUnavailable
      | SessionRecoverPending \<Rightarrow> toolErr StorageUnavailable
      | SessionCorrupt \<Rightarrow> toolErr StorageUnavailable
      | TransformNoIsolation \<Rightarrow> toolErr StorageUnavailable
      | TransformBudget \<Rightarrow> toolErr BudgetExceeded
      | TransformOutputLimit \<Rightarrow> toolErr OutputLimitExceeded
      | IngestWorkspace \<Rightarrow> toolErr WorkspaceViolation
      | IngestUnsupported \<Rightarrow> toolErr UnsupportedFile
      | NetDenied \<Rightarrow> toolErr NetworkDenied
      | NetBodyTooLarge \<Rightarrow> toolErr OutputLimitExceeded
      | NetTooManyRedirects \<Rightarrow> toolErr NetworkDenied
      | NetUnsupportedMedia \<Rightarrow> toolErr UnsupportedFile
      | FsNotExist \<Rightarrow> toolErr NotFound
      | ExecUnsupportedLang \<Rightarrow> toolErr InvalidArgument
      | ExecInvalidPath \<Rightarrow> toolErr InvalidArgument
      | ExecToolchainMissing \<Rightarrow> toolErr UnsupportedFile
      | ExecVersionGate \<Rightarrow> toolErr UnsupportedFile
      | SandboxSetup \<Rightarrow> toolErr StorageUnavailable
      | _ \<Rightarrow> toolErr Internal)"

section \<open>The ledger\<close>

text \<open>A row without its time and duration.  \<open>l_fetch\<close> holds artifact, age and ownership of a fetch.\<close>

record ledger_row =
  l_tool :: bytes
  l_stored :: int
  l_returned :: int
  l_fetch :: "int option \<times> int option \<times> bool option"

text \<open>The columns the ledger has; \<open>NoLedger\<close> stands for a store without one.\<close>

datatype ledger_cols = NoLedger | OldCols | AgeCols | AllCols

record mcp_world =
  c_store :: world
  c_log :: "session_db tx_world"
  c_ledger :: "ledger_row list"

definition LedgerAppend :: "ledger_cols \<Rightarrow> bool \<Rightarrow> bytes \<Rightarrow> int \<Rightarrow> int \<Rightarrow> mcp_world \<Rightarrow> mcp_world" where
  "LedgerAppend cols ok tool stored returned w =
     (if cols = NoLedger \<or> \<not> ok then w
      else w\<lparr>c_ledger := c_ledger w @ [\<lparr>l_tool = tool, l_stored = stored, l_returned = returned,
             l_fetch = (None, None, None)\<rparr>]\<rparr>)"

definition LedgerAppendFetch ::
  "ledger_cols \<Rightarrow> bool \<Rightarrow> int \<Rightarrow> int \<Rightarrow> int option \<Rightarrow> bool \<Rightarrow> mcp_world \<Rightarrow> mcp_world" where
  "LedgerAppendFetch cols ok returned art ageS owned w =
     (let idCol = (if 0 < art then Some art else None);
          age = (if 0 < art then ageS else Some (- 1));
          own = (if 0 < art then Some owned else None)
      in case cols of
           NoLedger \<Rightarrow> w
         | OldCols \<Rightarrow> LedgerAppend cols ok ''ctr_fetch'' 0 returned w
         | _ \<Rightarrow>
             if \<not> ok then w
             else w\<lparr>c_ledger := c_ledger w @ [\<lparr>l_tool = ''ctr_fetch'', l_stored = 0, l_returned = returned,
                    l_fetch = (idCol, age, if cols = AllCols then own else None)\<rparr>]\<rparr>)"

text \<open>The newest time at which a source of this content was indexed, 0 without one, and whether hooks alone
  own it.\<close>

definition LastIndexedAtByHash :: "go_error option \<Rightarrow> store \<Rightarrow> bytes \<Rightarrow> go_error + (int \<times> bool)" where
  "LastIndexedAtByHash qerr st h =
     (case qerr of
        Some e \<Rightarrow> Inl e
      | None \<Rightarrow>
          let times = map s_indexed (filter (joined st h) (sources st))
          in Inr (if times = [] then 0 else Max (set times), shadow_owned st h))"

section \<open>Search\<close>

record search_input =
  i_queries :: "bytes list"
  i_limit :: int
  i_budget :: int
  i_scope :: bytes

record search_answer =
  so_query :: bytes
  so_hits :: "hit list"
  so_events :: "event_hit list option"
  so_truncated :: bool

definition normalizeSearchScope :: "bytes \<Rightarrow> tool_error + bytes" where
  "normalizeSearchScope s =
     (if s = [] then Inr ''content''
      else if s = ''content'' \<or> s = ''events'' \<or> s = ''all'' then Inr s
      else Inl (toolErr InvalidArgument))"

text \<open>The events of one query until the budget is used up.\<close>

fun take_events :: "event_hit list \<Rightarrow> int \<Rightarrow> event_hit list \<times> int \<times> bool" where
  "take_events [] remaining = ([], remaining, False)"
| "take_events (h # hs) remaining =
     (if int (length (eh_summary h)) > remaining then ([], remaining, True)
      else (case take_events hs (remaining - int (length (eh_summary h))) of
              (kept, left, trunc) \<Rightarrow> (h # kept, left, trunc)))"

fun queryEventSection ::
  "event_engine \<Rightarrow> (rune \<Rightarrow> rune) \<Rightarrow> session_db \<Rightarrow> nat \<Rightarrow> bytes list \<Rightarrow> int \<Rightarrow>
     go_error + (event_hit list \<times> bool) list" where
  "queryEventSection eng lower db limit [] remaining = Inr []"
| "queryEventSection eng lower db limit (q # qs) remaining =
     (case QueryEvents eng lower db q limit of
        Inl e \<Rightarrow> Inl e
      | Inr hits \<Rightarrow>
          (case take_events hits remaining of
             (kept, left, trunc) \<Rightarrow>
               (case queryEventSection eng lower db limit qs left of
                  Inl e \<Rightarrow> Inl e
                | Inr rs \<Rightarrow> Inr ((kept, trunc) # rs))))"

definition contentBudgetUsed :: "query_result list \<Rightarrow> int" where
  "contentBudgetUsed qrs = sum_list (map (\<lambda>r. snippet_bytes (qr_hits r)) qrs)"

definition buildSearchOutput ::
  "bytes list \<Rightarrow> query_result list option \<Rightarrow> (event_hit list \<times> bool) list option \<Rightarrow> search_answer list" where
  "buildSearchOutput queries qrs evs =
     map (\<lambda>i. \<lparr>so_query = queries ! i,
                so_hits = (case qrs of None \<Rightarrow> [] | Some rs \<Rightarrow> qr_hits (rs ! i)),
                so_events = (case evs of None \<Rightarrow> None | Some es \<Rightarrow> Some (fst (es ! i))),
                so_truncated = (case qrs of None \<Rightarrow> False | Some rs \<Rightarrow> qr_truncated (rs ! i))
                  \<or> (case evs of None \<Rightarrow> False | Some es \<Rightarrow> snd (es ! i))\<rparr>)
       [0..<length queries]"

definition clamp_limit :: "int \<Rightarrow> nat" where
  "clamp_limit n = (if n \<le> 0 then 3 else if 10 < n then 10 else nat n)"

definition search_budget :: "int \<Rightarrow> int" where
  "search_budget n = (if n \<le> 0 then 8192 else n)"

text \<open>What the server was set up with.  A missing session log is \<open>None\<close>.\<close>

record tool_io =
  t_search :: search_env
  t_events :: "event_engine option"
  t_cols :: ledger_cols
  t_ok :: bool
  t_now :: int
  t_hash_err :: "go_error option"     \<comment> \<open>the query for the ledger fails\<close>

definition ctr_search ::
  "tool_io \<Rightarrow> (search_answer list \<Rightarrow> int) \<Rightarrow> search_input \<Rightarrow> mcp_world \<Rightarrow>
     mcp_world \<times> (tool_error + search_answer list)" where
  "ctr_search io len inp w =
     (if i_queries inp = [] \<or> 8 < length (i_queries inp) then (w, Inl (toolErr InvalidArgument))
      else (case normalizeSearchScope (i_scope inp) of
          Inl e \<Rightarrow> (w, Inl e)
        | Inr scope \<Rightarrow>
            if scope \<noteq> ''content'' \<and> t_events io = None then (w, Inl (toolErr StorageUnavailable))
            else
              let limit = clamp_limit (i_limit inp); budget = search_budget (i_budget inp);
                  content = (if scope = ''events'' then Inr None
                    else map_sum id Some (Query (t_search io) (snd (c_store w)) (i_queries inp) limit budget))
              in (case content of
                    Inl e \<Rightarrow> (w, Inl (toToolError e))
                  | Inr qrs \<Rightarrow>
                      let used = (case qrs of None \<Rightarrow> 0 | Some rs \<Rightarrow> contentBudgetUsed rs);
                          evs = (if scope = ''content'' then Inr None
                            else map_sum id Some (queryEventSection (the (t_events io)) (q_lower (t_search io)) (snd (c_log w))
                                   limit (i_queries inp) (max 0 (budget - used))))
                      in (case evs of
                            Inl e \<Rightarrow> (w, Inl (toToolError (the (ClassifyStorageErr (Some e)))))
                          | Inr es \<Rightarrow>
                              let out = buildSearchOutput (i_queries inp) qrs es
                              in (LedgerAppend (t_cols io) (t_ok io) ''ctr_search'' 0 (len out) w, Inr out)))))"

section \<open>Fetch\<close>

record fetch_input =
  f_artifact :: int
  f_chunk :: "int option"
  f_lines :: "int option \<times> int option"
  f_bytes :: "int option \<times> int option"
  f_max :: int

definition selectorFromInput :: "fetch_input \<Rightarrow> tool_error + selector" where
  "selectorFromInput inp =
     (let half = (\<lambda>p. (fst p = None) \<noteq> (snd p = None));
          chosen = (case f_chunk inp of Some c \<Rightarrow> [ChunkSel c] | None \<Rightarrow> [])
            @ (case f_lines inp of (Some a, Some b) \<Rightarrow> [LineSel a b] | _ \<Rightarrow> [])
            @ (case f_bytes inp of (Some a, Some b) \<Rightarrow> [ByteSel a b] | _ \<Rightarrow> [])
      in if half (f_lines inp) \<or> half (f_bytes inp) then Inl (toolErr InvalidArgument)
         else (case chosen of [sel] \<Rightarrow> Inr sel | _ \<Rightarrow> Inl (toolErr InvalidArgument)))"

definition sourceCoordsExact :: "range_result \<Rightarrow> bool" where
  "sourceCoordsExact res \<longleftrightarrow>
     (case x_source res of
        None \<Rightarrow> False
      | Some s \<Rightarrow> i_extraction s = [] \<and> (i_kind s = ''file'' \<or> i_kind s = ''inline'')
          \<and> a_redaction (x_artifact res) = ''none'')"

definition representationOf :: "bytes \<Rightarrow> bytes \<Rightarrow> bytes" where
  "representationOf media kind =
     (if kind = ''inline'' then ''inline'' else if media = ''text/markdown'' then ''markdown'' else ''file'')"

text \<open>Text, byte end, line end, truncated.\<close>

definition applyFetchBudget :: "range_result \<Rightarrow> nat \<Rightarrow> bytes \<times> int \<times> int \<times> bool" where
  "applyFetchBudget res maxBytes =
     (if length (x_text res) \<le> maxBytes then (x_text res, x_bend res, x_lend res, False)
      else
        let n = rune_back (x_text res) maxBytes; cut = take n (x_text res);
            lineEnd = (if 0 < x_lstart res
              then x_lstart res + int (count_list cut newline) - (if cut \<noteq> [] \<and> last cut = newline then 1 else 0)
              else x_lend res)
        in (cut, x_bstart res + int n, lineEnd, True))"

record fetch_output =
  fo_content :: bytes
  fo_bytes :: "int \<times> int"
  fo_lines :: "int \<times> int"
  fo_truncated :: bool
  fo_repr :: bytes
  fo_exact :: bool
  fo_hash :: bytes
  fo_redaction :: bytes
  fo_created :: int
  fo_src_hash :: bytes
  fo_source :: bytes
  fo_kind :: bytes
  fo_stale :: bool

definition fetch_max :: "int \<Rightarrow> nat" where
  "fetch_max n = (if n \<le> 0 then 16384 else if 65536 < n then 65536 else nat n)"

definition fetch_answer :: "bytes \<Rightarrow> range_result \<Rightarrow> nat \<Rightarrow> fetch_output" where
  "fetch_answer base res maxBytes =
     (case applyFetchBudget res maxBytes of
        (text, byteEnd, lineEnd, trunc) \<Rightarrow>
          let src = (\<lambda>f d. case x_source res of None \<Rightarrow> d | Some s \<Rightarrow> f s) in
          \<lparr>fo_content = text, fo_bytes = (x_bstart res, byteEnd), fo_lines = (x_lstart res, lineEnd),
           fo_truncated = trunc, fo_repr = representationOf (a_media (x_artifact res)) (src i_kind []),
           fo_exact = sourceCoordsExact res, fo_hash = a_hash (x_artifact res),
           fo_redaction = a_redaction (x_artifact res), fo_created = a_created (x_artifact res),
           fo_src_hash = src i_hash [], fo_source = src (\<lambda>s. RelativizeSource base (i_uri s)) [],
           fo_kind = src i_kind [], fo_stale = (x_source res \<noteq> None \<and> x_stale res)\<rparr>)"

text \<open>A miss counts as one only if the artifact is gone, not if the chunk is.\<close>

definition recordFetchMiss :: "tool_io \<Rightarrow> int \<Rightarrow> mcp_world \<Rightarrow> mcp_world" where
  "recordFetchMiss io art w =
     (if t_hash_err io = None \<and> ArtifactHashByID (snd (c_store w)) art = Inl StoreNotFound
      then LedgerAppendFetch (t_cols io) (t_ok io) 0 0 None False w
      else w)"

definition recordFetchResolve :: "tool_io \<Rightarrow> int \<Rightarrow> bytes \<Rightarrow> int \<Rightarrow> mcp_world \<Rightarrow> mcp_world" where
  "recordFetchResolve io art hash returned w =
     (let (ageS, owned) =
            (case LastIndexedAtByHash (t_hash_err io) (snd (c_store w)) hash of
               Inl e \<Rightarrow> (None, False)
             | Inr (t, own) \<Rightarrow> (if 0 < t \<and> 0 \<le> t_now io - t then Some (t_now io - t) else None, own))
      in LedgerAppendFetch (t_cols io) (t_ok io) returned art ageS owned w)"

definition ctr_fetch ::
  "tool_io \<Rightarrow> (fetch_output \<Rightarrow> int) \<Rightarrow> fetch_input \<Rightarrow> mcp_world \<Rightarrow> mcp_world \<times> (tool_error + fetch_output)" where
  "ctr_fetch io len inp w =
     (case selectorFromInput inp of
        Inl e \<Rightarrow> (w, Inl e)
      | Inr sel \<Rightarrow>
          (case ReadRange (q_disk (t_search io)) (snd (c_store w)) (f_artifact inp) sel of
             Inl e \<Rightarrow> (if e = StoreNotFound then recordFetchMiss io (f_artifact inp) w else w, Inl (toToolError e))
           | Inr res \<Rightarrow>
               let out = fetch_answer (q_root (t_search io)) res (fetch_max (f_max inp))
               in (recordFetchResolve io (a_id (x_artifact res)) (a_hash (x_artifact res)) (len out) w, Inr out)))"

section \<open>Index\<close>

record index_input =
  ni_path :: bytes
  ni_content :: bytes
  ni_title :: bytes
  ni_include :: "bytes list"
  ni_exclude :: "bytes list"
  ni_maxbytes :: int

definition validateIndexInput :: "index_input \<Rightarrow> tool_error option" where
  "validateIndexInput inp =
     (if ni_path inp = [] \<and> ni_content inp = [] then Some (toolErr InvalidArgument)
      else if ni_path inp \<noteq> [] \<and> ni_content inp \<noteq> [] then Some (toolErr InvalidArgument)
      else if ni_content inp \<noteq> [] \<and> ni_title inp = [] then Some (toolErr InvalidArgument)
      else None)"

definition index_request :: "index_input \<Rightarrow> request" where
  "index_request inp = \<lparr>q_path = ni_path inp, q_content = ni_content inp, q_title = ni_title inp,
     q_include = ni_include inp, q_exclude = ni_exclude inp, q_maxbytes = ni_maxbytes inp, q_kind = []\<rparr>"

text \<open>\<open>Run\<close> starts workers, so the handler is a relation.\<close>

inductive ctr_index ::
  "disk_view \<Rightarrow> goos \<Rightarrow> (rune \<Rightarrow> rune) \<Rightarrow> int \<Rightarrow> go_error option \<Rightarrow> bytes \<Rightarrow> bytes list \<Rightarrow> tool_io \<Rightarrow> (report \<Rightarrow> int) \<Rightarrow>
     index_input \<Rightarrow> mcp_world \<Rightarrow> mcp_world \<Rightarrow> tool_error + report \<Rightarrow> bool"
  for fs os lower procs ctx base allow io len inp w where
  refused: "validateIndexInput inp = Some e \<Longrightarrow>
    ctr_index fs os lower procs ctx base allow io len inp w w (Inl e)"
| failed: "validateIndexInput inp = None \<Longrightarrow>
    Run fs os lower procs ctx base allow (index_request inp) (c_store w) st rep (Some e) \<Longrightarrow>
    ctr_index fs os lower procs ctx base allow io len inp w (w\<lparr>c_store := st\<rparr>) (Inl (toToolError e))"
| indexed: "validateIndexInput inp = None \<Longrightarrow>
    Run fs os lower procs ctx base allow (index_request inp) (c_store w) st rep None \<Longrightarrow>
    ctr_index fs os lower procs ctx base allow io len inp w
      (LedgerAppend (t_cols io) (t_ok io) ''ctr_index'' (rep_bytes rep) (len rep) (w\<lparr>c_store := st\<rparr>)) (Inr rep)"

section \<open>Fetch and index\<close>

record web_output =
  wo_artifact :: int
  wo_title :: bytes
  wo_bytes :: int
  wo_extraction :: bytes
  wo_chunks :: nat
  wo_snippet :: bytes

text \<open>The state of the network, the requests sent, the world and the answer.\<close>

definition ctr_fetch_and_index ::
  "('n, 'z) net_scheme \<Rightarrow> bool \<Rightarrow> int list \<Rightarrow> reg_io \<Rightarrow> go_error option \<Rightarrow> tool_io \<Rightarrow> (web_output \<Rightarrow> int) \<Rightarrow>
     bytes \<Rightarrow> int \<Rightarrow> 'n \<Rightarrow> mcp_world \<Rightarrow> 'n \<times> request_log \<times> mcp_world \<times> (tool_error + web_output)" where
  "ctr_fetch_and_index net allowLocal ports rio ctx io len url maxBytes s w =
     (if url = [] then (s, [], w, Inl (toolErr InvalidArgument))
      else (case Fetch net \<lparr>cfg_local = allowLocal, cfg_ports = ports, cfg_max = maxBytes\<rparr> url s of
          (s', sent, Inl e) \<Rightarrow> (s', sent, w, Inl (toToolError e))
        | (s', sent, Inr page) \<Rightarrow>
            (case RunWeb rio ctx (n_url page) (n_raw page) (n_body page) (n_media page) (n_extraction page) (n_title page)
                    (c_store w) of
               (st, Inl e) \<Rightarrow> (s', sent, w\<lparr>c_store := st\<rparr>, Inl (toToolError e))
             | (st, Inr rep) \<Rightarrow>
                 let out = \<lparr>wo_artifact = web_artifact rep, wo_title = n_url page, wo_bytes = web_bytes rep,
                            wo_extraction = n_extraction page, wo_chunks = web_chunks rep, wo_snippet = web_snippet rep\<rparr>
                 in (s', sent, LedgerAppend (t_cols io) (t_ok io) ''ctr_fetch_and_index'' (web_bytes rep) (len out)
                        (w\<lparr>c_store := st\<rparr>), Inr out))))"

section \<open>Global search\<close>

type_synonym project = "bytes \<times> search_env \<times> store"

text \<open>A hit with the id of its project.\<close>

type_synonym global_hit = "bytes \<times> hit"

definition global_key :: "global_hit \<Rightarrow> rat \<times> bytes \<times> int" where
  "global_key g = (- ht_score (snd g), fst g, ht_artifact (snd g))"

definition merge_query :: "(bytes \<times> query_result) list \<Rightarrow> nat \<Rightarrow> global_hit list \<times> bool" where
  "merge_query per limit =
     (let hits = sort_key global_key (concat (map (\<lambda>(p, r). map (Pair p) (qr_hits r)) per));
          trunc = list_ex (\<lambda>(p, r). qr_truncated r) per
      in if limit < length hits then (take limit hits, True) else (hits, trunc))"

definition mergeGlobalHits ::
  "bytes list \<Rightarrow> query_result list list \<Rightarrow> bytes list \<Rightarrow> nat \<Rightarrow> (bytes \<times> global_hit list \<times> bool) list" where
  "mergeGlobalHits projects perProject queries limit =
     map (\<lambda>i. (queries ! i, merge_query (zip projects (map (\<lambda>qrs. qrs ! i) perProject)) limit)) [0..<length queries]"

fun query_projects :: "bytes list \<Rightarrow> nat \<Rightarrow> int \<Rightarrow> project list \<Rightarrow> go_error + query_result list list" where
  "query_projects queries limit budget [] = Inr []"
| "query_projects queries limit budget ((pid, env, st) # ps) =
     (case Query env st queries limit budget of
        Inl e \<Rightarrow> Inl e
      | Inr qrs \<Rightarrow>
          (case query_projects queries limit budget ps of Inl e \<Rightarrow> Inl e | Inr rest \<Rightarrow> Inr (qrs # rest)))"

definition ctr_global_search ::
  "project list \<Rightarrow> search_input \<Rightarrow> tool_error + (bytes \<times> global_hit list \<times> bool) list" where
  "ctr_global_search projects inp =
     (if i_queries inp = [] \<or> 8 < length (i_queries inp) then Inl (toolErr InvalidArgument)
      else if i_scope inp \<noteq> [] then Inl (toolErr InvalidArgument)
      else
        let limit = clamp_limit (i_limit inp) in
        (case query_projects (i_queries inp) limit (search_budget (i_budget inp)) projects of
           Inl e \<Rightarrow> Inl (toToolError e)
         | Inr per \<Rightarrow> Inr (mergeGlobalHits (map fst projects) per (i_queries inp) limit)))"

end
