(* ===== verification/Mcp_Session.thy ===== *)
theory Mcp_Session
  imports Mcp Json_Value
begin

text \<open>
  The session tools of the server, \<open>internal/mcp/mcp_session.go\<close>: \<open>ctr_record_event\<close>,
  \<open>ctr_session_summary\<close> and \<open>ctr_export_events\<close>.  The JSON text of the attributes, the scheme of a URI and the
  length of an encoded event are parameters, like the outcomes of queries.
\<close>

section \<open>Recording\<close>

definition redactedFieldMarker :: bytes where
  "redactedFieldMarker = [CHR 0xC2, CHR 0xAB] @ ''REDACTED'' @ [CHR 0xC2, CHR 0xBB]"

text \<open>\<open>d_attributes\<close> is the outcome of \<open>json.Marshal\<close>, \<open>None\<close> for an empty map.\<close>

record record_input =
  d_type :: bytes
  d_summary :: bytes
  d_attributes :: "(go_error + bytes) option"
  d_refs :: "int list"
  d_related :: "bytes list"
  d_supersedes :: bytes

record record_output =
  ro_event :: bytes
  ro_session :: bytes
  ro_ts :: int

definition ref_missing :: "nat \<Rightarrow> int \<Rightarrow> bytes" where
  "ref_missing i art = ''artifact_refs['' @ itoa (int i) @ '']='' @ itoa art @ '' '' @
     [CHR 0xEC, CHR 0x97, CHR 0x86, CHR 0xEC, CHR 0x9D, CHR 0x8C]"

definition artifact_uri :: "bytes \<Rightarrow> bytes \<Rightarrow> bytes" where
  "artifact_uri sid hash = ''artifact://'' @ sid @ ''/sha256-'' @ hash"

fun resolveArtifactRefs :: "store \<Rightarrow> bytes \<Rightarrow> nat \<Rightarrow> int list \<Rightarrow> tool_error + bytes list" where
  "resolveArtifactRefs st sid i [] = Inr []"
| "resolveArtifactRefs st sid i (art # arts) =
     (case ArtifactHashByID st art of
        Inl e \<Rightarrow> Inl (if e = StoreNotFound then ToolErr InvalidArgument (ref_missing i art) else toToolError e)
      | Inr hash \<Rightarrow>
          (case resolveArtifactRefs st sid (Suc i) arts of
             Inl e \<Rightarrow> Inl e | Inr uris \<Rightarrow> Inr (artifact_uri sid hash # uris)))"

text \<open>Summary, attributes, related resources, redaction label.\<close>

definition redact_attributes :: "bytes \<Rightarrow> bytes" where
  "redact_attributes a =
     (if a = [] then []
      else (let b = fst (Redact a) in if parse_json b = None then json_string redactedFieldMarker else b))"

definition redact_related :: "bytes list \<Rightarrow> bytes list" where
  "redact_related rs =
     (if rs = [] then []
      else (case unmarshal_strings (fst (Redact (json_strings rs))) of
          Some parsed \<Rightarrow> parsed | None \<Rightarrow> [redactedFieldMarker]))"

definition redactEventFields :: "bytes \<Rightarrow> bytes \<Rightarrow> bytes list \<Rightarrow> bytes \<times> bytes \<times> bytes list \<times> bytes" where
  "redactEventFields summary attributes related =
     (let spans = snd (Redact summary) + (if attributes = [] then 0 else snd (Redact attributes))
            + (if related = [] then 0 else snd (Redact (json_strings related)))
      in (fst (Redact summary), redact_attributes attributes, redact_related related,
          if 0 < spans then ''spans'' else ''none''))"

definition validation_text :: "go_error \<Rightarrow> bytes" where
  "validation_text e = (case e of ErrOther t \<Rightarrow> t | _ \<Rightarrow> [])"

definition recordEventFromInput ::
  "(bytes \<Rightarrow> bytes option) \<Rightarrow> store \<Rightarrow> bytes \<Rightarrow> record_input \<Rightarrow> tool_error + event" where
  "recordEventFromInput scheme st sid inp =
     (case (case d_attributes inp of None \<Rightarrow> Inr [] | Some r \<Rightarrow> r) of
        Inl e \<Rightarrow> Inl (toolErr InvalidArgument)
      | Inr attrs \<Rightarrow>
          if MaxRefsOrRelated < length (d_refs inp) then Inl (toolErr InvalidArgument)
          else (case resolveArtifactRefs st sid 0 (d_refs inp) of
              Inl e \<Rightarrow> Inl e
            | Inr refs \<Rightarrow>
                if list_ex (\<lambda>r. scheme r = None \<or> scheme r = Some []) (d_related inp) then Inl (toolErr InvalidArgument)
                else (case redactEventFields (d_summary inp) attrs (d_related inp) of
                    (summary, as, related, redaction) \<Rightarrow>
                      let ev = \<lparr>ev_type = d_type inp, ev_summary = summary, ev_attributes = as, ev_refs = refs,
                                ev_related = related, ev_supersedes = d_supersedes inp, ev_redaction = redaction\<rparr>
                      in (case ValidateEvent ev of
                            Some e \<Rightarrow> Inl (ToolErr InvalidArgument (validation_text e))
                          | None \<Rightarrow> Inr ev))))"

definition ctr_record_event ::
  "tool_io \<Rightarrow> session_io \<Rightarrow> (record_output \<Rightarrow> int) \<Rightarrow> (bytes \<Rightarrow> bytes option) \<Rightarrow> bytes \<Rightarrow> record_input \<Rightarrow> mcp_world \<Rightarrow>
     mcp_world \<times> (tool_error + record_output)" where
  "ctr_record_event io sio len scheme sid inp w =
     (case recordEventFromInput scheme (snd (c_store w)) sid inp of
        Inl e \<Rightarrow> (w, Inl e)
      | Inr ev \<Rightarrow>
          (case appendEvent sio sid ev (c_log w) of
             (lg, Inl e) \<Rightarrow>
               (w\<lparr>c_log := lg\<rparr>,
                Inl (if d_supersedes inp \<noteq> [] \<and> e = StoreNotFound then toolErr InvalidArgument
                     else toToolError (the (ClassifyStorageErr (Some e)))))
           | (lg, Inr (i, eid, ts)) \<Rightarrow>
               let out = \<lparr>ro_event = eid, ro_session = sid, ro_ts = ts\<rparr>
               in (LedgerAppend (t_cols io) (t_ok io) ''ctr_record_event'' 0 (len out) (w\<lparr>c_log := lg\<rparr>), Inr out)))"

section \<open>Summary\<close>

record summary_input =
  s_sid :: bytes
  s_limit :: int
  s_max :: int

text \<open>An event with its references and whether each is missing.\<close>

type_synonym shown_event = "summary_event \<times> (bytes \<times> bool) list"

record summary_output =
  sm_checkpoint :: "shown_event option"
  sm_cut :: bool
  sm_groups :: "(bytes \<times> shown_event list \<times> bool) list"
  sm_groups_cut :: bool

definition clampSummaryLimit :: "int \<Rightarrow> int" where
  "clampSummaryLimit n = (if n \<le> 0 then 5 else if 20 < n then 20 else n)"

definition hashFromArtifactURI :: "bytes \<Rightarrow> bytes option" where
  "hashFromArtifactURI uri =
     (if CHR ''/'' \<notin> set uri then None
      else cut_prefix_of ''sha256-'' (rev (takeWhile (\<lambda>c. c \<noteq> CHR ''/'') (rev uri))))"

text \<open>\<open>herr\<close> is the outcome of the existence query for a hash.\<close>

fun show_refs :: "(bytes \<Rightarrow> go_error option) \<Rightarrow> store \<Rightarrow> bytes list \<Rightarrow> tool_error + (bytes \<times> bool) list" where
  "show_refs herr st [] = Inr []"
| "show_refs herr st (uri # uris) =
     (case (case hashFromArtifactURI uri of
              None \<Rightarrow> Inr False
            | Some h \<Rightarrow> (case herr h of Some e \<Rightarrow> Inl (toToolError e) | None \<Rightarrow> Inr (\<not> ArtifactHashExists st h))) of
        Inl e \<Rightarrow> Inl e
      | Inr missing \<Rightarrow> (case show_refs herr st uris of Inl e \<Rightarrow> Inl e | Inr rs \<Rightarrow> Inr ((uri, missing) # rs)))"

definition toSummaryEvent :: "(bytes \<Rightarrow> go_error option) \<Rightarrow> store \<Rightarrow> summary_event \<Rightarrow> tool_error + shown_event" where
  "toSummaryEvent herr st ev = (case show_refs herr st (u_refs ev) of Inl e \<Rightarrow> Inl e | Inr rs \<Rightarrow> Inr (ev, rs))"

text \<open>The events of one group: kept ones, what is left of the budget, truncated.\<close>

fun show_group ::
  "(bytes \<Rightarrow> go_error option) \<Rightarrow> store \<Rightarrow> summary_event list \<Rightarrow> int \<Rightarrow> tool_error + (shown_event list \<times> int \<times> bool)" where
  "show_group herr st [] remaining = Inr ([], remaining, False)"
| "show_group herr st (ev # evs) remaining =
     (if int (length (u_summary ev)) > remaining then Inr ([], remaining, True)
      else (case toSummaryEvent herr st ev of
          Inl e \<Rightarrow> Inl e
        | Inr se \<Rightarrow>
            (case show_group herr st evs (remaining - int (length (u_summary ev))) of
               Inl e \<Rightarrow> Inl e
             | Inr (kept, left, trunc) \<Rightarrow> Inr (se # kept, left, trunc))))"

fun show_groups ::
  "(bytes \<Rightarrow> go_error option) \<Rightarrow> store \<Rightarrow> event_group list \<Rightarrow> int \<Rightarrow>
     tool_error + (bytes \<times> shown_event list \<times> bool) list" where
  "show_groups herr st [] remaining = Inr []"
| "show_groups herr st (g # gs) remaining =
     (case show_group herr st (g_events g) remaining of
        Inl e \<Rightarrow> Inl e
      | Inr (kept, left, trunc) \<Rightarrow>
          if trunc then Inr [(g_type g, kept, True)]
          else (case show_groups herr st gs left of
              Inl e \<Rightarrow> Inl e | Inr rest \<Rightarrow> Inr ((g_type g, kept, False) # rest)))"

definition buildSessionSummaryOutput ::
  "(bytes \<Rightarrow> go_error option) \<Rightarrow> store \<Rightarrow> session_summary \<Rightarrow> int \<Rightarrow> tool_error + summary_output" where
  "buildSessionSummaryOutput herr st summ maxReturnBytes =
     (let budget = (if maxReturnBytes \<le> 0 then 8192 else maxReturnBytes);
          first = (case z_checkpoint summ of
              None \<Rightarrow> Inr (None, False, budget)
            | Some c \<Rightarrow>
                if int (length (u_summary c)) > budget then Inr (None, True, budget)
                else (case toSummaryEvent herr st c of
                    Inl e \<Rightarrow> Inl e
                  | Inr se \<Rightarrow> Inr (Some se, False, budget - int (length (u_summary c)))))
      in (case first of
            Inl e \<Rightarrow> Inl e
          | Inr (ckpt, skipped, remaining) \<Rightarrow>
              (case show_groups herr st (z_groups summ) remaining of
                 Inl e \<Rightarrow> Inl e
               | Inr gs \<Rightarrow> Inr \<lparr>sm_checkpoint = ckpt, sm_cut = skipped, sm_groups = gs, sm_groups_cut = z_truncated summ\<rparr>)))"

text \<open>The outcomes of the queries: checkpoint, types, one per type, one per hash.\<close>

record summary_io =
  y_ckpt :: "go_error option"
  y_types :: "go_error option"
  y_type :: "bytes \<Rightarrow> go_error option"
  y_hash :: "bytes \<Rightarrow> go_error option"

definition ctr_session_summary ::
  "tool_io \<Rightarrow> summary_io \<Rightarrow> (summary_output \<Rightarrow> int) \<Rightarrow> summary_input \<Rightarrow> mcp_world \<Rightarrow>
     mcp_world \<times> (tool_error + summary_output)" where
  "ctr_session_summary io yio len inp w =
     (case Summarize (y_ckpt yio) (y_types yio) (y_type yio) (snd (c_log w)) (s_sid inp) (clampSummaryLimit (s_limit inp)) of
        Inl e \<Rightarrow> (w, Inl (toToolError (the (ClassifyStorageErr (Some e)))))
      | Inr summ \<Rightarrow>
          (case buildSessionSummaryOutput (y_hash yio) (snd (c_store w)) summ (s_max inp) of
             Inl e \<Rightarrow> (w, Inl e)
           | Inr out \<Rightarrow> (LedgerAppend (t_cols io) (t_ok io) ''ctr_session_summary'' 0 (len out) w, Inr out)))"

section \<open>Export\<close>

record export_input =
  e_after :: int
  e_sid :: bytes
  e_limit :: int
  e_max :: int

record export_output =
  eo_events :: "event_v1 list"
  eo_truncated :: bool
  eo_next :: int

definition clampExportLimit :: "int \<Rightarrow> int" where
  "clampExportLimit n = (if n \<le> 0 then 50 else if 200 < n then 200 else n)"

text \<open>\<open>size\<close> is the length of the JSON text of an event.\<close>

fun fill_export :: "(event_v1 \<Rightarrow> int) \<Rightarrow> event_v1 list \<Rightarrow> int \<Rightarrow> int \<Rightarrow> event_v1 list \<times> bool \<times> int" where
  "fill_export len [] nextAfter remaining = ([], False, nextAfter)"
| "fill_export len (ev # evs) nextAfter remaining =
     (if len ev > remaining then ([], True, nextAfter)
      else (case fill_export len evs (x_row ev) (remaining - len ev) of
              (kept, trunc, n) \<Rightarrow> (ev # kept, trunc, n)))"

definition applyExportBudget :: "(event_v1 \<Rightarrow> int) \<Rightarrow> event_v1 list \<Rightarrow> int \<Rightarrow> int \<Rightarrow> event_v1 list \<times> bool \<times> int" where
  "applyExportBudget len evs after maxReturnBytes =
     fill_export len evs after (if maxReturnBytes \<le> 0 then 8192 else maxReturnBytes)"

definition ctr_export_events ::
  "tool_io \<Rightarrow> query_io \<Rightarrow> (event_v1 \<Rightarrow> int) \<Rightarrow> (export_output \<Rightarrow> int) \<Rightarrow> export_input \<Rightarrow> mcp_world \<Rightarrow>
     mcp_world \<times> (tool_error + export_output)" where
  "ctr_export_events io yio elen len inp w =
     (case Export yio (snd (c_log w)) (e_after inp) (e_sid inp) (clampExportLimit (e_limit inp)) of
        (evs, n, Some e) \<Rightarrow> (w, Inl (toToolError (the (ClassifyStorageErr (Some e)))))
      | (evs, n, None) \<Rightarrow>
          (case applyExportBudget elen evs (e_after inp) (e_max inp) of
             (kept, trunc, nextAfter) \<Rightarrow>
               let out = \<lparr>eo_events = kept, eo_truncated = trunc, eo_next = nextAfter\<rparr>
               in (LedgerAppend (t_cols io) (t_ok io) ''ctr_export_events'' 0 (len out) w, Inr out)))"

end
