(* ===== verification/Mcp_Facts.thy ===== *)
theory Mcp_Facts
  imports Mcp
begin

text \<open>What the content tools promise: budgets, stored bytes, the order of merged hits, and what a fetched page
  leaves behind.\<close>

section \<open>Search\<close>

definition summary_bytes :: "event_hit list \<Rightarrow> int" where
  "summary_bytes hs = sum_list (map (\<lambda>h. int (length (eh_summary h))) hs)"

definition answer_bytes :: "search_answer \<Rightarrow> int" where
  "answer_bytes a = snippet_bytes (so_hits a) + (case so_events a of None \<Rightarrow> 0 | Some es \<Rightarrow> summary_bytes es)"

lemma summary_bytes_simps [simp]:
  "summary_bytes [] = 0" "summary_bytes (h # hs) = int (length (eh_summary h)) + summary_bytes hs"
  by (simp_all add: summary_bytes_def)

lemma take_events_spec:
  "take_events hs r = (kept, left, t) \<Longrightarrow> 0 \<le> r \<Longrightarrow>
     prefix kept hs \<and> left = r - summary_bytes kept \<and> 0 \<le> left \<and> (t \<longleftrightarrow> kept \<noteq> hs)"
proof (induction hs arbitrary: r kept left t)
  case (Cons h hs)
  show ?case
  proof (cases "int (length (eh_summary h)) > r")
    case False
    obtain k l b where r: "take_events hs (r - int (length (eh_summary h))) = (k, l, b)" by (metis surj_pair)
    with Cons.prems False have "kept = h # k" "left = l" "t = b" by auto
    with Cons.IH [OF r] False show ?thesis by auto
  qed (use Cons.prems in auto)
qed auto

lemma queryEventSection_spec:
  "queryEventSection eng lower db limit qs r = Inr rs \<Longrightarrow> 0 \<le> r \<Longrightarrow>
     length rs = length qs \<and> sum_list (map (summary_bytes \<circ> fst) rs) \<le> r"
proof (induction qs arbitrary: r rs)
  case (Cons q qs)
  from Cons.prems(1) obtain hits where h: "QueryEvents eng lower db q limit = Inr hits" by (auto split: sum.splits)
  obtain kept left t where te: "take_events hits r = (kept, left, t)" by (metis surj_pair)
  with Cons.prems(1) h obtain rest where
    rest: "queryEventSection eng lower db limit qs left = Inr rest" "rs = (kept, t) # rest"
    by (auto split: sum.splits)
  from take_events_spec [OF te Cons.prems(2)] Cons.IH [OF rest(1)] rest(2) show ?case by simp
qed auto

lemma sum_list_nth: "length xs = n \<Longrightarrow> sum_list (map (\<lambda>i. f (xs ! i)) [0..<n]) = sum_list (map f xs)"
  by (metis map_nth map_map [unfolded comp_def])

lemma answer_sum:
  assumes "qrs \<noteq> None \<Longrightarrow> length (the qrs) = length qs" and "evs \<noteq> None \<Longrightarrow> length (the evs) = length qs"
  shows "sum_list (map answer_bytes (buildSearchOutput qs qrs evs))
    = (case qrs of None \<Rightarrow> 0 | Some rs \<Rightarrow> contentBudgetUsed rs)
      + (case evs of None \<Rightarrow> 0 | Some es \<Rightarrow> sum_list (map (summary_bytes \<circ> fst) es))"
proof -
  have "sum_list (map answer_bytes (buildSearchOutput qs qrs evs)) =
      sum_list (map (\<lambda>i. case qrs of None \<Rightarrow> 0 | Some rs \<Rightarrow> snippet_bytes (qr_hits (rs ! i))) [0..<length qs])
      + sum_list (map (\<lambda>i. case evs of None \<Rightarrow> 0 | Some es \<Rightarrow> summary_bytes (fst (es ! i))) [0..<length qs])"
    unfolding sum_list_addf [symmetric]
    by (intro arg_cong [of _ _ sum_list])
       (simp add: buildSearchOutput_def answer_bytes_def split: option.split)
  also have "\<dots> = (case qrs of None \<Rightarrow> 0 | Some rs \<Rightarrow> contentBudgetUsed rs)
      + (case evs of None \<Rightarrow> 0 | Some es \<Rightarrow> sum_list (map (summary_bytes \<circ> fst) es))"
    using assms by (cases qrs; cases evs)
       (simp_all add: contentBudgetUsed_def comp_def sum_list_nth [where f = "\<lambda>r. snippet_bytes (qr_hits r)"]
          sum_list_nth [where f = "\<lambda>e. summary_bytes (fst e)"])
  finally show ?thesis .
qed

lemma LedgerAppend_keeps [simp]:
  "c_store (LedgerAppend cols ok tool a b w) = c_store w" "c_log (LedgerAppend cols ok tool a b w) = c_log w"
  by (simp_all add: LedgerAppend_def)

lemma clamp_limit_bound: "clamp_limit n \<le> 10" by (simp add: clamp_limit_def nat_le_iff)

lemma search_budget_pos: "0 < search_budget n" by (simp add: search_budget_def)

lemma ctr_search_Inr:
  assumes "ctr_search io len inp w = (w', Inr out)"
  obtains qrs es where "0 < length (i_queries inp)" "length (i_queries inp) \<le> 8"
    "qrs = None \<or> Query (t_search io) (snd (c_store w)) (i_queries inp) (clamp_limit (i_limit inp)) (search_budget (i_budget inp))
       = Inr (the qrs)"
    "es = None \<or> queryEventSection (the (t_events io)) (q_lower (t_search io)) (snd (c_log w)) (clamp_limit (i_limit inp))
       (i_queries inp) (max 0 (search_budget (i_budget inp) - (case qrs of None \<Rightarrow> 0 | Some rs \<Rightarrow> contentBudgetUsed rs)))
       = Inr (the es)"
    "out = buildSearchOutput (i_queries inp) qrs es"
    "w' = LedgerAppend (t_cols io) (t_ok io) ''ctr_search'' 0 (len out) w"
proof -
  let ?limit = "clamp_limit (i_limit inp)" and ?budget = "search_budget (i_budget inp)"
  have n: "i_queries inp \<noteq> []" "length (i_queries inp) \<le> 8"
    using assms by (auto simp: ctr_search_def split: if_splits)
  obtain scope where sc: "normalizeSearchScope (i_scope inp) = Inr scope" "\<not> (scope \<noteq> ''content'' \<and> t_events io = None)"
    using assms n by (auto simp: ctr_search_def split: sum.splits if_splits)
  let ?content = "if scope = ''events'' then Inr None
      else map_sum id Some (Query (t_search io) (snd (c_store w)) (i_queries inp) ?limit ?budget)"
  obtain qrs where c: "?content = Inr qrs"
    using assms n sc by (cases ?content) (auto simp: ctr_search_def Let_def)
  let ?used = "case qrs of None \<Rightarrow> 0 | Some rs \<Rightarrow> contentBudgetUsed rs"
  let ?evs = "if scope = ''content'' then Inr None
      else map_sum id Some (queryEventSection (the (t_events io)) (q_lower (t_search io)) (snd (c_log w))
             ?limit (i_queries inp) (max 0 (?budget - ?used)))"
  obtain es where e: "?evs = Inr es"
    using assms n sc c by (cases ?evs) (auto simp: ctr_search_def Let_def)
  show thesis
  proof
    show "0 < length (i_queries inp)" using n by simp
    show "qrs = None \<or> Query (t_search io) (snd (c_store w)) (i_queries inp) ?limit ?budget = Inr (the qrs)"
      using c by (cases "Query (t_search io) (snd (c_store w)) (i_queries inp) ?limit ?budget") (auto split: if_splits)
    show "es = None \<or> queryEventSection (the (t_events io)) (q_lower (t_search io)) (snd (c_log w)) ?limit
       (i_queries inp) (max 0 (?budget - ?used)) = Inr (the es)"
      using e by (cases "queryEventSection (the (t_events io)) (q_lower (t_search io)) (snd (c_log w)) ?limit
       (i_queries inp) (max 0 (?budget - ?used))") (auto split: if_splits)
    have "w' = LedgerAppend (t_cols io) (t_ok io) ''ctr_search'' 0 (len out) w
        \<and> out = buildSearchOutput (i_queries inp) qrs es"
      using assms n sc c e by (auto simp: ctr_search_def Let_def)
    then show "out = buildSearchOutput (i_queries inp) qrs es"
      "w' = LedgerAppend (t_cols io) (t_ok io) ''ctr_search'' 0 (len out) w" by simp_all
  qed (use n in simp)
qed

text \<open>Property C29.  An answer of \<open>ctr_search\<close> has one entry per query, in order, each with at most ten hits; the
  snippets and the event summaries of all entries together stay within the byte budget of the request, or 8192
  bytes without one; and nothing but the ledger changes.\<close>

theorem search_answer_in_budget:
  assumes "ctr_search io len inp w = (w', Inr out)"
  shows "map so_query out = i_queries inp \<and> length out \<in> {1..8}
    \<and> (\<forall>a \<in> set out. length (so_hits a) \<le> 10)
    \<and> sum_list (map answer_bytes out) \<le> (if i_budget inp \<le> 0 then 8192 else i_budget inp)
    \<and> c_store w' = c_store w \<and> c_log w' = c_log w"
  using assms
proof (rule ctr_search_Inr)
  fix qrs es
  let ?limit = "clamp_limit (i_limit inp)" and ?budget = "search_budget (i_budget inp)"
  let ?used = "case qrs of None \<Rightarrow> 0 | Some rs \<Rightarrow> contentBudgetUsed rs"
  assume n: "0 < length (i_queries inp)" "length (i_queries inp) \<le> 8"
    and q: "qrs = None \<or> Query (t_search io) (snd (c_store w)) (i_queries inp) ?limit ?budget = Inr (the qrs)"
    and e: "es = None \<or> queryEventSection (the (t_events io)) (q_lower (t_search io)) (snd (c_log w)) ?limit
       (i_queries inp) (max 0 (?budget - ?used)) = Inr (the es)"
    and out: "out = buildSearchOutput (i_queries inp) qrs es"
    and w': "w' = LedgerAppend (t_cols io) (t_ok io) ''ctr_search'' 0 (len out) w"
  have spec: "map qr_query rs = i_queries inp \<and> (\<forall>r \<in> set rs. length (qr_hits r) \<le> ?limit)
      \<and> contentBudgetUsed rs \<le> ?budget" if "qrs = Some rs" for rs
    using query_loop_spec [of "t_search io" "snd (c_store w)" ?limit ?budget "i_queries inp" ?budget "[]" rs]
      q that search_budget_pos [of "i_budget inp"]
    by (simp add: Query_def contentBudgetUsed_def comp_def)
  then have len: "length rs = length (i_queries inp)" if "qrs = Some rs" for rs
    using that by (metis length_map)
  have espec: "length evs = length (i_queries inp)
      \<and> sum_list (map (summary_bytes \<circ> fst) evs) \<le> max 0 (?budget - ?used)" if "es = Some evs" for evs
    using queryEventSection_spec [of "the (t_events io)" _ _ ?limit "i_queries inp" "max 0 (?budget - ?used)" evs] e that
    by simp
  have "?used \<le> ?budget" using spec search_budget_pos [of "i_budget inp"] by (cases qrs) auto
  then have "sum_list (map answer_bytes out) \<le> ?budget"
    using answer_sum [of qrs "i_queries inp" es] len espec search_budget_pos [of "i_budget inp"]
    unfolding out by (cases qrs; cases es) auto
  moreover have "length (so_hits a) \<le> 10" if "a \<in> set out" for a
  proof -
    from that obtain i where "i < length (i_queries inp)"
      "so_hits a = (case qrs of None \<Rightarrow> [] | Some rs \<Rightarrow> qr_hits (rs ! i))"
      unfolding out by (auto simp: buildSearchOutput_def)
    with spec len clamp_limit_bound [of "i_limit inp"] show ?thesis
      by (cases qrs) (auto intro: order_trans)
  qed
  moreover have "map so_query out = i_queries inp" "length out = length (i_queries inp)"
    unfolding out by (simp_all add: buildSearchOutput_def comp_def map_nth)
  moreover have "length (i_queries inp) \<in> {1..8}" using n by (simp add: Suc_le_eq)
  ultimately show ?thesis unfolding w' by (simp add: search_budget_def)
qed

section \<open>Fetch\<close>

lemma applyFetchBudget_slice:
  assumes "applyFetchBudget res n = (part, byteEnd, lineEnd, trunc)"
    and "x_bend res = x_bstart res + int (length (x_text res))"
  shows "part = take (length part) (x_text res) \<and> length part \<le> length (x_text res) \<and> length part \<le> n
    \<and> byteEnd = x_bstart res + int (length part)"
proof (cases "length (x_text res) \<le> n")
  case True
  with assms show ?thesis by (auto simp: applyFetchBudget_def)
next
  case False
  let ?k = "rune_back (x_text res) n"
  have k: "?k \<le> n" by (rule rune_back_le)
  from False assms(1) have "part = take ?k (x_text res)" "byteEnd = x_bstart res + int ?k"
    by (simp_all add: applyFetchBudget_def Let_def)
  with False k show ?thesis by (simp add: min_def)
qed

lemma read_slice:
  assumes "read_selected st meta sel = Inr res" and "\<And>c. sel \<noteq> ChunkSel c"
  shows "x_artifact res = meta \<and> (\<exists>blob. readBlob st (a_hash meta) = Inr blob
    \<and> 0 \<le> x_bstart res \<and> x_bstart res \<le> x_bend res \<and> x_bend res \<le> int (length blob)
    \<and> x_text res = take (nat (x_bend res - x_bstart res)) (drop (nat (x_bstart res)) blob))"
  using assms
  by (cases sel) (auto simp: read_selected_def empty_result_def slice_of_def Let_def split: sum.splits if_splits prod.splits)

lemma ReadRange_slice:
  assumes "ReadRange d st art sel = Inr res" and "\<And>c. sel \<noteq> ChunkSel c"
  shows "\<exists>meta blob. artifact_of st art = Some meta \<and> x_artifact res = meta \<and> readBlob st (a_hash meta) = Inr blob
    \<and> 0 \<le> x_bstart res \<and> x_bstart res \<le> x_bend res \<and> x_bend res \<le> int (length blob)
    \<and> x_text res = take (nat (x_bend res - x_bstart res)) (drop (nat (x_bstart res)) blob)"
proof -
  from assms(1) obtain meta res1 where 1: "artifact_of st art = Some meta" "read_selected st meta sel = Inr res1"
    and res: "x_text res = x_text res1" "x_bstart res = x_bstart res1" "x_bend res = x_bend res1"
      "x_artifact res = x_artifact res1"
    by (cases sel) (auto simp: ReadRange_def split: option.splits sum.splits)
  from read_slice [OF 1(2) assms(2)] 1(1) res show ?thesis by auto
qed

lemma recordFetch_keeps [simp]:
  "c_store (recordFetchMiss io art w) = c_store w" "c_log (recordFetchMiss io art w) = c_log w"
  "c_store (recordFetchResolve io art h n w) = c_store w" "c_log (recordFetchResolve io art h n w) = c_log w"
  by (simp_all add: recordFetchMiss_def recordFetchResolve_def LedgerAppendFetch_def Let_def
      split: sum.split prod.split ledger_cols.split)

lemma selectorFromInput_cases:
  assumes "selectorFromInput inp = Inr sel" and "f_chunk inp = None"
  shows "(\<forall>c. sel \<noteq> ChunkSel c) \<and> (f_lines inp = (None, None) \<longrightarrow> (\<exists>a b. sel = ByteSel a b))"
proof -
  obtain l1 l2 b1 b2 where "f_lines inp = (l1, l2)" "f_bytes inp = (b1, b2)" by fastforce
  with assms show ?thesis
    by (cases l1; cases l2; cases b1; cases b2) (auto simp: selectorFromInput_def)
qed

lemma cut_is_valid:
  assumes "applyFetchBudget res n = (part, byteEnd, lineEnd, trunc)" and "utf8_valid (x_text res)"
  shows "utf8_valid part"
proof (cases "length (x_text res) \<le> n")
  case True
  with assms show ?thesis by (simp add: applyFetchBudget_def)
next
  case False
  with assms(1) have "part = take (rune_back (x_text res) n) (x_text res)" by (simp add: applyFetchBudget_def Let_def)
  with False utf8_valid_rune_back [OF assms(2), of n] show ?thesis by simp
qed


section \<open>Global search\<close>

lemma sort_take:
  fixes f :: "'a \<Rightarrow> 'b::linorder"
  shows "sorted (map f (take n (sort_key f xs)))"
    and "\<forall>x \<in> set (take n (sort_key f xs)). \<forall>y \<in> set (drop n (sort_key f xs)). f x \<le> f y"
    and "mset (take n (sort_key f xs)) + mset (drop n (sort_key f xs)) = mset xs"
proof -
  let ?s = "sort_key f xs"
  have "sorted (map f (take n ?s) @ map f (drop n ?s))" by (metis append_take_drop_id map_append sorted_sort_key)
  then show "sorted (map f (take n ?s))" "\<forall>x \<in> set (take n ?s). \<forall>y \<in> set (drop n ?s). f x \<le> f y"
    by (auto simp: sorted_append)
  show "mset (take n ?s) + mset (drop n ?s) = mset xs" by (metis append_take_drop_id mset_append mset_sort)
qed

lemma merge_query_spec:
  assumes "merge_query per limit = (hits, trunc)"
  shows "sorted (map global_key hits) \<and> length hits \<le> limit
    \<and> (\<exists>rest. mset hits + mset rest = mset (concat (map (\<lambda>(p, r). map (Pair p) (qr_hits r)) per))
        \<and> (\<forall>x \<in> set hits. \<forall>y \<in> set rest. global_key x \<le> global_key y)
        \<and> (trunc \<longleftrightarrow> rest \<noteq> [] \<or> (\<exists>(p, r) \<in> set per. qr_truncated r)))"
proof -
  let ?all = "concat (map (\<lambda>(p, r). map (Pair p) (qr_hits r)) per)"
  let ?s = "sort_key global_key ?all"
  let ?cut = "list_ex (\<lambda>(p, r). qr_truncated r) per"
  have m: "merge_query per limit = (if limit < length ?s then (take limit ?s, True) else (?s, ?cut))"
    unfolding merge_query_def Let_def by (rule refl)
  have "hits = take limit ?s \<and> (trunc \<longleftrightarrow> drop limit ?s \<noteq> [] \<or> ?cut)"
  proof (cases "limit < length ?s")
    case True
    with assms m show ?thesis by (simp del: length_sort)
  next
    case False
    with assms m have "hits = ?s" "trunc = ?cut" by (simp_all del: length_sort)
    with False show ?thesis by (simp del: length_sort)
  qed
  then have hits: "hits = take limit ?s" and trunc: "trunc \<longleftrightarrow> drop limit ?s \<noteq> [] \<or> (\<exists>(p, r) \<in> set per. qr_truncated r)"
    unfolding list_ex_iff by blast+
  show ?thesis
    using sort_take [where f = global_key and n = limit and xs = ?all] trunc unfolding hits
    by (intro conjI exI [of _ "drop limit ?s"]) simp_all
qed

lemma query_projects_Inr:
  "query_projects qs limit budget ps = Inr per \<Longrightarrow>
     list_all2 (\<lambda>(pid, env, st) qrs. Query env st qs limit budget = Inr qrs) ps per"
proof (induction ps arbitrary: per)
  case (Cons p ps)
  obtain pid env st where "p = (pid, env, st)" by (metis surj_pair)
  with Cons show ?case by (auto split: sum.splits)
qed simp

lemma zip_rows:
  "zip (map fst projects) (map (\<lambda>qrs. qrs ! i) per) = map (\<lambda>(p, r). (fst p, r ! i)) (zip projects per)"
  by (simp add: zip_map_map case_prod_beta)

lemma zip_hits:
  "map (\<lambda>(p, r). map (Pair p) (qr_hits r)) (zip (map fst projects) (map (\<lambda>qrs. qrs ! i) per))
     = map (\<lambda>(p, r). map (Pair (fst p)) (qr_hits (r ! i))) (zip projects per)"
  unfolding zip_rows by (simp add: case_prod_beta)

lemma zip_cuts:
  assumes "length projects = length per"
  shows "(\<exists>(p, r) \<in> set (zip (map fst projects) (map (\<lambda>qrs. qrs ! i) per)). qr_truncated r)
     \<longleftrightarrow> (\<exists>r \<in> set per. qr_truncated (r ! i))"
proof -
  have "set per = snd ` set (zip projects per)" using assms by (metis map_snd_zip list.set_map)
  then show ?thesis unfolding zip_rows by (simp add: case_prod_beta)
qed

text \<open>Property C31.  The answer of \<open>ctr_global_search\<close> to a query is the best of what the projects answer: hits in
  the order of score, project and artifact, no more than the limit, none left out that precedes one kept, and
  marked as truncated exactly when a hit was left out or a project had cut its own.\<close>

theorem global_search_merges_best:
  assumes "ctr_global_search projects inp = Inr out" and "i < length (i_queries inp)"
  shows "\<exists>per hits trunc rest. list_all2 (\<lambda>(pid, env, st) qrs.
        Query env st (i_queries inp) (clamp_limit (i_limit inp)) (search_budget (i_budget inp)) = Inr qrs) projects per
    \<and> length out = length (i_queries inp) \<and> out ! i = (i_queries inp ! i, hits, trunc)
    \<and> sorted (map global_key hits) \<and> length hits \<le> 10
    \<and> mset hits + mset rest = mset (concat (map (\<lambda>(p, r). map (Pair (fst p)) (qr_hits (r ! i))) (zip projects per)))
    \<and> (\<forall>x \<in> set hits. \<forall>y \<in> set rest. global_key x \<le> global_key y)
    \<and> (trunc \<longleftrightarrow> rest \<noteq> [] \<or> (\<exists>r \<in> set per. qr_truncated (r ! i)))"
proof -
  let ?limit = "clamp_limit (i_limit inp)"
  obtain per where per: "query_projects (i_queries inp) ?limit (search_budget (i_budget inp)) projects = Inr per"
    and out: "out = mergeGlobalHits (map fst projects) per (i_queries inp) ?limit"
    using assms(1) by (auto simp: ctr_global_search_def Let_def split: if_splits sum.splits)
  note all = query_projects_Inr [OF per]
  then have len: "length projects = length per" by (rule list_all2_lengthD)
  let ?zip = "zip (map fst projects) (map (\<lambda>qrs. qrs ! i) per)"
  obtain hits trunc where m: "merge_query ?zip ?limit = (hits, trunc)" by fastforce
  have o: "out ! i = (i_queries inp ! i, hits, trunc)" "length out = length (i_queries inp)"
    using assms(2) m unfolding out by (simp_all add: mergeGlobalHits_def)
  note lists = zip_hits [of projects i per] and cuts = zip_cuts [OF len, of i]
  from merge_query_spec [OF m, unfolded lists cuts] obtain rest where
    "sorted (map global_key hits)" "length hits \<le> ?limit"
    "mset hits + mset rest = mset (concat (map (\<lambda>(p, r). map (Pair (fst p)) (qr_hits (r ! i))) (zip projects per)))"
    "\<forall>x \<in> set hits. \<forall>y \<in> set rest. global_key x \<le> global_key y"
    "trunc \<longleftrightarrow> rest \<noteq> [] \<or> (\<exists>r \<in> set per. qr_truncated (r ! i))" by blast
  moreover have "length hits \<le> 10" using calculation(2) clamp_limit_bound [of "i_limit inp"] by (rule order_trans)
  ultimately show ?thesis using all o
    by (intro exI [of _ per] exI [of _ hits] exI [of _ trunc] exI [of _ rest] conjI)
qed

section \<open>Fetch and index\<close>


section \<open>Concrete calls\<close>

definition demo_io :: tool_io where
  "demo_io = \<lparr>t_search = demo_search1, t_events = None, t_cols = AllCols, t_ok = True, t_now = 9, t_hash_err = None\<rparr>"

definition demo_state :: "store \<Rightarrow> mcp_world" where
  "demo_state st = \<lparr>c_store = (demo_env, st), c_log = (\<lparr>e_tx = [], e_ctx = []\<rparr>, fresh_session_db), c_ledger = []\<rparr>"

definition demo_question :: search_input where
  "demo_question = \<lparr>i_queries = [''b''], i_limit = 5, i_budget = 0, i_scope = []\<rparr>"

lemma demo_content: "\<exists>h b. Query demo_search1 demo_hit_store [''b''] 5 8192 = Inr [\<lparr>qr_query = ''b'', qr_hits = h, qr_truncated = b\<rparr>]"
proof -
  have "\<exists>rs. Query demo_search1 demo_hit_store [''b''] 5 8192 = Inr rs"
    using demo_query by (auto simp: Query_def Let_def split: sum.splits prod.splits prod.split)
  then obtain rs where "Query demo_search1 demo_hit_store [''b''] 5 8192 = Inr rs" by blast
  moreover from query_loop_spec [of demo_search1 demo_hit_store 5 8192 "[''b'']" 8192 "[]" rs] calculation
  have "map qr_query rs = [''b'']" by (simp add: Query_def)
  ultimately obtain a where "Query demo_search1 demo_hit_store [''b''] 5 8192 = Inr [a]" "qr_query a = ''b''" by (cases rs) auto
  moreover obtain q h b where "a = \<lparr>qr_query = q, qr_hits = h, qr_truncated = b\<rparr>" by (cases a)
  ultimately show ?thesis by simp
qed

theorem search_answer_in_budget_witness:
  "\<exists>w' out. ctr_search demo_io (\<lambda>a. 1) demo_question (demo_state demo_hit_store) = (w', Inr out)
     \<and> map so_query out = [''b''] \<and> sum_list (map answer_bytes out) \<le> 8192"
proof -
  obtain h b where "Query demo_search1 demo_hit_store [''b''] 5 8192 = Inr [\<lparr>qr_query = ''b'', qr_hits = h, qr_truncated = b\<rparr>]"
    using demo_content by blast
  then obtain w' out where run: "ctr_search demo_io (\<lambda>a. 1) demo_question (demo_state demo_hit_store) = (w', Inr out)"
    by (simp add: ctr_search_def demo_io_def demo_question_def demo_state_def normalizeSearchScope_def clamp_limit_def
        search_budget_def Let_def)
  from search_answer_in_budget [OF run] run show ?thesis by (auto simp: demo_question_def)
qed


theorem global_search_merges_best_witness:
  "\<exists>out hits trunc. ctr_global_search [(''p'', demo_search1, demo_hit_store)] demo_question = Inr out
     \<and> out ! 0 = (''b'', hits, trunc) \<and> sorted (map global_key hits)"
proof -
  let ?ps = "[(''p'', demo_search1, demo_hit_store)]"
  obtain h b where "Query demo_search1 demo_hit_store [''b''] 5 8192 = Inr [\<lparr>qr_query = ''b'', qr_hits = h, qr_truncated = b\<rparr>]"
    using demo_content by blast
  then obtain out where run: "ctr_global_search ?ps demo_question = Inr out"
    by (simp add: ctr_global_search_def demo_question_def clamp_limit_def search_budget_def Let_def)
  have "0 < length (i_queries demo_question)" by (simp add: demo_question_def)
  from global_search_merges_best [OF run this] run show ?thesis by (auto simp: demo_question_def)
qed

lemma demo_page:
  "\<exists>v' st' art. Register Store_Register.demo_io (web_registration ''u'' None ''body'' ''text/plain'' [] []) (demo_env, empty_store)
     = ((v', st'), Inr art)"
proof -
  have r: "Redact ''body'' = (''body'', 0)" "Redact [] = ([], 0)" by code_simp+
  have c: "ChunkText ''body'' False = [\<lparr>k_ordinal = 0, k_bstart = 0, k_bend = 4, k_lstart = 1,
      k_lend = 1, k_title = [], k_text = ''body''\<rparr>]" by code_simp
  have reg: "web_registration ''u'' None ''body'' ''text/plain'' [] [] =
      \<lparr>r_bytes = ''body'', r_media = ''text/plain'', r_redaction = redaction_label 0,
       r_source = \<lparr>m_uri = ''u'', m_kind = ''web'', m_size = 4, m_mtime = 0, m_hash = sha256_hex ''body'', m_extraction = []\<rparr>,
       r_chunks = [\<lparr>k_ordinal = 0, k_bstart = 0, k_bend = 4, k_lstart = 1, k_lend = 1, k_title = [], k_text = ''body''\<rparr>],
       r_expected = [], r_raw = None\<rparr>"
    by (simp add: web_registration_def r c Let_def capTitleBytes_def)
  show ?thesis unfolding reg
    by (simp add: Register_def demo_defs writeBlob_def txRetry_def txRetry_loop.simps [of 3] runTx_def pop_def insert_chunk_def
        register_tx_def select_or_insert_def find_artifact_def isBusy_def nextArtifactID_def upsert_source_def Let_def
        insert_artifact_def bump_watermark_def source_row_of_def)
qed


end
