(* ===== verification/Mcp_Session_Facts.thy ===== *)
theory Mcp_Session_Facts
  imports Mcp_Session Mcp_Facts
begin

text \<open>What the session tools promise: a recorded event is valid and redacted, a summary keeps its budget and flags
  dead references, and the pages of an export join without gap or overlap.\<close>

section \<open>Recording\<close>

lemma resolveArtifactRefs_Inr:
  "resolveArtifactRefs st sid i arts = Inr uris \<Longrightarrow>
     \<exists>hs. list_all2 (\<lambda>a h. ArtifactHashByID st a = Inr h) arts hs \<and> uris = map (artifact_uri sid) hs"
proof (induction arts arbitrary: i uris)
  case (Cons a arts)
  from Cons.prems obtain h rest where h: "ArtifactHashByID st a = Inr h"
    "resolveArtifactRefs st sid (Suc i) arts = Inr rest" "uris = artifact_uri sid h # rest"
    by (auto split: sum.splits)
  with Cons.IH [OF h(2)] obtain hs where
    "list_all2 (\<lambda>a h. ArtifactHashByID st a = Inr h) arts hs" "rest = map (artifact_uri sid) hs" by blast
  with h show ?case by (intro exI [of _ "h # hs"]) simp
qed simp

abbreviation marker_json :: bytes where
  "marker_json \<equiv> [CHR 0x22, CHR 0xC2, CHR 0xAB] @ ''REDACTED'' @ [CHR 0xC2, CHR 0xBB, CHR 0x22]"

lemma decode_quotes:
  "decode_tail 194 (CHR 0xAB # s) = (171, 2)" "decode_tail 194 (CHR 0xBB # s) = (187, 2)"
  by (simp_all add: decode_tail_def second_ok_def)

lemma json_marker: "json_string redactedFieldMarker = marker_json"
  by (simp add: json_string_def redactedFieldMarker_def json_byte_def bad_rune_def decode_quotes Let_def)

lemma marker_utf8: "utf8_valid redactedFieldMarker"
  by (simp add: redactedFieldMarker_def utf8_valid_step bad_rune_def rune_error_def decode_quotes)

lemma marker_is_json: "parse_json (json_string redactedFieldMarker) \<noteq> None"
  using read_json_chars [OF marker_utf8, of "[]"]
  by (simp add: parse_json_def json_string_def skip_ws_def json_fuel_def read_value.simps(2) numeral_2_eq_2)

lemma marker_clean:
  "\<not> re_match aws_re marker_json" "\<not> re_match github_re marker_json" "\<not> re_match slack_re marker_json"
  "\<not> re_match jwt_re marker_json"
  by code_simp+

lemma marker_token_free: "token_free (json_string redactedFieldMarker)"
  unfolding token_free_def json_marker using marker_clean by simp

lemma redact_attributes_safe:
  assumes "a \<noteq> []"
  shows "token_free (redact_attributes a) \<and> parse_json (redact_attributes a) \<noteq> None"
  using assms marker_token_free marker_is_json token_free_Redact [of a]
  by (simp add: redact_attributes_def Let_def)

lemma redact_attributes_Nil: "redact_attributes [] = []"
  by (simp add: redact_attributes_def)

lemma recordEventFromInput_Inr:
  assumes "recordEventFromInput scheme st sid inp = Inr ev"
  obtains hs where "list_all2 (\<lambda>a h. ArtifactHashByID st a = Inr h) (d_refs inp) hs"
    and "ev_refs ev = map (artifact_uri sid) hs" and "ev_type ev = d_type inp"
    and "token_free (ev_summary ev)"
    and "ev_attributes ev \<noteq> [] \<Longrightarrow> token_free (ev_attributes ev) \<and> parse_json (ev_attributes ev) \<noteq> None"
    and "ev_redaction ev = ''spans'' \<or> ev_redaction ev = ''none'' \<and> ev_summary ev = d_summary inp"
    and "ValidateEvent ev = None" and "\<forall>r \<in> set (d_related inp). scheme r \<noteq> None \<and> scheme r \<noteq> Some []"
proof -
  obtain attrs where 1: "(case d_attributes inp of None \<Rightarrow> Inr [] | Some r \<Rightarrow> r) = Inr attrs"
    using assms by (cases "case d_attributes inp of None \<Rightarrow> Inr [] | Some r \<Rightarrow> r") (auto simp: recordEventFromInput_def)
  have n: "\<not> MaxRefsOrRelated < length (d_refs inp)"
    using assms 1 by (auto simp: recordEventFromInput_def split: if_splits)
  obtain refs where 2: "resolveArtifactRefs st sid 0 (d_refs inp) = Inr refs"
    using assms 1 n by (cases "resolveArtifactRefs st sid 0 (d_refs inp)") (auto simp: recordEventFromInput_def)
  have r: "\<not> list_ex (\<lambda>r. scheme r = None \<or> scheme r = Some []) (d_related inp)"
    using assms 1 n 2 by (auto simp: recordEventFromInput_def split: if_splits)
  let ?red = "redactEventFields (d_summary inp) attrs (d_related inp)"
  let ?ev = "\<lparr>ev_type = d_type inp, ev_summary = fst ?red, ev_attributes = fst (snd ?red), ev_refs = refs,
    ev_related = fst (snd (snd ?red)), ev_supersedes = d_supersedes inp, ev_redaction = snd (snd (snd ?red))\<rparr>"
  have ev: "ev = ?ev \<and> ValidateEvent ?ev = None"
    using assms 1 n 2 r
    by (cases "ValidateEvent ?ev") (simp_all add: recordEventFromInput_def Let_def split_beta)
  obtain hs where hs: "list_all2 (\<lambda>a h. ArtifactHashByID st a = Inr h) (d_refs inp) hs"
      "refs = map (artifact_uri sid) hs"
    using resolveArtifactRefs_Inr [OF 2] by blast
  show thesis
  proof
    show "list_all2 (\<lambda>a h. ArtifactHashByID st a = Inr h) (d_refs inp) hs" by (rule hs(1))
    show "ev_attributes ev \<noteq> [] \<Longrightarrow> token_free (ev_attributes ev) \<and> parse_json (ev_attributes ev) \<noteq> None"
      using ev redact_attributes_safe [of attrs] redact_attributes_Nil
      by (cases "attrs = []") (simp_all add: redactEventFields_def)
    show "ev_redaction ev = ''spans'' \<or> ev_redaction ev = ''none'' \<and> ev_summary ev = d_summary inp"
      using ev Redact_zero [of "d_summary inp"] by (auto simp: redactEventFields_def Let_def)
    show "\<forall>r \<in> set (d_related inp). scheme r \<noteq> None \<and> scheme r \<noteq> Some []"
      using r by (auto simp: list_ex_iff)
  qed (use ev hs in \<open>simp_all add: redactEventFields_def token_free_Redact\<close>)
qed

lemma ctr_record_event_Inr:
  assumes "ctr_record_event io sio len scheme sid inp w = (w', Inr out)"
  obtains ev i where "recordEventFromInput scheme (snd (c_store w)) sid inp = Inr ev"
    and "append_tx (event_row_of (ro_event out) sid (ro_ts out) ev) (snd (c_log w)) = Inr (i, snd (c_log w'))"
    and "ro_session out = sid" and "c_store w' = c_store w"
proof -
  obtain ev where ev: "recordEventFromInput scheme (snd (c_store w)) sid inp = Inr ev"
    using assms by (auto simp: ctr_record_event_def split: sum.splits)
  obtain lg r where app: "appendEvent sio sid ev (c_log w) = (lg, r)" by fastforce
  with assms ev obtain i eid ts where r: "r = Inr (i, eid, ts)"
      and out: "out = \<lparr>ro_event = eid, ro_session = sid, ro_ts = ts\<rparr>"
      and w': "w' = LedgerAppend (t_cols io) (t_ok io) ''ctr_record_event'' 0 (len out) (w\<lparr>c_log := lg\<rparr>)"
    by (cases r) (auto simp: ctr_record_event_def Let_def)
  from appendEvent_cases [OF app] r have
    "append_tx (event_row_of eid sid ts ev) (snd (c_log w)) = Inr (i, snd lg)" by auto
  then show thesis using that [OF ev] out w' by simp
qed


section \<open>Export\<close>

lemma fill_export_spec:
  "fill_export len evs n r = (kept, t, n') \<Longrightarrow> 0 \<le> r \<Longrightarrow>
     prefix kept evs \<and> sum_list (map len kept) \<le> r \<and> n' = (if kept = [] then n else x_row (last kept))
     \<and> (t \<longleftrightarrow> kept \<noteq> evs) \<and> (kept = [] \<and> evs \<noteq> [] \<longrightarrow> r < len (hd evs))"
proof (induction evs arbitrary: n r kept t n')
  case (Cons ev evs)
  show ?case
  proof (cases "len ev > r")
    case False
    obtain k b m where f: "fill_export len evs (x_row ev) (r - len ev) = (k, b, m)" by (metis surj_pair)
    with Cons.prems False have "kept = ev # k" "t = b" "n' = m" by auto
    with Cons.IH [OF f] False show ?thesis by auto
  qed (use Cons.prems in auto)
qed auto

lemma scanEventV1_row: "scanEventV1 e pr = Inr x \<Longrightarrow> x_row x = v_id e"
  by (auto simp: scanEventV1_def split: sum.splits)

lemma last_scanned:
  "list_all2 (\<lambda>e x. scanEventV1 e (pr e) = Inr x) es xs \<Longrightarrow> es \<noteq> [] \<Longrightarrow> x_row (last xs) = v_id (last es)"
  by (induction rule: list_all2_induct) (auto simp: scanEventV1_row)

lemma selected_next: "after \<le> n \<Longrightarrow> filter (selected n sid) es = filter (\<lambda>e. n < v_id e) (filter (selected after sid) es)"
  by (induction es) (auto simp: selected_def)

lemma selected_after_page:
  assumes "session_ok db" and page: "take k (filter (selected after sid) (events db)) \<noteq> []"
  shows "filter (selected (v_id (last (take k (filter (selected after sid) (events db))))) sid) (events db)
    = drop k (filter (selected after sid) (events db))"
proof -
  let ?sel = "filter (selected after sid) (events db)"
  have sorted: "sorted_wrt (<) (map v_id ?sel)"
    using assms(1) by (simp add: session_ok_def sorted_wrt_map sorted_wrt_filter)
  have "last (take k ?sel) \<in> set ?sel" using page last_in_set in_set_takeD by metis
  then have "after \<le> v_id (last (take k ?sel))" by (simp add: selected_def)
  then show ?thesis using filter_after_page [OF sorted page] selected_next by metis
qed

definition export_budget :: "int \<Rightarrow> int" where
  "export_budget n = (if n \<le> 0 then 8192 else n)"

lemma ctr_export_events_Inr:
  assumes "ctr_export_events io yio elen len inp w = (w', Inr out)"
  obtains evs n where "Export yio (snd (c_log w)) (e_after inp) (e_sid inp) (clampExportLimit (e_limit inp)) = (evs, n, None)"
    and "fill_export elen evs (e_after inp) (export_budget (e_max inp)) = (eo_events out, eo_truncated out, eo_next out)"
    and "c_store w' = c_store w" and "c_log w' = c_log w"
proof -
  obtain evs n e where page: "Export yio (snd (c_log w)) (e_after inp) (e_sid inp) (clampExportLimit (e_limit inp)) = (evs, n, e)"
    by (metis surj_pair)
  obtain kept trunc nx where fill: "fill_export elen evs (e_after inp) (export_budget (e_max inp)) = (kept, trunc, nx)"
    by (metis surj_pair)
  have "e = None" using assms page by (cases e) (simp_all add: ctr_export_events_def)
  moreover from this have "out = \<lparr>eo_events = kept, eo_truncated = trunc, eo_next = nx\<rparr> \<and> c_store w' = c_store w \<and> c_log w' = c_log w"
    using assms page fill
    by (auto simp: ctr_export_events_def applyExportBudget_def export_budget_def [symmetric] Let_def)
  ultimately show thesis using that [of evs n] page fill by simp
qed

text \<open>Property C34.  The pages of an export join: the events of a page are the first ones behind the cursor, read
  as they stand in the log, and the cursor it returns selects exactly the rest, whatever the budget cut off.  A page
  keeps the budget, says when it was cut, and is empty only at the end of the log or before an event that alone
  exceeds the budget.\<close>

theorem export_pages_join:
  assumes ok: "session_ok (snd (c_log w))"
    and run: "ctr_export_events io yio elen len inp w = (w', Inr out)"
    and rest: "rest = filter (selected (e_after inp) (e_sid inp)) (events (snd (c_log w)))"
  shows "list_all2 (\<lambda>e x. scanEventV1 e (producer_of (snd (c_log w)) (v_session e)) = Inr x)
      (take (length (eo_events out)) rest) (eo_events out)
    \<and> filter (selected (eo_next out) (e_sid inp)) (events (snd (c_log w'))) = drop (length (eo_events out)) rest
    \<and> sum_list (map elen (eo_events out)) \<le> export_budget (e_max inp)
    \<and> (eo_events out = [] \<longrightarrow> rest = [] \<or> eo_truncated out
          \<and> (\<exists>x. scanEventV1 (hd rest) (producer_of (snd (c_log w)) (v_session (hd rest))) = Inr x
                \<and> export_budget (e_max inp) < elen x))
    \<and> c_store w' = c_store w \<and> c_log w' = c_log w"
proof -
  let ?db = "snd (c_log w)" and ?kept = "eo_events out" and ?m = "nat (clampExportLimit (e_limit inp))"
  let ?ok = "\<lambda>e x. scanEventV1 e (producer_of ?db (v_session e)) = Inr x"
  obtain evs n where page: "Export yio ?db (e_after inp) (e_sid inp) (clampExportLimit (e_limit inp)) = (evs, n, None)"
      and fill: "fill_export elen evs (e_after inp) (export_budget (e_max inp)) = (?kept, eo_truncated out, eo_next out)"
      and same: "c_store w' = c_store w" "c_log w' = c_log w"
    using ctr_export_events_Inr [OF run] by blast
  have lim: "0 < clampExportLimit (e_limit inp)" by (simp add: clampExportLimit_def)
  then have rows: "list_all2 ?ok (take ?m rest) evs"
    using Export_Ok [OF page] rest by (simp add: sql_limit_def)
  have budget: "0 \<le> export_budget (e_max inp)" by (simp add: export_budget_def)
  note spec = fill_export_spec [OF fill budget]
  let ?k = "length ?kept"
  obtain tl' where evs: "evs = ?kept @ tl'" using spec by (auto simp: prefix_def)
  have len: "length evs = length (take ?m rest)" using list_all2_lengthD [OF rows] by simp
  have "?k \<le> length evs" using arg_cong [OF evs, of length] by simp
  then have "?k \<le> ?m" using len by simp
  then have "take ?k (take ?m rest) = take ?k rest" by (simp add: min_absorb1)
  moreover have "take ?k evs = ?kept" by (subst evs) simp
  ultimately have first: "list_all2 ?ok (take ?k rest) ?kept"
    using list_all2_takeI [OF rows, of ?k] by simp
  have onward: "filter (selected (eo_next out) (e_sid inp)) (events ?db) = drop ?k rest"
  proof (cases "?kept = []")
    case True
    with spec rest show ?thesis by simp
  next
    case False
    with first have ne: "take ?k rest \<noteq> []" by auto
    have "eo_next out = x_row (last ?kept)" using spec False by simp
    also have "\<dots> = v_id (last (take ?k rest))" using last_scanned [OF first ne] .
    finally show ?thesis using selected_after_page [OF ok, of ?k "e_after inp" "e_sid inp"] ne rest by simp
  qed
  have stuck: "rest = [] \<or> eo_truncated out \<and> (\<exists>x. ?ok (hd rest) x \<and> export_budget (e_max inp) < elen x)"
    if "?kept = []"
  proof (cases rest)
    case (Cons e es)
    then obtain m where "take ?m rest = e # take m es" using lim by (cases ?m) auto
    with rows obtain x xs where "evs = x # xs" "?ok e x" by (auto simp: list_all2_Cons1)
    with spec that Cons show ?thesis by auto
  qed simp
  show ?thesis using first onward spec stuck same by simp
qed

section \<open>Summary\<close>

definition shown_events :: "summary_output \<Rightarrow> shown_event list" where
  "shown_events out = (case sm_checkpoint out of None \<Rightarrow> [] | Some c \<Rightarrow> [c]) @ concat (map (\<lambda>g. fst (snd g)) (sm_groups out))"

definition shown_size :: "shown_event list \<Rightarrow> int" where
  "shown_size ses = sum_list (map (\<lambda>se. int (length (u_summary (fst se)))) ses)"

text \<open>The references of a shown event are its own, each flagged missing when it names a content no artifact has.\<close>

definition gone :: "store \<Rightarrow> bytes \<Rightarrow> bool" where
  "gone st uri \<longleftrightarrow> (case hashFromArtifactURI uri of None \<Rightarrow> False | Some h \<Rightarrow> \<forall>a \<in> set (artifacts st). a_hash a \<noteq> h)"

definition refs_flagged :: "store \<Rightarrow> shown_event \<Rightarrow> bool" where
  "refs_flagged st se \<longleftrightarrow> snd se = map (\<lambda>uri. (uri, gone st uri)) (u_refs (fst se))"

lemma show_refs_Inr: "show_refs herr st uris = Inr rs \<Longrightarrow> rs = map (\<lambda>uri. (uri, gone st uri)) uris"
proof (induction uris arbitrary: rs)
  case (Cons uri uris)
  from Cons.prems obtain rest where rest: "show_refs herr st uris = Inr rest" "rs = (uri, gone st uri) # rest"
    by (auto simp: gone_def ArtifactHashExists_def list_ex_iff split: option.splits sum.splits)
  with Cons.IH [OF rest(1)] show ?case by simp
qed simp

lemma toSummaryEvent_Inr: "toSummaryEvent herr st ev = Inr se \<Longrightarrow> fst se = ev \<and> refs_flagged st se"
  using show_refs_Inr [of herr st "u_refs ev"] by (auto simp: toSummaryEvent_def refs_flagged_def split: sum.splits)

lemma show_group_Inr:
  "show_group herr st evs r = Inr (kept, left, trunc) \<Longrightarrow> 0 \<le> r \<Longrightarrow>
     prefix (map fst kept) evs \<and> list_all (refs_flagged st) kept \<and> left = r - shown_size kept \<and> 0 \<le> left"
proof (induction evs arbitrary: r kept left trunc)
  case (Cons ev evs)
  show ?case
  proof (cases "int (length (u_summary ev)) > r")
    case False
    with Cons.prems(1) obtain se k where se: "toSummaryEvent herr st ev = Inr se"
        "show_group herr st evs (r - int (length (u_summary ev))) = Inr (k, left, trunc)" "kept = se # k"
      by (auto split: sum.splits prod.splits)
    with Cons.IH [OF se(2)] False toSummaryEvent_Inr [OF se(1)] show ?thesis by (auto simp: shown_size_def)
  qed (use Cons.prems in \<open>auto simp: shown_size_def\<close>)
qed (auto simp: shown_size_def)

lemma shown_size_append [simp]: "shown_size (a @ b) = shown_size a + shown_size b" "shown_size [] = 0"
  by (simp_all add: shown_size_def)

lemma show_groups_Inr:
  "show_groups herr st gs r = Inr sgs \<Longrightarrow> 0 \<le> r \<Longrightarrow>
     shown_size (concat (map (\<lambda>g. fst (snd g)) sgs)) \<le> r
     \<and> (\<forall>(t, kept, c) \<in> set sgs. list_all (refs_flagged st) kept \<and> (\<exists>g \<in> set gs. g_type g = t \<and> prefix (map fst kept) (g_events g)))"
proof (induction gs arbitrary: r sgs)
  case (Cons g gs)
  from Cons.prems(1) obtain kept left trunc where
    g: "show_group herr st (g_events g) r = Inr (kept, left, trunc)" by (auto split: sum.splits)
  note spec = show_group_Inr [OF g Cons.prems(2)]
  show ?case
  proof (cases trunc)
    case True
    with Cons.prems(1) g spec show ?thesis by auto
  next
    case False
    with Cons.prems(1) g obtain rest where rest: "show_groups herr st gs left = Inr rest" "sgs = (g_type g, kept, False) # rest"
      by (auto split: sum.splits)
    with Cons.IH [OF rest(1)] spec show ?thesis by auto
  qed
qed auto

text \<open>What the summary itself holds: rows of the log that nothing supersedes.\<close>

lemma queryCheckpoint_Inr:
  "queryCheckpoint qerr db sid = Inr (Some c) \<Longrightarrow>
     \<exists>e es. newest (\<lambda>e. v_type e = eventTypeSessionCheckpoint \<and> current db sid e) db = e # es \<and> scanSummaryEvent e = Inr c"
  by (cases "newest (\<lambda>e. v_type e = eventTypeSessionCheckpoint \<and> current db sid e) db")
     (auto simp: queryCheckpoint_def map_sum_def split: option.splits sum.splits)

lemma scan_summaries_Inr:
  "scan_summaries es = Inr us \<Longrightarrow> list_all2 (\<lambda>e u. scanSummaryEvent e = Inr u) es us"
proof (induction es arbitrary: us)
  case (Cons e es)
  then show ?case by (cases "scan_summaries es") (auto split: sum.splits)
qed simp

lemma list_all2_rev_member: "list_all2 P xs ys \<Longrightarrow> y \<in> set ys \<Longrightarrow> \<exists>x \<in> set xs. P x y"
  by (induction rule: list_all2_induct) auto

lemma removeByEventID_subset: "set (removeByEventID us eid) \<subseteq> set us \<and> length (removeByEventID us eid) \<le> length us"
  by (induction us) auto

definition group_current :: "session_db \<Rightarrow> bytes \<Rightarrow> int \<Rightarrow> event_group \<Rightarrow> bool" where
  "group_current db sid limit g \<longleftrightarrow> int (length (g_events g)) \<le> limit
     \<and> (\<forall>u \<in> set (g_events g). \<exists>e \<in> set (events db). v_type e = g_type g \<and> current db sid e \<and> scanSummaryEvent e = Inr u)"

lemma queryEventsByType_Inr:
  assumes "queryEventsByType qerr db sid t limit = Inr us" and "0 < limit"
  shows "group_current db sid limit \<lparr>g_type = t, g_events = us\<rparr>"
proof -
  obtain rows where r: "rows = sql_limit limit (newest (\<lambda>e. v_type e = t \<and> current db sid e) db)" by simp
  have "scan_summaries rows = Inr us" using assms(1) r by (cases qerr) (simp_all add: queryEventsByType_def)
  from scan_summaries_Inr [OF this] have rows: "list_all2 (\<lambda>e u. scanSummaryEvent e = Inr u) rows us" .
  have "length rows \<le> nat limit" using assms(2) by (simp add: r sql_limit_def)
  then have len: "int (length us) \<le> limit" using list_all2_lengthD [OF rows] assms(2) by simp
  have "set rows \<subseteq> set (newest (\<lambda>e. v_type e = t \<and> current db sid e) db)" unfolding r by (rule sql_limit_subset)
  then have row: "e \<in> set (events db) \<and> v_type e = t \<and> current db sid e" if "e \<in> set rows" for e
    using that by (auto simp: newest_def)
  have "\<exists>e \<in> set (events db). v_type e = t \<and> current db sid e \<and> scanSummaryEvent e = Inr u" if "u \<in> set us" for u
    using list_all2_rev_member [OF rows that] row by blast
  with len show ?thesis by (simp add: group_current_def)
qed

lemma group_events_Inr:
  assumes "group_events qerr db sid limit ckpt ts gs = Inr gs'" and "0 < limit" and "\<forall>g \<in> set gs. group_current db sid limit g"
  shows "\<forall>g \<in> set gs'. group_current db sid limit g"
  using assms(1,3)
proof (induction ts arbitrary: gs)
  case (Cons t ts)
  from Cons.prems(1) obtain evs0 where q: "queryEventsByType (qerr t) db sid t limit = Inr evs0" by (auto split: sum.splits)
  define evs where "evs = (case ckpt of
      Some c \<Rightarrow> if t = eventTypeSessionCheckpoint then removeByEventID evs0 (u_event c) else evs0 | None \<Rightarrow> evs0)"
  have "set evs \<subseteq> set evs0 \<and> length evs \<le> length evs0"
    using removeByEventID_subset by (auto simp: evs_def split: option.split)
  then have g: "group_current db sid limit \<lparr>g_type = t, g_events = evs\<rparr>"
    using queryEventsByType_Inr [OF q assms(2)] unfolding group_current_def by (simp add: subset_iff)
  have "group_events qerr db sid limit ckpt ts (if evs \<noteq> [] then gs @ [\<lparr>g_type = t, g_events = evs\<rparr>] else gs) = Inr gs'"
    using Cons.prems(1) q unfolding evs_def by (simp only: group_events.simps sum.case Let_def)
  moreover have "\<forall>g \<in> set (if evs \<noteq> [] then gs @ [\<lparr>g_type = t, g_events = evs\<rparr>] else gs). group_current db sid limit g"
    using Cons.prems(2) g by simp
  ultimately show ?case by (rule Cons.IH)
qed simp

lemma Summarize_Inr:
  assumes "Summarize cerr terr qerr db sid limit = Inr z" and "0 < limit"
  shows "(\<forall>g \<in> set (z_groups z). group_current db sid limit g)
    \<and> (\<forall>c. z_checkpoint z = Some c \<longrightarrow> (\<exists>e es. scanSummaryEvent e = Inr c
          \<and> newest (\<lambda>e. v_type e = eventTypeSessionCheckpoint \<and> current db sid e) db = e # es))"
proof -
  obtain ckpt where c: "queryCheckpoint cerr db sid = Inr ckpt" using assms(1) by (auto simp: Summarize_def split: sum.splits)
  obtain types trunc where t: "queryEventTypes terr db sid = Inr (types, trunc)"
    using assms(1) c by (auto simp: Summarize_def split: sum.splits)
  obtain gs where g: "group_events qerr db sid limit ckpt types [] = Inr gs"
    using assms(1) c t by (auto simp: Summarize_def split: sum.splits)
  have "z = \<lparr>z_checkpoint = ckpt, z_groups = gs, z_truncated = trunc\<rparr>" using assms(1) c t g by (simp add: Summarize_def)
  then show ?thesis using group_events_Inr [OF g assms(2)] queryCheckpoint_Inr c by auto blast
qed

lemma buildSessionSummaryOutput_Inr:
  assumes "buildSessionSummaryOutput herr st z n = Inr out"
  shows "shown_size (shown_events out) \<le> export_budget n \<and> (\<forall>se \<in> set (shown_events out). refs_flagged st se)
    \<and> (\<forall>c. sm_checkpoint out = Some c \<longrightarrow> z_checkpoint z = Some (fst c))
    \<and> (\<forall>(t, kept, c) \<in> set (sm_groups out). \<exists>g \<in> set (z_groups z). g_type g = t \<and> prefix (map fst kept) (g_events g))"
proof -
  let ?budget = "export_budget n"
  obtain ckpt skipped r where r: "0 \<le> r" "shown_size (case ckpt of None \<Rightarrow> [] | Some c \<Rightarrow> [c]) \<le> ?budget - r"
      "\<forall>c. ckpt = Some c \<longrightarrow> refs_flagged st c \<and> z_checkpoint z = Some (fst c)"
    and gs: "show_groups herr st (z_groups z) r = Inr (sm_groups out)" and c: "sm_checkpoint out = ckpt"
  proof (cases "z_checkpoint z")
    case None
    with assms that [of ?budget None] show thesis
      by (auto simp: buildSessionSummaryOutput_def export_budget_def Let_def split: sum.splits)
  next
    case (Some ev)
    show thesis
    proof (cases "int (length (u_summary ev)) > ?budget")
      case True
      with assms that [of ?budget None] Some show thesis
        by (auto simp: buildSessionSummaryOutput_def export_budget_def Let_def split: sum.splits if_splits)
    next
      case False
      with assms Some obtain se where se: "toSummaryEvent herr st ev = Inr se"
        by (auto simp: buildSessionSummaryOutput_def export_budget_def Let_def split: sum.splits if_splits)
      with assms Some False obtain sgs where
        "show_groups herr st (z_groups z) (?budget - int (length (u_summary ev))) = Inr sgs"
        "out = \<lparr>sm_checkpoint = Some se, sm_cut = False, sm_groups = sgs, sm_groups_cut = z_truncated z\<rparr>"
        by (auto simp: buildSessionSummaryOutput_def export_budget_def [symmetric] Let_def split: sum.splits)
      with that [of "?budget - int (length (u_summary ev))" "Some se"] toSummaryEvent_Inr [OF se] Some False show thesis
        by (simp add: shown_size_def)
    qed
  qed
  note g = show_groups_Inr [OF gs r(1)]
  have "shown_size (shown_events out) \<le> ?budget" using g r(2) c by (simp add: shown_events_def)
  moreover have "\<forall>se \<in> set (shown_events out). refs_flagged st se"
    using g r(3) c by (fastforce simp: shown_events_def list_all_iff split: option.splits)
  moreover have "\<forall>(t, kept, c) \<in> set (sm_groups out). \<exists>g \<in> set (z_groups z). g_type g = t \<and> prefix (map fst kept) (g_events g)"
    using g by fastforce
  ultimately show ?thesis using r(3) c by blast
qed

lemma ctr_session_summary_Inr:
  assumes "ctr_session_summary io yio len inp w = (w', Inr out)"
  obtains z where "Summarize (y_ckpt yio) (y_types yio) (y_type yio) (snd (c_log w)) (s_sid inp) (clampSummaryLimit (s_limit inp)) = Inr z"
    and "buildSessionSummaryOutput (y_hash yio) (snd (c_store w)) z (s_max inp) = Inr out"
    and "c_store w' = c_store w" and "c_log w' = c_log w"
proof (cases "Summarize (y_ckpt yio) (y_types yio) (y_type yio) (snd (c_log w)) (s_sid inp) (clampSummaryLimit (s_limit inp))")
  case (Inl e)
  with assms show thesis by (simp add: ctr_session_summary_def)
next
  case (Inr z)
  show thesis
  proof (cases "buildSessionSummaryOutput (y_hash yio) (snd (c_store w)) z (s_max inp)")
    case (Inl e)
    with assms Inr show thesis by (simp add: ctr_session_summary_def)
  next
    case out: (Inr out')
    with assms Inr that [OF Inr] show thesis by (auto simp: ctr_session_summary_def)
  qed
qed

lemma group_prefix:
  assumes "group_current db sid limit g" and "prefix (map fst kept) (g_events g)"
  shows "int (length kept) \<le> limit
    \<and> (\<forall>se \<in> set kept. \<exists>e \<in> set (events db). current db sid e \<and> scanSummaryEvent e = Inr (fst se))"
proof -
  have "length kept \<le> length (g_events g)" using prefix_length_le [OF assms(2)] by simp
  moreover have "fst se \<in> set (g_events g)" if "se \<in> set kept" for se
    using set_mono_prefix [OF assms(2)] that by auto
  moreover have "int (length (g_events g)) \<le> limit" using assms(1) by (simp add: group_current_def)
  ultimately show ?thesis using assms(1) unfolding group_current_def by (intro conjI) (linarith, blast)
qed

text \<open>Property C35.  A summary stays within its budget, shows only events of the log that no other event supersedes,
  at most as many of a type as asked for, and as checkpoint only the newest one; and it flags a reference as missing
  exactly when no artifact has the content it names.\<close>

theorem summary_shows_current_events:
  assumes run: "ctr_session_summary io yio len inp w = (w', Inr out)"
  shows "shown_size (shown_events out) \<le> export_budget (s_max inp)
    \<and> (\<forall>se \<in> set (shown_events out). refs_flagged (snd (c_store w)) se
          \<and> (\<exists>e \<in> set (events (snd (c_log w))). current (snd (c_log w)) (s_sid inp) e \<and> scanSummaryEvent e = Inr (fst se)))
    \<and> (\<forall>(t, kept, c) \<in> set (sm_groups out). length kept \<le> 20)
    \<and> (\<forall>c. sm_checkpoint out = Some c \<longrightarrow> (\<exists>e es. scanSummaryEvent e = Inr (fst c)
          \<and> newest (\<lambda>e. v_type e = eventTypeSessionCheckpoint \<and> current (snd (c_log w)) (s_sid inp) e) (snd (c_log w)) = e # es))
    \<and> c_store w' = c_store w \<and> c_log w' = c_log w"
proof -
  let ?db = "snd (c_log w)" and ?limit = "clampSummaryLimit (s_limit inp)"
  obtain z where z: "Summarize (y_ckpt yio) (y_types yio) (y_type yio) ?db (s_sid inp) ?limit = Inr z"
    and b: "buildSessionSummaryOutput (y_hash yio) (snd (c_store w)) z (s_max inp) = Inr out"
    and same: "c_store w' = c_store w" "c_log w' = c_log w" by (rule ctr_session_summary_Inr [OF run])
  have lim: "0 < ?limit" "?limit \<le> 20" by (simp_all add: clampSummaryLimit_def)
  note s = Summarize_Inr [OF z lim(1)] and o = buildSessionSummaryOutput_Inr [OF b]
  note s1 = s [THEN conjunct1] and s2 = s [THEN conjunct2]
    and o1 = o [THEN conjunct1] and o2 = o [THEN conjunct2, THEN conjunct1]
    and o3 = o [THEN conjunct2, THEN conjunct2, THEN conjunct1] and o4 = o [THEN conjunct2, THEN conjunct2, THEN conjunct2]
  let ?row = "\<lambda>u. \<exists>e \<in> set (events ?db). current ?db (s_sid inp) e \<and> scanSummaryEvent e = Inr u"
  have ckpt: "\<exists>e es. scanSummaryEvent e = Inr (fst c)
      \<and> newest (\<lambda>e. v_type e = eventTypeSessionCheckpoint \<and> current ?db (s_sid inp) e) ?db = e # es"
    if "sm_checkpoint out = Some c" for c
    using s2 [rule_format, OF o3 [rule_format, OF that]] .
  have group: "length kept \<le> 20 \<and> (\<forall>se \<in> set kept. ?row (fst se))" if "(t, kept, c) \<in> set (sm_groups out)" for t kept c
  proof -
    from bspec [OF o4 that] obtain g where g: "g \<in> set (z_groups z)" "prefix (map fst kept) (g_events g)" by auto
    from s1 g(1) have "group_current ?db (s_sid inp) ?limit g" by (rule bspec)
    from group_prefix [OF this g(2)] lim show ?thesis by linarith
  qed
  have "?row (fst se)" if se: "se \<in> set (shown_events out)" for se
  proof -
    consider "sm_checkpoint out = Some se" | t kept c where "(t, kept, c) \<in> set (sm_groups out)" "se \<in> set kept"
      using se by (cases "sm_checkpoint out") (auto simp: shown_events_def)
    then show ?thesis
    proof cases
      case 1
      obtain e es where e: "scanSummaryEvent e = Inr (fst se)"
        "newest (\<lambda>e. v_type e = eventTypeSessionCheckpoint \<and> current ?db (s_sid inp) e) ?db = e # es"
        using ckpt [OF 1] by blast
      have "e \<in> set (newest (\<lambda>e. v_type e = eventTypeSessionCheckpoint \<and> current ?db (s_sid inp) e) ?db)" by (simp add: e(2))
      then show ?thesis using e(1) by (auto simp: newest_def)
    next
      case 2
      then show ?thesis using group by blast
    qed
  qed
  then have "\<forall>se \<in> set (shown_events out). refs_flagged (snd (c_store w)) se \<and> ?row (fst se)" using o2 by blast
  moreover have "\<forall>(t, kept, c) \<in> set (sm_groups out). length kept \<le> 20" by (auto dest!: group)
  ultimately show ?thesis using o1 same ckpt by (intro conjI allI impI)
qed

section \<open>Witnesses\<close>

definition demo_log_state :: mcp_world where
  "demo_log_state = \<lparr>c_store = (demo_env, empty_store), c_log = (\<lparr>e_tx = [], e_ctx = []\<rparr>, demo_sweep_db), c_ledger = []\<rparr>"

definition demo_note :: record_input where
  "demo_note = \<lparr>d_type = ''n'', d_summary = ''s'', d_attributes = None, d_refs = [], d_related = [], d_supersedes = []\<rparr>"

lemma demo_record_run:
  "recordEventFromInput (\<lambda>_. None) empty_store ''c'' demo_note = Inr
     \<lparr>ev_type = ''n'', ev_summary = ''s'', ev_attributes = [], ev_refs = [], ev_related = [], ev_supersedes = [],
      ev_redaction = ''none''\<rparr>"
  by (simp add: recordEventFromInput_def demo_note_def redactEventFields_def Redact_short redact_attributes_Nil
      redact_related_def ValidateEvent_def event_limits eventTypeRe_def is_lower_def Let_def)

lemma demo_record_append:
  "snd (appendEvent \<lparr>q_uuid = Inr ''e6'', q_now = 900000\<rparr> ''c''
     \<lparr>ev_type = ''n'', ev_summary = ''s'', ev_attributes = [], ev_refs = [], ev_related = [], ev_supersedes = [],
      ev_redaction = ''none''\<rparr> (\<lparr>e_tx = [], e_ctx = []\<rparr>, demo_sweep_db)) = Inr (6, ''e6'', 900000)"
  by code_simp


lemma demo_export_page:
  "(case Export \<lparr>y_query = None, y_rows = None\<rparr> demo_sweep_db 1 [] 50 of (evs, n, e) \<Rightarrow>
     (length evs, length (fst (applyExportBudget (\<lambda>x. 3000) evs 1 0)), e)) = (4, 2, None)"
  by code_simp

theorem export_pages_join_witness:
  "\<exists>w' out. ctr_export_events Mcp_Facts.demo_io \<lparr>y_query = None, y_rows = None\<rparr> (\<lambda>x. 3000) (\<lambda>_. 1)
       \<lparr>e_after = 1, e_sid = [], e_limit = 0, e_max = 0\<rparr> demo_log_state = (w', Inr out)
     \<and> filter (selected (eo_next out) []) (events (snd (c_log w'))) = drop 2 (filter (selected 1 []) (events demo_sweep_db))"
proof -
  let ?inp = "\<lparr>e_after = 1, e_sid = [], e_limit = 0, e_max = 0\<rparr>"
  obtain evs n where x: "Export \<lparr>y_query = None, y_rows = None\<rparr> demo_sweep_db 1 [] 50 = (evs, n, None)"
      and len: "length (fst (applyExportBudget (\<lambda>x. 3000) evs 1 0)) = 2"
    using demo_export_page by (auto split: prod.splits)
  obtain kept t nx where b: "applyExportBudget (\<lambda>x. 3000) evs 1 0 = (kept, t, nx)" by (metis surj_pair)
  obtain w' out where run: "ctr_export_events Mcp_Facts.demo_io \<lparr>y_query = None, y_rows = None\<rparr> (\<lambda>x. 3000) (\<lambda>_. 1) ?inp demo_log_state
      = (w', Inr out)" and k: "eo_events out = kept"
    by (simp add: ctr_export_events_def demo_log_state_def clampExportLimit_def x b Let_def)
  have ok: "session_ok (snd (c_log demo_log_state))" by (simp add: demo_log_state_def demo_sweep_ok)
  have two: "length (eo_events out) = 2" using len b k by simp
  have "filter (selected (eo_next out) []) (events (snd (c_log w')))
      = drop (length (eo_events out)) (filter (selected 1 []) (events (snd (c_log demo_log_state))))"
    using export_pages_join [OF ok run refl, THEN conjunct2, THEN conjunct1] by simp
  also have "snd (c_log demo_log_state) = demo_sweep_db" by (simp add: demo_log_state_def)
  finally have "filter (selected (eo_next out) []) (events (snd (c_log w'))) = drop 2 (filter (selected 1 []) (events demo_sweep_db))"
    unfolding two .
  with run show ?thesis by blast
qed

lemma demo_summary_run:
  "(case Summarize None None (\<lambda>_. None) demo_sweep_db [] 5 of Inl e \<Rightarrow> None
    | Inr z \<Rightarrow> (case buildSessionSummaryOutput (\<lambda>_. None) empty_store z 0 of Inl e \<Rightarrow> None
        | Inr out \<Rightarrow> Some (length (shown_events out)))) = Some 5"
  by code_simp

theorem summary_shows_current_events_witness:
  "\<exists>w' out. ctr_session_summary Mcp_Facts.demo_io \<lparr>y_ckpt = None, y_types = None, y_type = \<lambda>_. None, y_hash = \<lambda>_. None\<rparr> (\<lambda>_. 1)
       \<lparr>s_sid = [], s_limit = 0, s_max = 0\<rparr> demo_log_state = (w', Inr out) \<and> length (shown_events out) = 5
     \<and> shown_size (shown_events out) \<le> 8192"
proof -
  let ?inp = "\<lparr>s_sid = [], s_limit = 0, s_max = 0\<rparr>" and ?y = "\<lparr>y_ckpt = None, y_types = None, y_type = \<lambda>_. None, y_hash = \<lambda>_. None\<rparr>"
  obtain z out where z: "Summarize None None (\<lambda>_. None) demo_sweep_db [] 5 = Inr z"
      "buildSessionSummaryOutput (\<lambda>_. None) empty_store z 0 = Inr out" "length (shown_events out) = 5"
    using demo_summary_run by (auto split: sum.splits)
  then obtain w' where run: "ctr_session_summary Mcp_Facts.demo_io ?y (\<lambda>_. 1) ?inp demo_log_state = (w', Inr out)"
    by (simp add: ctr_session_summary_def demo_log_state_def clampSummaryLimit_def)
  have "shown_size (shown_events out) \<le> 8192"
    using summary_shows_current_events [OF run, THEN conjunct1] by (simp add: export_budget_def)
  with run z(3) show ?thesis by blast
qed

end
