(* ===== verification/Sandbox.thy ===== *)
theory Sandbox
  imports Paths
begin

text \<open>
  Package \<open>sandbox\<close> (\<open>sandbox.go\<close>, \<open>run_unix.go\<close>, \<open>launcher_linux.go\<close>): scratch directories, the environment
  passed on, the capture of output up to a limit, the run of a child process on Linux and its launcher.  The files are
  a map from paths to nodes; the child, the kernel's answers and the random names are parameters.
\<close>

section \<open>Files\<close>

datatype node = DirNode | FileNode bytes

type_synonym tree = "bytes \<rightharpoonup> node"

definition under :: "bytes \<Rightarrow> bytes \<Rightarrow> bool" where
  "under p q \<longleftrightarrow> q = p \<or> prefix (p @ [slash]) q"

text \<open>A path and the directories above it, outermost first.\<close>

definition ancestors :: "bytes \<Rightarrow> bytes list" where
  "ancestors p = filter (\<lambda>q. q \<noteq> [] \<and> under q p) (prefixes p)"

fun mkdir_each :: "(bytes \<Rightarrow> bool) \<Rightarrow> bytes list \<Rightarrow> tree \<Rightarrow> tree \<times> bool" where
  "mkdir_each fails [] t = (t, True)"
| "mkdir_each fails (q # qs) t =
     (case t q of
        Some DirNode \<Rightarrow> mkdir_each fails qs t
      | Some (FileNode c) \<Rightarrow> (t, False)
      | None \<Rightarrow> if fails q then (t, False) else mkdir_each fails qs (t(q \<mapsto> DirNode)))"

text \<open>\<open>os.MkdirAll\<close>, \<open>os.WriteFile\<close> and \<open>os.RemoveAll\<close>; the last keeps what cannot be deleted.\<close>

definition MkdirAll :: "(bytes \<Rightarrow> bool) \<Rightarrow> bytes \<Rightarrow> tree \<Rightarrow> tree \<times> bool" where
  "MkdirAll fails p t = mkdir_each fails (ancestors p) t"

definition WriteFile :: "(bytes \<Rightarrow> bool) \<Rightarrow> bytes \<Rightarrow> bytes \<Rightarrow> tree \<Rightarrow> tree \<times> bool" where
  "WriteFile fails p c t =
     (if fails p \<or> t (Dir p) \<noteq> Some DirNode \<or> t p = Some DirNode then (t, False) else (t(p \<mapsto> FileNode c), True))"

definition RemoveAll :: "(bytes \<Rightarrow> bool) \<Rightarrow> bytes \<Rightarrow> tree \<Rightarrow> tree" where
  "RemoveAll stays p t = (\<lambda>q. if under p q \<and> \<not> stays q then None else t q)"

section \<open>Scratch directories\<close>

definition scratchPrefix :: bytes where "scratchPrefix = ''run-''"

text \<open>\<open>os.MkdirTemp\<close> tries random names until one is free.\<close>

fun MkdirTemp :: "(bytes \<Rightarrow> bool) \<Rightarrow> bytes \<Rightarrow> bytes list \<Rightarrow> tree \<Rightarrow> (tree \<times> bytes) option" where
  "MkdirTemp fails parent [] t = None"
| "MkdirTemp fails parent (n # ns) t =
     (let p = Join [parent, scratchPrefix @ n] in
      if t p \<noteq> None then MkdirTemp fails parent ns t
      else if fails p \<or> t parent \<noteq> Some DirNode then None
      else Some (t(p \<mapsto> DirNode), p))"

definition NewScratch :: "(bytes \<Rightarrow> bool) \<Rightarrow> bytes list \<Rightarrow> bytes \<Rightarrow> tree \<Rightarrow> tree \<times> (go_error + bytes)" where
  "NewScratch fails names parent t =
     (case MkdirAll fails parent t of
        (t1, False) \<Rightarrow> (t1, Inl SandboxSetup)
      | (t1, True) \<Rightarrow>
          (case MkdirTemp fails parent names t1 of
             None \<Rightarrow> (t1, Inl SandboxSetup)
           | Some (t2, p) \<Rightarrow> (t2, Inr p)))"

text \<open>What \<open>os.Lstat\<close> and \<open>os.ReadDir\<close> show: the parent is a directory itself, and its entries with their name,
  kind and time of change, if it can be read.\<close>

record dir_entry =
  de_name :: bytes
  de_dir :: bool
  de_mtime :: "int option"

definition stale_entry :: "int \<Rightarrow> dir_entry \<Rightarrow> bool" where
  "stale_entry oldest e \<longleftrightarrow> de_dir e \<and> prefix scratchPrefix (de_name e)
     \<and> (case de_mtime e of None \<Rightarrow> False | Some m \<Rightarrow> m < oldest)"

definition SweepStale ::
  "(bytes \<Rightarrow> bool) \<Rightarrow> bytes \<Rightarrow> bool \<Rightarrow> dir_entry list option \<Rightarrow> int \<Rightarrow> int \<Rightarrow> tree \<Rightarrow> tree" where
  "SweepStale stays parent is_dir ents now ttl t =
     (if \<not> is_dir then t
      else (case ents of
          None \<Rightarrow> t
        | Some es \<Rightarrow>
            fold (\<lambda>e t. if stale_entry (now - ttl) e then RemoveAll stays (Join [parent, de_name e]) t else t) es t))"

section \<open>The environment\<close>

definition baseKeys :: "bytes list" where
  "baseKeys = [''PATH'', ''HOME'', ''TMPDIR'', ''LANG'', ''LC_ALL'']"

definition env_entry :: "bytes \<Rightarrow> bytes \<Rightarrow> bytes" where
  "env_entry k v = k @ ''='' @ v"

definition BaseEnv :: "(bytes \<Rightarrow> bytes option) \<Rightarrow> bytes list" where
  "BaseEnv getenv = concat (map (\<lambda>k. case getenv k of None \<Rightarrow> [] | Some v \<Rightarrow> [env_entry k v]) baseKeys)"

text \<open>What a program sees of a list of entries: the last one for a name counts.\<close>

definition env_value :: "bytes list \<Rightarrow> bytes \<Rightarrow> bytes option" where
  "env_value env k =
     (case filter (prefix (k @ ''='')) (rev env) of [] \<Rightarrow> None | e # _ \<Rightarrow> Some (drop (length k + 1) e))"

section \<open>Output\<close>

record capWriter =
  cw_buf :: bytes
  cw_cap :: nat
  cw_trunc :: bool

definition cw_Write :: "bytes \<Rightarrow> capWriter \<Rightarrow> capWriter" where
  "cw_Write p c =
     (let room = int (cw_cap c) - int (length (cw_buf c)) in
      if 0 < room then
        (if room < int (length p) then c\<lparr>cw_buf := cw_buf c @ take (nat room) p, cw_trunc := True\<rparr>
         else c\<lparr>cw_buf := cw_buf c @ p\<rparr>)
      else if 0 < length p then c\<lparr>cw_trunc := True\<rparr> else c)"

definition captured :: "nat \<Rightarrow> bytes list \<Rightarrow> capWriter" where
  "captured limit ps = fold cw_Write ps \<lparr>cw_buf = [], cw_cap = limit, cw_trunc = False\<rparr>"

section \<open>Run\<close>

record spec =
  sp_argv :: "bytes list"
  sp_dir :: bytes
  sp_env :: "bytes list"
  sp_timeout :: int
  sp_out_cap :: nat
  sp_err_cap :: nat
  sp_self :: bytes

record run_result =
  rr_out :: bytes
  rr_err :: bytes
  rr_out_trunc :: bool
  rr_err_trunc :: bool
  rr_exit :: int
  rr_timed_out :: bool
  rr_duration :: int

text \<open>How the wait ends: the child is done, with the launcher's status byte or its own exit code; the timer fires;
  the context ends.  The writes of the child are those until it is dead.\<close>

datatype proc_end = Exited bool int | TimerFired | CtxEnded

record proc =
  pc_pipe :: bool
  pc_start :: bool
  pc_out :: "bytes list"
  pc_err :: "bytes list"
  pc_end :: proc_end
  pc_time :: int

definition wrapArgv :: "bytes \<Rightarrow> bytes list \<Rightarrow> bytes \<Rightarrow> bytes list" where
  "wrapArgv scratch argv selfExe = [selfExe, ''__exec-launcher'', scratch, ''--''] @ argv"

definition result_of :: "spec \<Rightarrow> proc \<Rightarrow> int \<Rightarrow> bool \<Rightarrow> run_result" where
  "result_of s p code timed_out =
     (let out = captured (sp_out_cap s) (pc_out p); err = captured (sp_err_cap s) (pc_err p) in
      \<lparr>rr_out = cw_buf out, rr_err = cw_buf err, rr_out_trunc = cw_trunc out, rr_err_trunc = cw_trunc err,
       rr_exit = code, rr_timed_out = timed_out, rr_duration = pc_time p\<rparr>)"

definition sandbox_Run ::
  "go_error option \<Rightarrow> (spec \<Rightarrow> tree \<Rightarrow> proc \<times> tree) \<Rightarrow> spec \<Rightarrow> tree \<Rightarrow> tree \<times> (go_error + run_result)" where
  "sandbox_Run ctx child s t =
     (case ctx of
        Some e \<Rightarrow>
          if e = CtxDeadline
          then (t, Inr \<lparr>rr_out = [], rr_err = [], rr_out_trunc = False, rr_err_trunc = False, rr_exit = -1,
                        rr_timed_out = True, rr_duration = 0\<rparr>)
          else (t, Inl e)
      | None \<Rightarrow>
          if sp_self s = [] then (t, Inl SandboxSetup)
          else (case child (s\<lparr>sp_argv := wrapArgv (sp_dir s) (sp_argv s) (sp_self s)\<rparr>) t of
              (p, t') \<Rightarrow>
                if \<not> pc_pipe p \<or> \<not> pc_start p then (t, Inl SandboxSetup)
                else (case pc_end p of
                    Exited status code \<Rightarrow> if status then (t', Inl SandboxSetup) else (t', Inr (result_of s p code False))
                  | TimerFired \<Rightarrow> (t', Inr (result_of s p (-1) True))
                  | CtxEnded \<Rightarrow> (t', Inr (result_of s p (-1) False)))))"

section \<open>The launcher\<close>

text \<open>The rules of the kernel's Landlock; \<open>WithRefer\<close> is the flag.\<close>

datatype rule = RWDirs bytes bool | RODirs bytes | RWFiles bytes

text \<open>\<open>accepts n rules\<close>: the kernel takes the rules under ABI version \<open>n\<close>; the best effort takes what it can.\<close>

definition applyLauncherRestriction :: "(nat \<Rightarrow> rule list \<Rightarrow> bool) \<Rightarrow> (rule list \<Rightarrow> bool) \<Rightarrow> bytes \<Rightarrow> rule list option" where
  "applyLauncherRestriction accepts best scratch =
     (let refer = [RWDirs scratch True, RODirs ''/'', RWFiles ''/dev/null''];
          plain = [RWDirs scratch False, RODirs ''/'', RWFiles ''/dev/null'']
      in if list_ex (\<lambda>n. accepts n refer) [5, 4, 3, 2] then Some refer
         else if best plain then Some plain else None)"

text \<open>The program the launcher turns into and the rules it put on itself, or an error and a status byte.\<close>

definition runLauncher ::
  "(nat \<Rightarrow> rule list \<Rightarrow> bool) \<Rightarrow> (rule list \<Rightarrow> bool) \<Rightarrow> bytes list \<Rightarrow> (bytes list \<times> rule list) option" where
  "runLauncher accepts best args =
     (case args of
        scratch # dashes # argv \<Rightarrow>
          if dashes \<noteq> ''--'' then None
          else (case applyLauncherRestriction accepts best scratch of
              None \<Rightarrow> None
            | Some rules \<Rightarrow> if argv = [] then None else Some (argv, rules))
      | _ \<Rightarrow> None)"

section \<open>Lemmas\<close>

lemma under_refl [simp]: "under p p" by (simp add: under_def)

lemma under_trans: "under p q \<Longrightarrow> under q r \<Longrightarrow> under p r"
  by (auto simp: under_def) (metis append_prefixD prefix_order.trans)

lemma under_comparable:
  assumes "under p r" and "under q r"
  shows "under p q \<or> under q p"
proof -
  have "prefix p r" "prefix q r" using assms append_prefixD by (auto simp: under_def)
  then consider "prefix p q" | "prefix q p" using prefix_same_cases by blast
  then show ?thesis
  proof cases
    case 1
    then obtain u where u: "q = p @ u" by (auto simp: prefix_def)
    show ?thesis
    proof (cases u)
      case (Cons c v)
      then have "p \<noteq> r" using assms(2) u append_prefixD by (fastforce simp: under_def prefix_def)
      then have "prefix (p @ [slash]) r" using assms(1) by (simp add: under_def)
      moreover have "prefix (p @ [c]) r" using assms(2) u Cons by (auto simp: under_def prefix_def)
      ultimately have "c = slash" by (auto simp: prefix_def)
      then show ?thesis using u Cons by (simp add: under_def)
    qed (simp add: u)
  next
    case 2
    then obtain u where u: "p = q @ u" by (auto simp: prefix_def)
    show ?thesis
    proof (cases u)
      case (Cons c v)
      then have "q \<noteq> r" using assms(1) u append_prefixD by (fastforce simp: under_def prefix_def)
      then have "prefix (q @ [slash]) r" using assms(2) by (simp add: under_def)
      moreover have "prefix (q @ [c]) r" using assms(1) u Cons by (auto simp: under_def prefix_def)
      ultimately have "c = slash" by (auto simp: prefix_def)
      then show ?thesis using u Cons by (simp add: under_def)
    qed (simp add: u)
  qed
qed

lemma nat_int_diff: "nat (int a - int b) = a - b"
  by arith

lemma captured_spec:
  "cw_buf (captured limit ps) = take limit (concat ps) \<and> (cw_trunc (captured limit ps) \<longleftrightarrow> limit < length (concat ps))"
proof -
  let ?inv = "\<lambda>c out. cw_cap c = limit \<and> cw_buf c = take limit out \<and> (cw_trunc c \<longleftrightarrow> limit < length out)"
  have step: "?inv (cw_Write p c) (out @ p)" if "?inv c out" for p c out
    using that by (auto simp: cw_Write_def Let_def min_def nat_int_diff)
  have "?inv (fold cw_Write ps c) (out @ concat ps)" if "?inv c out" for c out
    using that
  proof (induction ps arbitrary: c out)
    case (Cons p ps)
    from Cons.IH [OF step [OF Cons.prems]] show ?case by simp
  qed simp
  from this [of "\<lparr>cw_buf = [], cw_cap = limit, cw_trunc = False\<rparr>" "[]"] show ?thesis by (simp add: captured_def)
qed

end
