(* ===== verification/Exec.thy ===== *)
theory Exec
  imports Sandbox
begin

text \<open>
  Package \<open>exec\<close> (\<open>exec.go\<close>) on Linux: the six runners with the environment that keeps their caches and
  homes inside the scratch directory, the version gates, the preamble and tail of PowerShell snippets, and
  \<open>Run\<close>.  \<open>LookPath\<close>, the version probes and the child are parameters.
\<close>

section \<open>Requests\<close>

record exec_request =
  rq_language :: bytes
  rq_code :: bytes
  rq_file :: bytes
  rq_worktree :: bytes
  rq_timeout :: int

record response =
  rs_out :: bytes
  rs_err :: bytes
  rs_exit :: "int option"
  rs_timed_out :: bool
  rs_out_trunc :: bool
  rs_err_trunc :: bool
  rs_duration :: int
  rs_runner :: bytes

definition stdoutCap :: nat where "stdoutCap = 32768"
definition stderrCap :: nat where "stderrCap = 8192"

text \<open>A \<open>time.Duration\<close> in nanoseconds.\<close>

definition clampTimeout :: "int \<Rightarrow> int" where
  "clampTimeout ms = (if ms \<le> 0 then 120000 else if 1800000 < ms then 1800000 else ms) * 1000000"

section \<open>What a run reads off the machine\<close>

record os_io =
  x_getenv :: "bytes \<Rightarrow> bytes option"
  x_look :: "bytes \<Rightarrow> bytes option"
  x_probe :: "bytes \<Rightarrow> bytes list \<Rightarrow> bytes option"
  x_mkdir_fails :: "bytes \<Rightarrow> bool"
  x_write_fails :: "bytes \<Rightarrow> bool"
  x_names :: "bytes list"
  x_stays :: "bytes \<Rightarrow> bool"
  x_ctx_before :: "go_error option"
  x_ctx_after :: "go_error option"
  x_child :: "spec \<Rightarrow> tree \<Rightarrow> proc \<times> tree"

text \<open>A gate keeps the first definitive answer of its probe; the error inside is \<open>None\<close> for a pass.\<close>

type_synonym gate = "go_error option option"

record exec_world =
  g_node :: gate
  g_dotnet :: gate
  g_tree :: tree

definition gate_do :: "gate \<Rightarrow> bool \<times> go_error option \<Rightarrow> gate \<times> go_error option" where
  "gate_do g probe =
     (case g of
        Some err \<Rightarrow> (g, err)
      | None \<Rightarrow> (if fst probe then Some (snd probe) else None, snd probe))"

section \<open>Versions\<close>

text \<open>\<open>strconv.Atoi\<close> with its error ignored: zero for what is no number, the nearest bound for one out of range.\<close>

definition atoi_value :: "bytes \<Rightarrow> int" where
  "atoi_value s =
     (case parse_int64 s of
        Some n \<Rightarrow> n
      | None \<Rightarrow>
          (let ds = (if s \<noteq> [] \<and> hd s \<in> {CHR ''-'', CHR ''+''} then tl s else s) in
           if ds = [] \<or> digits_val 0 ds = None then 0
           else if hd s = CHR ''-'' then - int64_max - 1 else int64_max))"

definition nodeAtLeast :: "bytes \<Rightarrow> int \<Rightarrow> int \<Rightarrow> bool" where
  "nodeAtLeast v major minor =
     (case split_char (CHR ''.'') (trim_prefix ''v'' v) of
        a # b # _ \<Rightarrow> if atoi_value a \<noteq> major then major < atoi_value a else minor \<le> atoi_value b
      | _ \<Rightarrow> False)"

definition dotnetHasMajor :: "bytes \<Rightarrow> int \<Rightarrow> bool" where
  "dotnetHasMajor ls major \<longleftrightarrow>
     list_ex (\<lambda>l. trim_space l \<noteq> [] \<and> major \<le> atoi_value (hd (split_char (CHR ''.'') (trim_space l))))
       (split_char (CHR 0x0A) ls)"

definition node_probe :: "os_io \<Rightarrow> bytes \<Rightarrow> bool \<times> go_error option" where
  "node_probe io node =
     (case x_probe io node [''--version''] of
        None \<Rightarrow> (False, Some ExecToolchainMissing)
      | Some out \<Rightarrow> (True, if nodeAtLeast (trim_space out) 22 7 then None else Some ExecVersionGate))"

definition dotnet_probe :: "os_io \<Rightarrow> bytes \<Rightarrow> bool \<times> go_error option" where
  "dotnet_probe io dotnet =
     (case x_probe io dotnet [''--list-sdks''] of
        None \<Rightarrow> (False, Some ExecToolchainMissing)
      | Some out \<Rightarrow> (True, if dotnetHasMajor out 10 then None else Some ExecVersionGate))"

section \<open>Detection\<close>

type_synonym detected = "exec_world \<times> (go_error + bytes \<times> bytes)"

fun lookVersioned :: "os_io \<Rightarrow> bytes list \<Rightarrow> go_error + bytes" where
  "lookVersioned io [] = Inl ExecToolchainMissing"
| "lookVersioned io (b # bs) = (case x_look io b of Some p \<Rightarrow> Inr p | None \<Rightarrow> lookVersioned io bs)"

definition look_one :: "bytes list \<Rightarrow> os_io \<Rightarrow> exec_world \<Rightarrow> detected" where
  "look_one bins io w = (w, map_sum id (\<lambda>p. (p, [])) (lookVersioned io bins))"

definition detectTS :: "os_io \<Rightarrow> exec_world \<Rightarrow> detected" where
  "detectTS io w =
     (case x_look io ''bun'' of
        Some p \<Rightarrow> (w, Inr (p, []))
      | None \<Rightarrow>
          (case x_look io ''node'' of
             None \<Rightarrow> (w, Inl ExecToolchainMissing)
           | Some p \<Rightarrow>
               (case gate_do (g_node w) (node_probe io p) of
                  (g, Some e) \<Rightarrow> (w\<lparr>g_node := g\<rparr>, Inl e)
                | (g, None) \<Rightarrow> (w\<lparr>g_node := g\<rparr>, Inr (p, [])))))"

definition detectCS :: "os_io \<Rightarrow> exec_world \<Rightarrow> detected" where
  "detectCS io w =
     (case x_look io ''dotnet'' of
        None \<Rightarrow> (w, Inl ExecToolchainMissing)
      | Some p \<Rightarrow>
          (case gate_do (g_dotnet w) (dotnet_probe io p) of
             (g, Some e) \<Rightarrow> (w\<lparr>g_dotnet := g\<rparr>, Inl e)
           | (g, None) \<Rightarrow> (w\<lparr>g_dotnet := g\<rparr>, Inr (p, ''10+''))))"

section \<open>Environments\<close>

text \<open>Several directories, up to the first failure.\<close>

fun mkdirs :: "os_io \<Rightarrow> bytes list \<Rightarrow> tree \<Rightarrow> tree \<times> bool" where
  "mkdirs io [] t = (t, True)"
| "mkdirs io (d # ds) t =
     (case MkdirAll (x_mkdir_fails io) d t of
        (t', True) \<Rightarrow> mkdirs io ds t'
      | (t', False) \<Rightarrow> (t', False))"

type_synonym extra = "tree \<times> (go_error + bytes list)"

definition homeIsolationEnv :: "os_io \<Rightarrow> bytes \<Rightarrow> tree \<Rightarrow> extra" where
  "homeIsolationEnv io scratch t =
     (let home = Join [scratch, ''home'']; xdg = Join [scratch, ''xdg''];
          appSupport = Join [home, ''Library'', ''Application Support''];
          migrations = Join [xdg, ''NuGet'', ''Migrations''] in
      (case mkdirs io [home, appSupport, migrations] t of
         (t1, False) \<Rightarrow> (t1, Inl SandboxSetup)
       | (t1, True) \<Rightarrow>
           (case WriteFile (x_write_fails io) (Join [migrations, ''1'']) [] t1 of
              (t2, False) \<Rightarrow> (t2, Inl SandboxSetup)
            | (t2, True) \<Rightarrow>
                (t2, Inr [env_entry ''HOME'' home, env_entry ''CFFIXED_USER_HOME'' home,
                          env_entry ''XDG_DATA_HOME'' xdg]))))"

definition dotnetFirstRunEnv :: "bytes list" where
  "dotnetFirstRunEnv =
     [''DOTNET_SKIP_WORKLOAD_INTEGRITY_CHECK=1'', ''DOTNET_GENERATE_ASPNET_CERTIFICATE=false'',
      ''DOTNET_NOLOGO=1'', ''DOTNET_CLI_TELEMETRY_OPTOUT=1'']"

definition shellEnv :: "os_io \<Rightarrow> bytes \<Rightarrow> tree \<Rightarrow> extra" where
  "shellEnv io scratch t =
     (case homeIsolationEnv io scratch t of
        (t1, Inl e) \<Rightarrow> (t1, Inl e)
      | (t1, Inr shared) \<Rightarrow> (t1, Inr (shared @ dotnetFirstRunEnv)))"

definition jsEnv :: "os_io \<Rightarrow> bytes \<Rightarrow> tree \<Rightarrow> extra" where
  "jsEnv io scratch t =
     (let rc = Join [scratch, ''npmrc'']; t1 = fst (WriteFile (x_write_fails io) rc [] t) in
      (case homeIsolationEnv io scratch t1 of
         (t2, Inl e) \<Rightarrow> (t2, Inl e)
       | (t2, Inr shared) \<Rightarrow>
           (let xdgConfig = Join [scratch, ''home'', ''.config''];
                t3 = fst (MkdirAll (x_mkdir_fails io) xdgConfig t2) in
            (t3, Inr (shared @ [env_entry ''NPM_CONFIG_USERCONFIG'' rc, env_entry ''XDG_CONFIG_HOME'' xdgConfig])))))"

definition pyEnv :: "os_io \<Rightarrow> bytes \<Rightarrow> tree \<Rightarrow> extra" where
  "pyEnv io scratch t =
     (let cache = Join [scratch, ''pycache'']; t1 = fst (MkdirAll (x_mkdir_fails io) cache t);
          conf = Join [scratch, ''pip.conf''] in
      (case WriteFile (x_write_fails io) conf [] t1 of
         (t2, False) \<Rightarrow> (t2, Inl SandboxSetup)
       | (t2, True) \<Rightarrow>
           (t2, Inr [env_entry ''PYTHONPYCACHEPREFIX'' cache, ''PYTHONNOUSERSITE=1'',
                     env_entry ''PIP_CONFIG_FILE'' conf])))"

definition goEnvFile :: bytes where
  "goEnvFile = ''GOFLAGS='' @ [CHR 0x0A] @ ''GOTOOLCHAIN=local'' @ [CHR 0x0A] @ ''GOPROXY=off'' @ [CHR 0x0A]"

definition goEnv :: "os_io \<Rightarrow> bytes \<Rightarrow> tree \<Rightarrow> extra" where
  "goEnv io scratch t =
     (let build = Join [scratch, ''go-build'']; gopath = Join [scratch, ''go'']; gotmp = Join [scratch, ''go-tmp''] in
      (case mkdirs io [build, gopath, gotmp] t of
         (t1, False) \<Rightarrow> (t1, Inl SandboxSetup)
       | (t1, True) \<Rightarrow>
           (let goenv = Join [scratch, ''go-env'']; t2 = fst (WriteFile (x_write_fails io) goenv goEnvFile t1) in
            (t2, Inr [env_entry ''GOCACHE'' build, env_entry ''GOPATH'' gopath, env_entry ''GOTMPDIR'' gotmp,
                      env_entry ''GOENV'' goenv]))))"

definition nugetConfig :: bytes where
  "nugetConfig =
     ''<?xml version='' @ [CHR 0x22] @ ''1.0'' @ [CHR 0x22] @ '' encoding='' @ [CHR 0x22] @ ''utf-8'' @ [CHR
     0x22] @ ''?>'' @ [CHR 0x0A] @ ''<configuration>'' @ [CHR 0x0A] @ ''  <config>'' @ [CHR 0x0A] @ ''
     <clear />'' @ [CHR 0x0A] @ ''  </config>'' @ [CHR 0x0A] @ ''  <packageSources>'' @ [CHR 0x0A] @ ''
     <clear />'' @ [CHR 0x0A] @ ''    <add key='' @ [CHR 0x22] @ ''nuget.org'' @ [CHR 0x22] @ '' value='' @
     [CHR 0x22] @ ''https://api.nuget.org/v3/index.json'' @ [CHR 0x22] @ '' protocolVersion='' @ [CHR 0x22] @
     ''3'' @ [CHR 0x22] @ '' />'' @ [CHR 0x0A] @ ''  </packageSources>'' @ [CHR 0x0A] @ ''
     <disabledPackageSources>'' @ [CHR 0x0A] @ ''    <clear />'' @ [CHR 0x0A] @ ''
     </disabledPackageSources>'' @ [CHR 0x0A] @ ''  <packageSourceMapping>'' @ [CHR 0x0A] @ ''    <clear />''
     @ [CHR 0x0A] @ ''  </packageSourceMapping>'' @ [CHR 0x0A] @ ''  <fallbackPackageFolders>'' @ [CHR 0x0A] @
     ''    <clear />'' @ [CHR 0x0A] @ ''  </fallbackPackageFolders>'' @ [CHR 0x0A] @ ''</configuration>'' @
     [CHR 0x0A]"

definition csEnv :: "os_io \<Rightarrow> bytes \<Rightarrow> tree \<Rightarrow> extra" where
  "csEnv io scratch t =
     (let home = Join [scratch, ''dotnet'']; nuget = Join [scratch, ''nuget''];
          nugetHTTP = Join [scratch, ''nuget-http'']; nugetPlugins = Join [scratch, ''nuget-plugins''] in
      (case mkdirs io [home, nuget, nugetHTTP, nugetPlugins] t of
         (t1, False) \<Rightarrow> (t1, Inl SandboxSetup)
       | (t1, True) \<Rightarrow>
           (case WriteFile (x_write_fails io) (Join [scratch, ''nuget.config'']) nugetConfig t1 of
              (t2, False) \<Rightarrow> (t2, Inl SandboxSetup)
            | (t2, True) \<Rightarrow>
                (case homeIsolationEnv io scratch t2 of
                   (t3, Inl e) \<Rightarrow> (t3, Inl e)
                 | (t3, Inr shared) \<Rightarrow>
                     (t3, Inr (shared
                        @ [env_entry ''DOTNET_CLI_HOME'' home, env_entry ''NUGET_PACKAGES'' nuget,
                           env_entry ''NUGET_HTTP_CACHE_PATH'' nugetHTTP, env_entry ''NUGET_PLUGINS_CACHE_PATH'' nugetPlugins]
                        @ dotnetFirstRunEnv
                        @ [''DOTNET_CLI_DO_NOT_USE_MSBUILD_SERVER=1'', ''MSBUILDDISABLENODEREUSE=1'',
                           ''UseSharedCompilation=false'']))))))"

definition tmpEnv :: "os_io \<Rightarrow> bytes \<Rightarrow> tree \<Rightarrow> tree \<times> bytes list" where
  "tmpEnv io scratch t =
     (let tmp = Join [scratch, ''tmp''] in (fst (MkdirAll (x_mkdir_fails io) tmp t), [env_entry ''TMPDIR'' tmp]))"

section \<open>Runners\<close>

record runner =
  rn_file :: bytes
  rn_detect :: "os_io \<Rightarrow> exec_world \<Rightarrow> detected"
  rn_argv :: "bytes \<Rightarrow> bytes \<Rightarrow> bytes list"
  rn_extra :: "(os_io \<Rightarrow> bytes \<Rightarrow> tree \<Rightarrow> extra) option"

definition fileArgv :: "bytes \<Rightarrow> bytes \<Rightarrow> bytes list" where "fileArgv bin file = [bin, file]"

definition runArgv :: "bytes \<Rightarrow> bytes \<Rightarrow> bytes list" where "runArgv bin file = [bin, ''run'', file]"

definition tsArgv :: "bytes \<Rightarrow> bytes \<Rightarrow> bytes list" where
  "tsArgv bin file =
     (if prefix ''bun'' (Base bin) then [bin, file] else [bin, ''--experimental-transform-types'', file])"

definition table :: "bytes \<Rightarrow> runner option" where
  "table lang =
     map_of
      [(''shell'', \<lparr>rn_file = ''snippet.sh'', rn_detect = look_one [''sh''], rn_argv = fileArgv, rn_extra = Some shellEnv\<rparr>),
       (''javascript'', \<lparr>rn_file = ''snippet.js'', rn_detect = look_one [''bun'', ''node''], rn_argv = fileArgv,
                        rn_extra = Some jsEnv\<rparr>),
       (''typescript'', \<lparr>rn_file = ''snippet.ts'', rn_detect = detectTS, rn_argv = tsArgv, rn_extra = Some jsEnv\<rparr>),
       (''python'', \<lparr>rn_file = ''snippet.py'', rn_detect = look_one [''python3'', ''python''], rn_argv = fileArgv,
                    rn_extra = Some pyEnv\<rparr>),
       (''go'', \<lparr>rn_file = ''snippet.go'', rn_detect = look_one [''go''], rn_argv = runArgv, rn_extra = Some goEnv\<rparr>),
       (''csharp'', \<lparr>rn_file = ''snippet.cs'', rn_detect = detectCS, rn_argv = runArgv, rn_extra = Some csEnv\<rparr>)]
      lang"

definition runnerLabel :: "bytes \<Rightarrow> bytes \<Rightarrow> bytes" where
  "runnerLabel bin version = (if version \<noteq> [] then Base bin @ '' '' @ version else Base bin)"

section \<open>PowerShell snippets\<close>

definition ctrNativeExitFile :: bytes where "ctrNativeExitFile = ''ctr-native-exit''"
definition ctrNativeExitMarker :: bytes where "ctrNativeExitMarker = ''ctr-exit-code:''"
definition maxNativeExitSideFileBytes :: nat where
  "maxNativeExitSideFileBytes = length ctrNativeExitMarker + 16"

definition promotesFirstToken :: "bytes \<Rightarrow> bool" where
  "promotesFirstToken s =
     (if s = [] then True
      else if hd s \<in> {CHR ''['', CHR 0x60} then False
      else (let word = (if is_alpha (hd s) \<or> hd s = CHR ''_''
              then takeWhile (\<lambda>c. is_alpha c \<or> c = CHR ''_'' \<or> is_digit c) s else [])
            in ascii_lower word \<notin> {''param'', ''using'', ''dynamicparam'', ''begin'', ''process'', ''end'', ''clean''}))"

function promotes_loop :: "bytes \<Rightarrow> bool" where
  "promotes_loop s0 =
     (let s = trim_left s0 in
      if prefix ''<#'' s then
        (case index_of ''#>'' (drop 2 s) of None \<Rightarrow> True | Some j \<Rightarrow> promotes_loop (drop (2 + j + 2) s))
      else if prefix ''#'' s then
        (case index_any {CHR 0x0D, CHR 0x0A} s of None \<Rightarrow> True | Some j \<Rightarrow> promotes_loop (drop (j + 1) s))
      else promotesFirstToken s)"
  by pat_completeness auto

lemma trim_left_length: "length (trim_left s) \<le> length s"
  by (induction s rule: trim_left.induct) (subst trim_left.simps, auto)

termination promotes_loop
proof (relation "measure length")
  fix s0 s :: bytes and j
  assume "s = trim_left s0"
  moreover then have "length s \<le> length s0" by (simp add: trim_left_length)
  moreover assume "prefix ''<#'' s"
  ultimately show "(drop (2 + j + 2) s, s0) \<in> measure length" by (auto simp: prefix_def)
next
  fix s0 s :: bytes and j
  assume "s = trim_left s0"
  moreover then have "length s \<le> length s0" by (simp add: trim_left_length)
  moreover assume "prefix ''#'' s"
  ultimately show "(drop (j + 1) s, s0) \<in> measure length" by (auto simp: prefix_def)
qed simp

declare promotes_loop.simps [simp del]

definition utf8_bom :: bytes where "utf8_bom = [CHR 0xEF, CHR 0xBB, CHR 0xBF]"

definition promotesNativeExitSignal :: "bytes \<Rightarrow> bool" where
  "promotesNativeExitSignal code = promotes_loop (trim_prefix utf8_bom code)"

definition ps_quote :: "bytes \<Rightarrow> bytes" where
  "ps_quote s = replace_char (CHR 0x27) [CHR 0x27, CHR 0x27] s"

definition nativeExitRegistration :: "bytes \<Rightarrow> bytes" where
  "nativeExitRegistration sidePath =
     ''Register-EngineEvent -SourceIdentifier PowerShell.Exiting -SupportEvent -Action { try {
     [System.IO.File]::WriteAllText('' @ [CHR 0x27] @
     ps_quote sidePath @ [CHR 0x27] @ '', '' @ [CHR 0x27] @ ctrNativeExitMarker @
     [CHR 0x27] @ '' + [string]$LASTEXITCODE) } catch {} }; ''"

definition nativeExitTail :: "bytes \<Rightarrow> bytes" where
  "nativeExitTail sidePath =
     [CHR 0x0A] @ ''try {'' @ [CHR 0x0A] @ ''$ctrNativeExitCode = Get-Variable -Name LASTEXITCODE -ValueOnly
     -ErrorAction SilentlyContinue'' @ [CHR 0x0A] @ ''[System.IO.File]::WriteAllText('' @ [CHR 0x27] @
     ps_quote sidePath @ [CHR 0x27] @ '', '' @ [CHR 0x27] @ ctrNativeExitMarker @
     [CHR 0x27] @ '' + [string]$ctrNativeExitCode)'' @ [CHR 0x0A] @ ''} catch {}'' @ [CHR 0x0A]"

definition snippetContent :: "bytes \<Rightarrow> bytes \<Rightarrow> bytes \<Rightarrow> bytes" where
  "snippetContent fileName code sidePath =
     (if \<not> suffix ''.ps1'' fileName then code
      else if promotesNativeExitSignal code then utf8_bom @ nativeExitRegistration sidePath @ code
      else utf8_bom @ code @ nativeExitTail sidePath)"

text \<open>The side file: a regular file, short, with the marker and a number.\<close>

definition readNativeExitCode :: "tree \<Rightarrow> bytes \<Rightarrow> int option" where
  "readNativeExitCode t path =
     (case t path of
        Some (FileNode b) \<Rightarrow>
          if maxNativeExitSideFileBytes < length b then None
          else (case cut_prefix_of ctrNativeExitMarker (trim_space b) of
              None \<Rightarrow> None
            | Some s \<Rightarrow> if s = [] then None else parse_int64 s)
      | _ \<Rightarrow> None)"

definition native_exit_note :: "int \<Rightarrow> bytes" where
  "native_exit_note n =
     ''context-router: '' @ [CHR 0xEB, CHR 0xA7, CHR 0x88, CHR 0xEC, CHR 0xA7, CHR 0x80, CHR 0xEB, CHR 0xA7,
     CHR 0x89] @ '' '' @ [CHR 0xEC, CHR 0x99, CHR 0xB8, CHR 0xEB, CHR 0xB6, CHR 0x80] @ '' '' @ [CHR 0xEB, CHR
     0xAA, CHR 0x85, CHR 0xEB, CHR 0xA0, CHR 0xB9, CHR 0xEC, CHR 0x9D, CHR 0xB4] @ '' '' @ [CHR 0xEC, CHR
     0xA2, CHR 0x85, CHR 0xEB, CHR 0xA3, CHR 0x8C] @ '' '' @ [CHR 0xEC, CHR 0xBD, CHR 0x94, CHR 0xEB, CHR
     0x93, CHR 0x9C] @ '' '' @ itoa n @
     [CHR 0xEB, CHR 0xB2, CHR 0x88, CHR 0xEC, CHR 0x9C, CHR 0xBC, CHR 0xEB, CHR 0xA1, CHR 0x9C] @ '' '' @ [CHR
     0xEB, CHR 0x81, CHR 0x9D, CHR 0xEB, CHR 0x82, CHR 0xAC, CHR 0xEC, CHR 0x8A, CHR 0xB5, CHR 0xEB, CHR 0x8B,
     CHR 0x88, CHR 0xEB, CHR 0x8B, CHR 0xA4] @ ''(exit_code'' @ [CHR 0xEB, CHR 0x8A, CHR 0x94] @ '' '' @ [CHR
     0xEC, CHR 0x8A, CHR 0xA4, CHR 0xEB, CHR 0x8B, CHR 0x88, CHR 0xED, CHR 0x8E, CHR 0xAB, CHR 0xEC, CHR 0x9D,
     CHR 0x98] @ '' '' @ [CHR 0xEC, CHR 0xA2, CHR 0x85, CHR 0xEB, CHR 0xA3, CHR 0x8C] @ '' '' @ [CHR 0xEC, CHR
     0x83, CHR 0x81, CHR 0xED, CHR 0x83, CHR 0x9C, CHR 0xEC, CHR 0x9E, CHR 0x85, CHR 0xEB, CHR 0x8B, CHR 0x88,
     CHR 0xEB, CHR 0x8B, CHR 0xA4] @ '').'' @ [CHR 0x0A]"

section \<open>Run\<close>

definition exec_spec ::
  "os_io \<Rightarrow> bytes \<Rightarrow> exec_request \<Rightarrow> runner \<Rightarrow> bytes \<Rightarrow> bytes \<Rightarrow> bytes list \<Rightarrow> spec" where
  "exec_spec io selfExe req r bin scratch extra =
     \<lparr>sp_argv = rn_argv r bin (Join [scratch, rn_file r]), sp_dir = scratch,
      sp_env = BaseEnv (x_getenv io) @ [env_entry ''TMPDIR'' (Join [scratch, ''tmp''])] @ extra
        @ (if rq_file req \<noteq> [] then [env_entry ''CTR_FILE'' (rq_file req)] else [])
        @ (if rq_worktree req \<noteq> [] then [env_entry ''CTR_WORKTREE'' (rq_worktree req)] else [])
        @ [env_entry ''CTR_SCRATCH'' scratch],
      sp_timeout = clampTimeout (rq_timeout req), sp_out_cap = stdoutCap, sp_err_cap = stderrCap,
      sp_self = selfExe\<rparr>"

definition exec_response ::
  "os_io \<Rightarrow> runner \<Rightarrow> bytes \<Rightarrow> bytes \<Rightarrow> bytes \<Rightarrow> run_result \<Rightarrow> tree \<Rightarrow> go_error + response" where
  "exec_response io r bin version scratch res t =
     (let resp = \<lparr>rs_out = rr_out res, rs_err = rr_err res, rs_exit = None, rs_timed_out = False,
                  rs_out_trunc = rr_out_trunc res, rs_err_trunc = rr_err_trunc res,
                  rs_duration = rr_duration res div 1000000, rs_runner = runnerLabel bin version\<rparr> in
      if rr_timed_out res \<or> x_ctx_after io = Some CtxDeadline then Inr (resp\<lparr>rs_timed_out := True\<rparr>)
      else if x_ctx_after io = Some CtxCanceled then Inl CtxCanceled
      else Inr (resp\<lparr>rs_exit := Some (rr_exit res),
          rs_err := (if suffix ''.ps1'' (rn_file r) \<and> rr_exit res = 0 \<and> rr_err res = []
             then (case readNativeExitCode t (Join [scratch, ctrNativeExitFile]) of
                 Some n \<Rightarrow> if n \<noteq> 0 then native_exit_note n else []
               | None \<Rightarrow> [])
             else rr_err res)\<rparr>))"

definition in_scratch ::
  "os_io \<Rightarrow> bytes \<Rightarrow> exec_request \<Rightarrow> runner \<Rightarrow> bytes \<Rightarrow> bytes \<Rightarrow> bytes \<Rightarrow> tree \<Rightarrow> tree \<times> (go_error + response)" where
  "in_scratch io selfExe req r bin version scratch t =
     (let t1 = fst (tmpEnv io scratch t) in
      (case (case rn_extra r of None \<Rightarrow> (t1, Inr []) | Some f \<Rightarrow> f io scratch t1) of
         (t2, Inl e) \<Rightarrow> (t2, Inl e)
       | (t2, Inr extra) \<Rightarrow>
           (case WriteFile (x_write_fails io) (Join [scratch, rn_file r])
                   (snippetContent (rn_file r) (rq_code req) (Join [scratch, ctrNativeExitFile])) t2 of
              (t3, False) \<Rightarrow> (t3, Inl SandboxSetup)
            | (t3, True) \<Rightarrow>
                (case sandbox_Run (x_ctx_before io) (x_child io) (exec_spec io selfExe req r bin scratch extra) t3 of
                   (t4, Inl e) \<Rightarrow> (t4, Inl e)
                 | (t4, Inr res) \<Rightarrow> (t4, exec_response io r bin version scratch res t4)))))"

definition run_runner ::
  "os_io \<Rightarrow> bytes \<Rightarrow> bytes \<Rightarrow> exec_request \<Rightarrow> runner \<Rightarrow> exec_world \<Rightarrow> exec_world \<times> (go_error + response)" where
  "run_runner io scratchParent selfExe req r w =
     (case rn_detect r io w of
        (w1, Inl e) \<Rightarrow> (w1, Inl e)
      | (w1, Inr (bin, version)) \<Rightarrow>
          (case NewScratch (x_mkdir_fails io) (x_names io) scratchParent (g_tree w1) of
             (t1, Inl e) \<Rightarrow> (w1\<lparr>g_tree := t1\<rparr>, Inl e)
           | (t1, Inr scratch) \<Rightarrow>
               (case in_scratch io selfExe req r bin version scratch t1 of
                  (t2, res) \<Rightarrow> (w1\<lparr>g_tree := RemoveAll (x_stays io) scratch t2\<rparr>, res))))"

definition exec_Run ::
  "os_io \<Rightarrow> bytes \<Rightarrow> bytes \<Rightarrow> exec_request \<Rightarrow> exec_world \<Rightarrow> exec_world \<times> (go_error + response)" where
  "exec_Run io scratchParent selfExe req w =
     (case table (rq_language req) of
        None \<Rightarrow> (w, Inl ExecUnsupportedLang)
      | Some r \<Rightarrow> run_runner io scratchParent selfExe req r w)"

text \<open>The status of every language, in the order they are probed.\<close>

record lang_status =
  ls_lang :: bytes
  ls_runner :: bytes
  ls_version :: bytes
  ls_ok :: bool

fun runner_status :: "os_io \<Rightarrow> bytes list \<Rightarrow> exec_world \<Rightarrow> exec_world \<times> lang_status list" where
  "runner_status io [] w = (w, [])"
| "runner_status io (l # ls) w =
     (case rn_detect (the (table l)) io w of
        (w1, d) \<Rightarrow>
          (case runner_status io ls w1 of
             (w2, sts) \<Rightarrow>
               (w2, \<lparr>ls_lang = l, ls_runner = (case d of Inr (bin, _) \<Rightarrow> Base bin | Inl _ \<Rightarrow> []),
                     ls_version = (case d of Inr (_, v) \<Rightarrow> v | Inl _ \<Rightarrow> []),
                     ls_ok = (case d of Inr _ \<Rightarrow> True | Inl _ \<Rightarrow> False)\<rparr> # sts)))"

definition RunnerStatus :: "os_io \<Rightarrow> exec_world \<Rightarrow> exec_world \<times> lang_status list" where
  "RunnerStatus io w =
     runner_status io [''shell'', ''javascript'', ''typescript'', ''python'', ''go'', ''csharp''] w"

end
