(* ===== verification/Exec_Facts.thy ===== *)
theory Exec_Facts
  imports Exec
begin

text \<open>What a run promises: the files are as before when it is over, the child sees an environment that points into
  the scratch directory, the response is the outcome of the child, and a PowerShell snippet keeps its leading
  declarations in front.\<close>

section \<open>Paths inside a directory\<close>

definition dir_path :: "bytes \<Rightarrow> bool" where
  "dir_path s \<longleftrightarrow> (\<exists>cs. cs \<noteq> [] \<and> list_all normal_comp cs \<and> s = abs_path cs)"

definition inside :: "bytes \<Rightarrow> bytes \<Rightarrow> bool" where
  "inside s p \<longleftrightarrow> dir_path p \<and> under s p"

lemma join_two: "a \<noteq> [] \<Longrightarrow> b \<noteq> [] \<Longrightarrow> join sep (a @ b) = join sep a @ sep @ join sep b"
proof (induction a)
  case (Cons x a)
  then show ?case by (cases "a = []") (simp_all add: join_Cons)
qed simp

lemma Join_abs_path:
  assumes "cs \<noteq> []" and "list_all normal_comp cs" and "list_all normal_comp es"
  shows "Join (abs_path cs # es) = abs_path (cs @ es)"
proof -
  have "filter (\<lambda>e. e \<noteq> []) es = es" using assms(3) by (auto simp: filter_id_conv list_all_iff normal_comp_def)
  moreover have "join [slash] (abs_path cs # es) = abs_path (cs @ es)"
    using assms(1) by (cases "es = []") (simp_all add: abs_path_def join_Cons join_two)
  ultimately show ?thesis using Clean_abs_path [of "cs @ es"] assms by (simp add: Join_def abs_path_def)
qed

lemma under_abs_path: "cs \<noteq> [] \<Longrightarrow> under (abs_path cs) (abs_path (cs @ es))"
  by (cases "es = []") (simp_all add: under_def abs_path_def join_two prefix_def)

lemma inside_Join: "inside s p \<Longrightarrow> list_all normal_comp es \<Longrightarrow> inside s (Join (p # es))"
  unfolding inside_def dir_path_def
  by (metis Join_abs_path under_abs_path under_trans append_is_Nil_conv list_all_append)

lemma inside_self: "dir_path s \<Longrightarrow> inside s s"
  by (simp add: inside_def)

lemma dir_path_not_Nil: "dir_path s \<Longrightarrow> s \<noteq> []"
  by (auto simp: dir_path_def abs_path_def)

section \<open>What changes outside a directory\<close>

definition rooted :: "bytes \<Rightarrow> tree \<Rightarrow> bool" where
  "rooted s t \<longleftrightarrow> (\<forall>q. q \<noteq> [] \<and> under q s \<longrightarrow> t q = Some DirNode)"

definition framed :: "bytes \<Rightarrow> tree \<Rightarrow> tree \<Rightarrow> bool" where
  "framed s t t' \<longleftrightarrow> (\<forall>p. \<not> under s p \<longrightarrow> t' p = t p) \<and> (rooted s t \<longrightarrow> rooted s t')"

lemma framed_refl [simp]: "framed s t t" by (simp add: framed_def)

lemma framed_trans: "framed s t t' \<Longrightarrow> framed s t' t'' \<Longrightarrow> framed s t t''" by (simp add: framed_def)

lemma ancestors_set: "q \<in> set (ancestors p) \<longleftrightarrow> q \<noteq> [] \<and> under q p"
  by (auto simp: ancestors_def under_def dest: append_prefixD)

lemma mkdir_each_framed:
  "mkdir_each fails qs t = (t', b) \<Longrightarrow> rooted s t \<Longrightarrow> \<forall>q \<in> set qs. under s q \<or> q \<noteq> [] \<and> under q s \<Longrightarrow> framed s t t' \<and> rooted s t'"
proof (induction qs arbitrary: t)
  case (Cons q qs)
  show ?case
  proof (cases "t q")
    case None
    then have "under s q" using Cons.prems(2,3) by (auto simp: rooted_def)
    moreover have "rooted s (t(q \<mapsto> DirNode))" using Cons.prems(2) by (auto simp: rooted_def)
    ultimately have f: "framed s t (t(q \<mapsto> DirNode))" "rooted s (t(q \<mapsto> DirNode))" by (auto simp: framed_def)
    show ?thesis
    proof (cases "fails q")
      case False
      with Cons.prems(1) None have "mkdir_each fails qs (t(q \<mapsto> DirNode)) = (t', b)" by simp
      moreover have "\<forall>q \<in> set qs. under s q \<or> q \<noteq> [] \<and> under q s" using Cons.prems(3) by simp
      ultimately have "framed s (t(q \<mapsto> DirNode)) t' \<and> rooted s t'" using Cons.IH f(2) by blast
      then show ?thesis using framed_trans [OF f(1)] by blast
    qed (use Cons.prems None in auto)
  next
    case (Some n)
    with Cons show ?thesis by (cases n) auto
  qed
qed simp

lemma MkdirAll_framed:
  assumes "MkdirAll fails d t = (t', b)" and "rooted s t" and "inside s d"
  shows "framed s t t' \<and> rooted s t'"
proof (rule mkdir_each_framed)
  show "mkdir_each fails (ancestors d) t = (t', b)" using assms(1) by (simp add: MkdirAll_def)
  show "\<forall>q \<in> set (ancestors d). under s q \<or> q \<noteq> [] \<and> under q s"
    using assms(3) under_comparable [of s d] unfolding inside_def by (metis ancestors_set)
qed (rule assms(2))

lemma WriteFile_framed:
  assumes "WriteFile fails p c t = (t', b)" and "rooted s t" and "inside s p"
  shows "framed s t t' \<and> rooted s t'"
proof (cases b)
  case True
  with assms(1) have t': "t' = t(p \<mapsto> FileNode c)" "t p \<noteq> Some DirNode" by (auto simp: WriteFile_def split: if_splits)
  have "p \<noteq> []" "under s p" using assms(3) dir_path_not_Nil by (auto simp: inside_def)
  with t' assms(2) show ?thesis by (auto simp: framed_def rooted_def)
next
  case False
  with assms(1,2) show ?thesis by (auto simp: WriteFile_def split: if_splits)
qed

lemma mkdirs_framed:
  "mkdirs io ds t = (t', b) \<Longrightarrow> rooted s t \<Longrightarrow> \<forall>d \<in> set ds. inside s d \<Longrightarrow> framed s t t' \<and> rooted s t'"
proof (induction ds arbitrary: t)
  case (Cons d ds)
  obtain t1 c where m: "MkdirAll (x_mkdir_fails io) d t = (t1, c)" by fastforce
  have f: "framed s t t1 \<and> rooted s t1" using MkdirAll_framed [OF m Cons.prems(2)] Cons.prems(3) by simp
  show ?case
  proof (cases c)
    case True
    with Cons.prems m have "mkdirs io ds t1 = (t', b)" by simp
    from Cons.IH [OF this] f Cons.prems(3) show ?thesis using framed_trans by auto
  qed (use Cons.prems m f in auto)
qed simp

lemma MkdirAll_fst_framed: "rooted s t \<Longrightarrow> inside s d \<Longrightarrow> framed s t (fst (MkdirAll fails d t)) \<and> rooted s (fst (MkdirAll fails d t))"
  using MkdirAll_framed [of fails d t] by (metis prod.collapse)

lemma WriteFile_fst_framed: "rooted s t \<Longrightarrow> inside s p \<Longrightarrow> framed s t (fst (WriteFile fails p c t)) \<and> rooted s (fst (WriteFile fails p c t))"
  using WriteFile_framed [of fails p c t] by (metis prod.collapse)

lemma names_normal [simp]:
  "normal_comp ''home''" "normal_comp ''xdg''" "normal_comp ''Library''" "normal_comp ''Application Support''"
  "normal_comp ''NuGet''" "normal_comp ''Migrations''" "normal_comp ''1''" "normal_comp ''npmrc''" "normal_comp ''.config''"
  "normal_comp ''pycache''" "normal_comp ''pip.conf''" "normal_comp ''go-build''" "normal_comp ''go''" "normal_comp ''go-tmp''"
  "normal_comp ''go-env''" "normal_comp ''dotnet''" "normal_comp ''nuget''" "normal_comp ''nuget-http''"
  "normal_comp ''nuget-plugins''" "normal_comp ''nuget.config''" "normal_comp ''tmp''"
  by (simp_all add: normal_comp_def)

section \<open>The environments\<close>

text \<open>An environment function only works inside the scratch directory, and what it sets is fixed or a path in there.\<close>

definition fixed_settings :: "bytes set" where
  "fixed_settings = set dotnetFirstRunEnv \<union> {''PYTHONNOUSERSITE=1'', ''DOTNET_CLI_DO_NOT_USE_MSBUILD_SERVER=1'',
     ''MSBUILDDISABLENODEREUSE=1'', ''UseSharedCompilation=false''}"

definition points_inside :: "bytes \<Rightarrow> bytes \<Rightarrow> bool" where
  "points_inside s e \<longleftrightarrow> e \<in> fixed_settings \<or> (\<exists>k v. e = env_entry k v \<and> CHR ''='' \<notin> set k \<and> inside s v)"

definition extra_ok :: "bytes \<Rightarrow> tree \<Rightarrow> extra \<Rightarrow> bool" where
  "extra_ok s t x \<longleftrightarrow> framed s t (fst x) \<and> rooted s (fst x) \<and> (\<forall>es. snd x = Inr es \<longrightarrow> (\<forall>e \<in> set es. points_inside s e))"

lemma points_env [intro]: "inside s v \<Longrightarrow> CHR ''='' \<notin> set k \<Longrightarrow> points_inside s (env_entry k v)"
  by (auto simp: points_inside_def)

lemma points_fixed: "e \<in> set dotnetFirstRunEnv \<Longrightarrow> points_inside s e"
  by (simp add: points_inside_def fixed_settings_def)

lemma homeIsolationEnv_ok:
  assumes r: "rooted s t" and d: "dir_path s"
  shows "extra_ok s t (homeIsolationEnv io s t)"
proof -
  let ?home = "Join [s, ''home'']" and ?xdg = "Join [s, ''xdg'']"
  let ?mig = "Join [?xdg, ''NuGet'', ''Migrations'']"
  have in1: "inside s ?home" "inside s ?xdg" using inside_Join [OF inside_self [OF d]] by simp_all
  then have in2: "inside s (Join [?home, ''Library'', ''Application Support''])" "inside s ?mig"
    using inside_Join by simp_all
  then have in3: "inside s (Join [?mig, ''1''])" using inside_Join by simp
  obtain t1 b where m: "mkdirs io [?home, Join [?home, ''Library'', ''Application Support''], ?mig] t = (t1, b)" by fastforce
  have f1: "framed s t t1" "rooted s t1" using mkdirs_framed [OF m r] in1 in2 by simp_all
  show ?thesis
  proof (cases b)
    case False
    with m f1 show ?thesis by (simp add: homeIsolationEnv_def extra_ok_def Let_def)
  next
    case True
    obtain t2 c where w: "WriteFile (x_write_fails io) (Join [?mig, ''1'']) [] t1 = (t2, c)" by fastforce
    have f2: "framed s t t2" "rooted s t2" using WriteFile_framed [OF w f1(2) in3] framed_trans [OF f1(1)] by simp_all
    show ?thesis
      using m True w f2 in1 by (cases c) (auto simp: homeIsolationEnv_def extra_ok_def Let_def)
  qed
qed

lemma extra_ok_after:
  assumes "framed s t t1" and "extra_ok s t1 (t2, x)"
  shows "framed s t t2" and "rooted s t2" and "x = Inr es \<Longrightarrow> e \<in> set es \<Longrightarrow> points_inside s e"
  using assms framed_trans by (auto simp: extra_ok_def)

lemma shellEnv_ok:
  assumes r: "rooted s t" and d: "dir_path s"
  shows "extra_ok s t (shellEnv io s t)"
  using homeIsolationEnv_ok [OF r d, of io] points_fixed
  by (auto simp: shellEnv_def extra_ok_def split: prod.splits sum.splits)

lemma jsEnv_ok:
  assumes r: "rooted s t" and d: "dir_path s"
  shows "extra_ok s t (jsEnv io s t)"
proof -
  let ?rc = "Join [s, ''npmrc'']" and ?cfg = "Join [s, ''home'', ''.config'']"
  have i: "inside s ?rc" "inside s ?cfg" using inside_Join [OF inside_self [OF d]] by simp_all
  let ?t1 = "fst (WriteFile (x_write_fails io) ?rc [] t)"
  have f1: "framed s t ?t1" "rooted s ?t1" using WriteFile_fst_framed [OF r i(1)] by simp_all
  obtain t2 x where h: "homeIsolationEnv io s ?t1 = (t2, x)" by fastforce
  have ok: "extra_ok s ?t1 (t2, x)" using homeIsolationEnv_ok [OF f1(2) d, of io] h by simp
  note f2 = extra_ok_after [OF f1(1) ok]
  show ?thesis
  proof (cases x)
    case (Inl e)
    with h f2 show ?thesis by (simp add: jsEnv_def extra_ok_def Let_def)
  next
    case (Inr es)
    have f3: "framed s t (fst (MkdirAll (x_mkdir_fails io) ?cfg t2))" "rooted s (fst (MkdirAll (x_mkdir_fails io) ?cfg t2))"
      using MkdirAll_fst_framed [OF f2(2) i(2)] framed_trans [OF f2(1)] by simp_all
    show ?thesis using h Inr f3 f2(3) [OF Inr] i by (auto simp: jsEnv_def extra_ok_def Let_def)
  qed
qed

lemma pyEnv_ok:
  assumes r: "rooted s t" and d: "dir_path s"
  shows "extra_ok s t (pyEnv io s t)"
proof -
  let ?cache = "Join [s, ''pycache'']" and ?conf = "Join [s, ''pip.conf'']"
  have i: "inside s ?cache" "inside s ?conf" using inside_Join [OF inside_self [OF d]] by simp_all
  let ?t1 = "fst (MkdirAll (x_mkdir_fails io) ?cache t)"
  have f1: "framed s t ?t1" "rooted s ?t1" using MkdirAll_fst_framed [OF r i(1)] by simp_all
  obtain t2 b where w: "WriteFile (x_write_fails io) ?conf [] ?t1 = (t2, b)" by fastforce
  have f2: "framed s t t2" "rooted s t2" using WriteFile_framed [OF w f1(2) i(2)] framed_trans [OF f1(1)] by simp_all
  have "points_inside s ''PYTHONNOUSERSITE=1''" by (simp add: points_inside_def fixed_settings_def)
  then show ?thesis using w f2 i by (cases b) (auto simp: pyEnv_def extra_ok_def Let_def)
qed

lemma goEnv_ok:
  assumes r: "rooted s t" and d: "dir_path s"
  shows "extra_ok s t (goEnv io s t)"
proof -
  let ?ds = "[Join [s, ''go-build''], Join [s, ''go''], Join [s, ''go-tmp'']]" and ?env = "Join [s, ''go-env'']"
  have i: "\<forall>d \<in> set ?ds. inside s d" "inside s ?env" using inside_Join [OF inside_self [OF d]] by simp_all
  obtain t1 b where m: "mkdirs io ?ds t = (t1, b)" by fastforce
  have f1: "framed s t t1" "rooted s t1" using mkdirs_framed [OF m r i(1)] by simp_all
  let ?t2 = "fst (WriteFile (x_write_fails io) ?env goEnvFile t1)"
  have "framed s t ?t2" "rooted s ?t2" using WriteFile_fst_framed [OF f1(2) i(2)] framed_trans [OF f1(1)] by simp_all
  then show ?thesis using m f1 i by (cases b) (auto simp: goEnv_def extra_ok_def Let_def)
qed

lemma csEnv_ok:
  assumes r: "rooted s t" and d: "dir_path s"
  shows "extra_ok s t (csEnv io s t)"
proof -
  let ?ds = "[Join [s, ''dotnet''], Join [s, ''nuget''], Join [s, ''nuget-http''], Join [s, ''nuget-plugins'']]"
    and ?cfg = "Join [s, ''nuget.config'']"
  have i: "\<forall>d \<in> set ?ds. inside s d" "inside s ?cfg" using inside_Join [OF inside_self [OF d]] by simp_all
  obtain t1 b where m: "mkdirs io ?ds t = (t1, b)" by fastforce
  have f1: "framed s t t1" "rooted s t1" using mkdirs_framed [OF m r i(1)] by simp_all
  show ?thesis
  proof (cases b)
    case True
    obtain t2 c where w: "WriteFile (x_write_fails io) ?cfg nugetConfig t1 = (t2, c)" by fastforce
    have f2: "framed s t t2" "rooted s t2" using WriteFile_framed [OF w f1(2) i(2)] framed_trans [OF f1(1)] by simp_all
    obtain t3 x where h: "homeIsolationEnv io s t2 = (t3, x)" by fastforce
    have "extra_ok s t2 (t3, x)" using homeIsolationEnv_ok [OF f2(2) d, of io] h by simp
    note f3 = extra_ok_after [OF f2(1) this]
    have fixed: "points_inside s ''DOTNET_CLI_DO_NOT_USE_MSBUILD_SERVER=1''" "points_inside s ''MSBUILDDISABLENODEREUSE=1''"
        "points_inside s ''UseSharedCompilation=false''"
      by (simp_all add: points_inside_def fixed_settings_def)
    show ?thesis
    proof (cases c)
      case True
      show ?thesis
      proof (cases x)
        case (Inl e)
        with m w h \<open>b\<close> \<open>c\<close> f3 show ?thesis by (simp add: csEnv_def extra_ok_def Let_def)
      next
        case (Inr es)
        have "points_inside s e" if "e \<in> set (es
              @ [env_entry ''DOTNET_CLI_HOME'' (Join [s, ''dotnet'']), env_entry ''NUGET_PACKAGES'' (Join [s, ''nuget'']),
                 env_entry ''NUGET_HTTP_CACHE_PATH'' (Join [s, ''nuget-http'']),
                 env_entry ''NUGET_PLUGINS_CACHE_PATH'' (Join [s, ''nuget-plugins''])]
              @ dotnetFirstRunEnv @ [''DOTNET_CLI_DO_NOT_USE_MSBUILD_SERVER=1'', ''MSBUILDDISABLENODEREUSE=1'',
                 ''UseSharedCompilation=false''])" for e
          using that f3(3) [OF Inr] i(1) fixed points_fixed [of e s] unfolding set_append Un_iff by (elim disjE) auto
        moreover have "csEnv io s t = (t3, Inr (es
              @ [env_entry ''DOTNET_CLI_HOME'' (Join [s, ''dotnet'']), env_entry ''NUGET_PACKAGES'' (Join [s, ''nuget'']),
                 env_entry ''NUGET_HTTP_CACHE_PATH'' (Join [s, ''nuget-http'']),
                 env_entry ''NUGET_PLUGINS_CACHE_PATH'' (Join [s, ''nuget-plugins''])]
              @ dotnetFirstRunEnv @ [''DOTNET_CLI_DO_NOT_USE_MSBUILD_SERVER=1'', ''MSBUILDDISABLENODEREUSE=1'',
                 ''UseSharedCompilation=false'']))"
          using m w h \<open>b\<close> \<open>c\<close> Inr unfolding csEnv_def Let_def by simp
        ultimately show ?thesis using f3(1,2) unfolding extra_ok_def by (simp only: fst_conv snd_conv sum.inject) blast
      qed
    qed (use m w \<open>b\<close> f2 in \<open>simp add: csEnv_def extra_ok_def Let_def\<close>)
  qed (use m f1 in \<open>simp add: csEnv_def extra_ok_def Let_def\<close>)
qed

lemma home_entry:
  "snd (homeIsolationEnv io s t) = Inr es \<Longrightarrow> env_entry ''HOME'' (Join [s, ''home'']) \<in> set es"
  by (auto simp: homeIsolationEnv_def Let_def split: prod.splits bool.splits)

lemma home_entries:
  "snd (shellEnv io s t) = Inr es \<Longrightarrow> env_entry ''HOME'' (Join [s, ''home'']) \<in> set es"
  "snd (jsEnv io s t) = Inr es \<Longrightarrow> env_entry ''HOME'' (Join [s, ''home'']) \<in> set es"
  "snd (csEnv io s t) = Inr es \<Longrightarrow> env_entry ''HOME'' (Join [s, ''home'']) \<in> set es"
proof -
  have h: "env_entry ''HOME'' (Join [s, ''home'']) \<in> set hs" if "homeIsolationEnv io s u = (u', Inr hs)" for u u' hs
    using home_entry [of io s u hs] that by simp
  show "snd (shellEnv io s t) = Inr es \<Longrightarrow> env_entry ''HOME'' (Join [s, ''home'']) \<in> set es"
    using h by (auto simp: shellEnv_def split: prod.splits sum.splits)
  show "snd (jsEnv io s t) = Inr es \<Longrightarrow> env_entry ''HOME'' (Join [s, ''home'']) \<in> set es"
    using h by (auto simp: jsEnv_def Let_def split: prod.splits sum.splits)
  show "snd (csEnv io s t) = Inr es \<Longrightarrow> env_entry ''HOME'' (Join [s, ''home'']) \<in> set es"
    using h by (auto simp: csEnv_def Let_def split: prod.splits bool.splits sum.splits)
qed

lemma table_runner:
  assumes "table lang = Some r"
  obtains f where "rn_extra r = Some f" and "\<And>io s t. rooted s t \<Longrightarrow> dir_path s \<Longrightarrow> extra_ok s t (f io s t)"
    and "normal_comp (rn_file r)" and "\<not> suffix ''.ps1'' (rn_file r)"
    and "\<And>io s t es. lang \<notin> {''python'', ''go''} \<Longrightarrow> snd (f io s t) = Inr es \<Longrightarrow> env_entry ''HOME'' (Join [s, ''home'']) \<in> set es"
  using assms shellEnv_ok jsEnv_ok pyEnv_ok goEnv_ok csEnv_ok home_entries
  by (auto simp: table_def normal_comp_def suffix_def split: if_splits)

section \<open>Scratch directories\<close>

text \<open>Above a file there are only directories.\<close>

definition tree_ok :: "tree \<Rightarrow> bool" where
  "tree_ok t \<longleftrightarrow> (\<forall>p q. p \<noteq> [] \<and> under p q \<and> p \<noteq> q \<and> t q \<noteq> None \<longrightarrow> t p = Some DirNode)"

lemma mkdir_each_effect:
  "mkdir_each fails qs t = (t', b) \<Longrightarrow> (\<forall>p. p \<notin> set qs \<longrightarrow> t' p = t p) \<and> (b \<longrightarrow> (\<forall>q \<in> set qs. t' q = Some DirNode))
     \<and> (\<forall>p. t p = Some DirNode \<longrightarrow> t' p = Some DirNode)"
proof (induction qs arbitrary: t)
  case (Cons q qs)
  show ?case
  proof (cases "t q")
    case None
    show ?thesis
    proof (cases "fails q")
      case False
      with Cons.prems None have "mkdir_each fails qs (t(q \<mapsto> DirNode)) = (t', b)" by simp
      from Cons.IH [OF this] show ?thesis by (metis fun_upd_apply list.set_intros(1,2) set_ConsD)
    qed (use Cons.prems None in auto)
  next
    case (Some n)
    show ?thesis
    proof (cases n)
      case DirNode
      with Cons.prems Some have "mkdir_each fails qs t = (t', b)" by simp
      from Cons.IH [OF this] Some DirNode show ?thesis by auto
    qed (use Cons.prems Some in auto)
  qed
qed simp

lemma MkdirAll_effect:
  assumes "MkdirAll fails p t = (t', b)"
  shows "\<And>q. \<not> under q p \<Longrightarrow> t' q = t q" and "b \<Longrightarrow> q \<noteq> [] \<Longrightarrow> under q p \<Longrightarrow> t' q = Some DirNode"
  using mkdir_each_effect [OF assms [unfolded MkdirAll_def]] by (auto simp: ancestors_set)

lemma MkdirTemp_Some:
  "MkdirTemp fails parent ns t = Some (t', p) \<Longrightarrow>
     \<exists>n \<in> set ns. p = Join [parent, scratchPrefix @ n] \<and> t p = None \<and> t' = t(p \<mapsto> DirNode)"
  by (induction ns) (auto simp: Let_def split: if_splits)

text \<open>The names are digits, so they make a component.\<close>

definition good_names :: "bytes list \<Rightarrow> bool" where
  "good_names ns \<longleftrightarrow> (\<forall>n \<in> set ns. slash \<notin> set n)"

lemma under_child:
  assumes "cs \<noteq> []" and "slash \<notin> set n" and "under q (abs_path (cs @ [n]))"
  shows "q = abs_path (cs @ [n]) \<or> under q (abs_path cs)"
proof -
  have eq: "abs_path (cs @ [n]) = abs_path cs @ slash # n" using assms(1) by (simp add: abs_path_def join_two)
  show ?thesis
  proof (rule ccontr)
    assume "\<not> ?thesis"
    then have q: "prefix (q @ [slash]) (abs_path cs @ slash # n)" "\<not> under q (abs_path cs)"
      using assms(3) by (auto simp: under_def eq)
    then obtain u where u: "abs_path cs @ slash # n = q @ slash # u" by (auto simp: prefix_def)
    then consider v where "q = abs_path cs @ slash # v" "n = v @ slash # u" | v where "abs_path cs = q @ v" "v @ slash # n = slash # u"
      by (auto simp: append_eq_append_conv2 append_eq_Cons_conv Cons_eq_append_conv)
    then show False
    proof cases
      case 2
      then have "under q (abs_path cs)" by (cases v) (auto simp: under_def prefix_def)
      with q(2) show False by simp
    qed (use assms(2) in auto)
  qed
qed

lemma NewScratch_Inr:
  assumes new: "NewScratch fails names parent t = (t', Inr s)" and ok: "tree_ok t"
    and parent: "dir_path parent" and names: "good_names names"
  obtains t1 where "MkdirAll fails parent t = (t1, True)" and "t' = t1(s \<mapsto> DirNode)" and "dir_path s"
    and "rooted s t'" and "\<And>p. under s p \<Longrightarrow> t p = None \<and> t1 p = None" and "under parent s"
proof -
  obtain t1 where m: "MkdirAll fails parent t = (t1, True)"
    using new by (auto simp: NewScratch_def split: prod.splits bool.splits)
  then obtain n where n: "n \<in> set names" "s = Join [parent, scratchPrefix @ n]" "t1 s = None" "t' = t1(s \<mapsto> DirNode)"
    using new MkdirTemp_Some by (fastforce simp: NewScratch_def split: option.splits)
  obtain cs where cs: "cs \<noteq> []" "list_all normal_comp cs" "parent = abs_path cs" using parent by (auto simp: dir_path_def)
  let ?c = "scratchPrefix @ n"
  have c: "normal_comp ?c" using names n(1) by (auto simp: good_names_def normal_comp_def scratchPrefix_def)
  have s: "s = abs_path (cs @ [?c])" using Join_abs_path [of cs "[?c]"] cs c n(2) by simp
  have child: "q = s \<or> under q parent" if "under q s" for q
    using under_child [of cs ?c q] that cs(1,3) c s by (auto simp: normal_comp_def)
  have up: "under parent s" using under_abs_path cs(1,3) s by simp
  have "parent \<noteq> s" using cs(1,3) by (simp add: s abs_path_def join_two)
  then have away: "\<not> under p parent" if "under s p" for p
    using that up by (auto simp: under_def dest!: prefix_length_le)
  have d: "dir_path s" 
    using cs c s unfolding dir_path_def by (intro exI [of _ "cs @ [?c]"]) simp
  have root: "rooted s t'"
    unfolding rooted_def
  proof (intro allI impI)
    fix q assume q: "q \<noteq> [] \<and> under q s"
    show "t' q = Some DirNode"
      using child [of q] q MkdirAll_effect(2) [OF m, of q] n(4) by (cases "q = s") auto
  qed
  have empty: "t p = None \<and> t1 p = None" if "under s p" for p
  proof -
    have same: "t1 p = t p" "t1 s = t s" using MkdirAll_effect(1) [OF m] away that by simp_all
    have "t p = None"
    proof (rule ccontr)
      assume "t p \<noteq> None"
      then have "p = s \<or> t s = Some DirNode"
        using ok dir_path_not_Nil [OF d] that unfolding tree_ok_def by metis
      with \<open>t p \<noteq> None\<close> same n(3) show False by auto
    qed
    with same show ?thesis by simp
  qed
  show thesis by (rule that [OF m n(4) d root empty up])
qed

section \<open>The run\<close>

text \<open>What the launcher's rules promise: a child changes nothing outside its directory.\<close>

definition confined_child :: "os_io \<Rightarrow> bool" where
  "confined_child io \<longleftrightarrow> (\<forall>s t p. \<not> under (sp_dir s) p \<longrightarrow> snd (x_child io s t) p = t p)"

lemma sandbox_Run_tree:
  assumes "sandbox_Run ctx child s t = (t', r)"
  shows "t' = t \<or> t' = snd (child (s\<lparr>sp_argv := wrapArgv (sp_dir s) (sp_argv s) (sp_self s)\<rparr>) t)"
  using assms by (auto simp: sandbox_Run_def split: option.splits if_splits prod.splits proc_end.splits)

lemma in_scratch_outside:
  assumes r: "rooted s t" and d: "dir_path s" and ex: "table lang = Some r'" and child: "confined_child io"
    and run: "in_scratch io selfExe req r' bin version s t = (t', res)"
  shows "\<forall>p. \<not> under s p \<longrightarrow> t' p = t p"
proof -
  obtain f where f: "rn_extra r' = Some f" "\<And>io s t. rooted s t \<Longrightarrow> dir_path s \<Longrightarrow> extra_ok s t (f io s t)"
      and named: "normal_comp (rn_file r')"
    using table_runner [OF ex] by metis
  have tmp: "inside s (Join [s, ''tmp''])" using inside_Join [OF inside_self [OF d]] by simp
  let ?t1 = "fst (tmpEnv io s t)"
  have f1: "framed s t ?t1" "rooted s ?t1" using MkdirAll_fst_framed [OF r tmp] by (simp_all add: tmpEnv_def Let_def)
  obtain t2 x where e: "f io s ?t1 = (t2, x)" by fastforce
  note f2 = extra_ok_after [OF f1(1) f(2) [OF f1(2) d, of io, unfolded e]]
  show ?thesis
  proof (cases x)
    case (Inl err)
    with run f(1) e f2(1) show ?thesis by (auto simp: in_scratch_def framed_def Let_def)
  next
    case (Inr extra)
    let ?file = "Join [s, rn_file r']" and ?side = "Join [s, ctrNativeExitFile]"
    obtain t3 b where w: "WriteFile (x_write_fails io) ?file (snippetContent (rn_file r') (rq_code req) ?side) t2 = (t3, b)"
      by fastforce
    have "inside s ?file" using inside_Join [OF inside_self [OF d]] named by simp
    then have f3: "framed s t t3" using WriteFile_framed [OF w f2(2)] framed_trans [OF f2(1)] by blast
    show ?thesis
    proof (cases b)
      case False
      with run f(1) e Inr w f3 show ?thesis by (auto simp: in_scratch_def framed_def Let_def)
    next
      case True
      let ?spec = "exec_spec io selfExe req r' bin s extra"
      obtain t4 y where sr: "sandbox_Run (x_ctx_before io) (x_child io) ?spec t3 = (t4, y)" by fastforce
      have t': "t' = t4" using run f(1) e Inr w True sr by (cases y) (auto simp: in_scratch_def Let_def)
      have dir: "sp_dir ?spec = s" by (simp add: exec_spec_def)
      have "\<forall>p. \<not> under s p \<longrightarrow> t4 p = t3 p"
        using sandbox_Run_tree [OF sr] child unfolding confined_child_def dir by (metis dir spec.select_convs(2) spec.surjective spec.update_convs(1))
      with f3 t' show ?thesis by (simp add: framed_def)
    qed
  qed
qed

lemma detect_tree:
  assumes "table lang = Some r" and "rn_detect r io w = (w1, d)"
  shows "g_tree w1 = g_tree w"
  using assms
  by (auto simp: table_def look_one_def detectTS_def detectCS_def split: if_splits option.splits prod.splits)


section \<open>What the child gets and what comes back\<close>

text \<open>A variable set after the inherited ones, and only to paths inside the directory.\<close>

lemma env_value_inside:
  assumes "e0 \<in> set rest" and "prefix (k @ ''='') e0"
    and "\<And>e. e \<in> set rest \<Longrightarrow> prefix (k @ ''='') e \<Longrightarrow> \<exists>v. e = env_entry k v \<and> inside s v"
  shows "\<exists>v. env_value (base @ rest) k = Some v \<and> inside s v"
proof -
  let ?f = "filter (prefix (k @ ''=''))"
  have "e0 \<in> set (?f (rev rest))" using assms(1,2) by simp
  then obtain e es where f: "?f (rev rest) = e # es" by (cases "?f (rev rest)") auto
  then have "e \<in> set (?f (rev rest))" by simp
  with assms(3) obtain v where "e = env_entry k v" "inside s v" by auto
  with f show ?thesis by (auto simp: env_value_def env_entry_def)
qed

lemma points_key:
  assumes "points_inside s e" and "prefix (k @ ''='') e" and "CHR ''='' \<notin> set k" and "k \<in> {''HOME'', ''TMPDIR''}"
  shows "\<exists>v. e = env_entry k v \<and> inside s v"
proof -
  have "e \<notin> fixed_settings" using assms(2,4) by (auto simp: fixed_settings_def dotnetFirstRunEnv_def)
  with assms(1) obtain k' v where e: "e = env_entry k' v" "CHR ''='' \<notin> set k'" "inside s v" by (auto simp: points_inside_def)
  from assms(2) e(1) obtain u where "k' @ CHR ''='' # v = k @ CHR ''='' # u" by (auto simp: env_entry_def prefix_def)
  then have "k' = k" using e(2) assms(3) by (auto simp: append_eq_append_conv2 append_eq_Cons_conv Cons_eq_append_conv)
  with e show ?thesis by blast
qed

definition confined_env :: "os_io \<Rightarrow> exec_request \<Rightarrow> spec \<Rightarrow> bool" where
  "confined_env io req s \<longleftrightarrow> dir_path (sp_dir s) \<and> 0 < sp_timeout s \<and> sp_timeout s \<le> 1800000 * 1000000
     \<and> (\<forall>e \<in> set (sp_env s). (\<exists>k v. e = env_entry k v \<and> k \<in> set baseKeys \<and> x_getenv io k = Some v)
          \<or> points_inside (sp_dir s) e
          \<or> e = env_entry ''CTR_FILE'' (rq_file req) \<or> e = env_entry ''CTR_WORKTREE'' (rq_worktree req))
     \<and> (\<exists>v. env_value (sp_env s) ''TMPDIR'' = Some v \<and> inside (sp_dir s) v)
     \<and> (rq_language req \<notin> {''python'', ''go''} \<longrightarrow> (\<exists>v. env_value (sp_env s) ''HOME'' = Some v \<and> inside (sp_dir s) v))"

lemma BaseEnv_keys:
  "e \<in> set (BaseEnv getenv) \<Longrightarrow> \<exists>k v. e = env_entry k v \<and> k \<in> set baseKeys \<and> getenv k = Some v"
  unfolding BaseEnv_def by (auto split: option.splits) metis

lemma exec_spec_confined:
  assumes d: "dir_path s" and es: "\<And>e. e \<in> set es \<Longrightarrow> points_inside s e"
    and home: "rq_language req \<notin> {''python'', ''go''} \<Longrightarrow> env_entry ''HOME'' (Join [s, ''home'']) \<in> set es"
  shows "confined_env io req ((exec_spec io selfExe req r bin s es)\<lparr>sp_argv := argv\<rparr>)"
proof -
  define rest where "rest = [env_entry ''TMPDIR'' (Join [s, ''tmp''])] @ es
        @ (if rq_file req \<noteq> [] then [env_entry ''CTR_FILE'' (rq_file req)] else [])
        @ (if rq_worktree req \<noteq> [] then [env_entry ''CTR_WORKTREE'' (rq_worktree req)] else [])
        @ [env_entry ''CTR_SCRATCH'' s]"
  have env: "sp_env ((exec_spec io selfExe req r bin s es)\<lparr>sp_argv := argv\<rparr>) = BaseEnv (x_getenv io) @ rest"
    by (simp add: exec_spec_def rest_def)
  have "inside s (Join [s, ''tmp''])" using inside_Join [OF inside_self [OF d]] by simp
  then have pts: "points_inside s (env_entry ''TMPDIR'' (Join [s, ''tmp'']))" "points_inside s (env_entry ''CTR_SCRATCH'' s)"
    using inside_self [OF d] by auto
  have entry: "points_inside s e \<or> e = env_entry ''CTR_FILE'' (rq_file req) \<or> e = env_entry ''CTR_WORKTREE'' (rq_worktree req)"
    if "e \<in> set rest" for e
    using that pts es by (auto simp: rest_def split: if_splits)
  have key: "\<exists>v. env_value (BaseEnv (x_getenv io) @ rest) k = Some v \<and> inside s v"
    if "env_entry k v0 \<in> set rest" "k \<in> {''HOME'', ''TMPDIR''}" for k v0
  proof (rule env_value_inside [OF that(1)])
    show "prefix (k @ ''='') (env_entry k v0)" by (simp add: env_entry_def)
    fix e assume e: "e \<in> set rest" "prefix (k @ ''='') e"
    have "points_inside s e" using entry [OF e(1)] e(2) that(2) by (auto simp: env_entry_def)
    moreover have "CHR ''='' \<notin> set k" using that(2) by auto
    ultimately show "\<exists>v. e = env_entry k v \<and> inside s v" using points_key e(2) that(2) by blast
  qed
  have "\<exists>v. env_value (BaseEnv (x_getenv io) @ rest) ''TMPDIR'' = Some v \<and> inside s v"
    using key [of "''TMPDIR''" "Join [s, ''tmp'']"] by (simp add: rest_def)
  moreover have "\<exists>v. env_value (BaseEnv (x_getenv io) @ rest) ''HOME'' = Some v \<and> inside s v"
    if "rq_language req \<notin> {''python'', ''go''}"
    using key [of "''HOME''" "Join [s, ''home'']"] home [OF that] by (simp add: rest_def)
  moreover have "0 < clampTimeout (rq_timeout req)" "clampTimeout (rq_timeout req) \<le> 1800000 * 1000000"
    by (simp_all add: clampTimeout_def)
  ultimately show ?thesis
    using d entry BaseEnv_keys unfolding confined_env_def env by (auto simp: exec_spec_def)
qed

text \<open>The response to a run without a note of PowerShell.\<close>

definition response_of :: "os_io \<Rightarrow> proc \<Rightarrow> response \<Rightarrow> bool" where
  "response_of io p resp \<longleftrightarrow> rs_out resp = take 32768 (concat (pc_out p)) \<and> rs_err resp = take 8192 (concat (pc_err p))
     \<and> (rs_out_trunc resp \<longleftrightarrow> 32768 < length (concat (pc_out p))) \<and> (rs_err_trunc resp \<longleftrightarrow> 8192 < length (concat (pc_err p)))
     \<and> (rs_timed_out resp \<longleftrightarrow> pc_end p = TimerFired \<or> x_ctx_after io = Some CtxDeadline)
     \<and> rs_exit resp = (if rs_timed_out resp then None else Some (case pc_end p of Exited status code \<Rightarrow> code | _ \<Rightarrow> -1))"

lemma sandbox_Run_Inr:
  assumes "sandbox_Run None child s t = (t', Inr res)"
  obtains p where "p = fst (child (s\<lparr>sp_argv := wrapArgv (sp_dir s) (sp_argv s) (sp_self s)\<rparr>) t)"
    and "res = result_of s p (case pc_end p of Exited status code \<Rightarrow> code | _ \<Rightarrow> -1) (pc_end p = TimerFired)"
proof -
  obtain p t2 where c: "child (s\<lparr>sp_argv := wrapArgv (sp_dir s) (sp_argv s) (sp_self s)\<rparr>) t = (p, t2)" by fastforce
  with assms have "res = result_of s p (case pc_end p of Exited status code \<Rightarrow> code | _ \<Rightarrow> -1) (pc_end p = TimerFired)"
    by (cases "pc_end p") (auto simp: sandbox_Run_def split: if_splits)
  with that c show thesis by simp
qed

lemma exec_response_of:
  assumes "exec_response io r bin version s (result_of sp p code timed_out) t = Inr resp"
    and "\<not> suffix ''.ps1'' (rn_file r)" and "sp_out_cap sp = stdoutCap" and "sp_err_cap sp = stderrCap"
    and "code = (case pc_end p of Exited status c \<Rightarrow> c | _ \<Rightarrow> -1)" and "timed_out \<longleftrightarrow> pc_end p = TimerFired"
  shows "response_of io p resp"
proof -
  have "stdoutCap = 32768" "stderrCap = 8192" by (simp_all add: stdoutCap_def stderrCap_def)
  with assms captured_spec [of stdoutCap "pc_out p"] captured_spec [of stderrCap "pc_err p"] show ?thesis
    by (auto simp: exec_response_def result_of_def response_of_def Let_def split: if_splits)
qed


section \<open>PowerShell\<close>

text \<open>What may stand before the first token: a blank, a block comment, a comment to the end of its line.\<close>

inductive skips :: "bytes \<Rightarrow> bytes \<Rightarrow> bool" where
  skip_blank: "s \<noteq> [] \<Longrightarrow> unicode_space (fst (decode_rune s)) \<Longrightarrow> skips s (drop (snd (decode_rune s)) s)"
| skip_block: "index_of ''#>'' s = Some j \<Longrightarrow> skips (''<#'' @ s) (drop (j + 2) s)"
| skip_line: "index_any {CHR 0x0D, CHR 0x0A} s = Some j \<Longrightarrow> skips (CHR ''#'' # s) (drop (j + 1) s)"

inductive_cases skips_NilE: "skips [] r"

lemma trim_left_skips: "skips\<^sup>*\<^sup>* s (trim_left s)"
proof (induction s rule: trim_left.induct)
  case (1 s)
  show ?case
  proof (cases "s \<noteq> [] \<and> unicode_space (fst (decode_rune s))")
    case True
    then have "skips s (drop (snd (decode_rune s)) s)" by (intro skip_blank) simp_all
    with 1 True show ?thesis by (subst trim_left.simps) (simp add: converse_rtranclp_into_rtranclp)
  qed (subst trim_left.simps, auto)
qed

lemma trim_left_start: "trim_left s = [] \<or> \<not> unicode_space (fst (decode_rune (trim_left s)))"
proof (induction s rule: trim_left.induct)
  case (1 s)
  then show ?case by (subst (1 2) trim_left.simps) auto
qed

text \<open>The loop stops at the first token, where blanks and comments end.\<close>

lemma promotes_loop_skips: "\<not> promotes_loop s \<Longrightarrow> \<exists>r. skips\<^sup>*\<^sup>* s r \<and> \<not> promotesFirstToken r"
proof (induction s rule: promotes_loop.induct)
  case (1 s0)
  define s where "s = trim_left s0"
  have start: "skips\<^sup>*\<^sup>* s0 s" unfolding s_def by (rule trim_left_skips)
  consider (block) j where "prefix ''<#'' s" "index_of ''#>'' (drop 2 s) = Some j" "\<not> promotes_loop (drop (2 + j + 2) s)"
    | (line) j where "\<not> prefix ''<#'' s" "prefix ''#'' s" "index_any {CHR 0x0D, CHR 0x0A} s = Some j" "\<not> promotes_loop (drop (j + 1) s)"
    | (token) "\<not> promotesFirstToken s"
    using 1(3) by (subst (asm) promotes_loop.simps) (auto simp: s_def Let_def split: if_splits option.splits)
  then show ?case
  proof cases
    case block
    obtain u where u: "s = ''<#'' @ u" using block(1) by (auto simp: prefix_def)
    have "skips s (drop (2 + j + 2) s)" using skip_block [of u j] block(2) by (simp add: u)
    moreover obtain r where "skips\<^sup>*\<^sup>* (drop (2 + j + 2) s) r" "\<not> promotesFirstToken r"
      using 1(1) [OF s_def block] by blast
    ultimately show ?thesis using start by (meson rtranclp.rtrancl_into_rtrancl rtranclp_trans)
  next
    case line
    obtain u where u: "s = CHR ''#'' # u" using line(2) by (auto simp: prefix_def)
    obtain i where i: "index_any {CHR 0x0D, CHR 0x0A} u = Some i" "j = Suc i" using line(3) by (auto simp: u)
    have "skips s (drop (j + 1) s)" using skip_line [OF i(1)] by (simp add: u i(2))
    moreover obtain r where "skips\<^sup>*\<^sup>* (drop (j + 1) s) r" "\<not> promotesFirstToken r"
      using 1(2) [OF s_def line] by blast
    ultimately show ?thesis using start by (meson rtranclp.rtrancl_into_rtrancl rtranclp_trans)
  qed (use start in blast)
qed

lemma trim_left_fix: "s = [] \<or> \<not> unicode_space (fst (decode_rune s)) \<Longrightarrow> trim_left s = s"
  by (subst trim_left.simps) auto

lemma trim_left_ascii: "byte c < (128::nat) \<Longrightarrow> \<not> unicode_space (byte c) \<Longrightarrow> trim_left (c # s) = c # s"
  by (rule trim_left_fix) simp

lemma skips_promotes: "skips s r \<Longrightarrow> promotes_loop s = promotes_loop r"
proof (induction rule: skips.induct)
  case (skip_blank s)
  then have "trim_left s = trim_left (drop (snd (decode_rune s)) s)" by (subst trim_left.simps) simp
  then show ?case by (simp add: promotes_loop.simps [of s] promotes_loop.simps [of "drop (snd (decode_rune s)) s"])
next
  case (skip_block s j)
  have "trim_left (''<#'' @ s) = ''<#'' @ s" using trim_left_ascii by (simp add: unicode_space_def)
  with skip_block show ?case by (simp add: promotes_loop.simps [of "''<#'' @ s"] promotes_loop.simps [of "CHR ''<'' # CHR ''#'' # s"])
next
  case (skip_line s j)
  have "trim_left (CHR ''#'' # s) = CHR ''#'' # s" using trim_left_ascii by (simp add: unicode_space_def)
  with skip_line show ?case by (simp add: promotes_loop.simps [of "CHR ''#'' # s"])
qed

lemma steps_promotes: "skips\<^sup>*\<^sup>* s r \<Longrightarrow> promotes_loop s = promotes_loop r"
  by (induction rule: rtranclp_induct) (simp_all add: skips_promotes)

text \<open>A declaration starts with a bracket, a backquote, or one of seven words.\<close>

definition word_char :: "char \<Rightarrow> bool" where
  "word_char c \<longleftrightarrow> is_alpha c \<or> c = CHR ''_'' \<or> is_digit c"

definition starts_declaration :: "bytes \<Rightarrow> bool" where
  "starts_declaration r \<longleftrightarrow> (\<exists>u. r = CHR ''['' # u \<or> r = CHR 0x60 # u)
     \<or> (\<exists>w u. r = w @ u \<and> (u = [] \<or> \<not> word_char (hd u))
          \<and> ascii_lower w \<in> {''param'', ''using'', ''dynamicparam'', ''begin'', ''process'', ''end'', ''clean''})"

lemma ascii_lower_alpha: "\<forall>c \<in> set (ascii_lower w). is_lower c \<Longrightarrow> \<forall>c \<in> set w. is_alpha c"
  by (auto simp: ascii_lower_def)

definition declaration_words :: "bytes set" where
  "declaration_words = {''param'', ''using'', ''dynamicparam'', ''begin'', ''process'', ''end'', ''clean''}"

lemma first_token_word:
  assumes "c \<notin> {CHR ''['', CHR 0x60}"
  shows "\<not> promotesFirstToken (c # u) \<longleftrightarrow>
    (is_alpha c \<or> c = CHR ''_'') \<and> ascii_lower (takeWhile word_char (c # u)) \<in> declaration_words"
proof -
  have eq: "(\<lambda>c. is_alpha c \<or> c = CHR ''_'' \<or> is_digit c) = word_char" by (simp add: word_char_def fun_eq_iff)
  have nil: "ascii_lower [] \<notin> declaration_words" by (simp add: declaration_words_def ascii_lower_def)
  have "promotesFirstToken (c # u) \<longleftrightarrow>
      ascii_lower (if is_alpha c \<or> c = CHR ''_'' then takeWhile word_char (c # u) else []) \<notin> declaration_words"
    using assms unfolding promotesFirstToken_def eq Let_def declaration_words_def [symmetric]
    by (simp del: takeWhile.simps)
  with nil show ?thesis by (cases "is_alpha c \<or> c = CHR ''_''") (simp_all del: takeWhile.simps)
qed

lemma declaration_words_lower: "w \<in> declaration_words \<Longrightarrow> \<forall>c \<in> set w. is_lower c" and
  declaration_words_not_Nil: "[] \<notin> declaration_words"
  by (auto simp: declaration_words_def is_lower_def)

lemma starts_declaration_alt:
  "starts_declaration r \<longleftrightarrow> (\<exists>u. r = CHR ''['' # u \<or> r = CHR 0x60 # u)
     \<or> (\<exists>w u. r = w @ u \<and> (u = [] \<or> \<not> word_char (hd u)) \<and> ascii_lower w \<in> declaration_words)"
  by (simp only: starts_declaration_def declaration_words_def)

lemma first_token_declaration: "\<not> promotesFirstToken r \<longleftrightarrow> starts_declaration r"
proof (cases r)
  case Nil
  then show ?thesis
    using declaration_words_not_Nil by (simp add: promotesFirstToken_def starts_declaration_alt ascii_lower_def)
next
  case r: (Cons c u)
  show ?thesis
  proof (cases "c \<in> {CHR ''['', CHR 0x60}")
    case True
    then show ?thesis by (auto simp: promotesFirstToken_def starts_declaration_alt r)
  next
    case False
    let ?w = "takeWhile word_char r"
    have "starts_declaration r \<longleftrightarrow> (is_alpha c \<or> c = CHR ''_'') \<and> ascii_lower ?w \<in> declaration_words"
    proof
      assume "starts_declaration r"
      then obtain w v where w: "r = w @ v" "v = [] \<or> \<not> word_char (hd v)" "ascii_lower w \<in> declaration_words"
        using False r unfolding starts_declaration_alt by auto
      have alpha: "\<forall>c \<in> set w. is_alpha c" using ascii_lower_alpha declaration_words_lower [OF w(3)] .
      have "takeWhile word_char (w @ v) = w" using alpha w(2) by (cases v) (auto simp: takeWhile_append word_char_def)
      moreover have "w \<noteq> []" using w(3) declaration_words_not_Nil by (auto simp: ascii_lower_def)
      then have "is_alpha c" using alpha w(1) r by (cases w) auto
      ultimately show "(is_alpha c \<or> c = CHR ''_'') \<and> ascii_lower ?w \<in> declaration_words" using w(1,3) by simp
    next
      assume "(is_alpha c \<or> c = CHR ''_'') \<and> ascii_lower ?w \<in> declaration_words"
      moreover have "dropWhile word_char r = [] \<or> \<not> word_char (hd (dropWhile word_char r))" using hd_dropWhile by blast
      moreover have "r = ?w @ dropWhile word_char r" by simp
      ultimately show "starts_declaration r" unfolding starts_declaration_alt by blast
    qed
    with first_token_word [OF False, of u] show ?thesis by (simp only: r)
  qed
qed

lemma declaration_stops: "starts_declaration r \<Longrightarrow> \<not> promotes_loop r"
proof -
  assume d: "starts_declaration r"
  then have n: "\<not> promotesFirstToken r" using first_token_declaration by blast
  obtain c u where r: "r = c # u" using n by (cases r) (auto simp: promotesFirstToken_def)
  have "c \<in> {CHR ''['', CHR 0x60} \<or> is_alpha c \<or> c = CHR ''_''" using n first_token_word [of c u] r by blast
  then have "byte c < (128::nat)" "\<not> unicode_space (byte c)" "c \<noteq> CHR ''<''" "c \<noteq> CHR ''#''"
    by (auto simp: is_lower_def is_upper_def unicode_space_def)
  then have "trim_left r = r" "\<not> prefix ''<#'' r" "\<not> prefix ''#'' r" using trim_left_ascii by (auto simp: r)
  with n show ?thesis by (subst promotes_loop.simps) simp
qed


section \<open>Sweeping\<close>

text \<open>A sweep removes at most what lies in stale scratch directories.\<close>

lemma SweepStale_keeps:
  assumes "SweepStale stays parent is_dir ents now ttl t p \<noteq> t p"
  shows "\<exists>es e. ents = Some es \<and> e \<in> set es \<and> is_dir \<and> de_dir e \<and> prefix scratchPrefix (de_name e)
    \<and> (\<exists>m. de_mtime e = Some m \<and> m < now - ttl) \<and> under (Join [parent, de_name e]) p"
proof -
  obtain es where es: "ents = Some es" "is_dir" using assms by (auto simp: SweepStale_def split: if_splits option.splits)
  have "fold (\<lambda>e t. if stale_entry (now - ttl) e then RemoveAll stays (Join [parent, de_name e]) t else t) es t p \<noteq> t p
      \<Longrightarrow> \<exists>e \<in> set es. stale_entry (now - ttl) e \<and> under (Join [parent, de_name e]) p" for t
  proof (induction es arbitrary: t)
    case (Cons e es)
    show ?case
    proof (cases "stale_entry (now - ttl) e \<and> under (Join [parent, de_name e]) p")
      case False
      then have "(if stale_entry (now - ttl) e then RemoveAll stays (Join [parent, de_name e]) t else t) p = t p"
        by (simp add: RemoveAll_def)
      with Cons show ?thesis by fastforce
    qed auto
  qed simp
  with assms es show ?thesis
    unfolding SweepStale_def stale_entry_def by (fastforce split: option.splits)
qed

text \<open>The launcher started by \<open>wrapArgv\<close> turns into the wanted program, which may write in its directory only.\<close>

lemma launcher_runs_argv:
  assumes "runLauncher accepts best (drop 2 (wrapArgv scratch argv selfExe)) = Some (prog, rules)"
  shows "prog = argv \<and> (\<forall>r \<in> set rules. r \<in> {RWDirs scratch True, RWDirs scratch False, RODirs ''/'', RWFiles ''/dev/null''})"
  using assms
  by (auto simp: runLauncher_def wrapArgv_def applyLauncherRestriction_def Let_def split: if_splits option.splits)

section \<open>Witnesses\<close>

definition demo_proc :: proc where
  "demo_proc = \<lparr>pc_pipe = True, pc_start = True, pc_out = [''4'', ''2''], pc_err = [], pc_end = Exited False 0, pc_time = 3000000\<rparr>"

definition demo_os :: os_io where
  "demo_os = \<lparr>x_getenv = (\<lambda>k. None), x_look = (\<lambda>b. Some ''/b''), x_probe = (\<lambda>_ _. None), x_mkdir_fails = (\<lambda>_. False),
     x_write_fails = (\<lambda>_. False), x_names = [''7''], x_stays = (\<lambda>_. False), x_ctx_before = None, x_ctx_after = None,
     x_child = (\<lambda>s t. (demo_proc, t))\<rparr>"

definition demo_request :: exec_request where
  "demo_request = \<lparr>rq_language = ''python'', rq_code = ''print(42)'', rq_file = [], rq_worktree = [], rq_timeout = 0\<rparr>"

definition demo_world :: exec_world where
  "demo_world = \<lparr>g_node = None, g_dotnet = None, g_tree = Map.empty\<rparr>"

lemma demo_paths:
  "Join [''/c'', ''run-7''] = ''/c/run-7''" "Join [''/c/run-7'', ''tmp''] = ''/c/run-7/tmp''"
  "Join [''/c/run-7'', ''pycache''] = ''/c/run-7/pycache''" "Join [''/c/run-7'', ''pip.conf''] = ''/c/run-7/pip.conf''"
  "Join [''/c/run-7'', ''snippet.py''] = ''/c/run-7/snippet.py''"
  "Dir ''/c/run-7/pip.conf'' = ''/c/run-7''" "Dir ''/c/run-7/snippet.py'' = ''/c/run-7''"
  "ancestors ''/c'' = [''/c'']" "ancestors ''/c/run-7/tmp'' = [''/c'', ''/c/run-7'', ''/c/run-7/tmp'']"
  "ancestors ''/c/run-7/pycache'' = [''/c'', ''/c/run-7'', ''/c/run-7/pycache'']"
  "suffix ''.ps1'' ''snippet.py'' = False"
  by code_simp+

lemma demo_python: "table ''python'' = Some \<lparr>rn_file = ''snippet.py'', rn_detect = look_one [''python3'', ''python''],
    rn_argv = fileArgv, rn_extra = Some pyEnv\<rparr>"
  by (simp add: table_def)

lemma demo_scratch:
  "NewScratch (\<lambda>_. False) [''7''] ''/c'' Map.empty = ([''/c'' \<mapsto> DirNode, ''/c/run-7'' \<mapsto> DirNode], Inr ''/c/run-7'')"
  by (simp add: NewScratch_def MkdirAll_def demo_paths scratchPrefix_def Let_def)

lemma demo_exec_run:
  "\<exists>resp. snd (exec_Run demo_os ''/c'' ''/s'' demo_request demo_world) = Inr resp \<and> rs_out resp = ''42''"
  by (simp add: exec_Run_def demo_request_def demo_python run_runner_def look_one_def demo_os_def demo_world_def
      demo_scratch in_scratch_def tmpEnv_def MkdirAll_def WriteFile_def pyEnv_def demo_paths sandbox_Run_def exec_spec_def
      exec_response_def demo_proc_def result_of_def captured_def cw_Write_def stdoutCap_def stderrCap_def snippetContent_def Let_def)

lemma demo_exec_hyps:
  "tree_ok (g_tree demo_world)" "dir_path ''/c''" "good_names (x_names demo_os)" "confined_child demo_os"
  "\<forall>p. \<not> x_stays demo_os p" "x_ctx_before demo_os = None"
proof -
  show "dir_path ''/c''" unfolding dir_path_def by (intro exI [of _ "[''c'']"]) (simp add: abs_path_def normal_comp_def)
qed (simp_all add: tree_ok_def demo_world_def demo_os_def good_names_def confined_child_def)



end
