(* ===== verification/Mcp_Exec.thy ===== *)
theory Mcp_Exec
  imports Mcp Exec_Facts
begin

text \<open>
  The rest of \<open>internal/mcp/mcp.go\<close>: which tools a server registers and how the two entry tools advertise the others,
  and the tools \<open>ctr_execute\<close> and \<open>ctr_execute_file\<close> on the model of \<open>exec.Run\<close>.
\<close>

section \<open>Registration\<close>

text \<open>What \<open>NewServer\<close> looks at: the store, the switched-on groups, the session log, and the two probes.\<close>

record server_config =
  v_store :: bool
  v_enable :: "bytes list"
  v_session :: bool
  v_isolation :: bool
  v_sandbox :: bool

definition idxFetch :: bytes where
  "idxFetch = ''ctr_fetch(artifact '' @ [CHR 0xEC, CHR 0xA0, CHR 0x80, CHR 0xEC, CHR 0x9E, CHR 0xA5, CHR 0xEB, CHR 0xB3, CHR 0xB8, CHR 0xEC, CHR 0x9D, CHR 0x84] @ '' '' @ [CHR 0xEC, CHR 0x84, CHR 0xA0, CHR 0xED, CHR 0x83, CHR 0x9D, CHR 0xEC, CHR 0x9E, CHR 0x90, CHR 0xEB, CHR 0xA1, CHR 0x9C] @ '' '' @ [CHR 0xEC, CHR 0xA0, CHR 0x95, CHR 0xED, CHR 0x99, CHR 0x95, CHR 0xED, CHR 0x9E, CHR 0x88] @ '' '' @ [CHR 0xED, CHR 0x9A, CHR 0x8C, CHR 0xEC, CHR 0x88, CHR 0x98] @ '')''"

definition idxTransform :: bytes where
  "idxTransform = ''ctr_transform(artifact '' @ [CHR 0xED, CHR 0x85, CHR 0x8D, CHR 0xEC, CHR 0x8A, CHR 0xA4, CHR 0xED, CHR 0x8A, CHR 0xB8, CHR 0xEB, CHR 0xA5, CHR 0xBC] @ '' starlark '' @ [CHR 0xEC, CHR 0x8A, CHR 0xA4, CHR 0xED, CHR 0x81, CHR 0xAC, CHR 0xEB, CHR 0xA6, CHR 0xBD, CHR 0xED, CHR 0x8A, CHR 0xB8, CHR 0xEB, CHR 0xA1, CHR 0x9C] @ '' '' @ [CHR 0xEB, CHR 0xB3, CHR 0x80, CHR 0xED, CHR 0x99, CHR 0x98] @ '')''"

definition idxFetchAndIndex :: bytes where
  "idxFetchAndIndex = ''ctr_fetch_and_index(URL'' @ [CHR 0xEC, CHR 0x9D, CHR 0x84] @ '' '' @ [CHR 0xEA, CHR 0xB0, CHR 0x80, CHR 0xEC, CHR 0xA0, CHR 0xB8, CHR 0xEC, CHR 0x99, CHR 0x80] @ '' '' @ [CHR 0xEC, CHR 0x83, CHR 0x89, CHR 0xEC, CHR 0x9D, CHR 0xB8, CHR 0xEC, CHR 0x97, CHR 0x90] @ '' '' @ [CHR 0xEB, CHR 0x93, CHR 0xB1, CHR 0xEB, CHR 0xA1, CHR 0x9D] @ '')''"

definition idxRecordEvent :: bytes where
  "idxRecordEvent = ''ctr_record_event('' @ [CHR 0xEC, CHR 0x84, CHR 0xB8, CHR 0xEC, CHR 0x85, CHR 0x98] @ '' '' @ [CHR 0xEC, CHR 0x9D, CHR 0xB4, CHR 0xEB, CHR 0xB2, CHR 0xA4, CHR 0xED, CHR 0x8A, CHR 0xB8] @ '' 1'' @ [CHR 0xEA, CHR 0xB1, CHR 0xB4] @ '' '' @ [CHR 0xEA, CHR 0xB8, CHR 0xB0, CHR 0xEB, CHR 0xA1, CHR 0x9D] @ '')''"

definition idxSessionSummary :: bytes where
  "idxSessionSummary = ''ctr_session_summary('' @ [CHR 0xEC, CHR 0x84, CHR 0xB8, CHR 0xEC, CHR 0x85, CHR 0x98] @ '' '' @ [CHR 0xEC, CHR 0x9D, CHR 0xB4, CHR 0xEB, CHR 0xB2, CHR 0xA4, CHR 0xED, CHR 0x8A, CHR 0xB8, CHR 0xEB, CHR 0xA5, CHR 0xBC] @ '' '' @ [CHR 0xED, CHR 0x83, CHR 0x80, CHR 0xEC, CHR 0x9E, CHR 0x85, CHR 0xEB, CHR 0xB3, CHR 0x84, CHR 0xEB, CHR 0xA1, CHR 0x9C] @ '' '' @ [CHR 0xEA, CHR 0xB7, CHR 0xB8, CHR 0xEB, CHR 0xA3, CHR 0xB9, CHR 0xED, CHR 0x95, CHR 0x91, CHR 0xED, CHR 0x95, CHR 0xB4] @ '' '' @ [CHR 0xEC, CHR 0x9A, CHR 0x94, CHR 0xEC, CHR 0x95, CHR 0xBD] @ '')''"

definition idxExportEvents :: bytes where
  "idxExportEvents = ''ctr_export_events('' @ [CHR 0xEC, CHR 0x84, CHR 0xB8, CHR 0xEC, CHR 0x85, CHR 0x98] @ '' '' @ [CHR 0xEC, CHR 0x9D, CHR 0xB4, CHR 0xEB, CHR 0xB2, CHR 0xA4, CHR 0xED, CHR 0x8A, CHR 0xB8, CHR 0xEB, CHR 0xA5, CHR 0xBC] @ '' '' @ [CHR 0xED, CHR 0x8E, CHR 0x98, CHR 0xEC, CHR 0x9D, CHR 0xB4, CHR 0xEC, CHR 0xA7, CHR 0x80, CHR 0xEB, CHR 0x84, CHR 0xA4, CHR 0xEC, CHR 0x9D, CHR 0xB4, CHR 0xEC, CHR 0x85, CHR 0x98, CHR 0xEC, CHR 0x9C, CHR 0xBC, CHR 0xEB, CHR 0xA1, CHR 0x9C] @ '' '' @ [CHR 0xEB, CHR 0x82, CHR 0xB4, CHR 0xEB, CHR 0xB3, CHR 0xB4, CHR 0xEB, CHR 0x83, CHR 0x84] @ '')''"

definition idxExecute :: bytes where
  "idxExecute = ''ctr_execute('' @ [CHR 0xEC, CHR 0x83, CHR 0x8C, CHR 0xEB, CHR 0x93, CHR 0x9C, CHR 0xEB, CHR 0xB0, CHR 0x95, CHR 0xEC, CHR 0x8A, CHR 0xA4, CHR 0xEC, CHR 0x97, CHR 0x90, CHR 0xEC, CHR 0x84, CHR 0x9C] @ '' '' @ [CHR 0xEC, CHR 0xBD, CHR 0x94, CHR 0xEB, CHR 0x93, CHR 0x9C, CHR 0xEB, CHR 0xA5, CHR 0xBC] @ '' '' @ [CHR 0xEC, CHR 0x8B, CHR 0xA4, CHR 0xED, CHR 0x96, CHR 0x89, CHR 0xED, CHR 0x95, CHR 0xB4] @ '' stdout '' @ [CHR 0xEB, CHR 0xB0, CHR 0x98, CHR 0xED, CHR 0x99, CHR 0x98] @ '')''"

definition idxExecuteFile :: bytes where
  "idxExecuteFile = ''ctr_execute_file('' @ [CHR 0xED, CHR 0x8C, CHR 0x8C, CHR 0xEC, CHR 0x9D, CHR 0xBC] @ '' '' @ [CHR 0xEA, CHR 0xB2, CHR 0xBD, CHR 0xEB, CHR 0xA1, CHR 0x9C, CHR 0xEB, CHR 0xA5, CHR 0xBC] @ '' '' @ [CHR 0xEB, CHR 0x84, CHR 0x98, CHR 0xEA, CHR 0xB2, CHR 0xA8] @ '' '' @ [CHR 0xEC, CHR 0x83, CHR 0x8C, CHR 0xEB, CHR 0x93, CHR 0x9C, CHR 0xEB, CHR 0xB0, CHR 0x95, CHR 0xEC, CHR 0x8A, CHR 0xA4, CHR 0xEC, CHR 0x97, CHR 0x90, CHR 0xEC, CHR 0x84, CHR 0x9C] @ '' '' @ [CHR 0xEC, CHR 0x8B, CHR 0xA4, CHR 0xED, CHR 0x96, CHR 0x89] @ '')''"

definition deferredToolIndex :: "bytes list \<Rightarrow> bytes" where
  "deferredToolIndex entries = [CHR 0xEA, CHR 0xB7, CHR 0xB8] @ '' '' @ [CHR 0xEB, CHR 0xB0, CHR 0x96, CHR 0xEC, CHR 0x9D, CHR 0x98] @ '' '' @ [CHR 0xEB, CHR 0x8F, CHR 0x84, CHR 0xEA, CHR 0xB5, CHR 0xAC] @ ''('' @ [CHR 0xED, CHR 0x95, CHR 0x84, CHR 0xEC, CHR 0x9A, CHR 0x94] @ '' '' @ [CHR 0xEC, CHR 0x8B, CHR 0x9C] @ '' '' @ [CHR 0xEC, CHR 0xA7, CHR 0x80, CHR 0xEC, CHR 0x97, CHR 0xB0] @ '' '' @ [CHR 0xEB, CHR 0xA1, CHR 0x9C, CHR 0xEB, CHR 0x93, CHR 0x9C] @ ''): '' @ join '', '' entries @ ''.''"

text \<open>The tools in the order they are registered, and the entries of the index.\<close>

definition NewServer :: "server_config \<Rightarrow> (bytes list \<times> bytes list) option" where
  "NewServer cfg =
     (if \<not> v_store cfg then None
      else
        let a = ([''ctr_fetch''], [idxFetch]);
            b = (if v_isolation cfg then (fst a @ [''ctr_transform''], snd a @ [idxTransform]) else a);
            c = (if ''net'' \<in> set (v_enable cfg) then (fst b @ [''ctr_fetch_and_index''], snd b @ [idxFetchAndIndex]) else b);
            d = (if ''exec'' \<in> set (v_enable cfg) \<and> v_sandbox cfg
                 then (fst c @ [''ctr_execute'', ''ctr_execute_file''], snd c @ [idxExecute, idxExecuteFile]) else c);
            e = (if v_session cfg
                 then (fst d @ [''ctr_record_event'', ''ctr_session_summary'', ''ctr_export_events''],
                       snd d @ [idxRecordEvent, idxSessionSummary, idxExportEvents]) else d);
            tools = fst e @ [''ctr_search''] @ (if ''ingest'' \<in> set (v_enable cfg) then [''ctr_index''] else [])
        in Some (tools, snd e))"

definition NewGlobalServer :: "'p list \<Rightarrow> bytes list option" where
  "NewGlobalServer projects = (if projects = [] then None else Some [''ctr_global_search''])"

section \<open>Execution\<close>

record execute_input =
  xi_language :: bytes
  xi_code :: bytes
  xi_timeout :: int

text \<open>\<open>is_regular\<close> is the outcome of \<open>os.Stat\<close>.\<close>

definition validateExecPath :: "(bytes \<Rightarrow> bool) \<Rightarrow> bytes \<Rightarrow> go_error + bytes" where
  "validateExecPath is_regular p =
     (if \<not> IsAbs p then Inl ExecInvalidPath else if \<not> is_regular p then Inl ExecInvalidPath else Inr p)"

text \<open>\<open>late\<close> is the error of the context when the run is over; the answer is the response.\<close>

definition execute_tool ::
  "tool_io \<Rightarrow> os_io \<Rightarrow> go_error option \<Rightarrow> (response \<Rightarrow> int) \<Rightarrow> bytes \<Rightarrow> bytes \<Rightarrow> bytes \<Rightarrow> bytes \<Rightarrow> bytes \<Rightarrow> execute_input \<Rightarrow>
     mcp_world \<times> exec_world \<Rightarrow> (mcp_world \<times> exec_world) \<times> (tool_error + response)" where
  "execute_tool io os late len tool scratchRoot selfExe worktreeRoot file inp wx =
     (case exec_Run os scratchRoot selfExe
             \<lparr>rq_language = xi_language inp, rq_code = xi_code inp, rq_file = file, rq_worktree = worktreeRoot,
              rq_timeout = xi_timeout inp\<rparr> (snd wx) of
        (x', Inl e) \<Rightarrow> ((fst wx, x'), Inl (toToolError e))
      | (x', Inr resp) \<Rightarrow>
          (case late of
             Some e \<Rightarrow> ((fst wx, x'), Inl (Passed e))
           | None \<Rightarrow> ((LedgerAppend (t_cols io) (t_ok io) tool 0 (len resp) (fst wx), x'), Inr resp)))"

definition ctr_execute ::
  "tool_io \<Rightarrow> os_io \<Rightarrow> go_error option \<Rightarrow> (response \<Rightarrow> int) \<Rightarrow> bytes \<Rightarrow> bytes \<Rightarrow> bytes \<Rightarrow> execute_input \<Rightarrow>
     mcp_world \<times> exec_world \<Rightarrow> (mcp_world \<times> exec_world) \<times> (tool_error + response)" where
  "ctr_execute io os late len scratchRoot selfExe worktreeRoot inp wx =
     execute_tool io os late len ''ctr_execute'' scratchRoot selfExe worktreeRoot [] inp wx"

definition ctr_execute_file ::
  "tool_io \<Rightarrow> os_io \<Rightarrow> go_error option \<Rightarrow> (response \<Rightarrow> int) \<Rightarrow> (bytes \<Rightarrow> bool) \<Rightarrow> bytes \<Rightarrow> bytes \<Rightarrow> bytes \<Rightarrow> bytes \<Rightarrow> execute_input \<Rightarrow>
     mcp_world \<times> exec_world \<Rightarrow> (mcp_world \<times> exec_world) \<times> (tool_error + response)" where
  "ctr_execute_file io os late len is_regular scratchRoot selfExe worktreeRoot path inp wx =
     (case validateExecPath is_regular path of
        Inl e \<Rightarrow> (wx, Inl (toToolError e))
      | Inr p \<Rightarrow> execute_tool io os late len ''ctr_execute_file'' scratchRoot selfExe worktreeRoot p inp wx)"

section \<open>The index\<close>

text \<open>The name of the tool an entry of the index is about.\<close>

definition entry_name :: "bytes \<Rightarrow> bytes" where
  "entry_name e = takeWhile (\<lambda>c. c \<noteq> CHR ''('') e"

lemma entry_names [simp]:
  "entry_name idxFetch = ''ctr_fetch''" "entry_name idxTransform = ''ctr_transform''"
  "entry_name idxFetchAndIndex = ''ctr_fetch_and_index''" "entry_name idxRecordEvent = ''ctr_record_event''"
  "entry_name idxSessionSummary = ''ctr_session_summary''" "entry_name idxExportEvents = ''ctr_export_events''"
  "entry_name idxExecute = ''ctr_execute''" "entry_name idxExecuteFile = ''ctr_execute_file''"
  by (simp_all add: entry_name_def idxFetch_def idxTransform_def idxFetchAndIndex_def idxRecordEvent_def
      idxSessionSummary_def idxExportEvents_def idxExecute_def idxExecuteFile_def)

text \<open>The index in the descriptions of the two entry tools names every other tool the server has
  registered, once each and in their order, and no tool it has not registered; a tool that runs programs is
  registered only when it was switched on and its probe passed.\<close>

lemma index_names_registered_tools:
  assumes "NewServer cfg = Some (tools, entries)"
  shows "map entry_name entries = filter (\<lambda>t. t \<notin> {''ctr_search'', ''ctr_index''}) tools \<and> distinct tools
    \<and> ''ctr_search'' \<in> set tools \<and> entries \<noteq> []
    \<and> (''ctr_execute'' \<in> set tools \<longleftrightarrow> ''exec'' \<in> set (v_enable cfg) \<and> v_sandbox cfg)
    \<and> (''ctr_index'' \<in> set tools \<longleftrightarrow> ''ingest'' \<in> set (v_enable cfg))"
proof -
  define iso net ex ses ing where "iso = v_isolation cfg" and "net \<longleftrightarrow> ''net'' \<in> set (v_enable cfg)"
    and "ex \<longleftrightarrow> ''exec'' \<in> set (v_enable cfg) \<and> v_sandbox cfg" and "ses = v_session cfg" and "ing \<longleftrightarrow> ''ingest'' \<in> set (v_enable cfg)"
  note flags = iso_def [symmetric] net_def [symmetric] ex_def [symmetric] ses_def [symmetric] ing_def [symmetric]
  show ?thesis
    using assms unfolding NewServer_def flags
    by (cases iso; cases net; cases ex; cases ses; cases ing) (auto simp: Let_def split: if_splits)
qed

lemma index_names_registered_tools_witness:
  "\<exists>tools entries. NewServer \<lparr>v_store = True, v_enable = [''exec''], v_session = True, v_isolation = True, v_sandbox = False\<rparr>
       = Some (tools, entries) \<and> ''ctr_execute'' \<notin> set tools \<and> map entry_name entries = filter (\<lambda>t. t \<notin> {''ctr_search'', ''ctr_index''}) tools"
proof -
  let ?cfg = "\<lparr>v_store = True, v_enable = [''exec''], v_session = True, v_isolation = True, v_sandbox = False\<rparr>"
  obtain tools entries where "NewServer ?cfg = Some (tools, entries)" by (simp add: NewServer_def Let_def)
  with index_names_registered_tools [OF this] show ?thesis by auto
qed

end
