(* ===== verification/Transform.thy ===== *)
theory Transform
  imports Json_Value Mcp
begin

text \<open>
  Package \<open>transform\<close> (\<open>transform.go\<close>) and the tool \<open>ctr_transform\<close>: values and builtins offered to a script, the
  evaluation with its limits, the worker process, the semaphore of two workers.  The interpreter of scripts is a
  library; a script is the tree of calls it makes, with the answers it goes on with.
\<close>

section \<open>Values\<close>

text \<open>\<open>VFloat\<close> holds the literal; \<open>VOther\<close> stands for what else a script may make: its type, its text and its elements.\<close>

datatype sval =
    VNone | VBool bool | VInt int | VFloat bytes | VStr bytes | VList "sval list" | VDict "(sval \<times> sval) list"
  | VInput int bytes | VOther bytes bytes "sval list option"

definition splitLines :: "bytes \<Rightarrow> bytes list" where
  "splitLines s = (if s = [] then [] else split_char (CHR 0x0A) (trim_suffix [CHR 0x0A] s))"

definition linesList :: "bytes \<Rightarrow> sval" where
  "linesList s = VList (map VStr (splitLines s))"

text \<open>A Go map keeps the last value of a key; its keys are put in order.\<close>

definition sorted_entries :: "(bytes \<times> sval) list \<Rightarrow> (sval \<times> sval) list" where
  "sorted_entries kvs = map (\<lambda>k. (VStr k, the (map_of (rev kvs) k))) (sort (remdups (map fst kvs)))"

fun goToStarlark :: "json \<Rightarrow> sval" where
  "goToStarlark JNull = VNone"
| "goToStarlark (JBool b) = VBool b"
| "goToStarlark (JNum x) = (case parse_int64 x of Some i \<Rightarrow> VInt i | None \<Rightarrow> VFloat x)"
| "goToStarlark (JStr s) = VStr s"
| "goToStarlark (JArr vs) = VList (map goToStarlark vs)"
| "goToStarlark (JObj ms) = VDict (sorted_entries (map (\<lambda>(k, raw, v). (k, goToStarlark v)) ms))"

definition jsonToStarlark :: "bytes \<Rightarrow> go_error + sval" where
  "jsonToStarlark s = (case decode_first s of None \<Rightarrow> Inl (ErrOther ''json'') | Some v \<Rightarrow> Inr (goToStarlark v))"

definition buildArgs :: "(bytes \<times> bytes) list \<Rightarrow> sval" where
  "buildArgs m = VDict (sorted_entries (map (\<lambda>(k, v). (k, VStr v)) m))"

definition buildInputs :: "(int \<times> bytes) list \<Rightarrow> sval" where
  "buildInputs ins = VList (map (\<lambda>(i, s). VInput i s) ins)"

text \<open>The methods of an input.\<close>

definition input_attr :: "bytes \<Rightarrow> bytes \<Rightarrow> (go_error + sval) option" where
  "input_attr name s =
     (if name = ''text'' then Some (Inr (VStr s))
      else if name = ''lines'' then Some (Inr (linesList s))
      else if name = ''json'' then Some (jsonToStarlark s) else None)"

fun project_segs :: "sval \<Rightarrow> bytes list \<Rightarrow> sval" where
  "project_segs cur [] = cur"
| "project_segs cur (seg # segs) =
     (case cur of
        VDict es \<Rightarrow> (case map_of es (VStr seg) of None \<Rightarrow> VNone | Some v \<Rightarrow> project_segs v segs)
      | VList vs \<Rightarrow>
          (case parse_int64 seg of
             None \<Rightarrow> VNone
           | Some i \<Rightarrow> if i < 0 \<or> int (length vs) \<le> i then VNone else project_segs (vs ! nat i) segs)
      | _ \<Rightarrow> VNone)"

definition jsonProject :: "sval \<Rightarrow> bytes \<Rightarrow> sval" where
  "jsonProject v path = (if path = [] then v else project_segs v (split_char (CHR ''.'') path))"

definition toSlice :: "sval \<Rightarrow> go_error + sval list" where
  "toSlice v =
     (case v of
        VList vs \<Rightarrow> Inr vs
      | VDict es \<Rightarrow> Inr (map fst es)
      | VOther ty s (Some vs) \<Rightarrow> Inr vs
      | _ \<Rightarrow> Inl (ErrOther ''expected iterable''))"

section \<open>Builtins\<close>

text \<open>Of the library: the text of a value, its type, the order of two values where they have one, all matches of a pattern.\<close>

record star_lib =
  lib_show :: "sval \<Rightarrow> bytes"
  lib_type :: "sval \<Rightarrow> bytes"
  lib_less :: "sval \<Rightarrow> sval \<Rightarrow> bool option"
  lib_len :: "sval \<Rightarrow> int"
  lib_matches :: "bytes \<Rightarrow> bytes \<Rightarrow> bytes list option"

definition displayString :: "star_lib \<Rightarrow> sval \<Rightarrow> bytes" where
  "displayString lib v = (case v of VStr s \<Rightarrow> s | _ \<Rightarrow> lib_show lib v)"

definition value_less :: "star_lib \<Rightarrow> sval \<Rightarrow> sval \<Rightarrow> bool" where
  "value_less lib a b = (case lib_less lib a b of Some lt \<Rightarrow> lt | None \<Rightarrow> lib_show lib a < lib_show lib b)"

text \<open>The stable sort: a value goes behind all it is not less than.  This is the result of \<open>sort.SliceStable\<close> whenever
  the comparison is an order of values up to ties.\<close>

fun insert_value :: "star_lib \<Rightarrow> sval \<Rightarrow> sval list \<Rightarrow> sval list" where
  "insert_value lib v [] = [v]"
| "insert_value lib v (w # ws) = (if value_less lib w v then w # insert_value lib v ws else v # w # ws)"

definition sortSeq :: "star_lib \<Rightarrow> sval list \<Rightarrow> sval" where
  "sortSeq lib vs = VList (foldr (insert_value lib) vs [])"

fun dedupe :: "(sval \<Rightarrow> bytes) \<Rightarrow> bytes list \<Rightarrow> sval list \<Rightarrow> sval list" where
  "dedupe key seen [] = []"
| "dedupe key seen (v # vs) =
     (if key v \<in> set seen then dedupe key seen vs else v # dedupe key (key v # seen) vs)"

definition dedupeSeq :: "star_lib \<Rightarrow> sval list \<Rightarrow> sval" where
  "dedupeSeq lib vs = VList (dedupe (\<lambda>v. lib_type lib v @ '':'' @ lib_show lib v) [] vs)"

definition biRegexExtract :: "star_lib \<Rightarrow> bytes \<Rightarrow> bytes \<Rightarrow> go_error + sval" where
  "biRegexExtract lib pattern s =
     (case lib_matches lib pattern s of
        None \<Rightarrow> Inl (ErrOther ''regex_extract'') | Some ms \<Rightarrow> Inr (VList (map VStr ms)))"

definition biLineWindow :: "sval \<Rightarrow> int \<Rightarrow> int \<Rightarrow> go_error + sval" where
  "biLineWindow ls start0 end0 =
     (case toSlice ls of
        Inl e \<Rightarrow> Inl e
      | Inr vs \<Rightarrow>
          let start = max 1 start0; stop = min end0 (int (length vs)) in
          Inr (VList (if start > stop then [] else drop (nat (start - 1)) (take (nat stop) vs))))"

definition clamp_count :: "int \<Rightarrow> sval list \<Rightarrow> nat" where
  "clamp_count n vs = (if n < 0 then 0 else if int (length vs) < n then length vs else nat n)"

definition biHead :: "sval \<Rightarrow> int \<Rightarrow> go_error + sval" where
  "biHead v n = (case toSlice v of Inl e \<Rightarrow> Inl e | Inr vs \<Rightarrow> Inr (VList (take (clamp_count n vs) vs)))"

definition biTail :: "sval \<Rightarrow> int \<Rightarrow> go_error + sval" where
  "biTail v n = (case toSlice v of Inl e \<Rightarrow> Inl e | Inr vs \<Rightarrow> Inr (VList (drop (length vs - clamp_count n vs) vs)))"

definition biCount :: "star_lib \<Rightarrow> sval \<Rightarrow> go_error + sval" where
  "biCount lib v = (if lib_len lib v < 0 then Inl (ErrOther ''count'') else Inr (VInt (lib_len lib v)))"

definition biSort :: "star_lib \<Rightarrow> sval \<Rightarrow> go_error + sval" where
  "biSort lib v = (case toSlice v of Inl e \<Rightarrow> Inl e | Inr vs \<Rightarrow> Inr (sortSeq lib vs))"

definition biDedupe :: "star_lib \<Rightarrow> sval \<Rightarrow> go_error + sval" where
  "biDedupe lib v = (case toSlice v of Inl e \<Rightarrow> Inl e | Inr vs \<Rightarrow> Inr (dedupeSeq lib vs))"

text \<open>A call of a predeclared function with positional arguments of the right types; other arguments are an error.\<close>

definition bad_args :: "go_error + sval" where "bad_args = Inl (ErrOther ''arguments'')"

definition pure_builtin :: "star_lib \<Rightarrow> bytes \<Rightarrow> sval list \<Rightarrow> go_error + sval" where
  "pure_builtin lib name args =
     (if name = ''regex_extract'' then (case args of [VStr p, VStr s] \<Rightarrow> biRegexExtract lib p s | _ \<Rightarrow> bad_args)
      else if name = ''json_project'' then (case args of [v, VStr p] \<Rightarrow> Inr (jsonProject v p) | _ \<Rightarrow> bad_args)
      else if name = ''line_window'' then (case args of [v, VInt a, VInt b] \<Rightarrow> biLineWindow v a b | _ \<Rightarrow> bad_args)
      else if name = ''head'' then (case args of [v, VInt n] \<Rightarrow> biHead v n | _ \<Rightarrow> bad_args)
      else if name = ''tail'' then (case args of [v, VInt n] \<Rightarrow> biTail v n | _ \<Rightarrow> bad_args)
      else if name = ''count'' then (case args of [v] \<Rightarrow> biCount lib v | _ \<Rightarrow> bad_args)
      else if name = ''sort'' then (case args of [v] \<Rightarrow> biSort lib v | _ \<Rightarrow> bad_args)
      else if name = ''dedupe'' then (case args of [v] \<Rightarrow> biDedupe lib v | _ \<Rightarrow> bad_args)
      else bad_args)"

section \<open>Evaluation\<close>

text \<open>How a script ends by itself, with the steps it took: well, by an error of its own, at its step limit, in a panic.\<close>

datatype script_error = EvalErr "nat option" | ResolveErr "nat option" | SyntaxErr nat | OtherErr

datatype script_end = Fine | Failed script_error | StepLimit | Panic

text \<open>A script: its end, or a call and how it goes on with the answer; the number is the steps so far, the error
  what becomes of it when the call fails.\<close>

datatype script = Ends script_end int | Calls bytes "sval list" int script_error "sval \<Rightarrow> script"

record eval_state =
  o_text :: bytes
  o_hit :: bool

definition emit_call :: "star_lib \<Rightarrow> nat \<Rightarrow> sval list \<Rightarrow> eval_state \<Rightarrow> eval_state \<times> (go_error + sval)" where
  "emit_call lib limit args st =
     (case args of
        [v] \<Rightarrow>
          let s = displayString lib v in
          if length (o_text st) + length s > limit then (st\<lparr>o_hit := True\<rparr>, Inl TransformOutputLimit)
          else (st\<lparr>o_text := o_text st @ s\<rparr>, Inr VNone)
      | _ \<Rightarrow> (st, bad_args))"

primrec run_script :: "star_lib \<Rightarrow> nat \<Rightarrow> script \<Rightarrow> eval_state \<Rightarrow> eval_state \<times> script_end \<times> int" where
  "run_script lib limit (Ends e n) st = (st, e, n)"
| "run_script lib limit (Calls name args n err k) st =
     (case (if name = ''emit'' then emit_call lib limit args st else (st, pure_builtin lib name args)) of
        (st', Inl e) \<Rightarrow> (st', Failed err, n)
      | (st', Inr v) \<Rightarrow> run_script lib limit (k v) st')"

datatype err_kind = NoErr | KindBudget | KindOutputLimit | KindScript | KindNoIsolation

record transform_result =
  tr_output :: bytes
  tr_steps :: int
  tr_truncated :: bool
  tr_kind :: err_kind
  tr_summary :: bytes

definition at_line :: "bytes \<Rightarrow> nat \<Rightarrow> bytes" where
  "at_line s n = s @ '' at line '' @ itoa (int n)"

definition scriptErrSummary :: "script_error \<Rightarrow> bytes" where
  "scriptErrSummary e =
     (case e of
        EvalErr (Some n) \<Rightarrow> at_line ''script error (eval)'' n
      | EvalErr None \<Rightarrow> ''script error (eval)''
      | ResolveErr (Some n) \<Rightarrow> at_line ''script error (resolve)'' n
      | ResolveErr None \<Rightarrow> ''script error (resolve)''
      | SyntaxErr n \<Rightarrow> at_line ''script error (syntax)'' n
      | OtherErr \<Rightarrow> ''script error'')"

record transform_request =
  tq_script :: bytes
  tq_inputs :: "(int \<times> bytes) list"
  tq_args :: "(bytes \<times> bytes) list"
  tq_steps :: int
  tq_output :: int

definition max_steps :: "transform_request \<Rightarrow> int" where
  "max_steps req = (if tq_steps req \<le> 0 then 5000000 else tq_steps req)"

definition max_output :: "transform_request \<Rightarrow> nat" where
  "max_output req = (if tq_output req \<le> 0 then 32768 else nat (tq_output req))"

text \<open>\<open>interp\<close> is the library: script, step limit, inputs and arguments give the tree of calls.\<close>

definition Eval ::
  "star_lib \<Rightarrow> (bytes \<Rightarrow> int \<Rightarrow> sval \<Rightarrow> sval \<Rightarrow> script) \<Rightarrow> transform_request \<Rightarrow> transform_result" where
  "Eval lib interp req =
     (case run_script lib (max_output req)
             (interp (tq_script req) (max_steps req) (buildInputs (tq_inputs req)) (buildArgs (tq_args req)))
             \<lparr>o_text = [], o_hit = False\<rparr> of
        (st, e, n) \<Rightarrow>
          (if e = Panic
           then \<lparr>tr_output = [], tr_steps = 0, tr_truncated = False, tr_kind = KindScript, tr_summary = ''script error (panic)''\<rparr>
           else let res = \<lparr>tr_output = o_text st, tr_steps = n, tr_truncated = False, tr_kind = NoErr, tr_summary = []\<rparr> in
             if e = Fine then res
             else if e = StepLimit then res\<lparr>tr_kind := KindBudget, tr_summary := ''transform: step budget exceeded''\<rparr>
             else if o_hit st
               then res\<lparr>tr_kind := KindOutputLimit, tr_truncated := True, tr_summary := ''transform: output limit exceeded''\<rparr>
             else res\<lparr>tr_kind := KindScript, tr_summary := (case e of Failed err \<Rightarrow> scriptErrSummary err | _ \<Rightarrow> [])\<rparr>))"

section \<open>The worker\<close>

text \<open>What the worker writes: a result, unless it could not read its request.\<close>

definition RunWorker ::
  "bool \<Rightarrow> star_lib \<Rightarrow> (bytes \<Rightarrow> int \<Rightarrow> sval \<Rightarrow> sval \<Rightarrow> script) \<Rightarrow> transform_request option \<Rightarrow> transform_result option" where
  "RunWorker limit_applied lib interp req =
     (if \<not> limit_applied
      then Some \<lparr>tr_output = [], tr_steps = 0, tr_truncated = False, tr_kind = KindNoIsolation, tr_summary = []\<rparr>
      else map_option (Eval lib interp) req)"

text \<open>The end of the worker process: it could not be limited, died, or left output, which may not be a result.\<close>

datatype worker_end = NotLimited | Died | Wrote "transform_result option"

definition killed_result :: "bytes \<Rightarrow> transform_result" where
  "killed_result reason =
     \<lparr>tr_output = [], tr_steps = 0, tr_truncated = False, tr_kind = KindScript, tr_summary = ''worker killed ('' @ reason @ '')''\<rparr>"

text \<open>\<open>queued\<close> is the error of the context while the call waits for a place, \<open>ended\<close> the one when the worker is done.\<close>

definition Spawn ::
  "go_error option \<Rightarrow> go_error option \<Rightarrow> (transform_request \<Rightarrow> worker_end) \<Rightarrow> transform_request \<Rightarrow> go_error + transform_result" where
  "Spawn queued ended child req =
     (case queued of
        Some e \<Rightarrow> Inl e
      | None \<Rightarrow>
          (case child req of
             NotLimited \<Rightarrow> Inl TransformNoIsolation
           | Died \<Rightarrow> Inr (killed_result (if ended = Some CtxCanceled then ''cancelled''
                           else if ended = Some CtxDeadline then ''time limit'' else ''memory or crash''))
           | Wrote None \<Rightarrow> Inr (killed_result ''bad output'')
           | Wrote (Some res) \<Rightarrow> if tr_kind res = KindNoIsolation then Inl TransformNoIsolation else Inr res))"

definition ProbeIsolation :: "go_error option \<Rightarrow> go_error option \<Rightarrow> (transform_request \<Rightarrow> worker_end) \<Rightarrow> go_error option" where
  "ProbeIsolation queued ended child =
     (case Spawn queued ended child \<lparr>tq_script = [], tq_inputs = [], tq_args = [], tq_steps = 0, tq_output = 0\<rparr> of
        Inl e \<Rightarrow> Some e | Inr _ \<Rightarrow> None)"

section \<open>The tool\<close>

record transform_input =
  ti_script :: bytes
  ti_inputs :: "int list"
  ti_args :: "(bytes \<times> bytes) list"
  ti_max :: int

definition maxTransformScriptBytes :: nat where "maxTransformScriptBytes = 64 * 1024"
definition maxTransformInputs :: nat where "maxTransformInputs = 8"
definition maxTransformInputBytes :: int where "maxTransformInputBytes = 8 * 1024 * 1024"
definition maxTransformTotalBytes :: int where "maxTransformTotalBytes = 16 * 1024 * 1024"
definition maxTransformOutputBytes :: int where "maxTransformOutputBytes = 262144"

fun load_inputs :: "store \<Rightarrow> int list \<Rightarrow> int \<Rightarrow> tool_error + (int \<times> bytes) list" where
  "load_inputs st [] acc = Inr []"
| "load_inputs st (i # is) acc =
     (case ArtifactText st i maxTransformInputBytes of
        Inl e \<Rightarrow> Inl (toToolError e)
      | Inr s \<Rightarrow>
          if maxTransformTotalBytes < acc + int (length s) then Inl (toolErr InvalidArgument)
          else (case load_inputs st is (acc + int (length s)) of
              Inl e \<Rightarrow> Inl e | Inr rest \<Rightarrow> Inr ((i, s) # rest)))"

definition transformResultErr :: "transform_result \<Rightarrow> tool_error option" where
  "transformResultErr res =
     (case tr_kind res of
        KindBudget \<Rightarrow> Some (toToolError TransformBudget)
      | KindOutputLimit \<Rightarrow> Some (toToolError TransformOutputLimit)
      | KindScript \<Rightarrow> Some (ToolErr InvalidArgument (tr_summary res))
      | _ \<Rightarrow> None)"

record transform_output =
  to_result :: bytes
  to_steps :: int
  to_truncated :: bool

definition ctr_transform ::
  "tool_io \<Rightarrow> go_error option \<Rightarrow> go_error option \<Rightarrow> (transform_request \<Rightarrow> worker_end) \<Rightarrow> (transform_output \<Rightarrow> int) \<Rightarrow>
     transform_input \<Rightarrow> mcp_world \<Rightarrow> mcp_world \<times> (tool_error + transform_output)" where
  "ctr_transform io queued ended child len inp w =
     (if maxTransformScriptBytes < length (ti_script inp) then (w, Inl (toolErr InvalidArgument))
      else if maxTransformInputs < length (ti_inputs inp) then (w, Inl (toolErr InvalidArgument))
      else if maxTransformOutputBytes < ti_max inp then (w, Inl (toolErr InvalidArgument))
      else (case load_inputs (snd (c_store w)) (ti_inputs inp) 0 of
          Inl e \<Rightarrow> (w, Inl e)
        | Inr inputs \<Rightarrow>
            (case Spawn queued ended child
                    \<lparr>tq_script = ti_script inp, tq_inputs = inputs, tq_args = ti_args inp, tq_steps = 0, tq_output = ti_max inp\<rparr> of
               Inl e \<Rightarrow> (w, Inl (toToolError e))
             | Inr res \<Rightarrow>
                 (case transformResultErr res of
                    Some e \<Rightarrow> (w, Inl e)
                  | None \<Rightarrow>
                      let out = \<lparr>to_result = tr_output res, to_steps = tr_steps res, to_truncated = tr_truncated res\<rparr>
                      in (LedgerAppend (t_cols io) (t_ok io) ''ctr_transform'' 0 (len out) w, Inr out)))))"

section \<open>Two places\<close>

text \<open>\<open>workerSem\<close>: calls wait for one of two places, give up when their context ends, and free the place
  when the call is over, whatever came of it.\<close>

record sem =
  sm_waiting :: "nat list"
  sm_holding :: "nat list"

inductive sem_step :: "sem \<Rightarrow> sem \<Rightarrow> bool" where
  sem_arrive: "i \<notin> set (sm_waiting s) \<Longrightarrow> i \<notin> set (sm_holding s) \<Longrightarrow> sem_step s (s\<lparr>sm_waiting := sm_waiting s @ [i]\<rparr>)"
| sem_acquire: "i \<in> set (sm_waiting s) \<Longrightarrow> length (sm_holding s) < 2 \<Longrightarrow>
    sem_step s (s\<lparr>sm_waiting := remove1 i (sm_waiting s), sm_holding := sm_holding s @ [i]\<rparr>)"
| sem_give_up: "i \<in> set (sm_waiting s) \<Longrightarrow> sem_step s (s\<lparr>sm_waiting := remove1 i (sm_waiting s)\<rparr>)"
| sem_done: "i \<in> set (sm_holding s) \<Longrightarrow> sem_step s (s\<lparr>sm_holding := remove1 i (sm_holding s)\<rparr>)"

end
