(* ===== verification/Transform_Facts.thy ===== *)
theory Transform_Facts
  imports Transform Mcp_Facts
begin

text \<open>What a transformation promises: the output is what the script emits, up to the limit and never half an emit, the
  tool works on stored texts within its limits, and at most two workers run.\<close>

section \<open>Evaluation\<close>

text \<open>The reference: all a script emits when nothing limits it, and how it ends then.\<close>

primrec emits :: "star_lib \<Rightarrow> script \<Rightarrow> bytes list \<times> script_end" where
  "emits lib (Ends e n) = ([], e)"
| "emits lib (Calls name args n err k) =
     (if name = ''emit''
      then (case args of
          [v] \<Rightarrow> (displayString lib v # fst (emits lib (k VNone)), snd (emits lib (k VNone)))
        | _ \<Rightarrow> ([], Failed err))
      else (case pure_builtin lib name args of Inl e \<Rightarrow> ([], Failed err) | Inr v \<Rightarrow> emits lib (k v)))"

definition cut_at :: "nat \<Rightarrow> bytes list \<Rightarrow> bytes \<Rightarrow> bool" where
  "cut_at limit es out \<longleftrightarrow> (\<exists>k < length es. out = concat (take k es) \<and> length out \<le> limit \<and> limit < length (concat (take (Suc k) es)))"

lemma run_script_emits:
  assumes "run_script lib limit sc st = (st', e, n)" and "length (o_text st) \<le> limit" and "\<not> o_hit st"
  shows "(length (o_text st) + length (concat (fst (emits lib sc))) \<le> limit \<longrightarrow>
        o_text st' = o_text st @ concat (fst (emits lib sc)) \<and> \<not> o_hit st' \<and> e = snd (emits lib sc))
    \<and> (limit < length (o_text st) + length (concat (fst (emits lib sc))) \<longrightarrow> o_hit st' \<and> (\<exists>err. e = Failed err)
        \<and> (\<exists>k < length (fst (emits lib sc)). o_text st' = o_text st @ concat (take k (fst (emits lib sc)))
             \<and> length (o_text st') \<le> limit \<and> limit < length (o_text st) + length (concat (take (Suc k) (fst (emits lib sc))))))"
  using assms
proof (induction sc arbitrary: st)
  case (Ends e' n')
  then show ?case by simp
next
  case (Calls name args n' err k)
  show ?case
  proof (cases "name = ''emit''")
    case False
    show ?thesis
    proof (cases "pure_builtin lib name args")
      case (Inl x)
      with Calls.prems False show ?thesis by simp
    next
      case (Inr v)
      with Calls.prems(1) False have "run_script lib limit (k v) st = (st', e, n)" by simp
      from Calls.IH [OF rangeI this Calls.prems(2,3)] Inr False show ?thesis by simp
    qed
  next
    case emit: True
    show ?thesis
    proof (cases "\<exists>v. args = [v]")
      case False
      then have "emit_call lib limit args st = (st, bad_args)"
        by (auto simp: emit_call_def split: list.split)
      moreover have "emits lib (Calls name args n' err k) = ([], Failed err)"
        using False emit by (auto split: list.split)
      ultimately show ?thesis using Calls.prems emit by (simp add: bad_args_def)
    next
      case True
      then obtain v where v: "args = [v]" by blast
      let ?s = "displayString lib v"
      have em: "emits lib (Calls name args n' err k) = (?s # fst (emits lib (k VNone)), snd (emits lib (k VNone)))"
        using emit v by simp
      show ?thesis
      proof (cases "length (o_text st) + length ?s > limit")
        case True
        then have "st' = st\<lparr>o_hit := True\<rparr> \<and> e = Failed err"
          using Calls.prems(1) emit v by (simp add: emit_call_def Let_def)
        with True Calls.prems(2) show ?thesis unfolding em by (intro conjI impI exI [of _ 0]) auto
      next
        case False
        let ?st = "st\<lparr>o_text := o_text st @ ?s\<rparr>"
        have run: "run_script lib limit (k VNone) ?st = (st', e, n)"
          using Calls.prems(1) emit v False by (simp add: emit_call_def Let_def)
        have small: "length (o_text ?st) \<le> limit" "\<not> o_hit ?st" using False Calls.prems(3) by simp_all
        note IH = Calls.IH [OF rangeI run small]
        show ?thesis
          unfolding em
        proof (intro conjI impI)
          assume "length (o_text st) + length (concat (fst (?s # fst (emits lib (k VNone)), snd (emits lib (k VNone))))) \<le> limit"
          with IH show "o_text st' = o_text st @ concat (fst (?s # fst (emits lib (k VNone)), snd (emits lib (k VNone))))"
            and "\<not> o_hit st'" and "e = snd (?s # fst (emits lib (k VNone)), snd (emits lib (k VNone)))" by simp_all
        next
          assume big: "limit < length (o_text st) + length (concat (fst (?s # fst (emits lib (k VNone)), snd (emits lib (k VNone)))))"
          with IH show "o_hit st'" and "\<exists>err. e = Failed err" by simp_all
          from big IH obtain j where "j < length (fst (emits lib (k VNone)))"
            "o_text st' = o_text ?st @ concat (take j (fst (emits lib (k VNone))))" "length (o_text st') \<le> limit"
            "limit < length (o_text ?st) + length (concat (take (Suc j) (fst (emits lib (k VNone)))))" by auto
          then show "\<exists>j < length (fst (?s # fst (emits lib (k VNone)), snd (emits lib (k VNone)))).
              o_text st' = o_text st @ concat (take j (fst (?s # fst (emits lib (k VNone)), snd (emits lib (k VNone)))))
              \<and> length (o_text st') \<le> limit
              \<and> limit < length (o_text st) + length (concat (take (Suc j) (fst (?s # fst (emits lib (k VNone)), snd (emits lib (k VNone))))))"
            by (intro exI [of _ "Suc j"]) simp
        qed
      qed
    qed
  qed
qed

definition kind_of_end :: "script_end \<Rightarrow> err_kind" where
  "kind_of_end e = (case e of Fine \<Rightarrow> NoErr | StepLimit \<Rightarrow> KindBudget | _ \<Rightarrow> KindScript)"

definition script_of :: "(bytes \<Rightarrow> int \<Rightarrow> sval \<Rightarrow> sval \<Rightarrow> script) \<Rightarrow> transform_request \<Rightarrow> script" where
  "script_of interp req = interp (tq_script req) (max_steps req) (buildInputs (tq_inputs req)) (buildArgs (tq_args req))"

lemma Eval_emits:
  "(length (concat (fst (emits lib (script_of interp req)))) \<le> max_output req \<longrightarrow>
      tr_output (Eval lib interp req)
        = (if snd (emits lib (script_of interp req)) = Panic then [] else concat (fst (emits lib (script_of interp req))))
      \<and> tr_kind (Eval lib interp req) = kind_of_end (snd (emits lib (script_of interp req)))
      \<and> \<not> tr_truncated (Eval lib interp req))
   \<and> (max_output req < length (concat (fst (emits lib (script_of interp req)))) \<longrightarrow>
      cut_at (max_output req) (fst (emits lib (script_of interp req))) (tr_output (Eval lib interp req))
      \<and> tr_kind (Eval lib interp req) = KindOutputLimit \<and> tr_truncated (Eval lib interp req))"
proof -
  let ?es = "emits lib (script_of interp req)" and ?st0 = "\<lparr>o_text = [], o_hit = False\<rparr> :: eval_state"
  obtain st e n where run: "run_script lib (max_output req) (script_of interp req) ?st0 = (st, e, n)" by (metis surj_pair)
  have eval: "Eval lib interp req = (if e = Panic
      then \<lparr>tr_output = [], tr_steps = 0, tr_truncated = False, tr_kind = KindScript, tr_summary = ''script error (panic)''\<rparr>
      else let res = \<lparr>tr_output = o_text st, tr_steps = n, tr_truncated = False, tr_kind = NoErr, tr_summary = []\<rparr> in
        if e = Fine then res
        else if e = StepLimit then res\<lparr>tr_kind := KindBudget, tr_summary := ''transform: step budget exceeded''\<rparr>
        else if o_hit st
          then res\<lparr>tr_kind := KindOutputLimit, tr_truncated := True, tr_summary := ''transform: output limit exceeded''\<rparr>
        else res\<lparr>tr_kind := KindScript, tr_summary := (case e of Failed err \<Rightarrow> scriptErrSummary err | _ \<Rightarrow> [])\<rparr>)"
    using run unfolding Eval_def script_of_def by simp
  note r = run_script_emits [OF run]
  show ?thesis
  proof (intro conjI impI)
    assume small: "length (concat (fst ?es)) \<le> max_output req"
    with r have "o_text st = concat (fst ?es)" "\<not> o_hit st" "e = snd ?es" by simp_all
    then show "tr_output (Eval lib interp req) = (if snd ?es = Panic then [] else concat (fst ?es))"
      "tr_kind (Eval lib interp req) = kind_of_end (snd ?es)" "\<not> tr_truncated (Eval lib interp req)"
      unfolding eval by (cases "snd ?es"; simp add: kind_of_end_def Let_def)+
  next
    assume big: "max_output req < length (concat (fst ?es))"
    with r obtain err k where o: "o_hit st" "e = Failed err" "k < length (fst ?es)" "o_text st = concat (take k (fst ?es))"
        "length (o_text st) \<le> max_output req" "max_output req < length (concat (take (Suc k) (fst ?es)))" by auto
    then have "tr_output (Eval lib interp req) = o_text st" unfolding eval by (simp add: Let_def)
    with o show "cut_at (max_output req) (fst ?es) (tr_output (Eval lib interp req))" unfolding cut_at_def by auto
    show "tr_kind (Eval lib interp req) = KindOutputLimit" "tr_truncated (Eval lib interp req)"
      unfolding eval using o by (simp_all add: Let_def)
  qed
qed

text \<open>Property C39.  Evaluation with its output limit refines the unlimited script: when all it emits fits, the output is all of it
  (nothing after a panic) and the kind of error is the way it ends; otherwise the output is the longest sequence
  of whole emits that fits, marked as truncated by the limit.\<close>

theorem eval_refines_emits:
  "(length (concat (fst (emits lib (script_of interp req)))) \<le> max_output req \<longrightarrow>
      tr_output (Eval lib interp req)
        = (if snd (emits lib (script_of interp req)) = Panic then [] else concat (fst (emits lib (script_of interp req))))
      \<and> tr_kind (Eval lib interp req) = kind_of_end (snd (emits lib (script_of interp req)))
      \<and> \<not> tr_truncated (Eval lib interp req))
   \<and> (max_output req < length (concat (fst (emits lib (script_of interp req)))) \<longrightarrow>
      cut_at (max_output req) (fst (emits lib (script_of interp req))) (tr_output (Eval lib interp req))
      \<and> tr_kind (Eval lib interp req) = KindOutputLimit \<and> tr_truncated (Eval lib interp req))"
  by (rule Eval_emits)

section \<open>The tool\<close>

lemma load_inputs_Inr:
  "load_inputs st is acc = Inr ins \<Longrightarrow>
     list_all2 (\<lambda>i p. fst p = i \<and> ArtifactText st i maxTransformInputBytes = Inr (snd p)) is ins
     \<and> (is \<noteq> [] \<longrightarrow> acc + int (length (concat (map snd ins))) \<le> maxTransformTotalBytes)"
proof (induction "is" arbitrary: acc ins)
  case (Cons i "is")
  from Cons.prems obtain s rest where s: "ArtifactText st i maxTransformInputBytes = Inr s"
      "\<not> maxTransformTotalBytes < acc + int (length s)" "load_inputs st is (acc + int (length s)) = Inr rest" "ins = (i, s) # rest"
    by (auto split: sum.splits if_splits)
  with Cons.IH [OF s(3)] show ?case by (cases "is = []") auto
qed simp

text \<open>The worker is the program itself: a result it writes is one of \<open>RunWorker\<close>.\<close>

definition own_worker :: "star_lib \<Rightarrow> (bytes \<Rightarrow> int \<Rightarrow> sval \<Rightarrow> sval \<Rightarrow> script) \<Rightarrow> (transform_request \<Rightarrow> worker_end) \<Rightarrow> bool" where
  "own_worker lib interp child \<longleftrightarrow> (\<forall>req r. child req = Wrote (Some r) \<longrightarrow> (\<exists>limited. RunWorker limited lib interp (Some req) = Some r))"

lemma Spawn_ok:
  assumes "Spawn queued ended child req = Inr res" and "transformResultErr res = None" and "own_worker lib interp child"
  shows "res = Eval lib interp req \<and> tr_kind res = NoErr"
proof -
  obtain r where r: "child req = Wrote (Some r)" "r = res" "tr_kind r \<noteq> KindNoIsolation"
    using assms(1,2)
    by (auto simp: Spawn_def transformResultErr_def killed_result_def split: option.splits worker_end.splits if_splits)
  with assms(3) obtain limited where "RunWorker limited lib interp (Some req) = Some r" unfolding own_worker_def by blast
  with r assms(2) show ?thesis
    by (cases "tr_kind res") (auto simp: RunWorker_def transformResultErr_def split: if_splits)
qed


section \<open>Two places\<close>

definition sem_ok :: "sem \<Rightarrow> bool" where
  "sem_ok s \<longleftrightarrow> length (sm_holding s) \<le> 2 \<and> distinct (sm_waiting s @ sm_holding s)"

lemma sem_step_ok: "sem_step s s' \<Longrightarrow> sem_ok s \<Longrightarrow> sem_ok s'"
  by (induction rule: sem_step.induct) (auto simp: sem_ok_def length_remove1 distinct_remove1 dest: notin_set_remove1 in_set_remove1 [THEN iffD1])

text \<open>However calls arrive, wait, give up and end, never more than two workers run, no call has two
  places, and a waiting call can go on as soon as a place is free.\<close>

lemma two_workers_at_most:
  assumes "sem_step\<^sup>*\<^sup>* \<lparr>sm_waiting = [], sm_holding = []\<rparr> s"
  shows "length (sm_holding s) \<le> 2 \<and> distinct (sm_waiting s @ sm_holding s)
    \<and> (\<forall>i \<in> set (sm_waiting s). length (sm_holding s) < 2 \<longrightarrow> (\<exists>s'. sem_step s s' \<and> i \<in> set (sm_holding s')))"
proof -
  have "sem_ok s" using assms
  proof (induction rule: rtranclp_induct)
    case base
    show ?case by (simp add: sem_ok_def)
  next
    case (step y z)
    then show ?case using sem_step_ok by blast
  qed
  moreover have "\<exists>s'. sem_step s s' \<and> i \<in> set (sm_holding s')" if "i \<in> set (sm_waiting s)" "length (sm_holding s) < 2" for i
    using sem_acquire [OF that] by (intro exI [of _ "s\<lparr>sm_waiting := remove1 i (sm_waiting s), sm_holding := sm_holding s @ [i]\<rparr>"]) simp
  ultimately show ?thesis by (simp add: sem_ok_def)
qed

lemma two_workers_at_most_witness:
  "length (sm_holding \<lparr>sm_waiting = [2], sm_holding = [1::nat]\<rparr>) \<le> 2"
proof -
  let ?s0 = "\<lparr>sm_waiting = [], sm_holding = []\<rparr>"
  have "sem_step ?s0 (?s0\<lparr>sm_waiting := [1]\<rparr>)" using sem_arrive [of 1 ?s0] by simp
  also have "sem_step\<^sup>*\<^sup>* (?s0\<lparr>sm_waiting := [1]\<rparr>) \<lparr>sm_waiting = [], sm_holding = [1]\<rparr>"
    using sem_acquire [of 1 "?s0\<lparr>sm_waiting := [1]\<rparr>"] by simp
  finally have "sem_step\<^sup>*\<^sup>* ?s0 \<lparr>sm_waiting = [], sm_holding = [1]\<rparr>" by simp
  moreover have "sem_step \<lparr>sm_waiting = [], sm_holding = [1]\<rparr> \<lparr>sm_waiting = [2], sm_holding = [1]\<rparr>"
    using sem_arrive [of 2 "\<lparr>sm_waiting = [], sm_holding = [1]\<rparr>"] by simp
  ultimately have "sem_step\<^sup>*\<^sup>* ?s0 \<lparr>sm_waiting = [2], sm_holding = [1]\<rparr>" by (rule rtranclp.rtrancl_into_rtrancl)
  from two_workers_at_most [OF this] show ?thesis by simp
qed

section \<open>Lines\<close>

lemma head_tail: "n \<le> length vs \<Longrightarrow>
    (case (biHead (VList vs) (int n), biTail (VList vs) (int (length vs - n))) of
       (Inr (VList a), Inr (VList b)) \<Rightarrow> a @ b = vs | _ \<Rightarrow> False)"
  by (simp add: biHead_def biTail_def toSlice_def clamp_count_def nat_diff_distrib)

lemma project_member:
  assumes "split_char (CHR ''.'') k = [k]" and "k \<noteq> []" and "k \<in> fst ` set ms"
  shows "jsonProject (goToStarlark (JObj ms)) k = the (map_of (rev (map (\<lambda>(k, raw, v). (k, goToStarlark v)) ms)) k)"
proof -
  let ?kvs = "map (\<lambda>(k, raw, v). (k, goToStarlark v)) ms"
  have m: "map_of (map (\<lambda>k. (VStr k, f k)) ks) (VStr k) = (if k \<in> set ks then Some (f k) else None)" for f :: "bytes \<Rightarrow> sval" and ks
    by (induction ks) auto
  have "k \<in> set (sort (remdups (map fst ?kvs)))" using assms(3) by force
  then have "map_of (sorted_entries ?kvs) (VStr k) = Some (the (map_of (rev ?kvs) k))"
    unfolding sorted_entries_def m by (simp only: if_True)
  then show ?thesis using assms(1,2) by (simp add: jsonProject_def)
qed

section \<open>Witness\<close>

definition demo_lib :: star_lib where
  "demo_lib = \<lparr>lib_show = (\<lambda>v. []), lib_type = (\<lambda>v. []), lib_less = (\<lambda>_ _. None), lib_len = (\<lambda>_. 0), lib_matches = (\<lambda>_ _. None)\<rparr>"

definition demo_interp :: "bytes \<Rightarrow> int \<Rightarrow> sval \<Rightarrow> sval \<Rightarrow> script" where
  "demo_interp s n ins args = Calls ''emit'' [VStr s] 1 OtherErr (\<lambda>v. Ends Fine 2)"

definition demo_request :: "bytes \<Rightarrow> transform_request" where
  "demo_request s = \<lparr>tq_script = s, tq_inputs = [], tq_args = [], tq_steps = 0, tq_output = 3\<rparr>"

definition demo_worker :: "transform_request \<Rightarrow> worker_end" where
  "demo_worker req = Wrote (RunWorker True demo_lib demo_interp (Some req))"

text \<open>One emit of two bytes fits a limit of three, one of four bytes does not.\<close>

theorem eval_refines_emits_witness:
  "tr_output (Eval demo_lib demo_interp (demo_request ''ab'')) = ''ab''
     \<and> tr_kind (Eval demo_lib demo_interp (demo_request ''ab'')) = NoErr
     \<and> \<not> tr_truncated (Eval demo_lib demo_interp (demo_request ''ab''))
   \<and> cut_at 3 [''abcd''] (tr_output (Eval demo_lib demo_interp (demo_request ''abcd'')))
     \<and> tr_kind (Eval demo_lib demo_interp (demo_request ''abcd'')) = KindOutputLimit
     \<and> tr_truncated (Eval demo_lib demo_interp (demo_request ''abcd''))"
  using eval_refines_emits [of demo_lib demo_interp "demo_request ''ab''"]
    eval_refines_emits [of demo_lib demo_interp "demo_request ''abcd''"]
  by (simp add: demo_request_def demo_interp_def script_of_def displayString_def max_output_def kind_of_end_def)


end
