(* ===== verification/Spec2Isabelle.thy ===== *)
theory Spec2Isabelle
  imports Store_Lifecycle Search Netfetch Ingest Session_Query Session_Recovery Hook_Safety Hook_Effects Mcp_Session_Facts Mcp_Exec Transform_Facts
begin

text \<open>
  Context Router.
\<close>

end
